(* ===== verification/Prelude.thy ===== *)
theory Prelude
  imports Complex_Main "HOL-Library.AList" "HOL-Library.Sublist" "HOL-Library.Product_Lexorder" "HOL-Library.Char_ord"
    "HOL-Library.List_Lexorder"
    "HOL-Library.Multiset"
begin

text \<open>
  What the components share: Python values as they arrive in JSON packets and YAML files,
  ordered dictionaries, the string operations of the standard library that the sources use,
  and the generic lemmas on lists and association lists the component proofs rest on.

  A character stands for a code point U+0000 to U+00FF; \<open>lower\<close> and \<open>strip\<close> follow Python's
  tables on that range. A Python float is an exact rational (no rounding, no infinities or
  NaN). A dictionary is an association list in insertion order, updated with
  \<open>AList.update\<close>, which replaces in place or appends at the end as a Python dict does.
\<close>

named_theorems py_simps \<open>rewriting of Python values and dictionaries\<close>

subsection \<open>Values\<close>

datatype pyval =
    PNone
  | PBool bool
  | PInt int
  | PFloat rat
  | PStr string
  | PList "pyval list"
  | PDict "(string \<times> pyval) list"

type_synonym dict = "(string \<times> pyval) list"

text \<open>Python truth: what \<open>if x\<close>, \<open>x or y\<close> and \<open>bool(x)\<close> test.\<close>

fun truthy :: "pyval \<Rightarrow> bool" where
  "truthy PNone = False"
| "truthy (PBool b) = b"
| "truthy (PInt n) = (n \<noteq> 0)"
| "truthy (PFloat r) = (r \<noteq> 0)"
| "truthy (PStr s) = (s \<noteq> [])"
| "truthy (PList xs) = (xs \<noteq> [])"
| "truthy (PDict d) = (d \<noteq> [])"

definition py_or :: "pyval \<Rightarrow> pyval \<Rightarrow> pyval" where
  "py_or x y = (if truthy x then x else y)"

text \<open>\<open>d.get(k)\<close> and \<open>d.get(k, default)\<close>.\<close>

definition dget :: "dict \<Rightarrow> string \<Rightarrow> pyval" where
  "dget d k = (case map_of d k of None \<Rightarrow> PNone | Some v \<Rightarrow> v)"

definition dget_or :: "dict \<Rightarrow> string \<Rightarrow> pyval \<Rightarrow> pyval" where
  "dget_or d k x = (case map_of d k of None \<Rightarrow> x | Some v \<Rightarrow> v)"

definition has_key :: "dict \<Rightarrow> string \<Rightarrow> bool" where
  "has_key d k = (map_of d k \<noteq> None)"

abbreviation dict_set :: "('k \<times> 'v) list \<Rightarrow> 'k \<Rightarrow> 'v \<Rightarrow> ('k \<times> 'v) list" where
  "dict_set d k v \<equiv> AList.update k v d"

abbreviation dict_del :: "('k \<times> 'v) list \<Rightarrow> 'k \<Rightarrow> ('k \<times> 'v) list" where
  "dict_del d k \<equiv> AList.delete k d"

definition dict_keys :: "('k \<times> 'v) list \<Rightarrow> 'k list" where
  "dict_keys d = map fst d"

fun as_dict :: "pyval \<Rightarrow> dict option" where
  "as_dict (PDict d) = Some d"
| "as_dict _ = None"

subsection \<open>Strings\<close>

definition code :: "char \<Rightarrow> nat" where
  "code c = of_char c"

definition is_space :: "char \<Rightarrow> bool" where
  "is_space c = (let n = code c in (9 \<le> n \<and> n \<le> 13) \<or> (28 \<le> n \<and> n \<le> 32) \<or> n = 133 \<or> n = 160)"

definition lstrip :: "string \<Rightarrow> string" where
  "lstrip s = dropWhile is_space s"

definition rstrip :: "string \<Rightarrow> string" where
  "rstrip s = rev (dropWhile is_space (rev s))"

definition strip :: "string \<Rightarrow> string" where
  "strip s = rstrip (lstrip s)"

definition lower_char :: "char \<Rightarrow> char" where
  "lower_char c = (let n = code c in
     if (65 \<le> n \<and> n \<le> 90) \<or> (192 \<le> n \<and> n \<le> 222 \<and> n \<noteq> 215) then char_of (n + 32) else c)"

definition lower :: "string \<Rightarrow> string" where
  "lower s = map lower_char s"

definition is_digit :: "char \<Rightarrow> bool" where
  "is_digit c = (48 \<le> code c \<and> code c \<le> 57)"

definition starts_with :: "string \<Rightarrow> string \<Rightarrow> bool" where
  "starts_with p s = prefix p s"

definition ends_with :: "string \<Rightarrow> string \<Rightarrow> bool" where
  "ends_with p s = suffix p s"

text \<open>\<open>needle in text\<close>, \<open>text.count(needle)\<close> and \<open>text.replace(needle, new)\<close> for a non-empty
  needle: leftmost, non-overlapping occurrences.\<close>

definition contains :: "'a list \<Rightarrow> 'a list \<Rightarrow> bool" where
  "contains needle text = sublist needle text"

function count_occ :: "'a list \<Rightarrow> 'a list \<Rightarrow> nat" where
  "count_occ needle [] = 0"
| "count_occ needle (c # cs) =
     (if needle \<noteq> [] \<and> prefix needle (c # cs)
      then Suc (count_occ needle (drop (length needle) (c # cs)))
      else count_occ needle cs)"
  by pat_completeness auto
termination
  by (relation "measure (\<lambda>(n, t). length t)") (auto simp: length_greater_0_conv)

function replace_occ :: "'a list \<Rightarrow> 'a list \<Rightarrow> 'a list \<Rightarrow> 'a list" where
  "replace_occ needle new [] = []"
| "replace_occ needle new (c # cs) =
     (if needle \<noteq> [] \<and> prefix needle (c # cs)
      then new @ replace_occ needle new (drop (length needle) (c # cs))
      else c # replace_occ needle new cs)"
  by pat_completeness auto
termination
  by (relation "measure (\<lambda>(n, m, t). length t)") (auto simp: length_greater_0_conv)

text \<open>\<open>text.split(sep)\<close> for a one-character separator: never the empty list.\<close>

fun split_on :: "char \<Rightarrow> string \<Rightarrow> string list" where
  "split_on c [] = [[]]"
| "split_on c (x # xs) =
     (if x = c then [] # split_on c xs
      else (case split_on c xs of [] \<Rightarrow> [[x]] | w # ws \<Rightarrow> (x # w) # ws))"

text \<open>\<open>sep.join(parts)\<close>.\<close>

fun join :: "string \<Rightarrow> string list \<Rightarrow> string" where
  "join sep [] = []"
| "join sep [x] = x"
| "join sep (x # y # ys) = x @ sep @ join sep (y # ys)"

text \<open>\<open>text.split()\<close>: maximal runs of non-blank characters.\<close>

function words :: "string \<Rightarrow> string list" where
  "words s = (case dropWhile is_space s of [] \<Rightarrow> []
     | c # cs \<Rightarrow> takeWhile (\<lambda>x. \<not> is_space x) (c # cs)
                 # words (dropWhile (\<lambda>x. \<not> is_space x) (c # cs)))"
  by pat_completeness auto
termination
proof (relation "measure length", goal_cases)
  case 1
  show ?case by simp
next
  case (2 s c cs)
  have ns: "\<not> is_space c"
    using 2[symmetric] by (metis hd_dropWhile list.distinct(1) list.sel(1))
  have "length (c # cs) \<le> length s"
    using 2 by (metis length_dropWhile_le)
  moreover have "length (dropWhile (\<lambda>x. \<not> is_space x) (c # cs)) \<le> length cs"
    using ns by (simp add: length_dropWhile_le)
  ultimately show ?case by simp
qed

declare words.simps [simp del]

subsection \<open>Numbers as text\<close>

fun nat_str :: "nat \<Rightarrow> string" where
  "nat_str n = (if n < 10 then [char_of (48 + n)]
                else nat_str (n div 10) @ [char_of (48 + n mod 10)])"

declare nat_str.simps [simp del]

definition int_str :: "int \<Rightarrow> string" where
  "int_str i = (if i < 0 then ''-'' @ nat_str (nat (- i)) else nat_str (nat i))"

definition digit_val :: "char \<Rightarrow> nat" where
  "digit_val c = code c - 48"

definition digits_val :: "string \<Rightarrow> nat" where
  "digits_val s = foldl (\<lambda>a c. 10 * a + digit_val c) 0 s"

text \<open>\<open>s.isdigit()\<close> on the modelled range (the superscript digits U+00B2, U+00B3 and U+00B9
  pass \<open>isdigit\<close> too).\<close>

definition isdigit :: "string \<Rightarrow> bool" where
  "isdigit s = (s \<noteq> [] \<and> (\<forall>c \<in> set s. is_digit c \<or> code c \<in> {178, 179, 185}))"

subsection \<open>Conversions: int, float, str and repr\<close>

text \<open>A conversion that raises \<open>ValueError\<close> or \<open>TypeError\<close> gives \<open>None\<close>.\<close>

definition all_digits :: "string \<Rightarrow> bool" where
  "all_digits s = (s \<noteq> [] \<and> list_all is_digit s)"

text \<open>A run of digits in which single underscores may separate digits, as \<open>int\<close> reads it.\<close>

definition digit_run :: "string \<Rightarrow> nat option" where
  "digit_run s = (let parts = split_on (CHR ''_'') s in
     if list_all all_digits parts then Some (digits_val (concat parts)) else None)"

definition take_sign :: "string \<Rightarrow> int \<times> string" where
  "take_sign s = (case s of [] \<Rightarrow> (1, [])
     | c # cs \<Rightarrow> if c = CHR ''-'' then (-1, cs) else if c = CHR ''+'' then (1, cs) else (1, c # cs))"

definition str_to_int :: "string \<Rightarrow> int option" where
  "str_to_int s = (case take_sign (strip s) of (sg, ds) \<Rightarrow>
     map_option (\<lambda>n. sg * int n) (digit_run ds))"

text \<open>\<open>int(r)\<close> of a float truncates towards zero.\<close>

definition trunc :: "rat \<Rightarrow> int" where
  "trunc r = (if r < 0 then - \<lfloor>- r\<rfloor> else \<lfloor>r\<rfloor>)"

fun py_int :: "pyval \<Rightarrow> int option" where
  "py_int (PBool b) = Some (if b then 1 else 0)"
| "py_int (PInt n) = Some n"
| "py_int (PFloat r) = Some (trunc r)"
| "py_int (PStr s) = str_to_int s"
| "py_int _ = None"

definition is_exp :: "char \<Rightarrow> bool" where
  "is_exp c = (c = CHR ''e'' \<or> c = CHR ''E'')"

definition mantissa :: "string \<Rightarrow> rat option" where
  "mantissa s = (case split_on (CHR ''.'') s of
       [w] \<Rightarrow> map_option of_nat (digit_run w)
     | [w, f] \<Rightarrow>
         (if w = [] \<and> f = [] then None
          else case (if w = [] then Some 0 else digit_run w, if f = [] then Some 0 else digit_run f) of
            (Some a, Some b) \<Rightarrow>
              Some (of_nat a + of_nat b / 10 ^ (List.length (filter is_digit f)))
          | _ \<Rightarrow> None)
     | _ \<Rightarrow> None)"

definition scale10 :: "rat \<Rightarrow> int \<Rightarrow> rat" where
  "scale10 r e = (if e < 0 then r / 10 ^ nat (- e) else r * 10 ^ nat e)"

definition str_to_float :: "string \<Rightarrow> rat option" where
  "str_to_float s = (case take_sign (strip s) of (sg, body) \<Rightarrow>
     (let m = takeWhile (\<lambda>c. \<not> is_exp c) body; rest = dropWhile (\<lambda>c. \<not> is_exp c) body in
      case mantissa m of None \<Rightarrow> None
      | Some r \<Rightarrow>
          (case rest of [] \<Rightarrow> Some (of_int sg * r)
           | _ # e \<Rightarrow> (case take_sign e of (es, ds) \<Rightarrow>
               (case digit_run ds of None \<Rightarrow> None
                | Some n \<Rightarrow> Some (of_int sg * scale10 r (es * int n)))))))"

fun py_float :: "pyval \<Rightarrow> rat option" where
  "py_float (PBool b) = Some (if b then 1 else 0)"
| "py_float (PInt n) = Some (of_int n)"
| "py_float (PFloat r) = Some r"
| "py_float (PStr s) = str_to_float s"
| "py_float _ = None"

text \<open>\<open>repr\<close> of a float in the range without exponent: the decimal expansion, up to 17
  fractional digits, with \<open>.0\<close> for an integral value.\<close>

fun frac_digits :: "nat \<Rightarrow> rat \<Rightarrow> string" where
  "frac_digits 0 r = []"
| "frac_digits (Suc n) r =
     (if r = 0 then [] else
        (let d = \<lfloor>10 * r\<rfloor> in char_of (48 + nat d) # frac_digits n (10 * r - of_int d)))"

definition float_str :: "rat \<Rightarrow> string" where
  "float_str r = (if r < 0 then ''-'' else []) @
     (let a = \<bar>r\<bar>; w = \<lfloor>a\<rfloor>; f = frac_digits 17 (a - of_int w) in
      nat_str (nat w) @ ''.'' @ (if f = [] then ''0'' else f))"

definition hex_digit :: "nat \<Rightarrow> char" where
  "hex_digit n = (if n < 10 then char_of (48 + n) else char_of (87 + n))"

definition hex2 :: "nat \<Rightarrow> string" where
  "hex2 n = [hex_digit (n div 16), hex_digit (n mod 16)]"

text \<open>\<open>repr\<close> of a string: single quotes unless the text holds one and no double quote.\<close>

definition repr_char :: "char \<Rightarrow> char \<Rightarrow> string" where
  "repr_char q c = (let n = code c in
     if c = q \<or> n = 92 then [char_of (92::nat), c]
     else if n = 10 then [char_of (92::nat), CHR ''n'']
     else if n = 13 then [char_of (92::nat), CHR ''r'']
     else if n = 9 then [char_of (92::nat), CHR ''t'']
     else if n < 32 \<or> (127 \<le> n \<and> n \<le> 160) \<or> n = 173 then [char_of (92::nat), CHR ''x''] @ hex2 n
     else [c])"

definition repr_str :: "string \<Rightarrow> string" where
  "repr_str s = (let q = (if char_of (39::nat) \<in> set s \<and> CHR 0x22 \<notin> set s
                         then CHR 0x22 else char_of (39::nat))
                 in q # concat (map (repr_char q) s) @ [q])"

fun py_repr :: "pyval \<Rightarrow> string" where
  "py_repr PNone = ''None''"
| "py_repr (PBool b) = (if b then ''True'' else ''False'')"
| "py_repr (PInt n) = int_str n"
| "py_repr (PFloat r) = float_str r"
| "py_repr (PStr s) = repr_str s"
| "py_repr (PList xs) = ''['' @ join '', '' (map py_repr xs) @ '']''"
| "py_repr (PDict d) = ''{'' @ join '', '' (map (\<lambda>(k, v). repr_str k @ '': '' @ py_repr v) d) @ ''}''"

fun py_str :: "pyval \<Rightarrow> string" where
  "py_str (PStr s) = s"
| "py_str v = py_repr v"

text \<open>\<open>str(x or "")\<close>, the idiom the sources read optional text with.\<close>

definition str_or_empty :: "pyval \<Rightarrow> string" where
  "str_or_empty v = (if truthy v then py_str v else [])"

fun is_pdict :: "pyval \<Rightarrow> bool" where
  "is_pdict (PDict _) = True" | "is_pdict _ = False"

fun is_pstr :: "pyval \<Rightarrow> bool" where
  "is_pstr (PStr _) = True" | "is_pstr _ = False"

fun is_plist :: "pyval \<Rightarrow> bool" where
  "is_plist (PList _) = True" | "is_plist _ = False"

fun is_pnone :: "pyval \<Rightarrow> bool" where
  "is_pnone PNone = True" | "is_pnone _ = False"

fun is_pbool :: "pyval \<Rightarrow> bool" where
  "is_pbool (PBool _) = True" | "is_pbool _ = False"

fun pdict_items :: "pyval \<Rightarrow> dict" where
  "pdict_items (PDict d) = d" | "pdict_items _ = []"

fun plist_items :: "pyval \<Rightarrow> pyval list" where
  "plist_items (PList xs) = xs" | "plist_items _ = []"

text \<open>\<open>isinstance(x, int)\<close> (a bool is an int) and the value it then has.\<close>

fun as_int :: "pyval \<Rightarrow> int option" where
  "as_int (PInt n) = Some n"
| "as_int (PBool b) = Some (if b then 1 else 0)"
| "as_int _ = None"

subsection \<open>Generic lemmas\<close>

lemma prefix_self_append [simp]: "starts_with p (p @ s)"
  by (simp add: starts_with_def)

lemma split_on_nonempty [simp]: "split_on c s \<noteq> []"
  by (induction s) (auto split: list.splits)

lemma split_on_no_sep: "c \<notin> set s \<Longrightarrow> split_on c s = [s]"
  by (induction s) auto

lemma split_on_append: "c \<notin> set s \<Longrightarrow> split_on c (s @ c # t) = s # split_on c t"
  by (induction s) auto

lemma join_split [simp]: "join [c] (split_on c s) = s"
proof (induction s)
  case (Cons x xs)
  then show ?case
    by (cases "split_on c xs"; cases "tl (split_on c xs)") (auto split: list.splits)
qed simp

lemma lstrip_idem [simp]: "lstrip (lstrip s) = lstrip s"
  by (simp add: lstrip_def dropWhile_idem)

lemma rstrip_idem [simp]: "rstrip (rstrip s) = rstrip s"
  by (simp add: rstrip_def dropWhile_idem)

lemma rstrip_Cons: "\<not> is_space c \<Longrightarrow> rstrip (c # s) = c # rstrip s"
  by (simp add: rstrip_def dropWhile_append)

lemma lstrip_rstrip: "lstrip (rstrip s) = rstrip (lstrip s)"
proof (induction s)
  case (Cons c s)
  show ?case
  proof (cases "is_space c")
    case True
    then show ?thesis
      using Cons by (auto simp: lstrip_def rstrip_def dropWhile_append dest: set_dropWhileD)
  next
    case False
    then show ?thesis by (simp add: rstrip_Cons lstrip_def)
  qed
qed (simp add: lstrip_def rstrip_def)

lemma strip_idem [simp]: "strip (strip s) = strip s"
  by (simp add: strip_def lstrip_rstrip)

lemma strip_Nil [simp]: "strip [] = []"
  by (simp add: strip_def lstrip_def rstrip_def)

lemma dget_update [py_simps]: "dget (dict_set d k v) k' = (if k' = k then v else dget d k')"
  by (simp add: dget_def update_conv)

lemma has_key_update [py_simps]: "has_key (dict_set d k v) k' = (k' = k \<or> has_key d k')"
  by (simp add: has_key_def update_conv)

subsection \<open>Decimal numerals\<close>

lemma code_char_of [simp]: "n < 256 \<Longrightarrow> code (char_of n) = n"
  by (simp add: code_def of_char_of)

lemma is_digit_char_of [simp]: "(d::nat) < 10 \<Longrightarrow> is_digit (char_of (48 + d))"
  by (simp add: is_digit_def)

lemma digit_val_char_of [simp]: "(d::nat) < 10 \<Longrightarrow> digit_val (char_of (48 + d)) = d"
  by (simp add: digit_val_def)

lemma digits_val_snoc [simp]: "digits_val (s @ [c]) = 10 * digits_val s + digit_val c"
  by (simp add: digits_val_def)

lemma nat_str_digits [simp]: "list_all is_digit (nat_str n)"
  by (induction n rule: nat_str.induct) (subst nat_str.simps, simp)

lemma nat_str_val [simp]: "digits_val (nat_str n) = n"
proof (induction n rule: nat_str.induct)
  case (1 n)
  show ?case
    by (cases "n < 10"; subst nat_str.simps) (use 1 in \<open>simp_all add: digits_val_def\<close>)
qed

lemma nat_str_nonempty [simp]: "nat_str n \<noteq> []"
  by (subst nat_str.simps) simp

lemma nat_str_length: "n < 10 ^ w \<Longrightarrow> 0 < w \<Longrightarrow> List.length (nat_str n) \<le> w"
proof (induction n arbitrary: w rule: nat_str.induct)
  case (1 n)
  show ?case
  proof (cases "n < 10")
    case True
    then show ?thesis using 1 by (subst nat_str.simps) simp
  next
    case False
    then obtain v where v: "w = Suc v" "0 < v"
      using 1(2,3) by (cases w; cases "w = 1") auto
    have "List.length (nat_str (n div 10)) \<le> v"
      using 1(1)[OF False, of v] 1(2) v by (simp add: less_mult_imp_div_less mult.commute)
    then show ?thesis using False v by (subst nat_str.simps) simp
  qed
qed

lemma digits_val_zeros [simp]: "digits_val (replicate k (CHR ''0'') @ s) = digits_val s"
proof (induction k)
  case (Suc k)
  then show ?case by (simp add: digits_val_def digit_val_def code_def)
qed (simp)

lemma length_filter_mono:
  "(\<And>x. x \<in> set xs \<Longrightarrow> P x \<Longrightarrow> Q x) \<Longrightarrow> length (filter P xs) \<le> length (filter Q xs)"
  by (induction xs) (auto simp: le_SucI)

lemma dict_set_fresh: "k \<notin> fst ` set d \<Longrightarrow> dict_set d k v = d @ [(k, v)]"
  by (induction d) auto

lemma dict_set_length [simp]: "length d \<le> length (dict_set d k v)"
  by (induction d) auto

lemma filter_map_distinct: "distinct (map f xs) \<Longrightarrow> distinct (map f (filter P xs))"
  by (induction xs) auto

end
