(* ===== verification/Tasks.thy ===== *)
theory Tasks
  imports Prelude
begin

text \<open>
  The two records that travel between the components: the task (\<open>agent/poller.py\<close>, \<open>Task\<close>) and
  the result of running it (\<open>agent/executor.py\<close>, \<open>Result\<close>). The source path and the AMP
  envelope of a task are added by the poller's own theory; nothing below it reads them.
\<close>

record task =
  t_id :: string
  t_kind :: string
  t_payload :: dict
  t_priority :: pyval

record result =
  r_task_id :: string
  r_ok :: bool
  r_decision :: string
  r_stdout :: string
  r_stderr :: string
  r_exit_code :: "int option"
  r_error :: string
  r_metadata :: dict

text \<open>\<open>Result(task_id=..., ok=..., decision=...)\<close> with the defaults of the dataclass.\<close>

definition mk_result :: "string \<Rightarrow> bool \<Rightarrow> string \<Rightarrow> result" where
  "mk_result tid ok dec = \<lparr>r_task_id = tid, r_ok = ok, r_decision = dec, r_stdout = [], r_stderr = [],
     r_exit_code = None, r_error = [], r_metadata = []\<rparr>"

text \<open>\<open>Task(id=..., kind=..., payload=...)\<close>: priority defaults to \<open>normal\<close>.\<close>

definition mk_task :: "string \<Rightarrow> string \<Rightarrow> dict \<Rightarrow> task" where
  "mk_task i k p = \<lparr>t_id = i, t_kind = k, t_payload = p, t_priority = PStr ''normal''\<rparr>"

lemma mk_result_sel [simp]:
  "r_task_id (mk_result i ok d) = i" "r_ok (mk_result i ok d) = ok" "r_decision (mk_result i ok d) = d"
  "r_metadata (mk_result i ok d) = []" "r_error (mk_result i ok d) = []"
  "r_stdout (mk_result i ok d) = []" "r_stderr (mk_result i ok d) = []" "r_exit_code (mk_result i ok d) = None"
  by (simp_all add: mk_result_def)

lemma mk_task_sel [simp]:
  "t_id (mk_task i k p) = i" "t_kind (mk_task i k p) = k" "t_payload (mk_task i k p) = p"
  "t_priority (mk_task i k p) = PStr ''normal''"
  by (simp_all add: mk_task_def)

end
