(* ===== verification/Subtasks.thy ===== *)
theory Subtasks
  imports Tasks
begin

text \<open>
  \<open>agent/subtasks.py\<close>: building a child task from a packet and the manager that runs children on a
  bounded pool. A \<open>SubtaskRecord\<close> is shared between the manager's table and the pool job that
  runs it, and an id can be spawned again while a job of its predecessor is still in the pool, so
  records and events live in an explicit store and the tables hold references. A step is one
  critical section of the code: \<open>spawn\<close>, the start of \<open>_run\<close>, its end, \<open>cancel\<close>,
  \<open>forget_finished\<close>. The wall-clock fields of a record are left out; \<open>await_tasks\<close> is modelled on
  a time line of its own.
\<close>

subsection \<open>Building a child\<close>

record subtask = task +
  st_parent_id :: "string option"
  st_depth :: int

datatype subtask_error =
    SpecNotObject
  | NoKind
  | PayloadNotObject
  | TooDeep int
  | InFlight string
  | TooMany

text \<open>\<open>parent\<close> is the id of the parent task, if there is one; \<open>fresh\<close> stands for the first twelve
  hex digits of a new UUID.\<close>

definition flat_payload :: "string list \<Rightarrow> dict \<Rightarrow> dict" where
  "flat_payload skip spec = filter (\<lambda>(k, v). k \<notin> set skip) spec"

definition build_subtask :: "string \<Rightarrow> pyval \<Rightarrow> string option \<Rightarrow> int \<Rightarrow> int \<Rightarrow> subtask_error + subtask" where
  "build_subtask fresh specv parent depth index = (case specv of
     PDict spec \<Rightarrow>
       (let kind = strip (str_or_empty (dget spec ''kind'')) in
        if kind = [] then Inl NoKind
        else
          (let given = strip (str_or_empty (dget spec ''id''));
               tid = (if given \<noteq> [] then given
                      else case parent of Some p \<Rightarrow> p @ ''-sub-'' @ int_str index
                           | None \<Rightarrow> ''sub-'' @ fresh);
               pv = (if dget spec ''payload'' = PNone
                     then PDict (flat_payload [''id'', ''kind'', ''payload'', ''depends_on''] spec)
                     else dget spec ''payload'') in
           (case pv of
              PDict payload \<Rightarrow> Inr \<lparr>t_id = tid, t_kind = kind, t_payload = payload,
                 t_priority = PStr (py_str (dget_or spec ''priority'' (PStr ''normal''))),
                 st_parent_id = parent, st_depth = depth\<rparr>
            | _ \<Rightarrow> Inl PayloadNotObject)))
   | _ \<Rightarrow> Inl SpecNotObject)"

subsection \<open>Records and the manager's state\<close>

datatype sstate = Queued | Running | Succeeded | Failed | Cancelled

definition finished :: "sstate \<Rightarrow> bool" where
  "finished s = (s \<in> {Succeeded, Failed, Cancelled})"

record srec =
  sr_id :: string
  sr_kind :: string
  sr_parent :: "string option"
  sr_depth :: int
  sr_state :: sstate
  sr_result :: "result option"
  sr_error :: string

type_synonym job = "subtask \<times> nat"

record manager =
  max_active :: int
  max_depth :: int
  m_store :: "srec list"
  m_records :: "(string \<times> nat) list"
  m_events :: "(string \<times> nat) list"
  m_set :: "bool list"
  m_cancelled :: "string set"
  m_pool :: "job list"
  m_running :: "job list"

definition new_manager :: "int \<Rightarrow> int \<Rightarrow> manager" where
  "new_manager a d = \<lparr>max_active = max 1 a, max_depth = max 1 d, m_store = [], m_records = [],
     m_events = [], m_set = [], m_cancelled = {}, m_pool = [], m_running = []\<rparr>"

definition rec_of :: "manager \<Rightarrow> string \<Rightarrow> srec option" where
  "rec_of m tid = (case map_of (m_records m) tid of None \<Rightarrow> None
     | Some r \<Rightarrow> if r < length (m_store m) then Some (m_store m ! r) else None)"

definition status :: "manager \<Rightarrow> string \<Rightarrow> srec option" where
  "status m tid = rec_of m tid"

definition active_count :: "manager \<Rightarrow> nat" where
  "active_count m = length (filter (\<lambda>(t, r). \<not> finished (sr_state (m_store m ! r))) (m_records m))"

text \<open>\<open>sorted(..., key=created_at)\<close> is allocation order.\<close>

definition all_records :: "manager \<Rightarrow> srec list" where
  "all_records m = map (\<lambda>r. m_store m ! r) (sort (map snd (m_records m)))"

definition upd_rec :: "nat \<Rightarrow> (srec \<Rightarrow> srec) \<Rightarrow> manager \<Rightarrow> manager" where
  "upd_rec r f m = m\<lparr>m_store := (m_store m)[r := f (m_store m ! r)]\<rparr>"

definition set_event :: "string \<Rightarrow> manager \<Rightarrow> manager" where
  "set_event tid m = (case map_of (m_events m) tid of None \<Rightarrow> m
     | Some e \<Rightarrow> m\<lparr>m_set := (m_set m)[e := True]\<rparr>)"

subsection \<open>Operations\<close>

definition spawn :: "subtask \<Rightarrow> manager \<Rightarrow> subtask_error + (nat \<times> manager)" where
  "spawn t m =
     (if st_depth t > max_depth m then Inl (TooDeep (st_depth t))
      else if (case rec_of m (t_id t) of None \<Rightarrow> False | Some r \<Rightarrow> \<not> finished (sr_state r))
        then Inl (InFlight (t_id t))
      else if int (active_count m) \<ge> max_active m then Inl TooMany
      else
        (let r = length (m_store m); e = length (m_set m);
             rc = \<lparr>sr_id = t_id t, sr_kind = t_kind t, sr_parent = st_parent_id t, sr_depth = st_depth t,
                   sr_state = Queued, sr_result = None, sr_error = []\<rparr> in
         Inr (r, m\<lparr>m_store := m_store m @ [rc], m_records := dict_set (m_records m) (t_id t) r,
                   m_events := dict_set (m_events m) (t_id t) e, m_set := m_set m @ [False],
                   m_pool := m_pool m @ [(t, r)]\<rparr>)))"

text \<open>\<open>spawn_many\<close>: the first refusal is an exception, which leaves the children before it running
  and gives the caller no list.\<close>

fun spawn_many :: "subtask list \<Rightarrow> manager \<Rightarrow> (subtask_error + nat list) \<times> manager" where
  "spawn_many [] m = (Inr [], m)"
| "spawn_many (t # ts) m = (case spawn t m of
       Inl e \<Rightarrow> (Inl e, m)
     | Inr (r, m') \<Rightarrow> (case spawn_many ts m' of
          (Inl e, m'') \<Rightarrow> (Inl e, m'')
        | (Inr rs, m'') \<Rightarrow> (Inr (r # rs), m'')))"

text \<open>A worker takes the oldest job of the pool; a job whose id is marked cancelled ends at once.\<close>

definition run_start :: "manager \<Rightarrow> manager option" where
  "run_start m = (case m_pool m of [] \<Rightarrow> None
     | (t, r) # js \<Rightarrow>
        (if int (length (m_running m)) \<ge> max_active m then None
         else if t_id t \<in> m_cancelled m
         then Some (set_event (t_id t) (upd_rec r (\<lambda>x. x\<lparr>sr_state := Cancelled\<rparr>) (m\<lparr>m_pool := js\<rparr>)))
         else Some (upd_rec r (\<lambda>x. x\<lparr>sr_state := Running\<rparr>) (m\<lparr>m_pool := js, m_running := m_running m @ [(t, r)]\<rparr>))))"

text \<open>The end of a job, with what \<open>execute\<close> did: a result, or the text of the exception.\<close>

definition run_finish :: "nat \<Rightarrow> string + result \<Rightarrow> manager \<Rightarrow> manager option" where
  "run_finish k out m = (if k < length (m_running m) then
     (case m_running m ! k of (t, r) \<Rightarrow>
       Some (set_event (t_id t)
         (upd_rec r (\<lambda>x. case out of
              Inr res \<Rightarrow> x\<lparr>sr_result := Some res, sr_state := (if r_ok res then Succeeded else Failed)\<rparr>
            | Inl e \<Rightarrow> x\<lparr>sr_state := Failed, sr_error := e\<rparr>)
           (m\<lparr>m_running := take k (m_running m) @ drop (Suc k) (m_running m)\<rparr>))))
     else None)"

definition cancel :: "string \<Rightarrow> manager \<Rightarrow> bool \<times> manager" where
  "cancel tid m =
     (let m1 = m\<lparr>m_cancelled := insert tid (m_cancelled m)\<rparr> in
      case map_of (m_records m1) tid of
        None \<Rightarrow> (False, m1)
      | Some r \<Rightarrow>
         (if sr_state (m_store m1 ! r) = Queued
          then (True, set_event tid (upd_rec r (\<lambda>x. x\<lparr>sr_state := Cancelled\<rparr>) m1))
          else (False, m1)))"

definition forget_finished :: "manager \<Rightarrow> nat \<times> manager" where
  "forget_finished m =
     (let done = map fst (filter (\<lambda>(t, r). finished (sr_state (m_store m ! r))) (m_records m)) in
      (length done,
       m\<lparr>m_records := filter (\<lambda>(t, r). t \<notin> set done) (m_records m),
         m_events := filter (\<lambda>(t, e). t \<notin> set done) (m_events m),
         m_cancelled := m_cancelled m - set done\<rparr>))"

subsection \<open>Reading a record back\<close>

definition last_n :: "nat \<Rightarrow> 'a list \<Rightarrow> 'a list" where
  "last_n n xs = drop (length xs - n) xs"

definition opt_int :: "int option \<Rightarrow> pyval" where
  "opt_int x = (case x of None \<Rightarrow> PNone | Some n \<Rightarrow> PInt n)"

definition opt_str :: "string option \<Rightarrow> pyval" where
  "opt_str x = (case x of None \<Rightarrow> PNone | Some s \<Rightarrow> PStr s)"

definition result_summary :: "result \<Rightarrow> dict" where
  "result_summary r =
     [(''ok'', PBool (r_ok r)), (''decision'', PStr (r_decision r)), (''exit_code'', opt_int (r_exit_code r)),
      (''error'', PStr (r_error r)), (''stdout'', PStr (last_n 4000 (r_stdout r))),
      (''stderr'', PStr (last_n 2000 (r_stderr r))),
      (''stdout_truncated'', PBool (length (r_stdout r) > 4000))]"

fun sstate_str :: "sstate \<Rightarrow> string" where
  "sstate_str Queued = ''queued''" | "sstate_str Running = ''running''"
| "sstate_str Succeeded = ''succeeded''" | "sstate_str Failed = ''failed''"
| "sstate_str Cancelled = ''cancelled''"

definition rec_to_dict :: "bool \<Rightarrow> srec \<Rightarrow> dict" where
  "rec_to_dict include_result r =
     [(''task_id'', PStr (sr_id r)), (''kind'', PStr (sr_kind r)), (''parent_id'', opt_str (sr_parent r)),
      (''depth'', PInt (sr_depth r)), (''state'', PStr (sstate_str (sr_state r)))] @
     (if sr_error r \<noteq> [] then [(''error'', PStr (sr_error r))] else []) @
     (case sr_result r of Some res \<Rightarrow>
          if include_result then [(''result'', PDict (result_summary res))] else []
        | None \<Rightarrow> [])"

subsection \<open>Awaiting\<close>

text \<open>When, on the time line, each known child finishes, and how: \<open>None\<close> for never.\<close>

type_synonym ends = "string \<Rightarrow> (rat \<times> sstate) option"

definition ended :: "ends \<Rightarrow> rat \<Rightarrow> string \<Rightarrow> bool" where
  "ended f now t = (case f t of None \<Rightarrow> False | Some (u, s) \<Rightarrow> u \<le> now)"

text \<open>\<open>event.wait(remaining)\<close> entered at \<open>now\<close>: the time it returns and whether the event was set.\<close>

definition wait_event :: "ends \<Rightarrow> string \<Rightarrow> rat \<Rightarrow> rat \<Rightarrow> rat \<times> bool" where
  "wait_event f t now remaining = (case f t of
       None \<Rightarrow> (now + remaining, False)
     | Some (u, s) \<Rightarrow> if u \<le> now then (now, True)
                      else if u \<le> now + remaining then (u, True) else (now + remaining, False))"

fun await_loop :: "ends \<Rightarrow> rat \<Rightarrow> bool \<Rightarrow> string list \<Rightarrow> string list \<Rightarrow> rat \<Rightarrow> bool \<Rightarrow> rat \<times> bool" where
  "await_loop f deadline all known [] now timed_out = (now, timed_out)"
| "await_loop f deadline all known (t # ts) now timed_out =
     (let remaining = deadline - now in
      if \<not> all \<and> list_ex (ended f now) known then (now, timed_out)
      else if remaining \<le> 0 then
        (if all then (now, True) else await_loop f deadline all known ts now True)
      else
        (case wait_event f t now remaining of (now', ok) \<Rightarrow>
          if ok then await_loop f deadline all known ts now' timed_out
          else if all then (now', True) else await_loop f deadline all known ts now' True))"

record await_result =
  aw_ok :: bool
  aw_completed :: "string list"
  aw_pending :: "string list"
  aw_unknown :: "string list"
  aw_timed_out :: bool
  aw_at :: rat

text \<open>\<open>is_known\<close> tells the ids the manager has a record of when the call starts.\<close>

definition await_tasks :: "(string \<Rightarrow> bool) \<Rightarrow> ends \<Rightarrow> string list \<Rightarrow> rat \<Rightarrow> bool \<Rightarrow> rat \<Rightarrow> await_result" where
  "await_tasks is_known f ids timeout require_all now =
     (if ids = [] then \<lparr>aw_ok = True, aw_completed = [], aw_pending = [], aw_unknown = [],
        aw_timed_out = False, aw_at = now\<rparr>
      else
        (let unknown = filter (\<lambda>t. \<not> is_known t) ids; known = filter is_known ids;
             deadline = now + max 0 timeout in
         case await_loop f deadline require_all known (rev (remdups (rev known))) now False of
           (now', timed_out) \<Rightarrow>
             (let completed = filter (ended f now') known;
                  pending = filter (\<lambda>t. \<not> ended f now' t) known in
              \<lparr>aw_ok = (unknown = [] \<and> pending = [] \<and>
                         list_all (\<lambda>t. case f t of Some (u, s) \<Rightarrow> s = Succeeded | None \<Rightarrow> False) completed),
               aw_completed = completed, aw_pending = pending, aw_unknown = unknown,
               aw_timed_out = timed_out, aw_at = now'\<rparr>)))"

subsection \<open>Invariant of the manager\<close>

inductive sub_step :: "manager \<Rightarrow> manager \<Rightarrow> bool" where
  s_spawn: "spawn t m = Inr (r, m') \<Longrightarrow> sub_step m m'"
| s_start: "run_start m = Some m' \<Longrightarrow> sub_step m m'"
| s_finish: "run_finish k out m = Some m' \<Longrightarrow> sub_step m m'"
| s_cancel: "cancel tid m = (b, m') \<Longrightarrow> sub_step m m'"
| s_forget: "forget_finished m = (n, m') \<Longrightarrow> sub_step m m'"

inductive sub_reach :: "int \<Rightarrow> int \<Rightarrow> manager \<Rightarrow> bool" for a d where
  sub_init: "sub_reach a d (new_manager a d)"
| sub_next: "sub_reach a d m \<Longrightarrow> sub_step m m' \<Longrightarrow> sub_reach a d m'"

text \<open>A finished record that a job of the pool still holds was cancelled before it started, and
  its id is still marked.\<close>

definition sub_inv :: "manager \<Rightarrow> bool" where
  "sub_inv m =
     (distinct (map fst (m_records m)) \<and> distinct (map snd (m_records m)) \<and>
      (\<forall>(t, r) \<in> set (m_records m). r < length (m_store m)) \<and>
      (\<forall>(t, r) \<in> set (m_pool m). r < length (m_store m)) \<and>
      (\<forall>(t, r) \<in> set (m_running m). r < length (m_store m)) \<and>
      (\<forall>(t, r) \<in> set (m_records m). \<forall>(u, r') \<in> set (m_pool m).
          r = r' \<longrightarrow> t_id u = t \<and> (finished (sr_state (m_store m ! r)) \<longrightarrow> t \<in> m_cancelled m)) \<and>
      distinct (map snd (m_pool m) @ map snd (m_running m)) \<and>
      int (active_count m) \<le> max_active m \<and> int (length (m_running m)) \<le> max_active m \<and>
      (\<forall>rc \<in> set (m_store m). sr_depth rc \<le> max_depth m))"

lemma set_event_same [simp]:
  "m_store (set_event t m) = m_store m" "m_records (set_event t m) = m_records m"
  "m_pool (set_event t m) = m_pool m" "m_running (set_event t m) = m_running m"
  "m_cancelled (set_event t m) = m_cancelled m" "max_active (set_event t m) = max_active m"
  "max_depth (set_event t m) = max_depth m" "m_events (set_event t m) = m_events m"
  by (simp_all add: set_event_def split: option.splits)

lemma upd_rec_same [simp]:
  "m_records (upd_rec r f m) = m_records m" "m_pool (upd_rec r f m) = m_pool m"
  "m_running (upd_rec r f m) = m_running m" "m_cancelled (upd_rec r f m) = m_cancelled m"
  "max_active (upd_rec r f m) = max_active m" "max_depth (upd_rec r f m) = max_depth m"
  "m_events (upd_rec r f m) = m_events m"
  "m_store (upd_rec r f m) = (m_store m)[r := f (m_store m ! r)]"
  by (simp_all add: upd_rec_def)

lemma active_count_mono:
  assumes "m_records m' = m_records m"
    "\<And>t r. (t, r) \<in> set (m_records m) \<Longrightarrow> finished (sr_state (m_store m ! r)) \<Longrightarrow> finished (sr_state (m_store m' ! r))"
  shows "active_count m' \<le> active_count m"
  unfolding active_count_def assms(1)
  by (rule length_filter_mono) (auto dest: assms(2))

lemma distinct_snd_eq:
  "distinct (map snd xs) \<Longrightarrow> (a, r) \<in> set xs \<Longrightarrow> (b, r) \<in> set xs \<Longrightarrow> a = b"
  by (induction xs) (auto simp: image_iff)

lemma sub_inv_new: "sub_inv (new_manager a d)"
  by (simp add: sub_inv_def new_manager_def active_count_def)

lemma update_new_or_old:
  "set (AList.update k v xs) \<subseteq> insert (k, v) {p \<in> set xs. fst p \<noteq> k}" if "distinct (map fst xs)"
  using that by (induction xs) (auto simp: image_iff)

lemma distinct_update_snd:
  "distinct (map fst xs) \<Longrightarrow> distinct (map snd xs) \<Longrightarrow> v \<notin> snd ` set xs \<Longrightarrow> distinct (map snd (AList.update k v xs))"
proof (induction xs)
  case (Cons x xs)
  have "snd ` set (AList.update k v xs) \<subseteq> insert v (snd ` set xs)"
    using update_new_or_old[of xs k v] Cons.prems by auto
  then show ?case using Cons by (auto split: if_splits)
qed simp

lemma sub_inv_spawn:
  assumes "spawn t m = Inr (r, m')" "sub_inv m"
  shows "sub_inv m'"
proof -
  define rc where "rc = \<lparr>sr_id = t_id t, sr_kind = t_kind t, sr_parent = st_parent_id t, sr_depth = st_depth t,
                   sr_state = Queued, sr_result = None, sr_error = []\<rparr>"
  define n where "n = length (m_store m)"
  have c: "st_depth t \<le> max_depth m" "int (active_count m) < max_active m"
    "case rec_of m (t_id t) of None \<Rightarrow> True | Some x \<Rightarrow> finished (sr_state x)"
    using assms(1) by (auto simp: spawn_def split: if_splits option.splits)
  have m': "m' = m\<lparr>m_store := m_store m @ [rc], m_records := dict_set (m_records m) (t_id t) n,
                   m_events := dict_set (m_events m) (t_id t) (length (m_set m)), m_set := m_set m @ [False],
                   m_pool := m_pool m @ [(t, n)]\<rparr>"
    using assms(1) by (auto simp: spawn_def Let_def rc_def n_def split: if_splits)
  have i: "distinct (map fst (m_records m))" "distinct (map snd (m_records m))"
    "\<And>k v. (k, v) \<in> set (m_records m) \<Longrightarrow> v < n"
    using assms(2) by (auto simp: sub_inv_def n_def)
  have nn: "n \<notin> snd ` set (m_records m)" using i(3) by fastforce
  note sub = update_new_or_old[OF i(1), of "t_id t" n]
  have cnt: "int (active_count m') \<le> max_active m"
  proof -
    have "length (filter (\<lambda>(u, r). \<not> finished (sr_state ((m_store m @ [rc]) ! r))) (AList.update (t_id t) n xs))
        \<le> Suc (length (filter (\<lambda>(u, r). \<not> finished (sr_state (m_store m ! r))) xs))"
      if "\<And>k v. (k, v) \<in> set xs \<Longrightarrow> v < n" for xs
      using that
    proof (induction xs)
      case (Cons x xs)
      have eq: "filter (\<lambda>(u, r). \<not> finished (sr_state ((m_store m @ [rc]) ! r))) xs =
            filter (\<lambda>(u, r). \<not> finished (sr_state (m_store m ! r))) xs"
        using Cons.prems by (intro filter_cong) (auto simp: nth_append n_def)
      have "snd x < length (m_store m)" using Cons.prems[of "fst x" "snd x"] by (simp add: n_def)
      then have hd: "(m_store m @ [rc]) ! snd x = m_store m ! snd x" by (simp add: nth_append)
      have IH: "length (filter (\<lambda>(u, r). \<not> finished (sr_state ((m_store m @ [rc]) ! r))) (AList.update (t_id t) n xs))
        \<le> Suc (length (filter (\<lambda>(u, r). \<not> finished (sr_state (m_store m ! r))) xs))"
      proof (rule Cons.IH)
        fix k v assume "(k, v) \<in> set xs"
        then show "v < n" using Cons.prems[of k v] by simp
      qed
      obtain k v where x: "x = (k, v)" by fastforce
      show ?case
        using IH eq hd by (cases "k = t_id t") (simp_all add: x)
    qed (simp add: rc_def finished_def)
    from this[of "m_records m"] i(3) c(2) show ?thesis by (simp add: active_count_def m')
  qed
  show ?thesis
    unfolding sub_inv_def
  proof (intro conjI)
    show "distinct (map fst (m_records m'))" using i by (simp add: m' distinct_update)
    show "distinct (map snd (m_records m'))" using i nn by (simp add: m' distinct_update_snd)
    show "\<forall>(t, r)\<in>set (m_records m'). r < length (m_store m')"
      using sub i by (fastforce simp: m' n_def)
    have "\<forall>(t, r)\<in>set (m_pool m @ m_running m). r < n"
      using assms(2) by (fastforce simp: sub_inv_def n_def)
    then have "n \<notin> set (map snd (m_pool m) @ map snd (m_running m))" by fastforce
    then show "distinct (map snd (m_pool m') @ map snd (m_running m'))"
      using assms(2) by (simp add: m' sub_inv_def)
    show "\<forall>(t, r)\<in>set (m_pool m'). r < length (m_store m')"
      "\<forall>(t, r)\<in>set (m_running m'). r < length (m_store m')"
      using assms(2) by (fastforce simp: sub_inv_def m' n_def)+
    show "\<forall>(t, r)\<in>set (m_records m'). \<forall>(u, r')\<in>set (m_pool m').
          r = r' \<longrightarrow> t_id u = t \<and> (finished (sr_state (m_store m' ! r)) \<longrightarrow> t \<in> m_cancelled m')"
    proof (clarsimp, intro conjI impI)
      fix k u v assume *: "(k, v) \<in> set (m_records m')" "(u, v) \<in> set (m_pool m')"
      have "v = n \<and> k = t_id t \<or> v < n \<and> (k, v) \<in> set (m_records m)"
        using *(1) sub i(3) by (auto simp: m')
      moreover have "u = t \<and> v = n \<or> (u, v) \<in> set (m_pool m)"
        using *(2) by (auto simp: m')
      moreover have "v < n" if "(u, v) \<in> set (m_pool m)"
        using assms(2) that by (auto simp: sub_inv_def n_def)
      ultimately have cases: "(v = n \<and> k = t_id t \<and> u = t) \<or> ((k, v) \<in> set (m_records m) \<and> (u, v) \<in> set (m_pool m) \<and> v < n)"
        by auto
      then show "t_id u = k" using assms(2) by (fastforce simp: sub_inv_def)
      assume "finished (sr_state (m_store m' ! v))"
      then show "k \<in> m_cancelled m'"
        using cases assms(2) by (fastforce simp: sub_inv_def m' nth_append n_def rc_def finished_def)
    qed
    show "int (active_count m') \<le> max_active m'" using cnt by (simp add: m')
    show "int (length (m_running m')) \<le> max_active m'" "\<forall>rc\<in>set (m_store m'). sr_depth rc \<le> max_depth m'"
      using assms(2) c by (auto simp: sub_inv_def m' rc_def)
  qed
qed


lemma sub_inv_same:
  assumes "sub_inv m" "m_records m' = m_records m" "length (m_store m') = length (m_store m)"
    "set (m_pool m') \<subseteq> set (m_pool m)"
    "distinct (map snd (m_pool m') @ map snd (m_running m'))" "\<forall>(t, r) \<in> set (m_running m'). r < length (m_store m)"
    "m_cancelled m \<subseteq> m_cancelled m'" "max_active m' = max_active m" "max_depth m' = max_depth m"
    "int (length (m_running m')) \<le> max_active m"
    "\<forall>rc \<in> set (m_store m'). sr_depth rc \<le> max_depth m"
    and fin: "\<And>t r. (t, r) \<in> set (m_records m) \<Longrightarrow> finished (sr_state (m_store m ! r)) \<Longrightarrow>
        finished (sr_state (m_store m' ! r))"
    and new: "\<And>t u r. (t, r) \<in> set (m_records m) \<Longrightarrow> (u, r) \<in> set (m_pool m') \<Longrightarrow>
        finished (sr_state (m_store m' ! r)) \<Longrightarrow> \<not> finished (sr_state (m_store m ! r)) \<Longrightarrow> t \<in> m_cancelled m'"
  shows "sub_inv m'"
proof -
  have "active_count m' \<le> active_count m" by (rule active_count_mono[OF assms(2) fin])
  moreover have "t_id u = t \<and> (finished (sr_state (m_store m' ! r)) \<longrightarrow> t \<in> m_cancelled m')"
    if "(t, r) \<in> set (m_records m)" "(u, r) \<in> set (m_pool m')" for t u r
    using assms(1,4,7) new[OF that] that by (fastforce simp: sub_inv_def)
  ultimately show ?thesis
    using assms(1-11) by (fastforce simp: sub_inv_def)
qed

lemma depth_update:
  assumes "\<forall>rc \<in> set xs. sr_depth rc \<le> d" "r < length xs" "sr_depth (f (xs ! r)) = sr_depth (xs ! r)"
  shows "\<forall>rc \<in> set (xs[r := f (xs ! r)]). sr_depth rc \<le> d"
  using assms by (auto dest!: set_update_subset_insert[THEN subsetD])

lemma sub_inv_start:
  assumes "run_start m = Some m'" "sub_inv m"
  shows "sub_inv m'"
proof -
  obtain t r js where p: "m_pool m = (t, r) # js" and room: "int (length (m_running m)) < max_active m"
    using assms(1) by (auto simp: run_start_def split: list.splits prod.splits if_splits)
  have r: "r < length (m_store m)" using assms(2) p by (simp add: sub_inv_def)
  have d: "\<forall>rc \<in> set (m_store m). sr_depth rc \<le> max_depth m" using assms(2) by (simp add: sub_inv_def)
  have link: "k = t_id t \<and> (finished (sr_state (m_store m ! r)) \<longrightarrow> t_id t \<in> m_cancelled m)"
    if "(k, r) \<in> set (m_records m)" for k
    using assms(2) p that by (fastforce simp: sub_inv_def)
  show ?thesis
  proof (cases "t_id t \<in> m_cancelled m")
    case True
    then have m': "m' = set_event (t_id t) (upd_rec r (\<lambda>x. x\<lparr>sr_state := Cancelled\<rparr>) (m\<lparr>m_pool := js\<rparr>))"
      using assms(1) p room by (simp add: run_start_def)
    show ?thesis
    proof (rule sub_inv_same[OF assms(2)])
      show "\<forall>rc\<in>set (m_store m'). sr_depth rc \<le> max_depth m"
        unfolding m' by simp (rule depth_update[OF d r], simp)
      fix k u v
      assume *: "(k, v) \<in> set (m_records m)" "finished (sr_state (m_store m' ! v))"
        "\<not> finished (sr_state (m_store m ! v))"
      then have "v = r" by (cases "v = r") (auto simp: m')
      then show "k \<in> m_cancelled m'" using link * True by (auto simp: m')
    qed (use assms(2) p r in \<open>auto simp: m' sub_inv_def nth_list_update finished_def\<close>)
  next
    case False
    then have m': "m' = upd_rec r (\<lambda>x. x\<lparr>sr_state := Running\<rparr>)
        (m\<lparr>m_pool := js, m_running := m_running m @ [(t, r)]\<rparr>)"
      using assms(1) p room by (simp add: run_start_def)
    show ?thesis
    proof (rule sub_inv_same[OF assms(2)])
      show "\<forall>rc\<in>set (m_store m'). sr_depth rc \<le> max_depth m"
        unfolding m' by simp (rule depth_update[OF d r], simp)
      fix k v assume *: "(k, v) \<in> set (m_records m)" "finished (sr_state (m_store m ! v))"
      then have "v \<noteq> r" using link False by auto
      then show "finished (sr_state (m_store m' ! v))" using * by (simp add: m')
    next
      fix k u v
      assume *: "finished (sr_state (m_store m' ! v))" "\<not> finished (sr_state (m_store m ! v))"
      then show "k \<in> m_cancelled m'" using r by (auto simp: m' nth_list_update finished_def split: if_splits)
    qed (use assms(2) p r room in \<open>auto simp: m' sub_inv_def\<close>)
  qed
qed

lemma sub_inv_finish:
  assumes "run_finish k out m = Some m'" "sub_inv m"
  shows "sub_inv m'"
proof -
  have nopool: "\<forall>(u, r) \<in> set (m_running m). r \<notin> snd ` set (m_pool m)"
  proof (intro ballI case_prodI2)
    fix x u r assume *: "x \<in> set (m_running m)" "x = (u, r)"
    have "snd ` set (m_pool m) \<inter> snd ` set (m_running m) = {}"
      using assms(2) by (simp add: sub_inv_def)
    moreover have "r \<in> snd ` set (m_running m)" using * by force
    ultimately show "r \<notin> snd ` set (m_pool m)" by blast
  qed
  obtain t r where p: "m_running m ! k = (t, r)" "k < length (m_running m)"
    using assms(1) by (auto simp: run_finish_def split: if_splits prod.splits)
  define f where "f = (\<lambda>x::srec. case out of
              Inr res \<Rightarrow> x\<lparr>sr_result := Some res, sr_state := (if r_ok res then Succeeded else Failed)\<rparr>
            | Inl e \<Rightarrow> x\<lparr>sr_state := Failed, sr_error := e\<rparr>)"
  have m': "m' = set_event (t_id t) (upd_rec r f
      (m\<lparr>m_running := take k (m_running m) @ drop (Suc k) (m_running m)\<rparr>))"
    using assms(1) p by (simp add: run_finish_def f_def)
  have mem: "(t, r) \<in> set (m_running m)" using p by (metis nth_mem)
  have r: "r < length (m_store m)" using assms(2) mem by (fastforce simp: sub_inv_def)
  have fin: "finished (sr_state (f x))" "sr_depth (f x) = sr_depth x" for x
    by (auto simp: f_def finished_def split: sum.splits)
  have sub: "set (take k (m_running m) @ drop (Suc k) (m_running m)) \<subseteq> set (m_running m)"
    by (auto dest: in_set_takeD in_set_dropD)
  show ?thesis
  proof (rule sub_inv_same[OF assms(2)])
    show "\<forall>rc\<in>set (m_store m'). sr_depth rc \<le> max_depth m"
      using depth_update[of "m_store m" "max_depth m" r f] assms(2) r fin(2) by (simp add: m' sub_inv_def)
    show "\<forall>(t, r)\<in>set (m_running m'). r < length (m_store m)"
      using assms(2) sub by (fastforce simp: m' sub_inv_def)
    have "distinct (map snd (take k (m_running m) @ drop (Suc k) (m_running m)))"
    proof -
      have "distinct (map snd (m_running m))" using assms(2) by (simp add: sub_inv_def)
      then have "distinct (map snd (take k (m_running m) @ m_running m ! k # drop (Suc k) (m_running m)))"
        using id_take_nth_drop[OF p(2)] by simp
      then show ?thesis by auto
    qed
    then show "distinct (map snd (m_pool m') @ map snd (m_running m'))"
    proof -
      have "snd ` set (m_pool m) \<inter> snd ` set (m_running m) = {}"
        using assms(2) by (simp add: sub_inv_def)
      then have "snd ` set (m_pool m) \<inter> snd ` set (take k (m_running m) @ drop (Suc k) (m_running m)) = {}"
        using image_mono[OF sub, of snd] by blast
      then show ?thesis
        using assms(2) \<open>distinct (map snd (take k (m_running m) @ drop (Suc k) (m_running m)))\<close>
        by (auto simp: m' sub_inv_def)
    qed
    fix a u v assume *: "(u, v) \<in> set (m_pool m')" "finished (sr_state (m_store m' ! v))"
      "\<not> finished (sr_state (m_store m ! v))"
    then have "v = r" by (cases "v = r") (auto simp: m')
    then show "a \<in> m_cancelled m'" using nopool mem * by (fastforce simp: m')
  qed (use assms(2) p r fin in \<open>auto simp: m' sub_inv_def nth_list_update\<close>)
qed

lemma sub_inv_cancel:
  assumes "cancel tid m = (b, m')" "sub_inv m"
  shows "sub_inv m'"
proof (cases "b")
  case False
  then have "m' = m\<lparr>m_cancelled := insert tid (m_cancelled m)\<rparr>"
    using assms(1) by (auto simp: cancel_def Let_def split: option.splits if_splits)
  then show ?thesis using assms(2)
    by (intro sub_inv_same[OF assms(2)]) (auto simp: sub_inv_def)
next
  case True
  then obtain r where r: "map_of (m_records m) tid = Some r" "sr_state (m_store m ! r) = Queued"
    and m': "m' = set_event tid (upd_rec r (\<lambda>x. x\<lparr>sr_state := Cancelled\<rparr>)
        (m\<lparr>m_cancelled := insert tid (m_cancelled m)\<rparr>))"
    using assms(1) by (auto simp: cancel_def Let_def split: option.splits if_splits)
  have tr: "(tid, r) \<in> set (m_records m)" using r by (simp add: map_of_SomeD)
  have len: "r < length (m_store m)" using assms(2) tr by (fastforce simp: sub_inv_def)
  show ?thesis
  proof (rule sub_inv_same[OF assms(2)])
    show "\<forall>rc\<in>set (m_store m'). sr_depth rc \<le> max_depth m"
      unfolding m' using assms(2) by simp (rule depth_update[OF _ len], auto simp: sub_inv_def)
    fix a u v assume *: "(a, v) \<in> set (m_records m)" "finished (sr_state (m_store m' ! v))"
      "\<not> finished (sr_state (m_store m ! v))"
    then have "v = r" by (cases "v = r") (auto simp: m')
    then have "a = tid" using * tr assms(2) distinct_snd_eq[of "m_records m" a r tid]
      by (simp add: sub_inv_def)
    then show "a \<in> m_cancelled m'" by (simp add: m')
  qed (use assms(2) len in \<open>auto simp: m' sub_inv_def nth_list_update finished_def\<close>)
qed


lemma sub_inv_forget:
  assumes "forget_finished m = (n, m')" "sub_inv m"
  shows "sub_inv m'"
proof -
  define gone where "gone = set (map fst (filter (\<lambda>(t, r). finished (sr_state (m_store m ! r))) (m_records m)))"
  have m': "m' = m\<lparr>m_records := filter (\<lambda>(t, r). t \<notin> gone) (m_records m),
         m_events := filter (\<lambda>(t, e). t \<notin> gone) (m_events m),
         m_cancelled := m_cancelled m - gone\<rparr>"
    using assms(1) by (auto simp: forget_finished_def Let_def gone_def)
  have keep: "k \<notin> gone \<and> \<not> finished (sr_state (m_store m ! v))"
    if "(k, v) \<in> set (m_records m')" for k v
    using that by (force simp: m' gone_def)
  have "active_count m' \<le> active_count m"
    unfolding active_count_def m' by simp (rule length_filter_mono, auto)
  moreover have "\<forall>(t, r)\<in>set (m_records m'). \<forall>(u, r')\<in>set (m_pool m').
          r = r' \<longrightarrow> t_id u = t \<and> (finished (sr_state (m_store m' ! r)) \<longrightarrow> t \<in> m_cancelled m')"
  proof clarify
    fix t u r assume *: "(t, r) \<in> set (m_records m')" "(u, r) \<in> set (m_pool m')"
    have "(t, r) \<in> set (m_records m)" "(u, r) \<in> set (m_pool m)" using * by (auto simp: m')
    then have "t_id u = t" using assms(2) by (fastforce simp: sub_inv_def)
    then show "t_id u = t \<and> (finished (sr_state (m_store m' ! r)) \<longrightarrow> t \<in> m_cancelled m')"
      using keep[OF *(1)] by (simp add: m')
  qed
  moreover have "set (m_records m') \<subseteq> set (m_records m)" by (auto simp: m')
  moreover have "distinct (map fst (m_records m'))" "distinct (map snd (m_records m'))"
    using assms(2) by (auto simp: m' sub_inv_def filter_map_distinct)
  moreover have "m_store m' = m_store m" "m_pool m' = m_pool m" "m_running m' = m_running m"
    "max_active m' = max_active m" "max_depth m' = max_depth m"
    by (simp_all add: m')
  ultimately show ?thesis
    using assms(2) unfolding sub_inv_def by auto
qed

lemma sub_inv_step: "sub_step m m' \<Longrightarrow> sub_inv m \<Longrightarrow> sub_inv m'"
  by (induction rule: sub_step.induct)
     (blast intro: sub_inv_spawn sub_inv_start sub_inv_finish sub_inv_cancel sub_inv_forget)+

lemma sub_inv_reach: "sub_reach a d m \<Longrightarrow> sub_inv m"
  by (induction rule: sub_reach.induct) (auto intro: sub_inv_step sub_inv_new)

lemma step_limits: "sub_step m m' \<Longrightarrow> max_active m' = max_active m \<and> max_depth m' = max_depth m"
  by (induction rule: sub_step.induct)
     (auto simp: spawn_def run_start_def run_finish_def cancel_def forget_finished_def Let_def
       split: if_splits list.splits option.splits prod.splits)

lemma reach_limits: "sub_reach a d m \<Longrightarrow> max_active m = max 1 a \<and> max_depth m = max 1 d"
  by (induction rule: sub_reach.induct) (auto simp: step_limits, simp_all add: new_manager_def)

text \<open>C23: whatever the order of spawns, worker starts and ends, cancellations and clean-ups, a
  manager never has more than \<open>max_active\<close> children queued or running in its table, never more than
  \<open>max_active\<close> inside \<open>execute\<close>, and never accepts one deeper than \<open>max_depth\<close>.\<close>

theorem subtask_limits:
  assumes "sub_reach a d m"
  shows "int (active_count m) \<le> max 1 a \<and> int (length (m_running m)) \<le> max 1 a \<and>
    (\<forall>rc \<in> set (m_store m). sr_depth rc \<le> max 1 d)"
  using sub_inv_reach[OF assms] reach_limits[OF assms] by (simp add: sub_inv_def)

definition demo_sub :: "string \<Rightarrow> int \<Rightarrow> subtask" where
  "demo_sub i d = \<lparr>t_id = i, t_kind = ''shell'', t_payload = [], t_priority = PStr ''normal'',
     st_parent_id = None, st_depth = d\<rparr>"

theorem subtask_limits_witness:
  "\<exists>m. sub_reach 1 4 m \<and> active_count m = 1 \<and> int (active_count m) \<le> max 1 1 \<and>
     spawn (demo_sub ''b'' 1) m = Inl TooMany \<and> spawn (demo_sub ''c'' 5) m = Inl (TooDeep 5)"
proof -
  obtain p where p: "spawn (demo_sub ''a'' 1) (new_manager 1 4) = Inr p"
    by (simp add: spawn_def demo_sub_def new_manager_def rec_of_def active_count_def Let_def)
  then have reach: "sub_reach 1 4 (snd p)"
    by (cases p) (auto intro: sub_next[OF sub_init] s_spawn)
  have "active_count (snd p) = 1" "spawn (demo_sub ''b'' 1) (snd p) = Inl TooMany"
    "spawn (demo_sub ''c'' 5) (snd p) = Inl (TooDeep 5)"
    using p by (auto simp: spawn_def demo_sub_def new_manager_def rec_of_def active_count_def Let_def finished_def)
  then show ?thesis using reach subtask_limits[OF reach] by auto
qed

subsection \<open>Forgetting a cancelled child\<close>

text \<open>A child is spawned and cancelled while queued, finished records are forgotten, and only then
  does a worker reach its job.\<close>

definition cancel_forget_start :: "manager option" where
  "cancel_forget_start =
     (case spawn (demo_sub ''a'' 1) (new_manager 1 4) of Inl e \<Rightarrow> None
      | Inr (r, m) \<Rightarrow> (case cancel ''a'' m of (ok, m1) \<Rightarrow>
          if ok then run_start (snd (forget_finished m1)) else None))"

text \<open>\<open>cancel\<close> reports success, and the child is executed all the same: the clean-up drops the mark
  the worker checks.\<close>

theorem forget_revives_cancelled:
  "\<exists>m. cancel_forget_start = Some m \<and> map (\<lambda>(t, r). t_id t) (m_running m) = [''a'']"
proof -
  have "map_option (\<lambda>m. map (\<lambda>(t, r). t_id t) (m_running m)) cancel_forget_start = Some [''a'']"
    by code_simp
  then show ?thesis by auto
qed

text \<open>Without the clean-up the worker drops the job.\<close>

lemma cancelled_job_not_run:
  assumes "m_pool m = (t, r) # js" "t_id t \<in> m_cancelled m" "run_start m = Some m'"
  shows "m_running m' = m_running m" "m_pool m' = js"
  using assms by (auto simp: run_start_def split: if_splits)

subsection \<open>Waiting for children\<close>

lemma await_loop_bounds:
  "now \<le> deadline \<Longrightarrow> await_loop f deadline all known ts now to = (now', to') \<Longrightarrow> now \<le> now' \<and> now' \<le> deadline"
proof (induction ts arbitrary: now to)
  case (Cons t ts)
  obtain n ok where w: "wait_event f t now (deadline - now) = (n, ok)" by fastforce
  have n: "now \<le> n" "n \<le> deadline"
    using w Cons.prems(1) by (auto simp: wait_event_def split: option.splits if_splits)
  show ?case
    using Cons.prems w n Cons.IH[of now True] Cons.IH[of n to] Cons.IH[of n True]
    by (auto simp: Let_def split: if_splits)
qed auto

lemma await_loop_all:
  assumes "\<forall>t \<in> set ts. \<exists>u s. f t = Some (u, s) \<and> u < deadline" "now < deadline"
  shows "\<exists>now'. await_loop f deadline True known ts now False = (now', False) \<and> now \<le> now' \<and>
     (\<forall>t \<in> set ts. ended f now' t) \<and> (now' = now \<or> (\<exists>t \<in> set ts. \<exists>s. f t = Some (now', s)))"
  using assms
proof (induction ts arbitrary: now)
  case (Cons t ts)
  obtain u s where u: "f t = Some (u, s)" "u < deadline" using Cons.prems by auto
  have w: "wait_event f t now (deadline - now) = (max now u, True)"
    using u by (auto simp: wait_event_def max_def)
  have "max now u < deadline" using u Cons.prems by simp
  then obtain n where n: "await_loop f deadline True known ts (max now u) False = (n, False)" "max now u \<le> n"
    "\<forall>t \<in> set ts. ended f n t" "n = max now u \<or> (\<exists>t \<in> set ts. \<exists>s. f t = Some (n, s))"
    using Cons.IH[of "max now u"] Cons.prems by auto
  have "ended f n t" using u n(2) by (simp add: ended_def)
  moreover have "n = now \<or> (\<exists>t' \<in> set (t # ts). \<exists>s. f t' = Some (n, s))"
    using n(4) u by (auto simp: max_def split: if_splits)
  ultimately show ?case
    using n w Cons.prems by (intro exI[of _ n]) (auto simp: Let_def)
qed auto

text \<open>Awaiting known children that all finish before the deadline returns at the moment the last
  of them finishes (or at once), names them all as completed and none as pending, does not report
  a timeout, and is ok exactly when every one succeeded.\<close>

theorem await_all_prompt:
  assumes "ids \<noteq> []" "0 < timeout" "\<forall>t \<in> set ids. known t"
    "\<forall>t \<in> set ids. \<exists>u s. f t = Some (u, s) \<and> u < now + timeout"
  shows "let r = await_tasks known f ids timeout True now in
     aw_completed r = ids \<and> aw_pending r = [] \<and> aw_unknown r = [] \<and> \<not> aw_timed_out r \<and>
     (aw_at r = now \<or> (\<exists>t \<in> set ids. \<exists>s. f t = Some (aw_at r, s))) \<and>
     aw_ok r = (\<forall>t \<in> set ids. \<exists>u. f t = Some (u, Succeeded))"
proof -
  have k: "filter known ids = ids" "filter (\<lambda>t. \<not> known t) ids = []"
    using assms(3) by (auto simp: filter_id_conv filter_empty_conv)
  have d: "now + max 0 timeout = now + timeout" using assms(2) by simp
  obtain n where n: "await_loop f (now + timeout) True ids (rev (remdups (rev ids))) now False = (n, False)"
    "\<forall>t \<in> set ids. ended f n t" "n = now \<or> (\<exists>t \<in> set ids. \<exists>s. f t = Some (n, s))"
    using await_loop_all[of "rev (remdups (rev ids))" f "now + timeout" now ids] assms(2,4) by auto
  have "filter (ended f n) ids = ids" "filter (\<lambda>t. \<not> ended f n t) ids = []"
    using n(2) by (auto simp: filter_id_conv filter_empty_conv)
  moreover have "list_all (\<lambda>t. case f t of Some (u, s) \<Rightarrow> s = Succeeded | None \<Rightarrow> False) ids =
      (\<forall>t \<in> set ids. \<exists>u. f t = Some (u, Succeeded))"
    using assms(4) by (fastforce simp: list_all_iff split: option.splits)
  ultimately show ?thesis
    using n assms(1) by (simp add: await_tasks_def k d Let_def)
qed

definition demo_ends :: ends where
  "demo_ends t = (if t = ''a'' then Some (5, Succeeded) else if t = ''b'' then Some (2, Failed) else None)"

theorem await_all_prompt_witness:
  "aw_completed (await_tasks (\<lambda>t. True) demo_ends [''a'', ''b''] 10 True 0) = [''a'', ''b''] \<and>
   aw_at (await_tasks (\<lambda>t. True) demo_ends [''a'', ''b''] 10 True 0) = 5 \<and>
   \<not> aw_ok (await_tasks (\<lambda>t. True) demo_ends [''a'', ''b''] 10 True 0)"
proof -
  have "aw_at (await_tasks (\<lambda>t. True) demo_ends [''a'', ''b''] 10 True 0) = 5"
    by (simp add: await_tasks_def demo_ends_def wait_event_def Let_def)
  then show ?thesis
    using await_all_prompt[of "[''a'', ''b'']" 10 "\<lambda>t. True" demo_ends 0]
    by (simp add: demo_ends_def Let_def)
qed

text \<open>Asked for the first of several (\<open>require_all=False\<close>), \<open>await_tasks\<close> waits for the first id in the
  list: with \<open>c\<close> never ending it returns at the full timeout although \<open>b\<close> finished at time 2.\<close>

theorem await_any_waits_for_first:
  "aw_at (await_tasks (\<lambda>t. True) demo_ends [''c'', ''b''] 300 False 0) = 300 \<and>
   aw_completed (await_tasks (\<lambda>t. True) demo_ends [''c'', ''b''] 300 False 0) = [''b'']"
  by (simp add: await_tasks_def demo_ends_def wait_event_def ended_def Let_def)

end
