(* ===== verification/Glob.thy ===== *)
theory Glob
  imports Prelude
begin

text \<open>
  Shell patterns as \<open>fnmatch.fnmatchcase\<close> of the standard library reads them: \<open>*\<close>, \<open>?\<close>,
  \<open>[seq]\<close> and \<open>[!seq]\<close>, everything else literal, the whole text matched. Used by the policy
  engine, the result index of the task queue, the file watch and the policy linter.

  A bracket whose closing \<open>]\<close> is missing is a literal; ranges are read left to right, and a
  reversed range matches nothing.
\<close>

datatype gtok = GStar | GAny | GLit char | GClass bool "(char \<times> char) list"

text \<open>The body of a bracket: ranges \<open>a-b\<close> and single characters.\<close>

fun class_items :: "string \<Rightarrow> (char \<times> char) list" where
  "class_items [] = []"
| "class_items [a] = [(a, a)]"
| "class_items [a, b] = [(a, a), (b, b)]"
| "class_items (a # b # c # cs) =
     (if b = CHR ''-'' then (a, c) # class_items cs else (a, a) # class_items (b # c # cs))"

text \<open>Split after an opening bracket: the body and the rest, when the bracket is closed. A
  leading \<open>!\<close> and a \<open>]\<close> in first place belong to the body.\<close>

definition split_close :: "string \<Rightarrow> (string \<times> string) option" where
  "split_close s =
     (let neg = (s \<noteq> [] \<and> hd s = CHR ''!''); s1 = (if neg then tl s else s);
          fst_close = (s1 \<noteq> [] \<and> hd s1 = CHR '']''); s2 = (if fst_close then tl s1 else s1);
          body = takeWhile (\<lambda>c. c \<noteq> CHR '']'') s2; rest = dropWhile (\<lambda>c. c \<noteq> CHR '']'') s2 in
      case rest of [] \<Rightarrow> None
      | _ # rest' \<Rightarrow> Some ((if neg then ''!'' else []) @ (if fst_close then '']'' else []) @ body, rest'))"

definition mk_class :: "string \<Rightarrow> gtok" where
  "mk_class body = (case body of [] \<Rightarrow> GClass False []
     | c # cs \<Rightarrow> if c = CHR ''!'' then GClass True (class_items cs) else GClass False (class_items (c # cs)))"

lemma split_close_length: "split_close s = Some (b, r) \<Longrightarrow> length r < length s"
proof -
  assume *: "split_close s = Some (b, r)"
  define s1 where "s1 = (if s \<noteq> [] \<and> hd s = CHR ''!'' then tl s else s)"
  define s2 where "s2 = (if s1 \<noteq> [] \<and> hd s1 = CHR '']'' then tl s1 else s1)"
  have "length s2 \<le> length s"
    by (auto simp: s1_def s2_def)
  moreover obtain x where "dropWhile (\<lambda>c. c \<noteq> CHR '']'') s2 = x # r"
    using * unfolding split_close_def Let_def s1_def[symmetric] s2_def[symmetric]
    by (auto split: list.splits)
  then have "length r < length s2"
    using length_dropWhile_le[of "\<lambda>c. c \<noteq> CHR '']''" s2] by simp
  ultimately show ?thesis by simp
qed

function glob_parse :: "string \<Rightarrow> gtok list" where
  "glob_parse [] = []"
| "glob_parse (c # cs) =
     (if c = CHR ''*'' then GStar # glob_parse cs
      else if c = CHR ''?'' then GAny # glob_parse cs
      else if c = CHR ''['' then
        (case split_close cs of None \<Rightarrow> GLit c # glob_parse cs
         | Some (body, rest) \<Rightarrow> mk_class body # glob_parse rest)
      else GLit c # glob_parse cs)"
  by pat_completeness auto
termination
  by (relation "measure length") (auto dest: split_close_length)

fun in_class :: "(char \<times> char) list \<Rightarrow> char \<Rightarrow> bool" where
  "in_class [] c = False"
| "in_class ((a, b) # rs) c = ((code a \<le> code c \<and> code c \<le> code b) \<or> in_class rs c)"

fun glob_match :: "gtok list \<Rightarrow> string \<Rightarrow> bool" where
  "glob_match [] s = (s = [])"
| "glob_match (GStar # ts) [] = glob_match ts []"
| "glob_match (GStar # ts) (c # cs) = (glob_match ts (c # cs) \<or> glob_match (GStar # ts) cs)"
| "glob_match (GAny # ts) s = (case s of [] \<Rightarrow> False | c # cs \<Rightarrow> glob_match ts cs)"
| "glob_match (GLit x # ts) s = (case s of [] \<Rightarrow> False | c # cs \<Rightarrow> c = x \<and> glob_match ts cs)"
| "glob_match (GClass neg rs # ts) s =
     (case s of [] \<Rightarrow> False | c # cs \<Rightarrow> in_class rs c \<noteq> neg \<and> glob_match ts cs)"

definition fnmatchcase :: "string \<Rightarrow> string \<Rightarrow> bool" where
  "fnmatchcase name pat = glob_match (glob_parse pat) name"

subsection \<open>What patterns mean\<close>

definition plain_char :: "char \<Rightarrow> bool" where
  "plain_char c = (c \<notin> {CHR ''*'', CHR ''?'', CHR ''[''})"

definition plain :: "string \<Rightarrow> bool" where
  "plain s = list_all plain_char s"

lemma glob_parse_plain [simp]: "plain s \<Longrightarrow> glob_parse (s @ r) = map GLit s @ glob_parse r"
  by (induction s) (auto simp: plain_def plain_char_def)

lemma glob_match_lits [simp]:
  "glob_match (map GLit p @ ts) s = (\<exists>r. s = p @ r \<and> glob_match ts r)"
proof (induction p arbitrary: s)
  case (Cons x p)
  then show ?case by (cases s) auto
qed simp

lemma glob_match_star: "glob_match (GStar # ts) s = (\<exists>a b. s = a @ b \<and> glob_match ts b)"
proof (induction s)
  case Nil
  then show ?case by simp
next
  case (Cons c s)
  show ?case
  proof
    assume "glob_match (GStar # ts) (c # s)"
    then show "\<exists>a b. c # s = a @ b \<and> glob_match ts b"
      using Cons by simp (metis append_Cons append_Nil)
  next
    assume "\<exists>a b. c # s = a @ b \<and> glob_match ts b"
    then obtain a b where "c # s = a @ b" "glob_match ts b" by blast
    then show "glob_match (GStar # ts) (c # s)"
      using Cons by (cases a) auto
  qed
qed

lemma fnmatch_plain: "plain p \<Longrightarrow> fnmatchcase s p = (s = p)"
  using glob_parse_plain[of p "[]"] glob_match_lits[of p "[]" s] by (simp add: fnmatchcase_def)

lemma glob_match_star_last [simp]: "glob_match [GStar] s"
  by (induction s) auto

lemma fnmatch_prefix: "plain p \<Longrightarrow> fnmatchcase s (p @ ''*'') = prefix p s"
  by (simp add: fnmatchcase_def prefix_def)

lemma fnmatch_suffix:
  assumes "plain p" shows "fnmatchcase s (CHR ''*'' # p) = suffix p s"
proof -
  have "glob_match (map GLit p) r = (r = p)" for r
    using glob_match_lits[of p "[]" r] by simp
  then show ?thesis
    using glob_parse_plain[OF assms, of "[]"]
    by (simp add: fnmatchcase_def glob_match_star suffix_def)
qed

lemma fnmatch_infix: "plain p \<Longrightarrow> fnmatchcase s (CHR ''*'' # p @ ''*'') = sublist p s"
  by (auto simp: fnmatchcase_def glob_match_star sublist_def)

lemma fnmatch_all [simp]: "fnmatchcase s ''*''"
  by (simp add: fnmatchcase_def)

end
