(* ===== verification/Kvstore.thy ===== *)
theory Kvstore
  imports Prelude
begin

text \<open>
  The contract of a store of values under keys, and what a client may rely on: a history of writes and deletions
  acts on the store as it does on a finite map. The memory table, the secrets vault and the session registry of the
  executor are such stores.
\<close>

datatype ('k, 'v) kv_op = Put 'k 'v | Del 'k

text \<open>The history on the abstract map.\<close>

primrec kv_spec :: "('k, 'v) kv_op \<Rightarrow> ('k \<rightharpoonup> 'v) \<Rightarrow> ('k \<rightharpoonup> 'v)" where
  "kv_spec (Put k v) m = m(k \<mapsto> v)"
| "kv_spec (Del k) m = m(k := None)"

primrec kv_key :: "('k, 'v) kv_op \<Rightarrow> 'k" where
  "kv_key (Put k v) = k"
| "kv_key (Del k) = k"

locale kv_store =
  fixes valid :: "'s \<Rightarrow> bool" and admits :: "'k \<Rightarrow> 'v \<Rightarrow> bool"
    and lookup :: "'s \<Rightarrow> 'k \<Rightarrow> 'v option" and put :: "'k \<Rightarrow> 'v \<Rightarrow> 's \<Rightarrow> 's" and del :: "'k \<Rightarrow> 's \<Rightarrow> 's"
  assumes valid_put: "valid s \<Longrightarrow> admits k v \<Longrightarrow> valid (put k v s)"
    and valid_del: "valid s \<Longrightarrow> valid (del k s)"
    and lookup_put: "valid s \<Longrightarrow> admits k v \<Longrightarrow> lookup (put k v s) = (lookup s)(k \<mapsto> v)"
    and lookup_del: "valid s \<Longrightarrow> lookup (del k s) = (lookup s)(k := None)"
begin

primrec step :: "('k, 'v) kv_op \<Rightarrow> 's \<Rightarrow> 's" where
  "step (Put k v) s = put k v s"
| "step (Del k) s = del k s"

primrec admitted :: "('k, 'v) kv_op \<Rightarrow> bool" where
  "admitted (Put k v) = admits k v"
| "admitted (Del k) = True"

lemma step_valid: "valid s \<Longrightarrow> admitted x \<Longrightarrow> valid (step x s)"
  by (cases x) (auto simp: valid_put valid_del)

lemma lookup_step: "valid s \<Longrightarrow> admitted x \<Longrightarrow> lookup (step x s) = kv_spec x (lookup s)"
  by (cases x) (auto simp: lookup_put lookup_del)

text \<open>The simulation, for histories of any length.\<close>

lemma run_valid: "valid s \<Longrightarrow> list_all admitted xs \<Longrightarrow> valid (fold step xs s)"
  by (induction xs arbitrary: s) (auto simp: step_valid)

lemma lookup_run: "valid s \<Longrightarrow> list_all admitted xs \<Longrightarrow> lookup (fold step xs s) = fold kv_spec xs (lookup s)"
  by (induction xs arbitrary: s) (auto simp: step_valid lookup_step)

text \<open>Only the last operation on a key counts.\<close>

lemma spec_last: "fold kv_spec xs m k = (case find (\<lambda>x. kv_key x = k) (rev xs) of
    None \<Rightarrow> m k | Some (Put _ v) \<Rightarrow> Some v | Some (Del _) \<Rightarrow> None)"
proof (induction xs rule: rev_induct)
  case (snoc x xs)
  then show ?case by (cases x) auto
qed simp

lemma lookup_last:
  assumes "valid s" "list_all admitted xs"
  shows "lookup (fold step xs s) k = (case find (\<lambda>x. kv_key x = k) (rev xs) of
    None \<Rightarrow> lookup s k | Some (Put _ v) \<Rightarrow> Some v | Some (Del _) \<Rightarrow> None)"
  using lookup_run[OF assms] spec_last by metis

lemma other_keys:
  assumes "valid s" "list_all admitted xs" "k \<notin> kv_key ` set xs"
  shows "lookup (fold step xs s) k = lookup s k"
proof -
  have "find (\<lambda>x. kv_key x = k) (rev xs) = None" using assms(3) by (auto simp: find_None_iff)
  then show ?thesis using lookup_last[OF assms(1,2)] by simp
qed

end

text \<open>A Python dictionary is such a store.\<close>

interpretation py_dict: kv_store "\<lambda>_. True" "\<lambda>_ _. True" map_of "\<lambda>k v d. dict_set d k v" "\<lambda>k d. dict_del d k"
  by unfold_locales (simp_all add: update_conv' delete_conv')

end
