(* ===== verification/Vault.thy ===== *)
theory Vault
  imports Prelude Kvstore
begin

text \<open>
  \<open>agent/secrets_vault.py\<close>: the placeholders \<open>{{secret:name}}\<close>, masking and redaction, and the
  encrypted store. The Fernet cipher (keyed off the agent's private key) is a parameter, a pair of
  functions on the store's contents; reading a store serialised with sorted keys gives the sorted
  association list back, so the JSON text between is left out. The process-wide registry of known
  values is a list, in the order the set is iterated. Every operation of the vault returns its
  result or error with the new state, whose audit trail holds names only.
\<close>

subsection \<open>Placeholders\<close>

definition name_char :: "char \<Rightarrow> bool" where
  "name_char c = (let n = code c in (65 \<le> n \<and> n \<le> 90) \<or> (97 \<le> n \<and> n \<le> 122) \<or> (48 \<le> n \<and> n \<le> 57)
     \<or> n = 95 \<or> n = 46 \<or> n = 45)"

definition ph_open :: string where
  "ph_open = ''{{secret:''"

text \<open>\<open>PLACEHOLDER_RE\<close> at the front of the text: the name and what follows.\<close>

definition match_ph :: "string \<Rightarrow> (string \<times> string) option" where
  "match_ph s =
     (if \<not> prefix ph_open s then None
      else (let r = drop (length ph_open) s; name = takeWhile name_char r; rest = dropWhile name_char r in
        if name = [] \<or> length name > 64 \<or> \<not> prefix ''}}'' rest then None else Some (name, drop 2 rest)))"

lemma match_ph_length: "match_ph s = Some (n, r) \<Longrightarrow> length r < length s"
proof -
  assume *: "match_ph s = Some (n, r)"
  have p: "prefix ph_open s" and r: "r = drop 2 (dropWhile name_char (drop (length ph_open) s))"
    using * by (auto simp: match_ph_def Let_def split: if_splits)
  have "length r \<le> length (drop (length ph_open) s)"
    unfolding r using length_dropWhile_le[of name_char "drop (length ph_open) s"] by simp
  moreover have "length ph_open \<le> length s" "length ph_open = 9"
    using p by (auto simp: prefix_def ph_open_def)
  ultimately show ?thesis by simp
qed

function find_ph :: "string \<Rightarrow> string list" where
  "find_ph [] = []"
| "find_ph (c # cs) = (case match_ph (c # cs) of
       None \<Rightarrow> find_ph cs | Some (n, r) \<Rightarrow> n # find_ph r)"
  by pat_completeness auto
termination
  by (relation "measure length") (auto dest: match_ph_length)

function sub_ph :: "(string \<Rightarrow> string) \<Rightarrow> string \<Rightarrow> string" where
  "sub_ph g [] = []"
| "sub_ph g (c # cs) = (case match_ph (c # cs) of
       None \<Rightarrow> c # sub_ph g cs | Some (n, r) \<Rightarrow> g n @ sub_ph g r)"
  by pat_completeness auto
termination
  by (relation "measure (\<lambda>(g, s). length s)") (auto dest: match_ph_length)

fun first_seen :: "'a list \<Rightarrow> 'a list \<Rightarrow> 'a list" where
  "first_seen seen [] = seen"
| "first_seen seen (x # xs) = first_seen (if x \<in> set seen then seen else seen @ [x]) xs"

definition referenced_names :: "string \<Rightarrow> string list" where
  "referenced_names text = first_seen [] (find_ph text)"

definition has_placeholder :: "string \<Rightarrow> bool" where
  "has_placeholder text = (find_ph text \<noteq> [])"

subsection \<open>Masking and redaction\<close>

definition REDACTED :: string where
  "REDACTED = ''***REDACTED***''"

definition MIN_REDACT_LEN :: nat where
  "MIN_REDACT_LEN = 4"

definition register_value :: "string \<Rightarrow> string list \<Rightarrow> string list" where
  "register_value v known = (if length v \<ge> MIN_REDACT_LEN \<and> v \<notin> set known then known @ [v] else known)"

definition candidates :: "string list \<Rightarrow> string list \<Rightarrow> string list" where
  "candidates known values = first_seen known (filter (\<lambda>v. length v \<ge> MIN_REDACT_LEN) values)"

definition redact :: "string list \<Rightarrow> string \<Rightarrow> string list \<Rightarrow> string" where
  "redact known text values =
     fold (\<lambda>v t. if contains v t then replace_occ v REDACTED t else t)
       (sort_key (\<lambda>v. - int (length v)) (candidates known values)) text"

definition mask_name :: "string \<Rightarrow> string" where
  "mask_name n = ''<vault:'' @ n @ ''>''"

definition mask_text :: "string list \<Rightarrow> string \<Rightarrow> string" where
  "mask_text known text = redact known (sub_ph mask_name text) []"

subsection \<open>The vault\<close>

type_synonym store = "(string \<times> string) list"

record 'b cipher =
  encrypt :: "store \<Rightarrow> 'b"
  decrypt :: "'b \<Rightarrow> store option"
  key_exists :: bool

record audit_line =
  au_action :: string
  au_name :: string
  au_outcome :: string

record 'b vault =
  v_file :: "'b option"
  v_known :: "string list"
  v_audit :: "audit_line list"

datatype vault_error = BadName string | Unavailable | CannotDecrypt | Missing string

definition check_name :: "string \<Rightarrow> bool" where
  "check_name name = (name \<noteq> [] \<and> length name \<le> 64 \<and> list_all name_char name)"

definition load :: "'b cipher \<Rightarrow> 'b vault \<Rightarrow> vault_error + store" where
  "load c v = (case v_file v of None \<Rightarrow> Inr []
     | Some b \<Rightarrow> if \<not> key_exists c then Inl Unavailable
         else case decrypt c b of None \<Rightarrow> Inl CannotDecrypt | Some d \<Rightarrow> Inr d)"

text \<open>The store is written with its keys sorted.\<close>

definition save :: "'b cipher \<Rightarrow> store \<Rightarrow> 'b vault \<Rightarrow> vault_error + 'b vault" where
  "save c d v = (if \<not> key_exists c then Inl Unavailable
     else Inr (v\<lparr>v_file := Some (encrypt c (sort_key fst d))\<rparr>))"

definition audited :: "string \<Rightarrow> string \<Rightarrow> string \<Rightarrow> 'b vault \<Rightarrow> 'b vault" where
  "audited action name outcome v =
     v\<lparr>v_audit := v_audit v @ [\<lparr>au_action = action, au_name = name, au_outcome = outcome\<rparr>]\<rparr>"

definition vault_set :: "'b cipher \<Rightarrow> string \<Rightarrow> string \<Rightarrow> 'b vault \<Rightarrow> vault_error + 'b vault" where
  "vault_set c name val v =
     (if \<not> check_name name then Inl (BadName name)
      else case load c v of Inl e \<Rightarrow> Inl e
      | Inr d \<Rightarrow> (case save c (dict_set d name val) v of Inl e \<Rightarrow> Inl e
          | Inr v' \<Rightarrow> Inr (audited ''secret_set'' name ''ok'' v')))"

definition vault_get :: "'b cipher \<Rightarrow> string \<Rightarrow> 'b vault \<Rightarrow> (vault_error + string) \<times> 'b vault" where
  "vault_get c name v =
     (if \<not> check_name name then (Inl (BadName name), v)
      else case load c v of Inl e \<Rightarrow> (Inl e, v)
      | Inr d \<Rightarrow> (case map_of d name of
          None \<Rightarrow> (Inl (Missing name), audited ''secret_get'' name ''deny'' v)
        | Some val \<Rightarrow> (Inr val, (audited ''secret_get'' name ''ok'' v)\<lparr>v_known := register_value val (v_known v)\<rparr>)))"

definition vault_delete :: "'b cipher \<Rightarrow> string \<Rightarrow> 'b vault \<Rightarrow> vault_error + (bool \<times> 'b vault)" where
  "vault_delete c name v =
     (if \<not> check_name name then Inl (BadName name)
      else case load c v of Inl e \<Rightarrow> Inl e
      | Inr d \<Rightarrow> (if map_of d name = None then Inr (False, v)
          else (case save c (dict_del d name) v of Inl e \<Rightarrow> Inl e
             | Inr v' \<Rightarrow> Inr (True, audited ''secret_delete'' name ''ok'' v'))))"

definition vault_names :: "'b cipher \<Rightarrow> 'b vault \<Rightarrow> vault_error + string list" where
  "vault_names c v = (case load c v of Inl e \<Rightarrow> Inl e | Inr d \<Rightarrow> Inr (sort (map fst d)))"

fun get_all :: "'b cipher \<Rightarrow> string list \<Rightarrow> 'b vault \<Rightarrow> (vault_error + store) \<times> 'b vault" where
  "get_all c [] v = (Inr [], v)"
| "get_all c (n # ns) v = (case vault_get c n v of
       (Inl e, v') \<Rightarrow> (Inl e, v')
     | (Inr val, v') \<Rightarrow> (case get_all c ns v' of
          (Inl e, v'') \<Rightarrow> (Inl e, v'') | (Inr used, v'') \<Rightarrow> (Inr ((n, val) # used), v'')))"

definition resolve :: "'b cipher \<Rightarrow> string \<Rightarrow> 'b vault \<Rightarrow> (vault_error + (string \<times> store)) \<times> 'b vault" where
  "resolve c text v =
     (let names = referenced_names text in
      if names = [] then (Inr (text, []), v)
      else case get_all c names v of (Inl e, v') \<Rightarrow> (Inl e, v')
      | (Inr used, v') \<Rightarrow> (Inr (sub_ph (\<lambda>n. case map_of used n of None \<Rightarrow> [] | Some x \<Rightarrow> x) text, used), v'))"

definition merge :: "store \<Rightarrow> store \<Rightarrow> store" where
  "merge used u = fold (\<lambda>(k, x) d. dict_set d k x) u used"

function (sequential) resolve_structure ::
  "'b cipher \<Rightarrow> pyval \<Rightarrow> 'b vault \<Rightarrow> (vault_error + (pyval \<times> store)) \<times> 'b vault"
and resolve_items ::
  "'b cipher \<Rightarrow> dict \<Rightarrow> store \<Rightarrow> 'b vault \<Rightarrow> (vault_error + (dict \<times> store)) \<times> 'b vault"
and resolve_list ::
  "'b cipher \<Rightarrow> pyval list \<Rightarrow> store \<Rightarrow> 'b vault \<Rightarrow> (vault_error + (pyval list \<times> store)) \<times> 'b vault" where
  "resolve_structure c (PStr s) v = (case resolve c s v of
       (Inl e, v') \<Rightarrow> (Inl e, v') | (Inr (t, u), v') \<Rightarrow> (Inr (PStr t, u), v'))"
| "resolve_structure c (PDict d) v = (case resolve_items c d [] v of
       (Inl e, v') \<Rightarrow> (Inl e, v') | (Inr (d', u), v') \<Rightarrow> (Inr (PDict d', u), v'))"
| "resolve_structure c (PList xs) v = (case resolve_list c xs [] v of
       (Inl e, v') \<Rightarrow> (Inl e, v') | (Inr (ys, u), v') \<Rightarrow> (Inr (PList ys, u), v'))"
| "resolve_structure c x v = (Inr (x, []), v)"
| "resolve_items c [] used v = (Inr ([], used), v)"
| "resolve_items c ((k, x) # d) used v = (case resolve_structure c x v of
       (Inl e, v') \<Rightarrow> (Inl e, v')
     | (Inr (y, u), v') \<Rightarrow> (case resolve_items c d (merge used u) v' of
          (Inl e, v'') \<Rightarrow> (Inl e, v'') | (Inr (d', us), v'') \<Rightarrow> (Inr ((k, y) # d', us), v'')))"
| "resolve_list c [] used v = (Inr ([], used), v)"
| "resolve_list c (x # xs) used v = (case resolve_structure c x v of
       (Inl e, v') \<Rightarrow> (Inl e, v')
     | (Inr (y, u), v') \<Rightarrow> (case resolve_list c xs (merge used u) v' of
          (Inl e, v'') \<Rightarrow> (Inl e, v'') | (Inr (ys, us), v'') \<Rightarrow> (Inr (y # ys, us), v'')))"
  by pat_completeness auto
termination
  by (relation "measure (\<lambda>x. case x of
       Inl (c, x, v) \<Rightarrow> size x
     | Inr (Inl (c, d, u, v)) \<Rightarrow> size_list (size_prod (\<lambda>_. 0) size) d
     | Inr (Inr (c, xs, u, v)) \<Rightarrow> size_list size xs)") auto

definition resolve_with :: "'b cipher \<Rightarrow> 'b vault option \<Rightarrow> string \<Rightarrow> (vault_error + (string \<times> store)) \<times> 'b vault option" where
  "resolve_with c vo text =
     (if \<not> has_placeholder text then (Inr (text, []), vo)
      else case vo of None \<Rightarrow> (Inl Unavailable, None)
      | Some v \<Rightarrow> if \<not> key_exists c then (Inl Unavailable, Some v)
          else (case resolve c text v of (r, v') \<Rightarrow> (r, Some v')))"

subsection \<open>Redaction removes the values\<close>

lemma sublist_split_at:
  assumes "sublist v (x @ c # y)" "c \<notin> set v"
  shows "sublist v x \<or> sublist v y"
proof -
  obtain p q where e: "x @ c # y = p @ v @ q" using assms(1) by (auto simp: sublist_def)
  show ?thesis
  proof (cases "length p + length v \<le> length x")
    case True
    define n where "n = length (p @ v)"
    have "take n (x @ c # y) = take n x" using True by (simp add: n_def)
    moreover have "take n (x @ c # y) = p @ v" unfolding e by (simp add: n_def)
    ultimately have "x = p @ v @ drop n x" by (metis append_assoc append_take_drop_id)
    then show ?thesis by (metis sublist_def)
  next
    case False
    have "length x < length p \<or> length p \<le> length x" by auto
    then show ?thesis
    proof
      assume l: "length x < length p"
      have "drop (Suc (length x)) (x @ c # y) = drop (Suc (length x)) p @ v @ q"
        unfolding e using l by simp
      then have "y = drop (Suc (length x)) p @ v @ q" by simp
      then show ?thesis by (metis sublist_def)
    next
      assume l: "length p \<le> length x"
      have "(x @ c # y) ! length x = (p @ v @ q) ! length x" using e by simp
      moreover have lt: "length x - length p < length v" using l False by simp
      ultimately have "c = v ! (length x - length p)" using l by (simp add: nth_append)
      moreover note lt
      ultimately show ?thesis using assms(2) by (metis nth_mem)
    qed
  qed
qed

definition star :: char where
  "star = CHR ''*''"

text \<open>A value the marker cannot produce or complete: no asterisk, and not a part of its word.\<close>

definition clean_value :: "string \<Rightarrow> bool" where
  "clean_value v = (star \<notin> set v \<and> \<not> sublist v ''REDACTED'' \<and> v \<noteq> [])"

lemma sublist_marker:
  assumes "clean_value v" "sublist v (x @ REDACTED @ y)"
  shows "sublist v x \<or> sublist v y"
proof -
  have s: "star \<notin> set v" "\<not> sublist v ''REDACTED''" using assms(1) by (auto simp: clean_value_def)
  have "sublist v (x @ star # ([star, star] @ ''REDACTED'' @ [star, star, star] @ y))"
    using assms(2) by (simp add: REDACTED_def star_def)
  from sublist_split_at[OF this s(1)] show ?thesis
  proof
    assume "sublist v ([star, star] @ ''REDACTED'' @ [star, star, star] @ y)"
    then have "sublist v ([star] @ star # (''REDACTED'' @ [star, star, star] @ y))" by simp
    from sublist_split_at[OF this s(1)] have "sublist v [star] \<or> sublist v (''REDACTED'' @ star # ([star, star] @ y))"
      by simp
    moreover have "\<not> sublist v [star]"
    proof
      assume "sublist v [star]"
      then have "set v \<subseteq> {star}" by (metis list.set(1,2) set_mono_sublist)
      then show False using assms(1) s(1) by (cases v) (auto simp: clean_value_def)
    qed
    ultimately have "sublist v (''REDACTED'' @ star # ([star, star] @ y))" by blast
    from sublist_split_at[OF this s(1)] s(2) have "sublist v ([star] @ star # y)" by auto
    from sublist_split_at[OF this s(1)] \<open>\<not> sublist v [star]\<close> show ?thesis by blast
  qed blast
qed

lemma sublist_appendI1: "sublist v x \<Longrightarrow> sublist v (x @ y)"
  by (metis append_assoc sublist_def)

lemma sublist_appendI2: "sublist v y \<Longrightarrow> sublist v (x @ y)"
  by (metis append_assoc sublist_def)

text \<open>Replacing any value by the marker creates no new occurrence of a clean one.\<close>

lemma replace_occ_no_new:
  assumes "clean_value v"
  shows "sublist v (a @ replace_occ w REDACTED t) \<Longrightarrow> sublist v (a @ t)"
proof (induction w REDACTED t arbitrary: a rule: replace_occ.induct)
  case (2 w c cs)
  show ?case
  proof (cases "w \<noteq> [] \<and> prefix w (c # cs)")
    case True
    define r where "r = drop (length w) (c # cs)"
    have cs: "c # cs = w @ r" using True by (auto simp: prefix_def r_def)
    have "replace_occ w REDACTED (c # cs) = REDACTED @ replace_occ w REDACTED r"
      using True by (simp add: r_def)
    then have "sublist v (a @ REDACTED @ replace_occ w REDACTED r)" using 2(3) by simp
    from sublist_marker[OF assms this] show ?thesis
    proof
      assume "sublist v a" then show ?thesis by (rule sublist_appendI1)
    next
      assume "sublist v (replace_occ w REDACTED r)"
      then have "sublist v r" using 2(1)[of "[]"] True by (simp add: r_def)
      then show ?thesis unfolding cs by (metis sublist_appendI2)
    qed
  next
    case False
    then have e: "replace_occ w REDACTED (c # cs) = c # replace_occ w REDACTED cs" by auto
    have "sublist v ((a @ [c]) @ replace_occ w REDACTED cs)" using 2(3) unfolding e by simp
    then have "sublist v ((a @ [c]) @ cs)" using 2(2) False by blast
    then show ?thesis by simp
  qed
qed simp

lemma prefix_replace_occ:
  assumes "star \<notin> set p"
  shows "prefix p (replace_occ w REDACTED t) \<Longrightarrow> prefix p t"
  using assms
proof (induction w REDACTED t arbitrary: p rule: replace_occ.induct)
  case (2 w c cs)
  show ?case
  proof (cases "w \<noteq> [] \<and> prefix w (c # cs)")
    case True
    then have "prefix p (star # tl REDACTED @ replace_occ w REDACTED (drop (length w) (c # cs)))"
      using 2(3) by (simp add: REDACTED_def star_def)
    then have "p = []" using 2(4) by (cases p) auto
    then show ?thesis by simp
  next
    case False
    then have e: "replace_occ w REDACTED (c # cs) = c # replace_occ w REDACTED cs" by auto
    show ?thesis
    proof (cases p)
      case (Cons x p')
      then show ?thesis using 2(2)[OF False, of p'] 2(3,4) unfolding e by auto
    qed simp
  qed
qed simp

lemma replace_occ_removes:
  assumes "clean_value v"
  shows "\<not> sublist v (replace_occ v REDACTED t)"
proof (induction "length t" arbitrary: t rule: less_induct)
  case less
  have ne: "v \<noteq> []" and st: "star \<notin> set v" using assms by (auto simp: clean_value_def)
  show ?case
  proof (cases t)
    case Nil
    then show ?thesis using ne by simp
  next
    case (Cons c cs)
    show ?thesis
    proof (cases "prefix v (c # cs)")
      case True
      define r where "r = drop (length v) (c # cs)"
      have "length r < length t" using ne Cons by (cases v) (auto simp: r_def)
      then have "\<not> sublist v (replace_occ v REDACTED r)" by (rule less)
      moreover have "replace_occ v REDACTED t = [] @ REDACTED @ replace_occ v REDACTED r"
        using True ne by (simp add: r_def Cons)
      ultimately show ?thesis using sublist_marker[OF assms, of "[]"] ne by fastforce
    next
      case False
      then have e: "replace_occ v REDACTED t = c # replace_occ v REDACTED cs" using Cons by auto
      have "\<not> sublist v (replace_occ v REDACTED cs)" using less[of cs] Cons by simp
      moreover have "\<not> prefix v (c # replace_occ v REDACTED cs)"
      proof
        assume p: "prefix v (c # replace_occ v REDACTED cs)"
        then obtain v' where v: "v = c # v'" "prefix v' (replace_occ v REDACTED cs)"
          using ne by (cases v) auto
        then have "prefix v' cs" using prefix_replace_occ[of v' v cs] st by auto
        then show False using False v(1) by simp
      qed
      ultimately show ?thesis unfolding e by (simp add: sublist_Cons_right)
    qed
  qed
qed

lemma first_seen_set: "set (first_seen seen xs) = set seen \<union> set xs"
  by (induction xs arbitrary: seen) auto

lemma fold_redact_keeps:
  assumes "clean_value v" "\<not> sublist v t"
  shows "\<not> sublist v (fold (\<lambda>w t. if contains w t then replace_occ w REDACTED t else t) ws t)"
  using assms(2)
proof (induction ws arbitrary: t)
  case (Cons w ws)
  have "\<not> sublist v (replace_occ w REDACTED t)"
    using replace_occ_no_new[OF assms(1), of "[]" w t] Cons.prems by auto
  then show ?case using Cons by simp
qed simp

lemma fold_redact_removes:
  assumes "clean_value v" "v \<in> set ws"
  shows "\<not> sublist v (fold (\<lambda>w t. if contains w t then replace_occ w REDACTED t else t) ws t)"
  using assms(2)
proof (induction ws arbitrary: t)
  case (Cons w ws)
  show ?case
  proof (cases "v = w")
    case True
    have "\<not> sublist v (if contains w t then replace_occ w REDACTED t else t)"
      using replace_occ_removes[OF assms(1)] True by (simp add: contains_def)
    then show ?thesis using fold_redact_keeps[OF assms(1)] by simp
  next
    case False
    then show ?thesis using Cons by simp
  qed
qed simp

lemma redact_removes:
  assumes "v \<in> set known \<or> (v \<in> set values \<and> MIN_REDACT_LEN \<le> length v)" "clean_value v"
  shows "\<not> contains v (redact known text values)"
proof -
  have "v \<in> set (sort_key (\<lambda>v. - int (length v)) (candidates known values))"
    using assms(1) by (auto simp: candidates_def first_seen_set)
  from fold_redact_removes[OF assms(2) this] show ?thesis by (simp add: redact_def contains_def)
qed



subsection \<open>Substitution\<close>

lemma sub_ph_none: "find_ph s = [] \<Longrightarrow> sub_ph g s = s"
  by (induction g s rule: sub_ph.induct) (auto split: option.splits prod.splits)

lemma sub_ph_cong: "(\<And>n. n \<in> set (find_ph s) \<Longrightarrow> g n = h n) \<Longrightarrow> sub_ph g s = sub_ph h s"
  by (induction s rule: find_ph.induct) (auto split: option.splits prod.splits)

lemma map_of_filter: "map_of xs k = map_of (filter (\<lambda>y. fst y = k) xs) k"
  by (induction xs) auto

lemma map_of_sorted [simp]: "map_of (sort_key fst d) k = map_of d k"
  by (metis map_of_filter filter_sort sort_key_stable)

lemma load_save:
  assumes "\<And>d. decrypt c (encrypt c d) = Some d" "save c d v = Inr v'"
  shows "load c v' = Inr (sort_key fst d)"
  using assms by (auto simp: save_def load_def split: if_splits)

lemma load_audited [simp]: "load c (audited a n o' v) = load c v"
  by (simp add: load_def audited_def)

text \<open>With a cipher that decrypts what it encrypted, a secret that was stored is what \<open>get\<close>
  returns, and every other secret is what it was before.\<close>

theorem vault_set_get:
  assumes "\<And>d. decrypt c (encrypt c d) = Some d" "vault_set c n x v = Inr v'" "check_name m"
  shows "fst (vault_get c m v') = (if m = n then Inr x else fst (vault_get c m v))"
proof -
  obtain d v1 where d: "check_name n" "load c v = Inr d" "save c (dict_set d n x) v = Inr v1"
    "v' = audited ''secret_set'' n ''ok'' v1"
    using assms(2) by (auto simp: vault_set_def split: if_splits sum.splits)
  note l = load_save[OF assms(1) d(3)]
  show ?thesis
    using assms(3) d(1,2) l unfolding d(4)
    by (auto simp: vault_get_def update_conv split: option.splits)
qed

definition toy_cipher :: "store cipher" where
  "toy_cipher = \<lparr>encrypt = (\<lambda>d. d), decrypt = Some, key_exists = True\<rparr>"

definition empty_vault :: "'b vault" where
  "empty_vault = \<lparr>v_file = None, v_known = [], v_audit = []\<rparr>"

theorem vault_set_get_witness:
  "\<exists>v'. vault_set toy_cipher ''k'' ''hunter2!'' empty_vault = Inr v' \<and> fst (vault_get toy_cipher ''k'' v') = Inr ''hunter2!''"
proof -
  have k: "check_name ''k''" by code_simp
  then obtain v' where v: "vault_set toy_cipher ''k'' ''hunter2!'' empty_vault = Inr v'"
    by (auto simp: vault_set_def load_def save_def toy_cipher_def empty_vault_def)
  have "decrypt toy_cipher (encrypt toy_cipher d) = Some d" for d by (simp add: toy_cipher_def)
  from vault_set_get[OF this v k] show ?thesis using v by simp
qed

lemma get_all_values:
  "get_all c ns v = (Inr used, v') \<Longrightarrow> map fst used = ns \<and> load c v' = load c v \<and> v_file v' = v_file v \<and>
     (\<forall>n \<in> set ns. \<exists>d x. load c v = Inr d \<and> map_of d n = Some x \<and> (n, x) \<in> set used)"
proof (induction ns arbitrary: v used)
  case (Cons n ns)
  obtain x v1 us where g: "vault_get c n v = (Inr x, v1)" "get_all c ns v1 = (Inr us, v')" "used = (n, x) # us"
    using Cons.prems by (auto split: prod.splits sum.splits)
  then obtain d where d: "load c v = Inr d" "map_of d n = Some x"
    and v1: "v_file v1 = v_file v"
    by (auto simp: vault_get_def audited_def split: if_splits sum.splits option.splits)
  have l: "load c v1 = load c v" using v1 by (simp add: load_def)
  show ?case using Cons.IH[OF g(2)] d l v1 g(3) by auto
qed auto

text \<open>When \<open>resolve\<close> succeeds, the text is the original with every placeholder replaced by the value
  the store holds under its name, the returned mapping has exactly the names referred to, and the
  store is unchanged; when a name is missing it fails rather than let a placeholder through.\<close>

theorem resolve_correct:
  assumes "resolve c text v = (r, v')"
  shows "case r of
      Inr (t, used) \<Rightarrow> map fst used = referenced_names text \<and> v_file v' = v_file v \<and>
        (referenced_names text = [] \<and> t = text \<or>
         (\<exists>d. load c v = Inr d \<and> (\<forall>n \<in> set (referenced_names text). map_of d n \<noteq> None) \<and>
           t = sub_ph (\<lambda>n. the (map_of d n)) text))
    | Inl e \<Rightarrow> referenced_names text \<noteq> []"
proof (cases "referenced_names text = []")
  case True
  then show ?thesis using assms by (auto simp: resolve_def)
next
  case False
  obtain g v1 where g: "get_all c (referenced_names text) v = (g, v1)" by fastforce
  show ?thesis
  proof (cases g)
    case (Inl e)
    then show ?thesis using assms False g by (auto simp: resolve_def Let_def)
  next
    case (Inr used)
    note ga = get_all_values[OF g[unfolded Inr]]
    obtain n0 ns where "referenced_names text = n0 # ns" using False by (cases "referenced_names text") auto
    then obtain d where d: "load c v = Inr d" using ga by auto
    have dist: "distinct (referenced_names text)"
    proof -
      have "distinct seen \<Longrightarrow> distinct (first_seen seen xs)" for seen xs :: "string list"
        by (induction xs arbitrary: seen) auto
      then show ?thesis by (simp add: referenced_names_def)
    qed
    have val: "map_of used n = map_of d n \<and> map_of d n \<noteq> None" if nn: "n \<in> set (referenced_names text)" for n
    proof -
      obtain x where x: "map_of d n = Some x" "(n, x) \<in> set used" using ga d nn by auto
      have "distinct (map fst used)" using ga dist by simp
      then have "map_of used n = Some x" using x(2) by simp
      then show ?thesis using x(1) by simp
    qed
    have names: "n \<in> set (find_ph text) \<Longrightarrow> n \<in> set (referenced_names text)" for n
      by (simp add: referenced_names_def first_seen_set)
    have "sub_ph (\<lambda>n. case map_of used n of None \<Rightarrow> [] | Some x \<Rightarrow> x) text = sub_ph (\<lambda>n. the (map_of d n)) text"
      by (rule sub_ph_cong) (use val names in fastforce)
    then show ?thesis
      using assms False g Inr ga d val by (auto simp: resolve_def Let_def)
  qed
qed

theorem resolve_correct_witness:
  "\<exists>v v'. vault_set toy_cipher ''k'' ''hunter2!'' empty_vault = Inr v \<and>
     resolve toy_cipher ''a {{secret:k}} b'' v = (Inr (''a hunter2! b'', [(''k'', ''hunter2!'')]), v') \<and> v_file v' = v_file v"
proof -
  have k: "check_name ''k''" by code_simp
  then obtain v where v: "vault_set toy_cipher ''k'' ''hunter2!'' empty_vault = Inr v"
    by (auto simp: vault_set_def load_def save_def toy_cipher_def empty_vault_def)
  obtain r v' where r: "resolve toy_cipher ''a {{secret:k}} b'' v = (r, v')" by fastforce
  have "(case vault_set toy_cipher ''k'' ''hunter2!'' empty_vault of Inl _ \<Rightarrow> None | Inr v \<Rightarrow>
     (case fst (resolve toy_cipher ''a {{secret:k}} b'' v) of Inl _ \<Rightarrow> None | Inr x \<Rightarrow> Some x))
     = Some (''a hunter2! b'', [(''k'', ''hunter2!'')])"
    by code_simp
  then have "r = Inr (''a hunter2! b'', [(''k'', ''hunter2!'')])" using v r by (auto split: sum.splits)
  then show ?thesis using v r resolve_correct[OF r] by auto
qed

subsection \<open>The vault is a key-value store\<close>

text \<open>A vault that opens: the key exists, what is encrypted is decrypted again, and every stored name is well formed.\<close>

definition opens :: "'b cipher \<Rightarrow> 'b vault \<Rightarrow> bool" where
  "opens c v = (key_exists c \<and> (\<forall>d. decrypt c (encrypt c d) = Some d) \<and>
     (\<exists>d. load c v = Inr d \<and> list_all (\<lambda>x. check_name (fst x)) d))"

definition stored :: "'b cipher \<Rightarrow> 'b vault \<Rightarrow> string \<Rightarrow> string option" where
  "stored c v = (case load c v of Inl e \<Rightarrow> Map.empty | Inr d \<Rightarrow> map_of d)"

definition put_secret :: "'b cipher \<Rightarrow> string \<Rightarrow> string \<Rightarrow> 'b vault \<Rightarrow> 'b vault" where
  "put_secret c name val v = (case vault_set c name val v of Inl e \<Rightarrow> v | Inr v' \<Rightarrow> v')"

definition del_secret :: "'b cipher \<Rightarrow> string \<Rightarrow> 'b vault \<Rightarrow> 'b vault" where
  "del_secret c name v = (case vault_delete c name v of Inl e \<Rightarrow> v | Inr (_, v') \<Rightarrow> v')"

lemma opens_save:
  assumes "opens c v" "save c d v = Inr v'" "list_all (\<lambda>x. check_name (fst x)) d"
  shows "opens c v'" "stored c v' = map_of d"
  using load_save[OF _ assms(2)] assms(1,3) by (auto simp: opens_def stored_def list_all_iff)

lemma opens_audited [simp]: "opens c (audited a n r v) = opens c v" "stored c (audited a n r v) = stored c v"
  by (simp_all add: opens_def stored_def)

lemma put_secret_saves:
  assumes "opens c v" "check_name n"
  shows "opens c (put_secret c n x v)" "stored c (put_secret c n x v) = (stored c v)(n \<mapsto> x)"
proof -
  obtain d where d: "load c v = Inr d" "list_all (\<lambda>x. check_name (fst x)) d" using assms(1) by (auto simp: opens_def)
  obtain v' where v: "save c (dict_set d n x) v = Inr v'" using assms(1) by (auto simp: opens_def save_def)
  have "list_all (\<lambda>x. check_name (fst x)) (dict_set d n x)"
  proof -
    have "(a, b) \<in> set (dict_set d n x) \<Longrightarrow> a = n \<or> (a, b) \<in> set d" for a b by (induction d) (auto split: if_splits)
    then show ?thesis using d(2) assms(2) unfolding list_all_iff by fastforce
  qed
  note o = opens_save[OF assms(1) v this]
  have "put_secret c n x v = audited ''secret_set'' n ''ok'' v'" using d(1) v assms(2) by (simp add: put_secret_def vault_set_def)
  then show "opens c (put_secret c n x v)" "stored c (put_secret c n x v) = (stored c v)(n \<mapsto> x)"
    using o d(1) by (simp_all add: update_conv' stored_def[of c v])
qed

lemma del_secret_saves:
  assumes "opens c v"
  shows "opens c (del_secret c n v)" "stored c (del_secret c n v) = (stored c v)(n := None)"
proof -
  obtain d where d: "load c v = Inr d" "list_all (\<lambda>x. check_name (fst x)) d" using assms by (auto simp: opens_def)
  have *: "opens c (del_secret c n v) \<and> stored c (del_secret c n v) = (stored c v)(n := None)"
  proof (cases "check_name n \<and> map_of d n \<noteq> None")
    case True
    obtain v' where v: "save c (dict_del d n) v = Inr v'" using assms by (auto simp: opens_def save_def)
    have "list_all (\<lambda>x. check_name (fst x)) (dict_del d n)" using d(2) by (simp add: list_all_iff AList.delete_eq)
    note o = opens_save[OF assms v this]
    have "del_secret c n v = audited ''secret_delete'' n ''ok'' v'" using d(1) v True by (auto simp: del_secret_def vault_delete_def)
    then show ?thesis using o d(1) by (simp add: delete_conv' stored_def[of c v])
  next
    case False
    have "map_of d n = None"
    proof (cases "check_name n")
      case False
      then show ?thesis using d(2) by (auto simp: list_all_iff map_of_eq_None_iff)
    qed (use \<open>\<not> (check_name n \<and> map_of d n \<noteq> None)\<close> in simp)
    moreover have "del_secret c n v = v" using False d(1) by (auto simp: del_secret_def vault_delete_def)
    ultimately show ?thesis using assms d(1) by (auto simp: stored_def)
  qed
  then show "opens c (del_secret c n v)" "stored c (del_secret c n v) = (stored c v)(n := None)" by blast+
qed

interpretation secrets: kv_store "opens c" "\<lambda>n x. check_name n" "stored c" "put_secret c" "del_secret c" for c
  by unfold_locales (auto simp: put_secret_saves del_secret_saves)

text \<open>What \<open>get\<close> returns after any history of \<open>set\<close> and \<open>delete\<close>.\<close>

lemma vault_history:
  assumes "opens c v" "list_all secrets.admitted ops" "check_name n"
  shows "fst (vault_get c n (fold (secrets.step c) ops v)) = (case find (\<lambda>x. kv_key x = n) (rev ops) of
    None \<Rightarrow> fst (vault_get c n v) | Some (Put _ x) \<Rightarrow> Inr x | Some (Del _) \<Rightarrow> Inl (Missing n))"
proof -
  have g: "fst (vault_get c n w) = (case stored c w n of None \<Rightarrow> Inl (Missing n) | Some x \<Rightarrow> Inr x)" if "opens c w" for w
    using that assms(3) by (auto simp: vault_get_def stored_def opens_def split: option.splits)
  show ?thesis using g[OF assms(1)] g[OF secrets.run_valid[OF assms(1,2)]] secrets.lookup_last[OF assms(1,2), of n]
    by (simp split: option.splits kv_op.splits)
qed

end
