(* ===== verification/Policy.thy ===== *)
theory Policy
  imports Glob Vault
begin

text \<open>
  \<open>agent/policy.py\<close>: the decision \<open>decide\<close> takes on a command and the paths it touches, and the line
  it leaves in the audit log. The lists are those of \<open>policy.yaml\<close>; home and environment expansion of
  the operating system are parameters (\<open>penv\<close>), and so is the registry of known secret values that
  \<open>mask_text\<close> redacts.
\<close>

datatype decision = AUTO | CONFIRM | BLOCK

fun decision_str :: "decision \<Rightarrow> string" where
  "decision_str AUTO = ''auto''" | "decision_str CONFIRM = ''confirm''" | "decision_str BLOCK = ''block''"

definition READ_VERBS :: "string set" where
  "READ_VERBS = {''cat'', ''type'', ''head'', ''tail'', ''read'', ''read_chunk'', ''list'', ''ls'', ''dir'',
     ''grep'', ''glob'', ''watch_start'', ''watch_poll''}"

definition WRITE_VERBS :: "string set" where
  "WRITE_VERBS = {''write'', ''patch'', ''rm'', ''del'', ''mv'', ''move'', ''cp'', ''copy''}"

record policy =
  block_commands :: "string list"
  block_paths :: "string list"
  confirm_commands :: "string list"
  confirm_write :: "string list"
  auto_commands :: "string list"
  auto_read :: "string list"

record penv =
  expanduser :: "string \<Rightarrow> string"
  expandvars :: "string \<Rightarrow> string"
  known_values :: "string list"

definition slashes :: "string \<Rightarrow> string" where
  "slashes s = map (\<lambda>c. if c = char_of (92::nat) then CHR ''/'' else c) s"

definition rstrip_char :: "char \<Rightarrow> string \<Rightarrow> string" where
  "rstrip_char x s = rev (dropWhile (\<lambda>c. c = x) (rev s))"

definition path_matches :: "penv \<Rightarrow> string \<Rightarrow> string \<Rightarrow> bool" where
  "path_matches env path pat =
     (let norm_pat = lower (slashes (expandvars env (expanduser env pat)));
          norm_path = lower (rstrip_char (CHR ''/'') (slashes (expanduser env path))) in
      fnmatchcase norm_path norm_pat \<or>
      (ends_with ''/**'' norm_pat \<and> norm_path = take (length norm_pat - 3) norm_pat))"

definition verb_of :: "string \<Rightarrow> string" where
  "verb_of cmd = lower (takeWhile (\<lambda>c. \<not> is_space c) (lstrip cmd))"

fun first_match :: "('a \<Rightarrow> bool) \<Rightarrow> 'a list \<Rightarrow> 'a option" where
  "first_match f [] = None"
| "first_match f (x # xs) = (if f x then Some x else first_match f xs)"

definition first_path_match :: "(string \<Rightarrow> string \<Rightarrow> bool) \<Rightarrow> string list \<Rightarrow> string list \<Rightarrow> string option" where
  "first_path_match f paths pats =
     map_option snd (first_match (\<lambda>(path, pat). f path pat) (List.product paths pats))"

definition decide :: "penv \<Rightarrow> policy \<Rightarrow> string \<Rightarrow> string list \<Rightarrow> decision \<times> string" where
  "decide env pol command paths =
     (let cmd = mask_text (known_values env) (strip command); verb = verb_of cmd in
      case first_match (fnmatchcase cmd) (block_commands pol) of
        Some pat \<Rightarrow> (BLOCK, ''blocked by pattern: '' @ pat)
      | None \<Rightarrow>
      (case first_path_match fnmatchcase paths (block_paths pol) of
        Some pat \<Rightarrow> (BLOCK, ''path blocked: '' @ pat)
      | None \<Rightarrow>
      (case first_match (fnmatchcase cmd) (confirm_commands pol) of
        Some pat \<Rightarrow> (CONFIRM, ''requires confirmation: '' @ pat)
      | None \<Rightarrow>
      (case (if verb \<in> WRITE_VERBS then first_path_match (path_matches env) paths (confirm_write pol) else None) of
        Some pat \<Rightarrow> (CONFIRM, ''write requires confirmation: '' @ pat)
      | None \<Rightarrow>
      (case first_match (fnmatchcase cmd) (auto_commands pol) of
        Some pat \<Rightarrow> (AUTO, ''auto-allowed: '' @ pat)
      | None \<Rightarrow>
        (if verb \<in> READ_VERBS \<and> paths \<noteq> [] \<and> auto_read pol \<noteq> [] \<and>
            list_all (\<lambda>p. list_ex (path_matches env p) (auto_read pol)) paths
         then (AUTO, ''auto-allowed: read path'')
         else (CONFIRM, ''no matching rule (defaulting to confirmation)'')))))))"

text \<open>What \<open>audit\<close> appends to the audit log.\<close>

record policy_audit =
  pa_actor :: string
  pa_action :: string
  pa_resource :: string
  pa_outcome :: string
  pa_rule :: string

definition audit_decision :: "penv \<Rightarrow> string \<Rightarrow> string \<Rightarrow> decision \<Rightarrow> string \<Rightarrow> policy_audit" where
  "audit_decision env tid command d reason =
     \<lparr>pa_actor = tid, pa_action = ''policy_decision:'' @ decision_str d,
      pa_resource = mask_text (known_values env) command,
      pa_outcome = (if d = BLOCK then ''deny'' else ''ok''), pa_rule = reason\<rparr>"

subsection \<open>The decision as an ordered list of rules\<close>

lemma first_match_none [simp]: "(first_match f xs = None) = (\<forall>x \<in> set xs. \<not> f x)"
  by (induction xs) auto

lemma first_match_some: "first_match f xs = Some x \<Longrightarrow> x \<in> set xs \<and> f x"
  by (induction xs) (auto split: if_splits)

lemma first_path_none [simp]:
  "(first_path_match f paths pats = None) = (\<forall>p \<in> set paths. \<forall>q \<in> set pats. \<not> f p q)"
  by (auto simp: first_path_match_def)

lemma fst_case: "fst (case m of None \<Rightarrow> e | Some x \<Rightarrow> (d, f x)) = (if m = None then fst e else d)"
  by (cases m) auto

lemma if_not_swap: "(if \<not> g then x else y) = (if g then y else x)"
  by simp

definition any_cmd :: "string \<Rightarrow> string list \<Rightarrow> bool" where
  "any_cmd cmd pats = (\<exists>pat \<in> set pats. fnmatchcase cmd pat)"

definition read_covered :: "penv \<Rightarrow> string list \<Rightarrow> string list \<Rightarrow> bool" where
  "read_covered env paths roots = (paths \<noteq> [] \<and> (\<forall>p \<in> set paths. \<exists>r \<in> set roots. path_matches env p r))"

text \<open>The order of evaluation the documentation gives, as the guards of six rules.\<close>

definition policy_rules :: "penv \<Rightarrow> policy \<Rightarrow> string \<Rightarrow> string list \<Rightarrow> (bool \<times> decision) list" where
  "policy_rules env pol cmd paths =
     [(any_cmd cmd (block_commands pol), BLOCK),
      (\<exists>p \<in> set paths. any_cmd p (block_paths pol), BLOCK),
      (any_cmd cmd (confirm_commands pol), CONFIRM),
      (verb_of cmd \<in> WRITE_VERBS \<and> (\<exists>p \<in> set paths. \<exists>q \<in> set (confirm_write pol). path_matches env p q), CONFIRM),
      (any_cmd cmd (auto_commands pol), AUTO),
      (verb_of cmd \<in> READ_VERBS \<and> read_covered env paths (auto_read pol), AUTO)]"

fun first_rule :: "(bool \<times> decision) list \<Rightarrow> decision" where
  "first_rule [] = CONFIRM"
| "first_rule ((g, d) # rs) = (if g then d else first_rule rs)"

lemma decide_rules:
  "fst (decide env pol command paths) =
   first_rule (policy_rules env pol (mask_text (known_values env) (strip command)) paths)"
proof -
  define cmd where "cmd = mask_text (known_values env) (strip command)"
  have rc: "(verb_of cmd \<in> READ_VERBS \<and> paths \<noteq> [] \<and> auto_read pol \<noteq> [] \<and>
       list_all (\<lambda>p. list_ex (path_matches env p) (auto_read pol)) paths)
      = (verb_of cmd \<in> READ_VERBS \<and> read_covered env paths (auto_read pol))"
    by (cases paths) (auto simp: read_covered_def list_all_iff list_ex_iff)
  have w: "((if verb_of cmd \<in> WRITE_VERBS then first_path_match (path_matches env) paths (confirm_write pol) else None) = None)
      = (\<not> (verb_of cmd \<in> WRITE_VERBS \<and> (\<exists>p \<in> set paths. \<exists>q \<in> set (confirm_write pol). path_matches env p q)))"
    by auto
  have c: "(first_match (fnmatchcase cmd) pats = None) = (\<not> any_cmd cmd pats)" for pats
    by (auto simp: any_cmd_def)
  have b: "(first_path_match fnmatchcase paths pats = None) = (\<not> (\<exists>p \<in> set paths. any_cmd p pats))" for pats
    by (auto simp: any_cmd_def)
  have r: "fst (if g then (AUTO, x) else (CONFIRM, y)) = (if g then AUTO else CONFIRM)" for g and x y :: string
    by simp
  show ?thesis
    unfolding decide_def Let_def fst_case policy_rules_def first_rule.simps cmd_def[symmetric] rc w c b r if_not_P if_P
    by (simp only: if_not_swap)
qed

text \<open>C25: \<open>decide\<close> is the first rule of that list whose guard holds on the masked command, and
  confirmation when none does.\<close>

theorem decide_first_rule:
  "fst (decide env pol command paths) =
   first_rule (policy_rules env pol (mask_text (known_values env) (strip command)) paths)"
  by (rule decide_rules)

definition masked :: "penv \<Rightarrow> string \<Rightarrow> string" where
  "masked env command = mask_text (known_values env) (strip command)"

text \<open>Block rules win: a command matching a blocked pattern, or a path matching a forbidden one, is
  blocked whatever the other lists say; and nothing is ever run automatically unless an allow rule
  names it, that is, an allowed command pattern matches or a read verb has every path inside a read
  root, with no block or confirm pattern matching.\<close>

theorem decide_safe:
  "(fst (decide env pol command paths) = BLOCK) =
      (any_cmd (masked env command) (block_commands pol) \<or> (\<exists>p \<in> set paths. any_cmd p (block_paths pol))) \<and>
   (fst (decide env pol command paths) = AUTO) =
      (\<not> any_cmd (masked env command) (block_commands pol) \<and> (\<nexists>p. p \<in> set paths \<and> any_cmd p (block_paths pol)) \<and>
       \<not> any_cmd (masked env command) (confirm_commands pol) \<and>
       \<not> (verb_of (masked env command) \<in> WRITE_VERBS \<and> (\<exists>p \<in> set paths. \<exists>q \<in> set (confirm_write pol). path_matches env p q)) \<and>
       (any_cmd (masked env command) (auto_commands pol) \<or>
        (verb_of (masked env command) \<in> READ_VERBS \<and> read_covered env paths (auto_read pol))))"
  unfolding decide_rules policy_rules_def masked_def by auto

text \<open>The patterns that block inline credentials also match the masked form of a reference whose name
  has the word in it.\<close>

definition cred_policy :: policy where
  "cred_policy = \<lparr>block_commands = [''*token*''], block_paths = [], confirm_commands = [], confirm_write = [],
     auto_commands = [''curl *''], auto_read = []\<rparr>"

definition plain_penv :: penv where
  "plain_penv = \<lparr>expanduser = (\<lambda>s. s), expandvars = (\<lambda>s. s), known_values = []\<rparr>"

theorem vault_reference_by_name:
  "fst (decide plain_penv cred_policy ''curl -H {{secret:openai_key}}'' []) = AUTO \<and>
   fst (decide plain_penv cred_policy ''curl -H {{secret:github_token}}'' []) = BLOCK"
  by code_simp

end
