(* ===== verification/Json.thy ===== *)
theory Json
  imports Prelude
begin

text \<open>
  The part of Python's \<open>json\<close> the components store and hash values with: \<open>json.dumps\<close> with its
  \<open>separators\<close>, \<open>ensure_ascii\<close> and \<open>sort_keys\<close> options, and \<open>json.loads\<close>. Escapes of code points above
  U+00FF and the non-standard \<open>NaN\<close> and \<open>Infinity\<close> are outside the model's characters and numbers and
  do not parse. The lemmas show that a value free of floats is read back from its text, so that
  printing is injective.
\<close>

subsection \<open>Printing\<close>

abbreviation quote :: char where "quote \<equiv> CHR 0x22"
abbreviation backslash :: char where "backslash \<equiv> CHR 0x5C"

definition json_char :: "bool \<Rightarrow> char \<Rightarrow> string" where
  "json_char ascii c = (let n = code c in
     if c = quote \<or> c = backslash then [backslash, c]
     else if n = 10 then [backslash, CHR ''n'']
     else if n = 13 then [backslash, CHR ''r'']
     else if n = 9 then [backslash, CHR ''t'']
     else if n = 12 then [backslash, CHR ''f'']
     else if n = 8 then [backslash, CHR ''b'']
     else if n < 32 \<or> (ascii \<and> 127 < n) then [backslash] @ ''u00'' @ hex2 n
     else [c])"

definition json_text :: "bool \<Rightarrow> string \<Rightarrow> string" where
  "json_text ascii s = quote # concat (map (json_char ascii) s) @ [quote]"

text \<open>The options: \<open>ensure_ascii\<close>, and the two separators.\<close>

record json_opts =
  jo_ascii :: bool
  jo_item :: string
  jo_key :: string

definition json_default :: json_opts where
  "json_default = \<lparr>jo_ascii = True, jo_item = '', '', jo_key = '': ''\<rparr>"

definition json_plain :: json_opts where
  "json_plain = \<lparr>jo_ascii = False, jo_item = '', '', jo_key = '': ''\<rparr>"

definition json_compact :: json_opts where
  "json_compact = \<lparr>jo_ascii = False, jo_item = '','', jo_key = '':''\<rparr>"

fun json_print :: "json_opts \<Rightarrow> pyval \<Rightarrow> string" where
  "json_print jo PNone = ''null''"
| "json_print jo (PBool b) = (if b then ''true'' else ''false'')"
| "json_print jo (PInt n) = int_str n"
| "json_print jo (PFloat r) = float_str r"
| "json_print jo (PStr s) = json_text (jo_ascii jo) s"
| "json_print jo (PList xs) = ''['' @ join (jo_item jo) (map (json_print jo) xs) @ '']''"
| "json_print jo (PDict d) = ''{'' @ join (jo_item jo)
     (map (\<lambda>(k, v). json_text (jo_ascii jo) k @ jo_key jo @ json_print jo v) d) @ ''}''"

text \<open>\<open>sort_keys=True\<close>, at every level.\<close>

fun sort_keys :: "pyval \<Rightarrow> pyval" where
  "sort_keys (PList xs) = PList (map sort_keys xs)"
| "sort_keys (PDict d) = PDict (sort_key fst (map (\<lambda>(k, v). (k, sort_keys v)) d))"
| "sort_keys v = v"

subsection \<open>Parsing\<close>

definition is_ws :: "char \<Rightarrow> bool" where
  "is_ws c = (code c \<in> {9, 10, 13, 32})"

definition skip_ws :: "string \<Rightarrow> string" where
  "skip_ws s = dropWhile is_ws s"

definition hex_val :: "char \<Rightarrow> nat option" where
  "hex_val c = (let n = code c in
     if 48 \<le> n \<and> n \<le> 57 then Some (n - 48)
     else if 97 \<le> n \<and> n \<le> 102 then Some (n - 87)
     else if 65 \<le> n \<and> n \<le> 70 then Some (n - 55) else None)"

text \<open>\<open>\uXXXX\<close> below U+0100.\<close>

definition unicode_escape :: "char \<Rightarrow> char \<Rightarrow> char \<Rightarrow> char \<Rightarrow> char option" where
  "unicode_escape a b h l = (case (hex_val a, hex_val b, hex_val h, hex_val l) of
     (Some x, Some y, Some m, Some n) \<Rightarrow> if x = 0 \<and> y = 0 then Some (char_of (16 * m + n)) else None
   | _ \<Rightarrow> None)"

definition unescape :: "char \<Rightarrow> char option" where
  "unescape c = (if c = quote \<or> c = backslash \<or> c = CHR ''/'' then Some c
     else if c = CHR ''n'' then Some (char_of (10::nat))
     else if c = CHR ''r'' then Some (char_of (13::nat))
     else if c = CHR ''t'' then Some (char_of (9::nat))
     else if c = CHR ''f'' then Some (char_of (12::nat))
     else if c = CHR ''b'' then Some (char_of (8::nat))
     else None)"

fun json_string :: "string \<Rightarrow> (string \<times> string) option" where
  "json_string [] = None"
| "json_string (c # cs) =
     (if c = quote then Some ([], cs)
      else if c = backslash then
        (case cs of [] \<Rightarrow> None
         | e # ds \<Rightarrow>
            if e = CHR ''u'' then
              (case ds of a # b # h # l # es \<Rightarrow>
                 (case unicode_escape a b h l of None \<Rightarrow> None
                  | Some x \<Rightarrow> map_option (\<lambda>(s, r). (x # s, r)) (json_string es))
               | _ \<Rightarrow> None)
            else (case unescape e of None \<Rightarrow> None
              | Some x \<Rightarrow> map_option (\<lambda>(s, r). (x # s, r)) (json_string ds)))
      else if code c < 32 then None
      else map_option (\<lambda>(s, r). (c # s, r)) (json_string cs))"

text \<open>\<open>-?(0|[1-9][0-9]*)(\.[0-9]+)?([eE][+-]?[0-9]+)?\<close>: an integer unless a fraction or an exponent
  follows.\<close>

definition json_fraction :: "string \<Rightarrow> string \<times> string" where
  "json_fraction s = (case s of c # cs \<Rightarrow>
       if c = CHR ''.'' \<and> takeWhile is_digit cs \<noteq> [] then (takeWhile is_digit cs, dropWhile is_digit cs) else ([], s)
     | [] \<Rightarrow> ([], s))"

definition json_exponent :: "string \<Rightarrow> int option \<times> string" where
  "json_exponent s = (case s of c # cs \<Rightarrow>
       if is_exp c then
         (case take_sign cs of (sg, ds) \<Rightarrow>
           if takeWhile is_digit ds \<noteq> [] then (Some (sg * int (digits_val (takeWhile is_digit ds))), dropWhile is_digit ds)
           else (None, s))
       else (None, s)
     | [] \<Rightarrow> (None, s))"

definition json_number :: "string \<Rightarrow> (pyval \<times> string) option" where
  "json_number s =
     (let neg = (s \<noteq> [] \<and> hd s = CHR ''-''); t = (if neg then tl s else s); ds = takeWhile is_digit t in
      if ds = [] then None
      else
        (let ip = (if hd ds = CHR ''0'' then ''0'' else ds);
             (fs, r2) = json_fraction (drop (length ip) t); (ex, r3) = json_exponent r2;
             sg = (if neg then -1 else 1::int) in
         if fs = [] \<and> ex = None then Some (PInt (sg * int (digits_val ip)), r3)
         else Some (PFloat (of_int sg * scale10 (of_nat (digits_val ip) + of_nat (digits_val fs) / 10 ^ length fs)
                (case ex of None \<Rightarrow> 0 | Some e \<Rightarrow> e)), r3)))"

text \<open>\<open>dict(pairs)\<close>: the last of several equal keys wins, at the place of the first.\<close>

definition dict_of :: "(string \<times> pyval) list \<Rightarrow> dict" where
  "dict_of kvs = fold (\<lambda>(k, v) m. dict_set m k v) kvs []"

text \<open>Recursive descent; every call is one unit of fuel, and two units per character are enough, since a
  call that consumes nothing is followed by one that does.\<close>

fun json_value :: "nat \<Rightarrow> string \<Rightarrow> (pyval \<times> string) option"
  and json_items :: "nat \<Rightarrow> string \<Rightarrow> (pyval list \<times> string) option"
  and json_members :: "nat \<Rightarrow> string \<Rightarrow> ((string \<times> pyval) list \<times> string) option" where
  "json_value 0 s = None"
| "json_value (Suc n) s = (case s of [] \<Rightarrow> None
     | c # cs \<Rightarrow>
        if c = quote then map_option (\<lambda>(x, r). (PStr x, r)) (json_string cs)
        else if c = CHR ''{'' then
          (case skip_ws cs of [] \<Rightarrow> None
           | d # ds \<Rightarrow> if d = CHR ''}'' then Some (PDict [], ds)
               else map_option (\<lambda>(kvs, r). (PDict (dict_of kvs), r)) (json_members n (d # ds)))
        else if c = CHR ''['' then
          (case skip_ws cs of [] \<Rightarrow> None
           | d # ds \<Rightarrow> if d = CHR '']'' then Some (PList [], ds)
               else map_option (\<lambda>(xs, r). (PList xs, r)) (json_items n (d # ds)))
        else if prefix ''null'' s then Some (PNone, drop 4 s)
        else if prefix ''true'' s then Some (PBool True, drop 4 s)
        else if prefix ''false'' s then Some (PBool False, drop 5 s)
        else json_number s)"
| "json_items 0 s = None"
| "json_items (Suc n) s = (case json_value n s of None \<Rightarrow> None
     | Some (v, r) \<Rightarrow> (case skip_ws r of [] \<Rightarrow> None
        | d # ds \<Rightarrow> if d = CHR '']'' then Some ([v], ds)
            else if d = CHR '','' then map_option (\<lambda>(vs, q). (v # vs, q)) (json_items n (skip_ws ds))
            else None))"
| "json_members 0 s = None"
| "json_members (Suc n) s = (case s of [] \<Rightarrow> None
     | c # cs \<Rightarrow> if c \<noteq> quote then None
       else (case json_string cs of None \<Rightarrow> None
         | Some (k, r) \<Rightarrow> (case skip_ws r of [] \<Rightarrow> None
            | e # es \<Rightarrow> if e \<noteq> CHR '':'' then None
              else (case json_value n (skip_ws es) of None \<Rightarrow> None
                | Some (v, r2) \<Rightarrow> (case skip_ws r2 of [] \<Rightarrow> None
                   | d # ds \<Rightarrow> if d = CHR ''}'' then Some ([(k, v)], ds)
                       else if d = CHR '','' then map_option (\<lambda>(kvs, q). ((k, v) # kvs, q)) (json_members n (skip_ws ds))
                       else None)))))"

definition json_loads :: "string \<Rightarrow> pyval option" where
  "json_loads s = (case json_value (2 * length s + 2) (skip_ws s) of None \<Rightarrow> None
     | Some (v, r) \<Rightarrow> if skip_ws r = [] then Some v else None)"

subsection \<open>Reading back what was printed\<close>

text \<open>A value without floats whose dictionaries have distinct keys, as every Python dict has.\<close>

fun plain :: "pyval \<Rightarrow> bool" where
  "plain (PFloat r) = False"
| "plain (PList xs) = list_all plain xs"
| "plain (PDict d) = (distinct (map fst d) \<and> list_all (\<lambda>(k, v). plain v) d)"
| "plain _ = True"

definition white_seps :: "json_opts \<Rightarrow> bool" where
  "white_seps jo = (\<exists>v w. jo_item jo = CHR '','' # v \<and> list_all is_ws v \<and> jo_key jo = CHR '':'' # w \<and> list_all is_ws w)"

lemma white_seps_opts [simp]: "white_seps json_default" "white_seps json_plain" "white_seps json_compact"
  by (simp_all add: white_seps_def json_default_def json_plain_def json_compact_def is_ws_def code_def)

definition ends_number :: "string \<Rightarrow> bool" where
  "ends_number r = (case r of [] \<Rightarrow> True | c # cs \<Rightarrow> \<not> is_digit c \<and> c \<noteq> CHR ''.'' \<and> \<not> is_exp c)"

lemma ends_number_simps [simp]: "ends_number []" "ends_number (CHR '','' # r)" "ends_number (CHR '']'' # r)" "ends_number (CHR ''}'' # r)"
  by (simp_all add: ends_number_def is_digit_def code_def is_exp_def)

lemma skip_ws_drop [simp]: "list_all is_ws w \<Longrightarrow> skip_ws (w @ s) = skip_ws s"
  by (induction w) (auto simp: skip_ws_def)

lemma skip_ws_stop [simp]: "\<not> is_ws c \<Longrightarrow> skip_ws (c # s) = c # s"
  by (simp add: skip_ws_def)

lemma char_of_code [simp]: "char_of (code c) = c"
  by (simp add: code_def)

lemma code_less [simp]: "code c < 256"
  using nat_of_char_less_256[of c] by (simp add: code_def)

lemma hex_val_digit [simp]: "n < 16 \<Longrightarrow> hex_val (hex_digit n) = Some n"
  by (auto simp: hex_val_def hex_digit_def Let_def)

lemma json_string_char [simp]: "json_string (json_char a c @ r) = map_option (\<lambda>(s, q). (c # s, q)) (json_string r)"
proof -
  have ctl: "code c = n \<Longrightarrow> c = char_of n" for n by (metis char_of_code)
  consider "c = quote \<or> c = backslash" | "c \<noteq> quote" "c \<noteq> backslash" "code c \<in> {8, 9, 10, 12, 13}"
    | "c \<noteq> quote" "c \<noteq> backslash" "code c \<notin> {8, 9, 10, 12, 13}" "code c < 32 \<or> (a \<and> 127 < code c)"
    | "c \<noteq> quote" "c \<noteq> backslash" "\<not> code c < 32" "\<not> (a \<and> 127 < code c)" by blast
  then show ?thesis
  proof cases
    case 1
    then show ?thesis by (auto simp: json_char_def Let_def unescape_def)
  next
    case 2
    have "\<forall>a \<in> set [True, False]. \<forall>c \<in> set (map char_of [8, 9, 10, 12, 13 :: nat]).
        (case json_char a c of [b, e] \<Rightarrow> b = backslash \<and> e \<noteq> CHR ''u'' \<and> unescape e = Some c | _ \<Rightarrow> False)"
      by code_simp
    moreover have "c = char_of (8::nat) \<or> c = char_of (9::nat) \<or> c = char_of (10::nat) \<or> c = char_of (12::nat) \<or> c = char_of (13::nat)"
      using 2(3) ctl[of 8] ctl[of 9] ctl[of 10] ctl[of 12] ctl[of 13] by blast
    then have "c \<in> set (map char_of [8, 9, 10, 12, 13 :: nat])" by (simp only: list.map set_simps insert_iff) blast
    moreover have "a \<in> set [True, False]" by simp
    ultimately have "case json_char a c of [b, e] \<Rightarrow> b = backslash \<and> e \<noteq> CHR ''u'' \<and> unescape e = Some c | _ \<Rightarrow> False"
      by blast
    then obtain e where "json_char a c = [backslash, e]" "e \<noteq> CHR ''u''" "unescape e = Some c"
      by (auto split: list.splits)
    then show ?thesis by simp
  next
    case 3
    have "16 * (code c div 16) + code c mod 16 = code c" by simp
    moreover have "code c div 16 < 16" using code_less[of c] by linarith
    moreover have "hex_val (CHR ''0'') = Some 0" by code_simp
    ultimately have "unicode_escape (CHR ''0'') (CHR ''0'') (hex_digit (code c div 16)) (hex_digit (code c mod 16)) = Some c"
      by (simp add: unicode_escape_def)
    then show ?thesis
      using 3 by (simp add: json_char_def Let_def hex2_def)
  next
    case 4
    then have "code c \<noteq> 8 \<and> code c \<noteq> 9 \<and> code c \<noteq> 10 \<and> code c \<noteq> 12 \<and> code c \<noteq> 13" by auto
    then have "json_char a c = [c]" using 4 by (auto simp: json_char_def Let_def)
    then show ?thesis using 4 by simp
  qed
qed

lemma json_string_text: "json_string (concat (map (json_char a) s) @ quote # r) = Some (s, r)"
  by (induction s) simp_all

lemma json_text_append: "json_text a s @ r = quote # concat (map (json_char a) s) @ quote # r"
  by (simp add: json_text_def)

lemma nat_str_no_zero: "hd (nat_str n) = CHR ''0'' \<Longrightarrow> n = 0"
proof (induction n rule: nat_str.induct)
  case (1 n)
  show ?case
  proof (cases "n < 10")
    case True
    then have "hd (nat_str n) = char_of (48 + n)" by (subst nat_str.simps) simp
    then have "code (char_of (48 + n)) = code (CHR ''0'')" using 1 by simp
    then show ?thesis using True by (simp add: code_def[of "CHR ''0''"])
  next
    case False
    have "hd (nat_str n) = hd (nat_str (n div 10))" using False by (subst nat_str.simps) simp
    then show ?thesis using 1 False by simp
  qed
qed

lemma takeWhile_digits:
  "list_all is_digit d \<Longrightarrow> ends_number r \<Longrightarrow> takeWhile is_digit (d @ r) = d"
  by (cases r) (auto simp: takeWhile_append list_all_iff ends_number_def)

lemma json_number_nat:
  assumes "ends_number r"
  shows "json_fraction r = ([], r)" "json_exponent r = (None, r)"
  using assms by (auto simp: json_fraction_def json_exponent_def ends_number_def split: list.splits)

lemma nat_str_hd: "hd (nat_str n) \<noteq> CHR ''-''"
proof
  assume "hd (nat_str n) = CHR ''-''"
  then have "is_digit (CHR ''-'')" using nat_str_digits[of n] nat_str_nonempty[of n] by (metis list.set_sel(1) list_all_iff)
  then show False by (simp add: is_digit_def code_def)
qed

lemma json_number_int:
  assumes "ends_number r"
  shows "json_number (int_str n @ r) = Some (PInt n, r)"
proof -
  have tw: "takeWhile is_digit (nat_str m @ r) = nat_str m" for m using takeWhile_digits[OF nat_str_digits assms] .
  have z: "nat_str 0 = ''0''" by code_simp
  have ip: "(if hd (nat_str m) = CHR ''0'' then ''0'' else nat_str m) = nat_str m" for m
    using nat_str_no_zero[of m] z by auto
  show ?thesis
  proof (cases "n < 0")
    case True
    then have "hd (nat_str (nat (- n))) \<noteq> CHR ''0''" using nat_str_no_zero[of "nat (- n)"] by auto
    then show ?thesis
      using True json_number_nat[OF assms] by (simp add: json_number_def int_str_def Let_def tw ip del: digits_val_snoc)
  next
    case False
    then have "hd (nat_str (nat n)) \<noteq> CHR ''0'' \<or> n = 0" using nat_str_no_zero[of "nat n"] by auto
    moreover have "digits_val ''0'' = 0" by code_simp
    ultimately show ?thesis
      using False json_number_nat[OF assms] nat_str_hd[of "nat n"]
      by (auto simp add: z json_number_def int_str_def Let_def tw ip)
  qed
qed

lemma int_str_head: "\<exists>c cs. int_str n = c # cs \<and> (c = CHR ''-'' \<or> is_digit c)"
proof -
  have "\<exists>c cs. nat_str m = c # cs \<and> is_digit c" for m
    using nat_str_nonempty[of m] nat_str_digits[of m] by (cases "nat_str m") auto
  from this[of "nat n"] this[of "nat (- n)"] show ?thesis by (auto simp: int_str_def)
qed

lemma digit_not [simp]: "is_digit c \<Longrightarrow> \<not> is_ws c \<and> c \<notin> {quote, CHR ''{'', CHR ''}'', CHR ''['', CHR '']'', CHR ''n'', CHR ''t'', CHR ''f''}"
  by (auto simp: is_digit_def code_def is_ws_def)

lemma json_print_head:
  assumes "plain v"
  shows "\<exists>c cs. json_print jo v = c # cs \<and> \<not> is_ws c \<and> c \<noteq> CHR '']'' \<and> c \<noteq> CHR ''}''"
proof (cases v)
  case (PInt n)
  obtain c cs where c: "int_str n = c # cs" "c = CHR ''-'' \<or> is_digit c" using int_str_head by blast
  have "\<not> is_ws (CHR ''-'')" by (simp add: is_ws_def code_def)
  then have "\<not> is_ws c \<and> c \<noteq> CHR '']'' \<and> c \<noteq> CHR ''}''" using c(2) digit_not[of c] by auto
  then show ?thesis using PInt c(1) by simp
qed (use assms in \<open>auto simp: json_text_def is_ws_def code_def\<close>)

text \<open>The fuel a value needs.\<close>

fun fuel_of :: "pyval \<Rightarrow> nat" where
  "fuel_of (PList xs) = Suc (sum_list (map (\<lambda>x. Suc (fuel_of x)) xs))"
| "fuel_of (PDict d) = Suc (sum_list (map (\<lambda>(k, v). Suc (fuel_of v)) d))"
| "fuel_of _ = 1"

definition reads_back :: "json_opts \<Rightarrow> pyval \<Rightarrow> bool" where
  "reads_back jo v = (\<forall>n r. ends_number r \<longrightarrow> fuel_of v \<le> n \<longrightarrow> json_value n (json_print jo v @ r) = Some (v, r))"

lemma reads_backD: "reads_back jo v \<Longrightarrow> ends_number r \<Longrightarrow> fuel_of v \<le> n \<Longrightarrow> json_value n (json_print jo v @ r) = Some (v, r)"
  by (simp add: reads_back_def)

lemma not_ws [simp]: "\<not> is_ws quote" "\<not> is_ws (CHR '','')" "\<not> is_ws (CHR '':'')" "\<not> is_ws (CHR '']'')" "\<not> is_ws (CHR ''}'')"
  by (simp_all add: is_ws_def code_def)

lemma items_read_back:
  assumes "white_seps jo" "xs \<noteq> []" "\<forall>x \<in> set xs. reads_back jo x \<and> plain x"
    "sum_list (map (\<lambda>x. Suc (fuel_of x)) xs) \<le> n"
  shows "json_items n (join (jo_item jo) (map (json_print jo) xs) @ CHR '']'' # r) = Some (xs, r)"
  using assms(2-4)
proof (induction xs arbitrary: n)
  case (Cons x xs)
  obtain m where n: "n = Suc m" using Cons.prems by (cases n) auto
  obtain v where v: "jo_item jo = CHR '','' # v" "list_all is_ws v" using assms(1) by (auto simp: white_seps_def)
  show ?case
  proof (cases xs)
    case Nil
    then show ?thesis using Cons.prems n reads_backD[of jo x "CHR '']'' # r" m] by simp
  next
    case (Cons y ys)
    have x: "json_value m (json_print jo x @ CHR '','' # q) = Some (x, CHR '','' # q)" for q
      using Cons.prems n reads_backD[of jo x "CHR '','' # q" m] by simp
    obtain c cs where c: "json_print jo y = c # cs" "\<not> is_ws c" using json_print_head[of y jo] Cons Cons.prems by auto
    obtain q where q: "join (jo_item jo) (map (json_print jo) (y # ys)) = c # q"
      using c(1) by (cases ys) auto
    have "json_items m (join (jo_item jo) (map (json_print jo) (y # ys)) @ CHR '']'' # r) = Some (y # ys, r)"
      using Cons.IH[of m] Cons Cons.prems n by simp
    then show ?thesis using x c(2) n Cons v q by simp
  qed
qed simp

lemma members_read_back:
  assumes "white_seps jo" "d \<noteq> []" "\<forall>(k, x) \<in> set d. reads_back jo x \<and> plain x"
    "sum_list (map (\<lambda>(k, x). Suc (fuel_of x)) d) \<le> n"
  shows "json_members n (join (jo_item jo) (map (\<lambda>(k, v). json_text (jo_ascii jo) k @ jo_key jo @ json_print jo v) d) @ CHR ''}'' # r) = Some (d, r)"
  using assms(2-4)
proof (induction d arbitrary: n)
  case (Cons e d)
  obtain k x where e: "e = (k, x)" by fastforce
  obtain m where n: "n = Suc m" using Cons.prems e by (cases n) auto
  obtain v w where v: "jo_item jo = CHR '','' # v" "list_all is_ws v" "jo_key jo = CHR '':'' # w" "list_all is_ws w"
    using assms(1) by (auto simp: white_seps_def)
  have x: "json_value m (json_print jo x @ q) = Some (x, q)" if "ends_number q" for q
    using Cons.prems n e that reads_backD[of jo x q m] by simp
  obtain c cs where c: "json_print jo x = c # cs" "\<not> is_ws c" using json_print_head[of x jo] e Cons.prems by auto
  have sk: "skip_ws (json_print jo x @ q) = json_print jo x @ q" for q using c by simp
  show ?case
  proof (cases d)
    case Nil
    then show ?thesis using n e v x sk json_string_text by (simp add: json_text_append)
  next
    case (Cons y ys)
    let ?p = "\<lambda>(k, v). json_text (jo_ascii jo) k @ jo_key jo @ json_print jo v"
    obtain q where q: "join (jo_item jo) (map ?p (y # ys)) = quote # q"
      by (cases y; cases ys) (auto simp: json_text_def)
    have "json_members m (join (jo_item jo) (map ?p (y # ys)) @ CHR ''}'' # r) = Some (y # ys, r)"
      using Cons.IH[of m] Cons Cons.prems n e by simp
    then show ?thesis using n Cons v q x e sk json_string_text by (simp add: json_text_append)
  qed
qed simp

lemma dict_of_distinct: "distinct (map fst d) \<Longrightarrow> dict_of d = d"
proof -
  have "distinct (map fst acc @ map fst d) \<Longrightarrow> fold (\<lambda>(k, v) m. dict_set m k v) d acc = acc @ d" for acc
  proof (induction d arbitrary: acc)
    case (Cons e d)
    obtain k v where e: "e = (k, v)" by fastforce
    then have "dict_set acc k v = acc @ [e]" using Cons.prems by (simp add: dict_set_fresh)
    then show ?case using Cons.IH[of "acc @ [e]"] Cons.prems e by simp
  qed simp
  from this[of "[]"] show "distinct (map fst d) \<Longrightarrow> dict_of d = d" by (simp add: dict_of_def)
qed

lemma atom_reads_back:
  assumes "\<And>n r. ends_number r \<Longrightarrow> json_value (Suc n) (json_print jo v @ r) = Some (v, r)" "fuel_of v = 1"
  shows "reads_back jo v"
  unfolding reads_back_def
proof (intro allI impI)
  fix n r assume "ends_number r" "fuel_of v \<le> n"
  then show "json_value n (json_print jo v @ r) = Some (v, r)" using assms by (cases n) auto
qed

lemma json_value_number:
  assumes "s = c # cs" "c = CHR ''-'' \<or> is_digit c"
  shows "json_value (Suc n) s = json_number s"
proof -
  have "c \<noteq> quote" "c \<noteq> CHR ''{''" "c \<noteq> CHR ''[''" "c \<noteq> CHR ''n''" "c \<noteq> CHR ''t''" "c \<noteq> CHR ''f''"
    using assms(2) digit_not[of c] by auto
  then show ?thesis using assms(1) by simp
qed

lemma json_reads_back: "white_seps jo \<Longrightarrow> plain v \<Longrightarrow> reads_back jo v"
proof (induction v)
  case (PInt i)
  show ?case
  proof (rule atom_reads_back)
    fix n r assume "ends_number r"
    moreover obtain c cs where "int_str i = c # cs" "c = CHR ''-'' \<or> is_digit c" using int_str_head by blast
    ultimately show "json_value (Suc n) (json_print jo (PInt i) @ r) = Some (PInt i, r)"
      using json_number_int[of r i] json_value_number[of "int_str i @ r" c "cs @ r" n] by simp
  qed simp
next
  case (PStr s)
  show ?case by (rule atom_reads_back) (simp_all add: json_text_append json_string_text)
next
  case (PList xs)
  show ?case unfolding reads_back_def
  proof (intro allI impI)
    fix n r assume n: "fuel_of (PList xs) \<le> n"
    then obtain m where m: "n = Suc m" by (cases n) auto
    show "json_value n (json_print jo (PList xs) @ r) = Some (PList xs, r)"
    proof (cases xs)
      case (Cons y ys)
      obtain c cs where c: "json_print jo y = c # cs" "\<not> is_ws c" "c \<noteq> CHR '']''"
        using json_print_head[of y jo] Cons PList.prems by auto
      obtain q where q: "join (jo_item jo) (map (json_print jo) xs) = c # q" using c(1) Cons by (cases ys) auto
      have "json_items m (join (jo_item jo) (map (json_print jo) xs) @ CHR '']'' # r) = Some (xs, r)"
        by (rule items_read_back) (use PList Cons n m in \<open>auto simp: list_all_iff\<close>)
      then show ?thesis using m q c by simp
    qed (simp add: m)
  qed
next
  case (PDict d)
  show ?case unfolding reads_back_def
  proof (intro allI impI)
    fix n r assume n: "fuel_of (PDict d) \<le> n"
    then obtain m where m: "n = Suc m" by (cases n) auto
    let ?p = "\<lambda>(k, v). json_text (jo_ascii jo) k @ jo_key jo @ json_print jo v"
    show "json_value n (json_print jo (PDict d) @ r) = Some (PDict d, r)"
    proof (cases d)
      case (Cons y ys)
      obtain q where q: "join (jo_item jo) (map ?p d) = quote # q"
        using Cons by (cases y; cases ys) (auto simp: json_text_def)
      have "\<forall>(k, x) \<in> set d. reads_back jo x \<and> plain x"
        using PDict by (fastforce simp: list_all_iff)
      then have "json_members m (join (jo_item jo) (map ?p d) @ CHR ''}'' # r) = Some (d, r)"
        by (intro members_read_back) (use PDict.prems Cons n m in auto)
      then show ?thesis using m q PDict.prems by (simp add: dict_of_distinct)
    qed (simp add: m)
  qed
qed (rule atom_reads_back; simp)+

lemma length_join: "1 \<le> length sep \<Longrightarrow> sum_list (map (\<lambda>x. Suc (length x)) xs) \<le> Suc (length (join sep xs))"
  by (induction sep xs rule: join.induct) auto

lemma fuel_enough: "white_seps jo \<Longrightarrow> plain v \<Longrightarrow> fuel_of v \<le> length (json_print jo v)"
proof (induction v)
  case (PInt i)
  then show ?case using int_str_head[of i] by auto
next
  case (PList xs)
  have one: "1 \<le> length (jo_item jo)" using PList.prems by (auto simp: white_seps_def)
  have "sum_list (map (\<lambda>x. Suc (fuel_of x)) xs) \<le> sum_list (map (\<lambda>x. Suc (length (json_print jo x))) xs)"
    by (rule sum_list_mono) (use PList one in \<open>fastforce simp: list_all_iff\<close>)
  then show ?case using length_join[of "jo_item jo" "map (json_print jo) xs"] PList.prems one
    by (simp add: comp_def)
next
  case (PDict d)
  have one: "1 \<le> length (jo_item jo)" "1 \<le> length (jo_key jo)" using PDict.prems by (auto simp: white_seps_def)
  let ?p = "\<lambda>(k, v). json_text (jo_ascii jo) k @ jo_key jo @ json_print jo v"
  have "sum_list (map (\<lambda>(k, x). Suc (fuel_of x)) d) \<le> sum_list (map (\<lambda>e. Suc (length (?p e))) d)"
    by (rule sum_list_mono) (use PDict one in \<open>fastforce simp: list_all_iff\<close>)
  then show ?case using length_join[of "jo_item jo" "map ?p d"] one
    by (simp add: comp_def)
qed (auto simp: json_text_def)

lemma loads_print:
  assumes "white_seps jo" "plain v"
  shows "json_loads (json_print jo v) = Some v"
proof -
  obtain c cs where c: "json_print jo v = c # cs" "\<not> is_ws c" using json_print_head[OF assms(2)] by blast
  have "json_value n (json_print jo v @ []) = Some (v, [])" if "fuel_of v \<le> n" for n
    by (rule reads_backD[OF json_reads_back[OF assms]]) (use that in simp_all)
  moreover have "fuel_of v \<le> 2 * length (json_print jo v) + 2" using fuel_enough[OF assms] by simp
  ultimately have "json_value (2 * length (json_print jo v) + 2) (json_print jo v) = Some (v, [])" by (metis append_Nil2)
  then show ?thesis using c by (simp add: json_loads_def skip_ws_def del: json_value.simps)
qed

lemma json_print_inj: "white_seps jo \<Longrightarrow> plain u \<Longrightarrow> plain v \<Longrightarrow> json_print jo u = json_print jo v \<Longrightarrow> u = v"
  by (metis loads_print option.inject)

end
