(* ===== verification/Confirm.thy ===== *)
theory Confirm
  imports Json Tasks Vault
begin

text \<open>
  \<open>agent/confirm.py\<close> and \<open>agent/approval.py\<close>: the pending-confirmation queue, a directory of JSON files
  with an optional mirror in the bridge repository, and the manager that adds delivery, a shorter timeout
  and audit lines. A directory is an association list from file names to what the file holds: the JSON
  value, or \<open>None\<close> when it does not parse. The clock is an argument. Notifications and the websocket are
  recorded as the messages handed to them.
\<close>

subsection \<open>Files\<close>

type_synonym directory = "(string \<times> pyval option) list"

definition file_exists :: "directory \<Rightarrow> string \<Rightarrow> bool" where
  "file_exists d f = (map_of d f \<noteq> None)"

definition pending_name :: "string \<Rightarrow> string" where
  "pending_name i = ''pending-confirm-'' @ i @ ''.json''"

definition approved_name :: "string \<Rightarrow> string" where
  "approved_name i = ''approved-'' @ i @ ''.json''"

definition denied_name :: "string \<Rightarrow> string" where
  "denied_name i = ''denied-'' @ i @ ''.json''"

text \<open>\<open>glob("pending-confirm-*.json")\<close>, sorted, as the ids cut out of the stems.\<close>

definition is_pending_name :: "string \<Rightarrow> bool" where
  "is_pending_name f = (prefix ''pending-confirm-'' f \<and> suffix ''.json'' f \<and> 21 \<le> length f)"

definition id_of_name :: "string \<Rightarrow> string" where
  "id_of_name f = drop 16 (take (length f - 5) f)"

definition pending_ids :: "directory \<Rightarrow> string list" where
  "pending_ids d = map id_of_name (sort (filter is_pending_name (map fst d)))"

subsection \<open>The confirmation manager\<close>

record confirm =
  cf_local :: directory
  cf_bridge :: "directory option"
  cf_minutes :: rat

definition DEFAULT_TIMEOUT_MINUTES :: rat where
  "DEFAULT_TIMEOUT_MINUTES = 30"

definition one_liner :: "string \<Rightarrow> string \<Rightarrow> string" where
  "one_liner i command =
     (let cmd = (if length command \<le> 120 then command else take 117 command @ ''...'') in
      ''Approve task '' @ i @ ''? Command: '' @ cmd @ ''. Reply with `iddo-harness confirm '' @ i @ '' --approve` or reject.'')"

text \<open>\<open>payload.get("command") or payload.get("path", "")\<close>; a value that is not a string is shown as text.\<close>

definition pending_command :: "dict \<Rightarrow> string" where
  "pending_command payload = py_str (py_or (dget payload ''command'') (dget_or payload ''path'' (PStr [])))"

definition pending_dict :: "rat \<Rightarrow> task \<Rightarrow> string \<Rightarrow> dict" where
  "pending_dict now t reason =
     [(''task_id'', PStr (t_id t)), (''command'', PStr (pending_command (t_payload t))), (''reason'', PStr reason),
      (''created_ts'', PFloat now), (''kind'', PStr (t_kind t)), (''payload'', PDict (t_payload t)),
      (''message'', PStr (one_liner (t_id t) (pending_command (t_payload t)))), (''status'', PStr ''pending'')]"

definition write_both :: "string \<Rightarrow> pyval \<Rightarrow> confirm \<Rightarrow> confirm" where
  "write_both f v c = c\<lparr>cf_local := dict_set (cf_local c) f (Some v),
     cf_bridge := map_option (\<lambda>b. dict_set b f (Some v)) (cf_bridge c)\<rparr>"

definition create :: "rat \<Rightarrow> task \<Rightarrow> string \<Rightarrow> confirm \<Rightarrow> dict \<times> confirm" where
  "create now t reason c =
     (let pc = pending_dict now t reason in (pc, write_both (pending_name (t_id t)) (PDict pc) c))"

definition respond :: "rat \<Rightarrow> string \<Rightarrow> bool \<Rightarrow> confirm \<Rightarrow> confirm" where
  "respond now i approve c =
     (let verb = (if approve then ''approved'' else ''denied'') in
      write_both (verb @ ''-'' @ i @ ''.json'')
        (PDict [(''task_id'', PStr i), (''status'', PStr verb), (''ts'', PFloat now)]) c)"

definition has_response :: "confirm \<Rightarrow> string \<Rightarrow> bool" where
  "has_response c i = (file_exists (cf_local c) (approved_name i) \<or> file_exists (cf_local c) (denied_name i))"

definition dir_response :: "directory \<Rightarrow> string \<Rightarrow> bool option" where
  "dir_response d i = (if file_exists d (approved_name i) then Some True
     else if file_exists d (denied_name i) then Some False else None)"

text \<open>\<open>check_response\<close>: \<open>Some True\<close> for approved, \<open>Some False\<close> for denied.\<close>

definition check_response :: "confirm \<Rightarrow> string \<Rightarrow> bool option" where
  "check_response c i = (case dir_response (cf_local c) i of Some b \<Rightarrow> Some b
     | None \<Rightarrow> (case cf_bridge c of None \<Rightarrow> None | Some d \<Rightarrow> dir_response d i))"

text \<open>\<open>PendingConfirmation(**data)\<close>: the known keys, the first four required.\<close>

definition pending_fields :: "string list" where
  "pending_fields = [''task_id'', ''command'', ''reason'', ''created_ts'', ''kind'', ''payload'', ''message'', ''status'']"

definition pending_of :: "pyval option \<Rightarrow> dict option" where
  "pending_of f = (case f of Some (PDict d) \<Rightarrow>
       (if set (map fst d) \<subseteq> set pending_fields \<and> (\<forall>k \<in> set (take 4 pending_fields). has_key d k)
        then Some [(''task_id'', dget d ''task_id''), (''command'', dget d ''command''), (''reason'', dget d ''reason''),
          (''created_ts'', dget d ''created_ts''), (''kind'', dget_or d ''kind'' (PStr ''shell'')),
          (''payload'', dget_or d ''payload'' (PDict [])), (''message'', dget_or d ''message'' (PStr [])),
          (''status'', dget_or d ''status'' (PStr ''pending''))]
        else None)
     | _ \<Rightarrow> None)"

definition read_pending :: "confirm \<Rightarrow> string \<Rightarrow> pyval option" where
  "read_pending c i = (case map_of (cf_local c) (pending_name i) of None \<Rightarrow> None | Some f \<Rightarrow> f)"

definition list_pending :: "confirm \<Rightarrow> dict list" where
  "list_pending c = List.map_filter (\<lambda>i. if has_response c i then None else pending_of (read_pending c i)) (pending_ids (cf_local c))"

definition number :: "pyval \<Rightarrow> rat option" where
  "number v = (case v of PInt n \<Rightarrow> Some (of_int n) | PFloat r \<Rightarrow> Some r | PBool b \<Rightarrow> Some (if b then 1 else 0) | _ \<Rightarrow> None)"

text \<open>One file of \<open>sweep_timeouts\<close>: a file that cannot be read, or is no object, is skipped; a \<open>created_ts\<close>
  that is not a number raises, which ends the sweep (\<open>None\<close>).\<close>

definition sweep_one :: "rat \<Rightarrow> string \<Rightarrow> (string list \<times> confirm) option \<Rightarrow> (string list \<times> confirm) option" where
  "sweep_one now i st = (case st of None \<Rightarrow> None | Some (denied, c) \<Rightarrow>
     (if has_response c i then Some (denied, c)
      else (case read_pending c i of
          Some (PDict d) \<Rightarrow>
            (case number (dget_or d ''created_ts'' (PFloat now)) of None \<Rightarrow> None
             | Some created \<Rightarrow> if now - created \<ge> cf_minutes c * 60
                 then Some (denied @ [i], respond now i False c) else Some (denied, c))
        | _ \<Rightarrow> Some (denied, c))))"

definition sweep_timeouts :: "rat \<Rightarrow> confirm \<Rightarrow> (string list \<times> confirm) option" where
  "sweep_timeouts now c = fold (sweep_one now) (pending_ids (cf_local c)) (Some ([], c))"

subsection \<open>The polling loop's side\<close>

text \<open>\<open>GithubPoller.scan_pending\<close> on the pending files, after the sweep. A pending file is written by
  \<open>create\<close>; one whose fields have other types is outside the model.\<close>

definition pending_task :: "string \<Rightarrow> dict \<Rightarrow> task option" where
  "pending_task i d = (case (dget_or d ''task_id'' (PStr i), dget_or d ''kind'' (PStr ''shell''), dget_or d ''payload'' (PDict [])) of
     (PStr j, PStr k, PDict p) \<Rightarrow> Some (mk_task j k p) | _ \<Rightarrow> None)"

definition scan_one :: "string \<Rightarrow> ((task \<times> bool) list \<times> confirm) option \<Rightarrow> ((task \<times> bool) list \<times> confirm) option" where
  "scan_one i st = (case st of None \<Rightarrow> None | Some (resolved, c) \<Rightarrow>
     (case check_response c i of None \<Rightarrow> Some (resolved, c)
      | Some approved \<Rightarrow>
         (case read_pending c i of
            None \<Rightarrow> Some (resolved, c)
          | Some (PDict d) \<Rightarrow> (case pending_task i d of None \<Rightarrow> None
              | Some t \<Rightarrow> Some (resolved @ [(t, approved)], c\<lparr>cf_local := dict_del (cf_local c) (pending_name i)\<rparr>))
          | Some _ \<Rightarrow> None)))"

definition scan_pending :: "rat \<Rightarrow> confirm \<Rightarrow> ((task \<times> bool) list \<times> confirm) option" where
  "scan_pending now c = (case sweep_timeouts now c of None \<Rightarrow> None
     | Some (denied, c1) \<Rightarrow> fold scan_one (pending_ids (cf_local c1)) (Some ([], c1)))"

subsection \<open>The approval manager\<close>

datatype mode = ModeLocal | ModeNotification | ModeRemote

definition normalise_mode :: "pyval \<Rightarrow> mode" where
  "normalise_mode v = (let text = lower (strip (py_str (py_or v (PStr ''local'')))) in
     if text = ''notification'' then ModeNotification else if text = ''remote'' then ModeRemote else ModeLocal)"

text \<open>An audit line: actor, action, resource (masked) and outcome; its metadata is left out.\<close>

record approval_line =
  al_actor :: string
  al_action :: string
  al_resource :: string
  al_outcome :: string

text \<open>\<open>ap_known\<close> are the values \<open>mask_text\<close> redacts, \<open>ap_desktop\<close> whether a notification backend accepts,
  \<open>ap_bridge\<close> whether a websocket bridge takes messages; what was delivered is kept in order.\<close>

record approval =
  ap_confirm :: confirm
  ap_mode :: mode
  ap_seconds :: rat
  ap_known :: "string list"
  ap_desktop :: bool
  ap_bridge :: bool
  ap_audit :: "approval_line list"
  ap_notified :: "string list"
  ap_sent :: "dict list"

definition mode_str :: "mode \<Rightarrow> string" where
  "mode_str m = (case m of ModeLocal \<Rightarrow> ''local'' | ModeNotification \<Rightarrow> ''notification'' | ModeRemote \<Rightarrow> ''remote'')"

definition DEFAULT_TIMEOUT_SECONDS :: rat where
  "DEFAULT_TIMEOUT_SECONDS = 300"

definition new_approval :: "confirm \<Rightarrow> pyval \<Rightarrow> rat \<Rightarrow> string list \<Rightarrow> bool \<Rightarrow> bool \<Rightarrow> approval" where
  "new_approval c md secs known desktop bridge =
     \<lparr>ap_confirm = c\<lparr>cf_minutes := secs / 60\<rparr>, ap_mode = normalise_mode md, ap_seconds = secs, ap_known = known,
      ap_desktop = desktop, ap_bridge = bridge, ap_audit = [], ap_notified = [], ap_sent = []\<rparr>"

definition audit_line :: "string \<Rightarrow> string \<Rightarrow> string \<Rightarrow> string \<Rightarrow> approval \<Rightarrow> approval" where
  "audit_line actor action resource out a =
     a\<lparr>ap_audit := ap_audit a @ [\<lparr>al_actor = actor, al_action = action, al_resource = mask_text (ap_known a) resource, al_outcome = out\<rparr>]\<rparr>"

definition send_remote :: "dict \<Rightarrow> approval \<Rightarrow> bool \<times> approval" where
  "send_remote pc a = (if \<not> ap_bridge a then (False, a)
     else (True, a\<lparr>ap_sent := ap_sent a @
       [[(''type'', PStr ''approval_request''), (''task_id'', dget pc ''task_id''), (''kind'', dget pc ''kind''),
         (''command'', PStr (mask_text (ap_known a) (py_str (dget pc ''command'')))), (''reason'', dget pc ''reason''),
         (''timeout_seconds'', PFloat (ap_seconds a))]]\<rparr>))"

definition approval_create :: "rat \<Rightarrow> task \<Rightarrow> string \<Rightarrow> approval \<Rightarrow> dict \<times> approval" where
  "approval_create now t reason a =
     (case create now t reason (ap_confirm a) of (pc, c) \<Rightarrow>
       (let a1 = audit_line (t_id t) ''approval_requested''
              (let cmd = pending_command (t_payload t) in if cmd = [] then t_id t else cmd) ''ok'' (a\<lparr>ap_confirm := c\<rparr>);
            a2 = (if ap_mode a \<noteq> ModeLocal \<and> ap_desktop a
                  then a1\<lparr>ap_notified := ap_notified a1 @ [mask_text (ap_known a1) (py_str (dget pc ''message''))]\<rparr> else a1);
            a3 = (if ap_mode a = ModeRemote then snd (send_remote pc a2) else a2) in
        (pc, a3)))"

definition approval_respond :: "rat \<Rightarrow> string \<Rightarrow> bool \<Rightarrow> string \<Rightarrow> approval \<Rightarrow> approval" where
  "approval_respond now i approve actor a =
     audit_line actor (if approve then ''approval_granted'' else ''approval_denied'') i (if approve then ''ok'' else ''deny'')
       (a\<lparr>ap_confirm := respond now i approve (ap_confirm a)\<rparr>)"

text \<open>The automatic deny, in \<open>wait_for_response\<close> and in the sweep.\<close>

definition auto_deny :: "rat \<Rightarrow> string \<Rightarrow> approval \<Rightarrow> approval" where
  "auto_deny now i a = audit_line ''timeout'' ''approval_timeout'' i ''deny'' (approval_respond now i False ''timeout'' a)"

text \<open>\<open>wait_for_response\<close>: one turn of the loop per tick, a tick being the time and what others have done to
  the directories by then. \<open>None\<close> while the ticks run out before the loop returns.\<close>

fun wait_loop :: "rat \<Rightarrow> string \<Rightarrow> (rat \<times> (confirm \<Rightarrow> confirm)) list \<Rightarrow> approval \<Rightarrow> (bool \<times> approval) option" where
  "wait_loop deadline i [] a = None"
| "wait_loop deadline i ((now, others) # ticks) a =
     (let a1 = a\<lparr>ap_confirm := others (ap_confirm a)\<rparr> in
      case check_response (ap_confirm a1) i of
        Some status \<Rightarrow> Some (status, a1)
      | None \<Rightarrow> if now \<ge> deadline then Some (False, auto_deny now i a1) else wait_loop deadline i ticks a1)"

definition wait_for_response :: "rat \<Rightarrow> rat option \<Rightarrow> string \<Rightarrow> (rat \<times> (confirm \<Rightarrow> confirm)) list \<Rightarrow> approval \<Rightarrow> (bool \<times> approval) option" where
  "wait_for_response start tmo i ticks a =
     wait_loop (start + (case tmo of None \<Rightarrow> ap_seconds a | Some s \<Rightarrow> s)) i ticks a"

text \<open>\<open>ApprovalManager.sweep_timeouts\<close>: every file that does not read is skipped, \<open>float()\<close> included.\<close>

definition approval_sweep_one :: "rat \<Rightarrow> string \<Rightarrow> string list \<times> approval \<Rightarrow> string list \<times> approval" where
  "approval_sweep_one now i st = (case st of (denied, a) \<Rightarrow>
     (if has_response (ap_confirm a) i then (denied, a)
      else (case read_pending (ap_confirm a) i of
          Some (PDict d) \<Rightarrow>
            (case py_float (dget_or d ''created_ts'' (PFloat now)) of None \<Rightarrow> (denied, a)
             | Some created \<Rightarrow> if now - created < ap_seconds a then (denied, a) else (denied @ [i], auto_deny now i a))
        | _ \<Rightarrow> (denied, a))))"

definition approval_sweep :: "rat \<Rightarrow> approval \<Rightarrow> string list \<times> approval" where
  "approval_sweep now a = fold (approval_sweep_one now) (pending_ids (cf_local (ap_confirm a))) ([], a)"

subsection \<open>File names\<close>

lemma pending_name_facts [simp]:
  "is_pending_name (pending_name i)" "id_of_name (pending_name i) = i" "(pending_name i = pending_name j) = (i = j)"
  "(approved_name i = approved_name j) = (i = j)" "(denied_name i = denied_name j) = (i = j)"
  "approved_name i \<noteq> denied_name j" "denied_name j \<noteq> approved_name i"
  "\<not> is_pending_name (approved_name i)" "\<not> is_pending_name (denied_name i)"
  "pending_name i \<noteq> approved_name j" "approved_name j \<noteq> pending_name i" "pending_name i \<noteq> denied_name j" "denied_name j \<noteq> pending_name i"
  by (simp_all add: is_pending_name_def pending_name_def approved_name_def denied_name_def id_of_name_def suffix_def)

lemma pending_name_id [simp]: "is_pending_name f \<Longrightarrow> pending_name (id_of_name f) = f"
proof -
  assume f: "is_pending_name f"
  then obtain r s where r: "f = ''pending-confirm-'' @ r" and s: "f = s @ ''.json''" and l: "21 \<le> length f"
    unfolding is_pending_name_def prefix_def suffix_def by blast
  have len: "length s = 11 + length r" using arg_cong[OF r[unfolded s], of length] by simp
  have "take 16 s = ''pending-confirm-''" using arg_cong[OF r[unfolded s], of "take 16"] l s by simp
  then have "s = ''pending-confirm-'' @ drop 16 s" by (metis append_take_drop_id)
  moreover have "take (length f - 5) f = s" using s by simp
  ultimately show ?thesis using s by (simp add: pending_name_def id_of_name_def)
qed

lemma respond_name: "(if b then ''approved'' else ''denied'') @ ''-'' @ i @ ''.json'' = (if b then approved_name i else denied_name i)"
  by (simp add: approved_name_def denied_name_def)

lemma file_exists_set [simp]: "file_exists (dict_set d f v) g = (g = f \<or> file_exists d g)"
  by (auto simp: file_exists_def update_conv)

lemma pending_ids_set [simp]: "\<not> is_pending_name f \<Longrightarrow> pending_ids (dict_set d f v) = pending_ids d"
proof -
  have "\<not> is_pending_name f \<Longrightarrow> filter is_pending_name (map fst (dict_set d f v)) = filter is_pending_name (map fst d)"
    by (induction d) auto
  then show "\<not> is_pending_name f \<Longrightarrow> pending_ids (dict_set d f v) = pending_ids d" by (simp add: pending_ids_def)
qed

lemma pending_ids_member: "i \<in> set (pending_ids d) \<longleftrightarrow> file_exists d (pending_name i)"
  by (force simp: pending_ids_def file_exists_def map_of_eq_None_iff image_iff)

lemma pending_ids_distinct: "distinct (map fst d) \<Longrightarrow> distinct (pending_ids d)"
proof -
  assume "distinct (map fst d)"
  then have "distinct (sort (filter is_pending_name (map fst d)))" by simp
  moreover have "inj_on id_of_name (set (sort (filter is_pending_name (map fst d))))"
    by (rule inj_on_inverseI[where g = pending_name]) auto
  ultimately show ?thesis by (simp add: pending_ids_def distinct_map)
qed

lemma filter_delete: "filter P (map fst (dict_del d k)) = filter (\<lambda>x. P x \<and> x \<noteq> k) (map fst d)"
  by (induction d) (auto simp: AList.delete_eq)

lemma pending_ids_delete: "pending_ids (dict_del d (pending_name i)) = filter (\<lambda>j. j \<noteq> i) (pending_ids d)"
proof -
  have "filter (\<lambda>j. j \<noteq> i) (map id_of_name xs) = map id_of_name (filter (\<lambda>f. f \<noteq> pending_name i) xs)"
    if "list_all is_pending_name xs" for xs
    using that by (induction xs) auto
  then have "filter (\<lambda>j. j \<noteq> i) (pending_ids d) = map id_of_name (filter (\<lambda>f. f \<noteq> pending_name i) (sort (filter is_pending_name (map fst d))))"
    by (simp add: pending_ids_def list_all_iff)
  also have "filter (\<lambda>f. f \<noteq> pending_name i) (sort (filter is_pending_name (map fst d)))
      = sort (filter (\<lambda>f. f \<noteq> pending_name i) (filter is_pending_name (map fst d)))"
    by (simp add: filter_sort)
  also have "filter (\<lambda>f. f \<noteq> pending_name i) (filter is_pending_name (map fst d)) = filter is_pending_name (map fst (dict_del d (pending_name i)))"
    by (simp add: filter_delete conj_commute)
  finally show ?thesis by (simp add: pending_ids_def)
qed

subsection \<open>A queue that create filled\<close>

definition wf_confirm :: "confirm \<Rightarrow> bool" where
  "wf_confirm c = (distinct (map fst (cf_local c)) \<and>
     (\<forall>i \<in> set (pending_ids (cf_local c)). \<exists>now t reason. t_id t = i \<and>
        map_of (cf_local c) (pending_name i) = Some (Some (PDict (pending_dict now t reason)))))"

definition created_at :: "confirm \<Rightarrow> string \<Rightarrow> rat" where
  "created_at c i = (case read_pending c i of Some (PDict d) \<Rightarrow> (case dget d ''created_ts'' of PFloat r \<Rightarrow> r | _ \<Rightarrow> 0) | _ \<Rightarrow> 0)"

lemma wf_read:
  assumes "wf_confirm c" "i \<in> set (pending_ids (cf_local c))"
  obtains t reason where "read_pending c i = Some (PDict (pending_dict (created_at c i) t reason))" "t_id t = i"
proof -
  obtain now t reason where *: "t_id t = i" "map_of (cf_local c) (pending_name i) = Some (Some (PDict (pending_dict now t reason)))"
    using assms by (auto simp: wf_confirm_def)
  then have r: "read_pending c i = Some (PDict (pending_dict now t reason))" by (simp add: read_pending_def)
  then have "created_at c i = now" by (simp add: created_at_def pending_dict_def dget_def)
  then show thesis using that r *(1) by blast
qed

lemma create_wf: "wf_confirm c \<Longrightarrow> wf_confirm (snd (create now t reason c))"
proof -
  assume wf: "wf_confirm c"
  let ?c = "snd (create now t reason c)"
  have l: "cf_local ?c = dict_set (cf_local c) (pending_name (t_id t)) (Some (PDict (pending_dict now t reason)))"
    by (simp add: create_def Let_def write_both_def)
  have "distinct (map fst (cf_local ?c))" using wf by (simp add: l wf_confirm_def distinct_update)
  moreover have "\<exists>now' t' reason'. t_id t' = i \<and> map_of (cf_local ?c) (pending_name i) = Some (Some (PDict (pending_dict now' t' reason')))"
    if i: "i \<in> set (pending_ids (cf_local ?c))" for i
  proof (cases "i = t_id t")
    case True
    then show ?thesis by (auto simp: l update_conv)
  next
    case False
    then have "i \<in> set (pending_ids (cf_local c))" using i by (simp add: l pending_ids_member)
    then show ?thesis using wf False by (simp add: l wf_confirm_def update_conv del: map_of_eq_Some_iff)
  qed
  ultimately show ?thesis by (simp add: wf_confirm_def)
qed

lemma respond_local: "cf_local (respond now i b c) = dict_set (cf_local c) (if b then approved_name i else denied_name i)
    (Some (PDict [(''task_id'', PStr i), (''status'', PStr (if b then ''approved'' else ''denied'')), (''ts'', PFloat now)]))"
  by (simp add: respond_def write_both_def Let_def approved_name_def denied_name_def)

lemma respond_bridge: "cf_bridge (respond now i b c) = map_option (\<lambda>d. dict_set d (if b then approved_name i else denied_name i)
    (Some (PDict [(''task_id'', PStr i), (''status'', PStr (if b then ''approved'' else ''denied'')), (''ts'', PFloat now)]))) (cf_bridge c)"
  by (simp add: respond_def write_both_def Let_def approved_name_def denied_name_def)

lemma respond_sel [simp]: "cf_minutes (respond now i b c) = cf_minutes c"
  by (simp add: respond_def write_both_def Let_def)

lemma respond_pending [simp]:
  "pending_ids (cf_local (respond now i b c)) = pending_ids (cf_local c)" "read_pending (respond now i b c) j = read_pending c j"
  by (simp_all add: respond_local read_pending_def update_conv)

lemma respond_wf: "wf_confirm c \<Longrightarrow> wf_confirm (respond now i b c)"
  by (simp add: wf_confirm_def respond_local distinct_update update_conv del: map_of_eq_Some_iff)

lemma has_response_respond: "has_response (respond now i b c) j = (j = i \<or> has_response c j)"
  by (auto simp: has_response_def respond_local)

subsection \<open>The sweep\<close>

definition overdue :: "rat \<Rightarrow> confirm \<Rightarrow> string \<Rightarrow> bool" where
  "overdue now c i = (\<not> has_response c i \<and> now - created_at c i \<ge> cf_minutes c * 60)"

lemma sweep_one_eq:
  assumes "wf_confirm c" "i \<in> set (pending_ids (cf_local c))"
  shows "sweep_one now i (Some (ds, c)) = Some (if overdue now c i then (ds @ [i], respond now i False c) else (ds, c))"
proof -
  obtain t reason where "read_pending c i = Some (PDict (pending_dict (created_at c i) t reason))" "t_id t = i"
    using wf_read[OF assms] .
  then show ?thesis by (simp add: sweep_one_def overdue_def pending_dict_def dget_or_def number_def)
qed

lemma overdue_respond:
  "overdue now (respond now i False c) j = (j \<noteq> i \<and> overdue now c j)"
  by (auto simp: overdue_def has_response_respond created_at_def)

lemma sweep_fold:
  assumes "wf_confirm c" "set is \<subseteq> set (pending_ids (cf_local c))" "distinct is"
  shows "fold (sweep_one now) is (Some (ds, c)) =
    Some (ds @ filter (overdue now c) is, fold (\<lambda>i. respond now i False) (filter (overdue now c) is) c)"
  using assms
proof (induction "is" arbitrary: ds c)
  case (Cons i js)
  let ?c = "respond now i False c"
  have one: "sweep_one now i (Some (ds, c)) = Some (if overdue now c i then (ds @ [i], ?c) else (ds, c))"
    by (rule sweep_one_eq) (use Cons.prems in auto)
  show ?case
  proof (cases "overdue now c i")
    case True
    have "filter (overdue now ?c) js = filter (overdue now c) js"
      using Cons.prems(3) by (intro filter_cong) (auto simp: overdue_respond)
    then show ?thesis using one True Cons.IH[of ?c "ds @ [i]"] Cons.prems respond_wf by simp
  next
    case False
    then show ?thesis using one Cons.IH[of c ds] Cons.prems by simp
  qed
qed simp

lemma fold_respond:
  fixes now :: rat
  assumes "wf_confirm c"
  defines "c' xs \<equiv> fold (\<lambda>i. respond now i False) xs c"
  shows "wf_confirm (c' xs) \<and> pending_ids (cf_local (c' xs)) = pending_ids (cf_local c) \<and> (\<forall>i. read_pending (c' xs) i = read_pending c i) \<and>
    cf_minutes (c' xs) = cf_minutes c \<and>
    (\<forall>i. check_response (c' xs) i = (if i \<in> set xs \<and> \<not> file_exists (cf_local c) (approved_name i) then Some False else check_response c i)) \<and>
    (\<forall>i. has_response (c' xs) i = (i \<in> set xs \<or> has_response c i)) \<and>
    (\<forall>i. file_exists (cf_local (c' xs)) (approved_name i) = file_exists (cf_local c) (approved_name i))"
proof (induction xs rule: rev_induct)
  case Nil
  then show ?case using assms by simp
next
  case (snoc x xs)
  have s: "c' (xs @ [x]) = respond now x False (c' xs)" by (simp add: c'_def)
  have "check_response (respond now x False d) i = (if i = x \<and> \<not> file_exists (cf_local d) (approved_name i) then Some False else check_response d i)"
    for d i
    by (auto simp: check_response_def dir_response_def respond_local respond_bridge split: option.splits)
  then show ?case using snoc unfolding s
    by (auto simp: respond_wf has_response_respond respond_local)
qed

text \<open>The verdict on a pending task: an answer in the local queue, else the timeout, else an answer in the bridge.\<close>

definition verdict :: "rat \<Rightarrow> confirm \<Rightarrow> string \<Rightarrow> bool option" where
  "verdict now c i = (if overdue now c i then Some False else check_response c i)"

lemma sweep_timeouts_eq:
  assumes "wf_confirm c"
  shows "sweep_timeouts now c = Some (filter (overdue now c) (pending_ids (cf_local c)),
     fold (\<lambda>i. respond now i False) (filter (overdue now c) (pending_ids (cf_local c))) c)"
  using sweep_fold[OF assms subset_refl] pending_ids_distinct assms by (simp add: sweep_timeouts_def wf_confirm_def)

lemma check_after_sweep:
  assumes "wf_confirm c" "i \<in> set (pending_ids (cf_local c))"
  shows "check_response (fold (\<lambda>i. respond now i False) (filter (overdue now c) (pending_ids (cf_local c))) c) i = verdict now c i"
  using fold_respond[OF assms(1), of now "filter (overdue now c) (pending_ids (cf_local c))"] assms(2)
  by (auto simp: verdict_def overdue_def has_response_def)

subsection \<open>Scanning\<close>

lemma scan_one_eq:
  assumes "wf_confirm c" "i \<in> set (pending_ids (cf_local c))"
  shows "\<exists>t. t_id t = i \<and> scan_one i (Some (rs, c)) = Some (case check_response c i of None \<Rightarrow> (rs, c)
     | Some b \<Rightarrow> (rs @ [(t, b)], c\<lparr>cf_local := dict_del (cf_local c) (pending_name i)\<rparr>))"
proof -
  obtain t reason where "read_pending c i = Some (PDict (pending_dict (created_at c i) t reason))" "t_id t = i"
    using wf_read[OF assms] .
  then show ?thesis
    by (intro exI[of _ "mk_task i (t_kind t) (t_payload t)"])
      (auto simp: scan_one_def pending_task_def pending_dict_def dget_or_def split: option.splits)
qed

lemma delete_facts:
  fixes i :: string
  assumes "wf_confirm c"
  defines "d \<equiv> c\<lparr>cf_local := dict_del (cf_local c) (pending_name i)\<rparr>"
  shows "wf_confirm d" "pending_ids (cf_local d) = filter (\<lambda>j. j \<noteq> i) (pending_ids (cf_local c))" "check_response d j = check_response c j"
proof -
  show p: "pending_ids (cf_local d) = filter (\<lambda>j. j \<noteq> i) (pending_ids (cf_local c))" by (simp add: d_def pending_ids_delete)
  have m: "map_of (cf_local d) f = (if f = pending_name i then None else map_of (cf_local c) f)" for f
    by (simp add: d_def delete_conv)
  show "check_response d j = check_response c j"
    by (simp add: check_response_def dir_response_def file_exists_def m) (simp add: d_def)
  show "wf_confirm d" using assms(1) p by (auto simp: wf_confirm_def m d_def distinct_delete simp del: map_of_eq_Some_iff)
qed

lemma scan_fold:
  assumes "wf_confirm c" "set is \<subseteq> set (pending_ids (cf_local c))" "distinct is"
  shows "\<exists>ts c'. fold scan_one is (Some (rs, c)) = Some (rs @ ts, c') \<and> wf_confirm c' \<and>
    map (\<lambda>(t, b). (t_id t, b)) ts = List.map_filter (\<lambda>i. map_option (Pair i) (check_response c i)) is \<and>
    pending_ids (cf_local c') = filter (\<lambda>i. i \<notin> set is \<or> check_response c i = None) (pending_ids (cf_local c)) \<and>
    (\<forall>j. check_response c' j = check_response c j)"
  using assms
proof (induction "is" arbitrary: rs c)
  case Nil
  then show ?case by (simp add: List.map_filter_simps)
next
  case (Cons i js)
  obtain t where t: "t_id t = i" "scan_one i (Some (rs, c)) = Some (case check_response c i of None \<Rightarrow> (rs, c)
     | Some b \<Rightarrow> (rs @ [(t, b)], c\<lparr>cf_local := dict_del (cf_local c) (pending_name i)\<rparr>))"
    using scan_one_eq[of c i rs] Cons.prems by auto
  show ?case
  proof (cases "check_response c i")
    case None
    obtain ts c' where "fold scan_one js (Some (rs, c)) = Some (rs @ ts, c')" "wf_confirm c'"
      "map (\<lambda>(t, b). (t_id t, b)) ts = List.map_filter (\<lambda>i. map_option (Pair i) (check_response c i)) js"
      "pending_ids (cf_local c') = filter (\<lambda>i. i \<notin> set js \<or> check_response c i = None) (pending_ids (cf_local c))"
      "\<forall>j. check_response c' j = check_response c j"
      using Cons.IH[of c rs] Cons.prems by auto
    then show ?thesis using t None by (auto simp: List.map_filter_simps intro!: filter_cong)
  next
    case (Some b)
    let ?d = "c\<lparr>cf_local := dict_del (cf_local c) (pending_name i)\<rparr>"
    note d = delete_facts[OF Cons.prems(1), of i]
    have "set js \<subseteq> set (pending_ids (cf_local ?d))" using Cons.prems d(2) by auto
    then obtain ts c' where "fold scan_one js (Some (rs @ [(t, b)], ?d)) = Some ((rs @ [(t, b)]) @ ts, c')" "wf_confirm c'"
      "map (\<lambda>(t, b). (t_id t, b)) ts = List.map_filter (\<lambda>i. map_option (Pair i) (check_response c i)) js"
      "pending_ids (cf_local c') = filter (\<lambda>i. i \<notin> set js \<or> check_response c i = None) (pending_ids (cf_local ?d))"
      "\<forall>j. check_response c' j = check_response c j"
      using Cons.IH[of ?d "rs @ [(t, b)]"] Cons.prems(3) d by auto
    moreover have "filter (\<lambda>i. i \<notin> set js \<or> check_response c i = None) (pending_ids (cf_local ?d))
        = filter (\<lambda>j. j \<notin> set (i # js) \<or> check_response c j = None) (pending_ids (cf_local c))"
      using Some d(2) by (auto intro!: filter_cong)
    ultimately show ?thesis using t Some by (auto simp: List.map_filter_simps)
  qed
qed

text \<open>C32: one pass of the polling loop over the pending queue answers every request that has a verdict, once and
  with that verdict (an answer in the local queue, else a denial when it is overdue, else the bridge's answer),
  removes exactly those, and leaves the others for the next pass.\<close>

theorem scan_pending_resolves:
  assumes "wf_confirm c"
  shows "\<exists>rs c'. scan_pending now c = Some (rs, c') \<and> wf_confirm c' \<and>
    map (\<lambda>(t, b). (t_id t, b)) rs = List.map_filter (\<lambda>i. map_option (Pair i) (verdict now c i)) (pending_ids (cf_local c)) \<and>
    pending_ids (cf_local c') = filter (\<lambda>i. verdict now c i = None) (pending_ids (cf_local c))"
proof -
  let ?d = "fold (\<lambda>i. respond now i False) (filter (overdue now c) (pending_ids (cf_local c))) c"
  have d: "wf_confirm ?d" "pending_ids (cf_local ?d) = pending_ids (cf_local c)" using fold_respond[OF assms] by auto
  have v: "check_response ?d i = verdict now c i" if "i \<in> set (pending_ids (cf_local c))" for i
    using check_after_sweep[OF assms that] .
  have "distinct (pending_ids (cf_local c))" using assms pending_ids_distinct by (simp add: wf_confirm_def)
  then obtain ts c' where "fold scan_one (pending_ids (cf_local c)) (Some ([], ?d)) = Some ([] @ ts, c')" "wf_confirm c'"
    "map (\<lambda>(t, b). (t_id t, b)) ts = List.map_filter (\<lambda>i. map_option (Pair i) (check_response ?d i)) (pending_ids (cf_local c))"
    "pending_ids (cf_local c') = filter (\<lambda>i. i \<notin> set (pending_ids (cf_local c)) \<or> check_response ?d i = None) (pending_ids (cf_local ?d))"
    using scan_fold[OF d(1), of "pending_ids (cf_local c)" "[]"] d(2) by auto
  moreover have "List.map_filter (\<lambda>i. map_option (Pair i) (check_response ?d i)) is = List.map_filter (\<lambda>i. map_option (Pair i) (verdict now c i)) is"
    if "set is \<subseteq> set (pending_ids (cf_local c))" for "is"
    using that by (induction "is") (auto simp: List.map_filter_simps v split: option.splits)
  ultimately show ?thesis using v d(2) sweep_timeouts_eq[OF assms]
    by (auto simp: scan_pending_def intro!: filter_cong)
qed

definition demo_queue :: confirm where
  "demo_queue = respond 5 ''a'' True (snd (create 2 (mk_task ''b'' ''shell'' []) ''r''
     (snd (create 1 (mk_task ''a'' ''shell'' []) ''r'' \<lparr>cf_local = [], cf_bridge = None, cf_minutes = 30\<rparr>))))"

theorem scan_pending_resolves_witness:
  "\<exists>rs c'. scan_pending 10 demo_queue = Some (rs, c') \<and> map (\<lambda>(t, b). (t_id t, b)) rs = [(''a'', True)] \<and> pending_ids (cf_local c') = [''b'']"
proof -
  have "wf_confirm \<lparr>cf_local = [], cf_bridge = None, cf_minutes = 30\<rparr>" by (simp add: wf_confirm_def pending_ids_def)
  then have wf: "wf_confirm demo_queue" unfolding demo_queue_def by (intro respond_wf create_wf)
  have "List.map_filter (\<lambda>i. map_option (Pair i) (verdict 10 demo_queue i)) (pending_ids (cf_local demo_queue)) = [(''a'', True)]"
    "filter (\<lambda>i. verdict 10 demo_queue i = None) (pending_ids (cf_local demo_queue)) = [''b'']" by code_simp+
  then show ?thesis using scan_pending_resolves[OF wf, of 10] by auto
qed

text \<open>Answers are kept: a new request under an id that was approved before is taken as approved at once.\<close>

definition stale_approval :: "(string \<times> string \<times> bool) list" where
  "stale_approval =
     (case scan_pending 6 (respond 5 ''a'' True (snd (create 1 (mk_task ''a'' ''shell'' [(''command'', PStr ''ls'')]) ''r''
          \<lparr>cf_local = [], cf_bridge = None, cf_minutes = 30\<rparr>))) of None \<Rightarrow> []
      | Some (rs, c) \<Rightarrow> (case scan_pending 8 (snd (create 7 (mk_task ''a'' ''shell'' [(''command'', PStr ''rm -r x'')]) ''r'' c)) of
           None \<Rightarrow> [] | Some (rs2, c2) \<Rightarrow> map (\<lambda>(t, b). (t_id t, pending_command (t_payload t), b)) rs2))"

lemma stale_approval_reused: "stale_approval = [(''a'', ''rm -r x'', True)]"
  by code_simp

subsection \<open>The approval manager\<close>

lemma ap_sel [simp]: "ap_confirm (audit_line x y z w a) = ap_confirm a" "ap_seconds (audit_line x y z w a) = ap_seconds a"
  by (simp_all add: audit_line_def)

lemma auto_deny_sel [simp]: "ap_confirm (auto_deny now i a) = respond now i False (ap_confirm a)" "ap_seconds (auto_deny now i a) = ap_seconds a"
  by (simp_all add: auto_deny_def approval_respond_def)

lemma approval_sweep_one_eq:
  assumes "wf_confirm (ap_confirm a)" "i \<in> set (pending_ids (cf_local (ap_confirm a)))" "ap_seconds a = cf_minutes (ap_confirm a) * 60"
  shows "approval_sweep_one now i (ds, a) = (if overdue now (ap_confirm a) i then (ds @ [i], auto_deny now i a) else (ds, a))"
proof -
  obtain t reason where "read_pending (ap_confirm a) i = Some (PDict (pending_dict (created_at (ap_confirm a) i) t reason))" "t_id t = i"
    using wf_read[OF assms(1,2)] .
  then show ?thesis using assms(3) by (auto simp: approval_sweep_one_def overdue_def pending_dict_def dget_or_def)
qed

lemma approval_fold:
  assumes "wf_confirm (ap_confirm a)" "set is \<subseteq> set (pending_ids (cf_local (ap_confirm a)))" "ap_seconds a = cf_minutes (ap_confirm a) * 60"
  shows "\<exists>ds' c'. fold (sweep_one now) is (Some (ds, ap_confirm a)) = Some (ds', c') \<and>
    fst (fold (approval_sweep_one now) is (ds, a)) = ds' \<and> ap_confirm (snd (fold (approval_sweep_one now) is (ds, a))) = c'"
  using assms
proof (induction "is" arbitrary: ds a)
  case (Cons i js)
  have 1: "approval_sweep_one now i (ds, a) = (if overdue now (ap_confirm a) i then (ds @ [i], auto_deny now i a) else (ds, a))"
    by (rule approval_sweep_one_eq) (use Cons.prems in auto)
  have 2: "sweep_one now i (Some (ds, ap_confirm a))
      = Some (if overdue now (ap_confirm a) i then (ds @ [i], respond now i False (ap_confirm a)) else (ds, ap_confirm a))"
    by (rule sweep_one_eq) (use Cons.prems in auto)
  show ?case
  proof (cases "overdue now (ap_confirm a) i")
    case True
    then show ?thesis using 1 2 Cons.IH[of "auto_deny now i a" "ds @ [i]"] Cons.prems respond_wf by simp
  next
    case False
    then show ?thesis using 1 2 Cons.IH[of a ds] Cons.prems by simp
  qed
qed simp

text \<open>The two sweeps agree: with the deadline in seconds and in minutes set together, as the constructor sets
  them, sweeping through the approval manager denies the same requests and leaves the same files as the
  inherited sweep.\<close>

theorem sweeps_agree:
  assumes "wf_confirm c" "a = new_approval c md secs known desktop bridge"
  shows "sweep_timeouts now (ap_confirm a) = Some (fst (approval_sweep now a), ap_confirm (snd (approval_sweep now a)))"
proof -
  have "wf_confirm (ap_confirm a)" "ap_seconds a = cf_minutes (ap_confirm a) * 60"
    using assms by (simp_all add: new_approval_def wf_confirm_def del: map_of_eq_Some_iff)
  from approval_fold[OF this(1) subset_refl this(2), of now "[]"]
  show ?thesis by (auto simp: sweep_timeouts_def approval_sweep_def)
qed

definition demo_approval :: approval where
  "demo_approval = new_approval demo_queue (PStr ''remote'') 300 [] True True"

theorem sweeps_agree_witness:
  "fst (approval_sweep 302 demo_approval) = [''b''] \<and>
   sweep_timeouts 302 (ap_confirm demo_approval) = Some ([''b''], ap_confirm (snd (approval_sweep 302 demo_approval)))"
proof -
  have "wf_confirm \<lparr>cf_local = [], cf_bridge = None, cf_minutes = 30\<rparr>" by (simp add: wf_confirm_def pending_ids_def)
  then have wf: "wf_confirm demo_queue" unfolding demo_queue_def by (intro respond_wf create_wf)
  have f: "fst (approval_sweep 302 demo_approval) = [''b'']" by code_simp
  show ?thesis
    using sweeps_agree[OF wf demo_approval_def, of 302] f by simp
qed

lemma check_after_deny: "check_response c i = None \<Longrightarrow> check_response (respond now i False c) i = Some False"
  by (auto simp: check_response_def dir_response_def respond_local respond_bridge split: if_splits option.splits)

lemma wait_loop_result:
  "wait_loop deadline i ticks a = Some (b, a') \<Longrightarrow> check_response (ap_confirm a') i = Some b"
proof (induction deadline i ticks a rule: wait_loop.induct)
  case (2 deadline i now others ticks a)
  then show ?case using check_after_deny
    by (auto simp: Let_def split: option.splits if_splits)
qed simp

lemma wait_loop_returns:
  "\<exists>(now, f) \<in> set ticks. now \<ge> deadline \<Longrightarrow> wait_loop deadline i ticks a \<noteq> None"
  by (induction deadline i ticks a rule: wait_loop.induct) (auto simp: Let_def split: option.splits)

text \<open>Waiting for an answer always ends by the deadline, and ends with what the queue holds: approved only
  when an approval is on file, and a timeout is itself put on file as a denial.\<close>

theorem wait_for_response_decides:
  assumes "\<exists>(now, f) \<in> set ticks. now \<ge> start + (case tmo of None \<Rightarrow> ap_seconds a | Some s \<Rightarrow> s)"
  shows "\<exists>b a'. wait_for_response start tmo i ticks a = Some (b, a') \<and> check_response (ap_confirm a') i = Some b"
proof -
  from wait_loop_returns[OF assms] obtain b a' where
    "wait_loop (start + (case tmo of None \<Rightarrow> ap_seconds a | Some s \<Rightarrow> s)) i ticks a = Some (b, a')" by fastforce
  then show ?thesis using wait_loop_result unfolding wait_for_response_def by blast
qed

theorem wait_for_response_decides_witness:
  "\<exists>a'. wait_for_response 0 (Some 5) ''b'' [(1, id), (6, id)] demo_approval = Some (False, a') \<and>
     check_response (ap_confirm a') ''b'' = Some False"
proof -
  have ex: "\<exists>(now, f) \<in> set [(1, id), (6, id :: confirm \<Rightarrow> confirm)]. now \<ge> 0 + (case Some 5 of None \<Rightarrow> ap_seconds demo_approval | Some s \<Rightarrow> s)"
    by simp
  have "map_option fst (wait_for_response 0 (Some 5) ''b'' [(1, id), (6, id)] demo_approval) = Some False" by code_simp
  then show ?thesis using wait_for_response_decides[OF ex, of "''b''"] by auto
qed

text \<open>A late approval does override the automatic denial: \<open>check_response\<close> looks for the approval first.\<close>

lemma late_approval_wins:
  "check_response (respond later i True (respond now i False c)) i = Some True"
  by (simp add: check_response_def dir_response_def respond_local)

text \<open>The sweep does not look at the bridge: an approval that is only there is overridden once the request is
  overdue.\<close>

lemma bridge_approval_lost:
  assumes "wf_confirm c" "i \<in> set (pending_ids (cf_local c))" "\<not> has_response c i" "cf_bridge c = Some b"
    "file_exists b (approved_name i)" "now - created_at c i \<ge> cf_minutes c * 60"
  shows "check_response c i = Some True" "verdict now c i = Some False"
  using assms by (auto simp: check_response_def dir_response_def has_response_def verdict_def overdue_def)

text \<open>What leaves the machine is masked: neither a notification nor a message over the bridge carries the
  command or message of the request except through \<open>mask_text\<close>, the local mode delivers nothing, and the
  request is on file before anything is delivered, whether or not delivery works.\<close>

theorem approval_create_effects:
  "(case approval_create now t reason a of (pc, a') \<Rightarrow>
     pc = pending_dict now t reason \<and>
     map_of (cf_local (ap_confirm a')) (pending_name (t_id t)) = Some (Some (PDict pc)) \<and>
     ap_notified a' = ap_notified a @ (if ap_mode a \<noteq> ModeLocal \<and> ap_desktop a
        then [mask_text (ap_known a) (one_liner (t_id t) (pending_command (t_payload t)))] else []) \<and>
     map (\<lambda>m. dget m ''command'') (ap_sent a') = map (\<lambda>m. dget m ''command'') (ap_sent a) @
        (if ap_mode a = ModeRemote \<and> ap_bridge a then [PStr (mask_text (ap_known a) (pending_command (t_payload t)))] else []))"
proof -
  have d: "dget (pending_dict now t reason) ''command'' = PStr (pending_command (t_payload t))"
    "dget (pending_dict now t reason) ''message'' = PStr (one_liner (t_id t) (pending_command (t_payload t)))"
    by (simp_all add: pending_dict_def dget_def)
  have m: "dget [(''type'', x), (''task_id'', y), (''kind'', z), (''command'', w), (''reason'', u), (''timeout_seconds'', v)] ''command'' = w"
    for x y z w u v by (simp add: dget_def)
  obtain pc c where c: "create now t reason (ap_confirm a) = (pc, c)" by fastforce
  then have pc: "pc = pending_dict now t reason" "map_of (cf_local c) (pending_name (t_id t)) = Some (Some (PDict pc))"
    by (auto simp: create_def Let_def write_both_def update_conv)
  show ?thesis
    unfolding approval_create_def c prod.case Let_def audit_line_def send_remote_def
    by (cases "ap_mode a"; cases "ap_desktop a"; cases "ap_bridge a") (simp_all only: pc d m, simp_all add: pc m)
qed

end
