(* ===== verification/Sandbox.thy ===== *)
theory Sandbox
  imports Prelude
begin

text \<open>
  \<open>agent/sandbox.py\<close> on a POSIX machine: the level configured for a kind of task, and the command line the
  sandbox turns a command into. Whether \<open>firejail\<close> is on the path, and how a path resolves, are arguments.
  \<open>shlex.quote\<close> and \<open>shlex.join\<close> are the standard library's; \<open>sh_words\<close> is how a POSIX shell splits a
  line into words, the meaning the quoting is judged by.
\<close>

datatype level = LevelNone | LevelLight | LevelStrict

definition level_str :: "level \<Rightarrow> string" where
  "level_str l = (case l of LevelNone \<Rightarrow> ''none'' | LevelLight \<Rightarrow> ''light'' | LevelStrict \<Rightarrow> ''strict'')"

definition normalise_level :: "pyval \<Rightarrow> level" where
  "normalise_level v = (let text = lower (strip (py_str (py_or v (PStr ''none'')))) in
     if text = ''light'' then LevelLight else if text = ''strict'' then LevelStrict else LevelNone)"

text \<open>\<open>cfg\<close> is the \<open>sandbox\<close> block of the configuration, \<open>PNone\<close> when there is none.\<close>

definition level_for_kind :: "pyval \<Rightarrow> string \<Rightarrow> level" where
  "level_for_kind cfg kind = (case py_or cfg (PDict []) of
     PDict d \<Rightarrow>
       (if \<not> truthy (dget_or d ''enabled'' (PBool True)) then LevelNone
        else (case py_or (dget_or d ''per_kind'' (PDict [])) (PDict []) of
            PDict per \<Rightarrow> (if has_key per kind then normalise_level (dget per kind)
              else normalise_level (dget_or d ''default'' (PStr ''none'')))
          | _ \<Rightarrow> normalise_level (dget_or d ''default'' (PStr ''none''))))
   | _ \<Rightarrow> LevelNone)"

definition available :: "bool \<Rightarrow> level \<Rightarrow> bool" where
  "available firejail l = (l = LevelNone \<or> firejail)"

subsection \<open>Quoting\<close>

text \<open>The characters \<open>shlex.quote\<close> leaves alone: \<open>[a-zA-Z0-9_@%+=:,./-]\<close>.\<close>

definition safe_char :: "char \<Rightarrow> bool" where
  "safe_char c = (let n = code c in (65 \<le> n \<and> n \<le> 90) \<or> (97 \<le> n \<and> n \<le> 122) \<or> (48 \<le> n \<and> n \<le> 57)
     \<or> c \<in> set ''_@%+=:,./-'')"

abbreviation apostrophe :: char where "apostrophe \<equiv> CHR 0x27"
abbreviation dquote :: char where "dquote \<equiv> CHR 0x22"

definition shlex_quote :: "string \<Rightarrow> string" where
  "shlex_quote s = (if s = [] then [apostrophe, apostrophe]
     else if list_all safe_char s then s
     else apostrophe # concat (map (\<lambda>c. if c = apostrophe then [apostrophe, dquote, apostrophe, dquote, apostrophe] else [c]) s) @ [apostrophe])"

definition shlex_join :: "string list \<Rightarrow> string" where
  "shlex_join args = join '' '' (map shlex_quote args)"

subsection \<open>Wrapping\<close>

definition firejail_args :: "(string \<Rightarrow> string) \<Rightarrow> level \<Rightarrow> string option \<Rightarrow> string \<Rightarrow> string list" where
  "firejail_args resolve l cwd cmd = [''firejail'', ''--quiet'', ''--private-tmp'']
     @ (if l = LevelStrict then [''--net=none'', ''--read-only=/'']
          @ (case cwd of None \<Rightarrow> [] | Some d \<Rightarrow> if d = [] then [] else [''--read-write='' @ resolve d]) else [])
     @ [''--'', ''/bin/sh'', ''-c'', cmd]"

definition wrap_popen_args :: "bool \<Rightarrow> (string \<Rightarrow> string) \<Rightarrow> string \<Rightarrow> level \<Rightarrow> string option \<Rightarrow> string" where
  "wrap_popen_args firejail resolve cmd l cwd =
     (if l = LevelNone \<or> cmd = [] then cmd
      else if \<not> firejail then cmd
      else shlex_join (firejail_args resolve l cwd cmd))"

subsection \<open>How a shell reads the line\<close>

text \<open>POSIX word splitting of a line of unquoted text and quoted strings: single quotes take every character
  literally, double quotes are used here around an apostrophe only. \<open>w\<close> is the word being read.\<close>

datatype quoting = Bare | Single | Double

fun sh_words :: "quoting \<Rightarrow> string option \<Rightarrow> string \<Rightarrow> string list option" where
  "sh_words Bare w [] = Some (case w of None \<Rightarrow> [] | Some x \<Rightarrow> [rev x])"
| "sh_words Single w [] = None"
| "sh_words Double w [] = None"
| "sh_words Bare w (c # cs) =
     (if c = CHR '' '' then (case w of None \<Rightarrow> sh_words Bare None cs
          | Some x \<Rightarrow> map_option (Cons (rev x)) (sh_words Bare None cs))
      else if c = apostrophe then sh_words Single (Some (case w of None \<Rightarrow> [] | Some x \<Rightarrow> x)) cs
      else if c = dquote then sh_words Double (Some (case w of None \<Rightarrow> [] | Some x \<Rightarrow> x)) cs
      else if safe_char c then sh_words Bare (Some (c # (case w of None \<Rightarrow> [] | Some x \<Rightarrow> x))) cs
      else None)"
| "sh_words Single w (c # cs) = (case w of None \<Rightarrow> None | Some x \<Rightarrow>
     if c = apostrophe then sh_words Bare (Some x) cs else sh_words Single (Some (c # x)) cs)"
| "sh_words Double w (c # cs) = (case w of None \<Rightarrow> None | Some x \<Rightarrow>
     if c = dquote then sh_words Bare (Some x) cs
     else if c \<in> set [CHR ''$'', CHR 0x60, CHR 0x5C] then None else sh_words Double (Some (c # x)) cs)"

lemma safe_char_facts: "safe_char c \<Longrightarrow> c \<noteq> CHR '' '' \<and> c \<noteq> apostrophe \<and> c \<noteq> dquote"
  by (auto simp: safe_char_def Let_def code_def)

lemma sh_bare: "list_all safe_char s \<Longrightarrow> sh_words Bare (Some x) (s @ r) = sh_words Bare (Some (rev s @ x)) r"
  by (induction s arbitrary: x) (auto dest: safe_char_facts)

lemma sh_single: "apostrophe \<notin> set s \<Longrightarrow> sh_words Single (Some x) (s @ r) = sh_words Single (Some (rev s @ x)) r"
  by (induction s arbitrary: x) auto

lemma sh_quoted:
  "sh_words Single (Some x) (concat (map (\<lambda>c. if c = apostrophe then [apostrophe, dquote, apostrophe, dquote, apostrophe] else [c]) s) @ apostrophe # r)
    = sh_words Bare (Some (rev s @ x)) r"
proof (induction s arbitrary: x)
  case (Cons c s)
  then show ?case by (cases "c = apostrophe") simp_all
qed simp

text \<open>A quoted word is read as the word, whatever comes after the blank that ends it.\<close>

lemma sh_quote: "sh_words Bare None (shlex_quote s @ r) = sh_words Bare (Some (rev s)) r"
proof (cases "s = [] \<or> \<not> list_all safe_char s")
  case True
  then show ?thesis using sh_quoted[of "[]" s r] by (auto simp: shlex_quote_def)
next
  case False
  then obtain c cs where "s = c # cs" "safe_char c" "list_all safe_char cs" by (cases s) auto
  then show ?thesis using sh_bare[of cs "[c]" r] by (auto simp: shlex_quote_def dest: safe_char_facts)
qed

lemma sh_join: "sh_words Bare None (shlex_join args) = Some args"
proof (induction args)
  case Nil
  then show ?case by (simp add: shlex_join_def)
next
  case (Cons a args)
  show ?case
  proof (cases args)
    case Nil
    then show ?thesis using sh_quote[of a "[]"] by (simp add: shlex_join_def)
  next
    case (Cons b bs)
    then have "shlex_join (a # args) = shlex_quote a @ CHR '' '' # shlex_join args" by (simp add: shlex_join_def)
    then show ?thesis using Cons.IH sh_quote[of a "CHR '' '' # shlex_join args"] by simp
  qed
qed

text \<open>A sandboxed command stays one argument: the line handed to the shell splits back into the firejail
  words followed by the command exactly as given, so nothing in the command (quotes, pipes, substitutions) acts
  outside the jail; without a level, a command or a backend the command runs as it is.\<close>

theorem sandbox_confines:
  "wrap_popen_args firejail resolve cmd l cwd = cmd \<and> (l = LevelNone \<or> cmd = [] \<or> \<not> firejail) \<or>
   sh_words Bare None (wrap_popen_args firejail resolve cmd l cwd) = Some (firejail_args resolve l cwd cmd) \<and>
     last (firejail_args resolve l cwd cmd) = cmd \<and>
     (l = LevelStrict \<longrightarrow> {''--net=none'', ''--read-only=/''} \<subseteq> set (firejail_args resolve l cwd cmd))"
  by (cases l) (auto simp: wrap_popen_args_def sh_join firejail_args_def)

theorem sandbox_confines_witness:
  "sh_words Bare None (wrap_popen_args True id ''echo $HOME | sh'' LevelStrict None) =
     Some [''firejail'', ''--quiet'', ''--private-tmp'', ''--net=none'', ''--read-only=/'', ''--'', ''/bin/sh'', ''-c'', ''echo $HOME | sh'']"
proof -
  have "wrap_popen_args True id ''echo $HOME | sh'' LevelStrict None \<noteq> ''echo $HOME | sh''" by code_simp
  moreover have "firejail_args id LevelStrict None ''echo $HOME | sh'' =
     [''firejail'', ''--quiet'', ''--private-tmp'', ''--net=none'', ''--read-only=/'', ''--'', ''/bin/sh'', ''-c'', ''echo $HOME | sh'']"
    by code_simp
  ultimately show ?thesis using sandbox_confines[of True id "''echo $HOME | sh''" LevelStrict None] by simp
qed

end
