(* ===== verification/Host.thy ===== *)
theory Host
  imports Policy Confirm Sandbox
begin

text \<open>
  What the executors share (\<open>agent/executor.py\<close>, \<open>agent/executor_v2.py\<close>): the environment a task runs in, the
  state an executor keeps, the policy gate, secrets and chunks. Everything outside the process (the shell, the
  clock, the network, random ids) is a field of the environment record; where two calls may be answered
  differently the answer depends on the number of external calls made before. What a task does to the outside
  is recorded in a trace, in order.
\<close>

subsection \<open>Exceptions\<close>

text \<open>An exception is its type and its message; \<open>exn_text\<close> is \<open>f"{type(e).__name__}: {e}"\<close>. The message of
  an operation applied to a value of the wrong type is given for \<open>int\<close>, \<open>float\<close> and missing attributes.\<close>

type_synonym exn = "string \<times> string"

definition exn_text :: "exn \<Rightarrow> string" where
  "exn_text e = fst e @ '': '' @ snd e"

fun type_name :: "pyval \<Rightarrow> string" where
  "type_name PNone = ''NoneType''"
| "type_name (PBool _) = ''bool''"
| "type_name (PInt _) = ''int''"
| "type_name (PFloat _) = ''float''"
| "type_name (PStr _) = ''str''"
| "type_name (PList _) = ''list''"
| "type_name (PDict _) = ''dict''"

definition quoted :: "string \<Rightarrow> string" where
  "quoted s = char_of (39::nat) # s @ [char_of (39::nat)]"

definition to_float :: "pyval \<Rightarrow> exn + rat" where
  "to_float v = (case py_float v of Some r \<Rightarrow> Inr r
     | None \<Rightarrow> Inl (case v of PStr x \<Rightarrow> (''ValueError'', ''could not convert string to float: '' @ repr_str x)
         | _ \<Rightarrow> (''TypeError'', ''float() argument must be a string or a real number, not '' @ quoted (type_name v))))"

definition to_int :: "pyval \<Rightarrow> exn + int" where
  "to_int v = (case py_int v of Some n \<Rightarrow> Inr n
     | None \<Rightarrow> Inl (case v of PStr x \<Rightarrow> (''ValueError'', ''invalid literal for int() with base 10: '' @ repr_str x)
         | _ \<Rightarrow> (''TypeError'', ''int() argument must be a string, a bytes-like object or a real number, not '' @ quoted (type_name v))))"

text \<open>A string method called on a value.\<close>

definition need_attr :: "string \<Rightarrow> pyval \<Rightarrow> exn + string" where
  "need_attr attr v = (case v of PStr x \<Rightarrow> Inr x
     | _ \<Rightarrow> Inl (''AttributeError'', quoted (type_name v) @ '' object has no attribute '' @ quoted attr))"

text \<open>Text handed to a regular expression.\<close>

definition need_text :: "pyval \<Rightarrow> exn + string" where
  "need_text v = (case v of PStr x \<Rightarrow> Inr x
     | _ \<Rightarrow> Inl (''TypeError'', ''expected string or bytes-like object, got '' @ quoted (type_name v)))"

text \<open>\<open>round(x, n)\<close>: half to even.\<close>

definition py_round :: "nat \<Rightarrow> rat \<Rightarrow> rat" where
  "py_round n r = (let y = r * 10 ^ n; f = \<lfloor>y\<rfloor>; d = y - of_int f in
     of_int (if d < 1/2 \<or> (d = 1/2 \<and> even f) then f else f + 1) / 10 ^ n)"

definition and_then :: "exn + 'a \<Rightarrow> ('a \<Rightarrow> exn + 'b) \<Rightarrow> exn + 'b" where
  "and_then r f = (case r of Inl e \<Rightarrow> Inl e | Inr x \<Rightarrow> f x)"

lemma and_then_simps [simp]: "and_then (Inl e) f = Inl e" "and_then (Inr x) f = f x"
  by (simp_all add: and_then_def)

text \<open>The \<open>paths\<close> of a payload: \<open>paths or []\<close> as the policy iterates it; a string is iterated by character.\<close>

definition str_item :: "pyval \<Rightarrow> exn + string" where
  "str_item v = (case v of PStr x \<Rightarrow> Inr x | _ \<Rightarrow> Inl (''TypeError'', ''expected str, bytes or os.PathLike object, not '' @ type_name v))"

fun str_items :: "pyval list \<Rightarrow> exn + string list" where
  "str_items [] = Inr []"
| "str_items (v # vs) = and_then (str_item v) (\<lambda>x. and_then (str_items vs) (\<lambda>xs. Inr (x # xs)))"

definition paths_of :: "pyval \<Rightarrow> exn + string list" where
  "paths_of v = (if \<not> truthy v then Inr [] else case v of
       PList vs \<Rightarrow> str_items vs
     | PStr x \<Rightarrow> Inr (map (\<lambda>c. [c]) x)
     | PDict d \<Rightarrow> Inr (map fst d)
     | _ \<Rightarrow> Inl (''TypeError'', quoted (type_name v) @ '' object is not iterable''))"

subsection \<open>Environment and state\<close>

text \<open>One pass of the loop that reads a streamed command: whether \<open>stop\<close> has been called since the pass before,
  the clock, and what the queue gives: nothing in time, the end of a pipe, or a line of a stream.\<close>

definition newline :: char where "newline = CHR 0x0A"

datatype chan = Out | Err
datatype item = Quiet | Eof | Line chan string

record pass =
  ps_stop :: bool
  ps_now :: rat
  ps_item :: item

text \<open>A file system: files with their modification time and bytes, directories with theirs and their entries in
  the order the system lists them.\<close>

datatype tree = TFile rat string | TDir rat "(string \<times> tree) list"

text \<open>What looking up a process gives, and what sending it a signal gives.\<close>

datatype proc_view = ProcMissing | ProcDenied | ProcNamed string
datatype sig_reply = SigOk | SigDenied | SigGone exn

text \<open>\<open>en_term\<close>: whether a process told to terminate has done so within the grace period; \<open>en_exit\<close>: the exit
  code then seen; \<open>en_write\<close>: the message when writing to the process fails; \<open>en_drain\<close>: the clock and the
  output found on each look at a session after a write; \<open>en_stream\<close>: the passes made before the deadline.
  \<open>en_decode\<close> decodes bytes with replacement of what is invalid, \<open>en_regex\<close> is \<open>re.compile\<close> with \<open>search\<close>,
  \<open>en_glob\<close> the relative paths \<open>Path.glob\<close> and (with \<open>True\<close>) \<open>Path.rglob\<close> yield, \<open>en_diff\<close> is
  \<open>difflib.unified_diff\<close>; \<open>en_proc\<close>, \<open>en_signal\<close> and \<open>en_dead\<close> are the process table, \<open>en_procs\<close> and \<open>en_ps\<close> its
  listings, \<open>en_getaddrinfo\<close> the resolver and \<open>en_urlopen\<close> the network: status, headers and body of the response.\<close>

record 'b env =
  en_policy :: policy
  en_expanduser :: "string \<Rightarrow> string"
  en_expandvars :: "string \<Rightarrow> string"
  en_cipher :: "'b cipher"
  en_vault_msg :: "vault_error \<Rightarrow> string"
  en_sandbox :: pyval
  en_firejail :: bool
  en_resolve :: "string \<Rightarrow> string"
  en_shell :: string
  en_max_sessions :: int
  en_sink :: bool
  en_uuid :: "nat \<Rightarrow> string"
  en_popen :: "nat \<Rightarrow> string \<Rightarrow> string option \<Rightarrow> exn + int"
  en_term :: "nat \<Rightarrow> int \<Rightarrow> bool"
  en_exit :: "nat \<Rightarrow> int \<Rightarrow> int option"
  en_write :: "nat \<Rightarrow> int \<Rightarrow> string \<Rightarrow> string option"
  en_drain :: "nat \<Rightarrow> int \<Rightarrow> (rat \<times> string \<times> string) list"
  en_stream :: "nat \<Rightarrow> int \<Rightarrow> pass list"
  en_cwd :: "string list"
  en_decode :: "string \<Rightarrow> string \<Rightarrow> exn + string"
  en_regex :: "string \<Rightarrow> bool \<Rightarrow> string + (string \<Rightarrow> bool)"
  en_glob :: "tree \<Rightarrow> bool \<Rightarrow> string \<Rightarrow> exn + string list list"
  en_diff :: "string \<Rightarrow> string list \<Rightarrow> string list \<Rightarrow> string list"
  en_stamp :: "rat \<Rightarrow> string"
  en_iso :: "rat \<Rightarrow> string"
  en_watchdog :: bool
  en_psutil :: bool
  en_getpid :: int
  en_proc :: "nat \<Rightarrow> int \<Rightarrow> proc_view"
  en_signal :: "nat \<Rightarrow> int \<Rightarrow> sig_reply"
  en_dead :: "nat \<Rightarrow> int \<Rightarrow> bool"
  en_procs :: "nat \<Rightarrow> dict list"
  en_ps :: "nat \<Rightarrow> string option"
  en_getaddrinfo :: "nat \<Rightarrow> string \<Rightarrow> int \<Rightarrow> string + string list"
  en_urlopen :: "nat \<Rightarrow> string \<Rightarrow> string \<Rightarrow> (string \<times> string) list \<Rightarrow> string option \<Rightarrow> exn + int \<times> dict \<times> string"

text \<open>A live session (\<open>ShellSession\<close>): \<open>ss_exit\<close> is what \<open>proc.poll()\<close> returns, \<open>ss_out\<close> and \<open>ss_err\<close> what the
  reader threads have buffered.\<close>

record session =
  ss_command :: string
  ss_pid :: int
  ss_idle :: rat
  ss_created :: rat
  ss_last :: rat
  ss_secrets :: "string list"
  ss_out :: string
  ss_err :: string
  ss_exit :: "int option"
  ss_closed :: bool

text \<open>A directory watch (\<open>FileWatch\<close>): the buffered events, at most \<open>fw_max\<close> of them, and the overflow count.\<close>

record watch =
  fw_path :: string
  fw_recursive :: bool
  fw_patterns :: "string list"
  fw_max :: nat
  fw_events :: "dict list"
  fw_dropped :: nat
  fw_stopped :: bool

datatype handle = HProc int | HSession string

datatype event =
    EvPolicy policy_audit
  | EvAudit string string string string dict
  | EvChunk dict nat bool
  | EvSpawn string
  | EvTerm int
  | EvKill int
  | EvInput string string
  | EvFile string string
  | EvHttp string string

record 'b host =
  hs_vault :: "'b vault option"
  hs_confirm :: confirm
  hs_trace :: "event list"
  hs_seq :: "(string \<times> nat) list"
  hs_sessions :: "(string \<times> session) list"
  hs_watches :: "(string \<times> watch) list"
  hs_running :: "(string \<times> handle) list"
  hs_cancelled :: "string set"
  hs_fs :: tree
  hs_calls :: nat
  hs_clock :: rat

text \<open>Events that reach the outside: everything but log lines and chunks.\<close>

fun effect :: "event \<Rightarrow> bool" where
  "effect (EvPolicy _) = False"
| "effect (EvAudit _ _ _ _ _) = False"
| "effect (EvChunk _ _ _) = False"
| "effect _ = True"

definition note_ev :: "event \<Rightarrow> 'b host \<Rightarrow> 'b host" where
  "note_ev e s = s\<lparr>hs_trace := hs_trace s @ [e]\<rparr>"

definition called :: "'b host \<Rightarrow> 'b host" where
  "called s = s\<lparr>hs_calls := Suc (hs_calls s)\<rparr>"

definition known :: "'b host \<Rightarrow> string list" where
  "known s = (case hs_vault s of None \<Rightarrow> [] | Some v \<Rightarrow> v_known v)"

definition penv_of :: "'b env \<Rightarrow> 'b host \<Rightarrow> penv" where
  "penv_of env s = \<lparr>expanduser = en_expanduser env, expandvars = en_expandvars env, known_values = known s\<rparr>"

subsection \<open>Gate, secrets, chunks\<close>

definition fail :: "task \<Rightarrow> string \<Rightarrow> string \<Rightarrow> result" where
  "fail t dec err = (mk_result (t_id t) False dec)\<lparr>r_error := err\<rparr>"

text \<open>\<open>policy.decide\<close> followed by \<open>policy.audit\<close>.\<close>

definition judge :: "'b env \<Rightarrow> task \<Rightarrow> string \<Rightarrow> string \<Rightarrow> string list \<Rightarrow> 'b host \<Rightarrow> (decision \<times> string) \<times> 'b host" where
  "judge env t command shown paths s =
     (let dr = decide (penv_of env s) (en_policy env) command paths in
      (dr, note_ev (EvPolicy (audit_decision (penv_of env s) (t_id t) shown (fst dr) (snd dr))) s))"

definition park :: "task \<Rightarrow> string \<Rightarrow> 'b host \<Rightarrow> result \<times> 'b host" where
  "park t reason s = (case create (hs_clock s) t reason (hs_confirm s) of (pc, c) \<Rightarrow>
     ((fail t ''confirm_required'' reason)\<lparr>r_metadata := [(''message'', dget pc ''message'')]\<rparr>, s\<lparr>hs_confirm := c\<rparr>))"

definition gate :: "'b env \<Rightarrow> task \<Rightarrow> string \<Rightarrow> string list \<Rightarrow> 'b host \<Rightarrow> result option \<times> 'b host" where
  "gate env t command paths s = (case judge env t command command paths s of ((d, reason), s1) \<Rightarrow>
     (case d of
        BLOCK \<Rightarrow> (Some (fail t ''block'' reason), s1)
      | CONFIRM \<Rightarrow> (case park t reason s1 of (r, s2) \<Rightarrow> (Some r, s2))
      | AUTO \<Rightarrow> (None, s1)))"

definition resolve_secrets :: "'b env \<Rightarrow> string \<Rightarrow> 'b host \<Rightarrow> (vault_error + (string \<times> string list)) \<times> 'b host" where
  "resolve_secrets env text s = (case resolve_with (en_cipher env) (hs_vault s) text of
     (r, v) \<Rightarrow> (case r of Inl e \<Rightarrow> (Inl e, s\<lparr>hs_vault := v\<rparr>)
        | Inr (x, used) \<Rightarrow> (Inr (x, map snd used), s\<lparr>hs_vault := v\<rparr>)))"

definition resolve_secrets_in :: "'b env \<Rightarrow> pyval \<Rightarrow> 'b host \<Rightarrow> (vault_error + (pyval \<times> string list)) \<times> 'b host" where
  "resolve_secrets_in env x s = (case hs_vault s of None \<Rightarrow> (Inr (x, []), s)
     | Some v \<Rightarrow> if \<not> key_exists (en_cipher env) then (Inr (x, []), s)
         else (case resolve_structure (en_cipher env) x v of (r, v') \<Rightarrow>
            (case r of Inl e \<Rightarrow> (Inl e, s\<lparr>hs_vault := Some v'\<rparr>)
               | Inr (y, used) \<Rightarrow> (Inr (y, map snd used), s\<lparr>hs_vault := Some v'\<rparr>))))"

definition scrub :: "'b host \<Rightarrow> string \<Rightarrow> string list \<Rightarrow> string" where
  "scrub s text values = redact (known s) text values"

definition sandbox_level :: "'b env \<Rightarrow> string \<Rightarrow> level" where
  "sandbox_level env kind = level_for_kind (en_sandbox env) kind"

definition audit_ev :: "string \<Rightarrow> string \<Rightarrow> string \<Rightarrow> string \<Rightarrow> dict \<Rightarrow> 'b host \<Rightarrow> 'b host" where
  "audit_ev actor action resource outcome meta s = note_ev (EvAudit actor action resource outcome meta) s"

definition next_seq :: "string \<Rightarrow> 'b host \<Rightarrow> nat \<times> 'b host" where
  "next_seq i s = (let n = (case map_of (hs_seq s) i of None \<Rightarrow> 0 | Some n \<Rightarrow> n) in
     (n, s\<lparr>hs_seq := dict_set (hs_seq s) i (Suc n)\<rparr>))"

text \<open>\<open>{**base, **body}\<close>.\<close>

definition dict_merge :: "dict \<Rightarrow> dict \<Rightarrow> dict" where
  "dict_merge base body = fold (\<lambda>(k, v) d. dict_set d k v) body base"

definition emit :: "'b env \<Rightarrow> task \<Rightarrow> dict \<Rightarrow> bool \<Rightarrow> 'b host \<Rightarrow> dict \<times> 'b host" where
  "emit env t body fin s = (case next_seq (t_id t) s of (n, s1) \<Rightarrow>
     (let b = dict_merge [(''task_id'', PStr (t_id t)), (''seq'', PInt (int n)), (''is_final'', PBool fin)] body in
      (b, if en_sink env then note_ev (EvChunk b n fin) s1 else s1)))"

text \<open>\<open>payload.get("cwd") or None\<close>.\<close>

definition cwd_of :: "task \<Rightarrow> exn + string option" where
  "cwd_of t = (let v = dget (t_payload t) ''cwd'' in if \<not> truthy v then Inr None
     else case v of PStr x \<Rightarrow> Inr (Some x)
       | _ \<Rightarrow> Inl (''TypeError'', ''expected str, bytes or os.PathLike object, not '' @ type_name v))"

text \<open>\<open>Popen(wrap_popen_args(command, level, cwd), shell=True, cwd=cwd)\<close>.\<close>

definition popen :: "'b env \<Rightarrow> string \<Rightarrow> level \<Rightarrow> string option \<Rightarrow> 'b host \<Rightarrow> (exn + int) \<times> 'b host" where
  "popen env command l cwd s =
     (let launch = wrap_popen_args (en_firejail env) (en_resolve env) command l cwd in
      case en_popen env (hs_calls s) launch cwd of
        Inl e \<Rightarrow> (Inl e, called s)
      | Inr pid \<Rightarrow> (Inr pid, note_ev (EvSpawn launch) (called s)))"

subsection \<open>Reading the state\<close>

fun chunk_of :: "event \<Rightarrow> (dict \<times> nat \<times> bool) option" where
  "chunk_of (EvChunk d n f) = Some (d, n, f)"
| "chunk_of _ = None"

definition chunks :: "'b host \<Rightarrow> (dict \<times> nat \<times> bool) list" where
  "chunks s = List.map_filter chunk_of (hs_trace s)"

definition seq_of :: "'b host \<Rightarrow> string \<Rightarrow> nat" where
  "seq_of s i = (case map_of (hs_seq s) i of None \<Rightarrow> 0 | Some n \<Rightarrow> n)"

lemma map_filter_append: "List.map_filter f (xs @ ys) = List.map_filter f xs @ List.map_filter f ys"
  by (simp add: List.map_filter_def)

lemma chunks_note [simp]:
  "chunks (note_ev e s) = chunks s @ (case chunk_of e of None \<Rightarrow> [] | Some c \<Rightarrow> [c])"
  by (cases e) (simp_all add: chunks_def note_ev_def map_filter_append List.map_filter_def)

text \<open>What the stream leaves alone.\<close>

lemma chunks_upd [simp]:
  "chunks (s\<lparr>hs_running := a\<rparr>) = chunks s" "chunks (s\<lparr>hs_cancelled := c\<rparr>) = chunks s" "chunks (s\<lparr>hs_calls := n\<rparr>) = chunks s"
  "chunks (s\<lparr>hs_fs := fs\<rparr>) = chunks s" "chunks (s\<lparr>hs_watches := ws\<rparr>) = chunks s" "chunks (s\<lparr>hs_confirm := cf\<rparr>) = chunks s"
  "chunks (s\<lparr>hs_sessions := x\<rparr>) = chunks s" "chunks (s\<lparr>hs_seq := y\<rparr>) = chunks s"
  by (simp_all add: chunks_def)

lemma known_upd [simp]:
  "known (s\<lparr>hs_running := a\<rparr>) = known s" "known (s\<lparr>hs_cancelled := c\<rparr>) = known s" "known (s\<lparr>hs_calls := n\<rparr>) = known s"
  "known (s\<lparr>hs_fs := fs\<rparr>) = known s" "known (s\<lparr>hs_watches := ws\<rparr>) = known s" "known (s\<lparr>hs_confirm := cf\<rparr>) = known s"
  "known (s\<lparr>hs_sessions := x\<rparr>) = known s" "known (s\<lparr>hs_seq := y\<rparr>) = known s" "known (note_ev e s) = known s"
  by (simp_all add: known_def note_ev_def)

lemma seq_upd [simp]:
  "seq_of (s\<lparr>hs_running := a\<rparr>) i = seq_of s i" "seq_of (s\<lparr>hs_cancelled := c\<rparr>) i = seq_of s i" "seq_of (s\<lparr>hs_calls := n\<rparr>) i = seq_of s i"
  "seq_of (s\<lparr>hs_sessions := x\<rparr>) i = seq_of s i" "seq_of (note_ev e s) i = seq_of s i"
  "seq_of (s\<lparr>hs_seq := dict_set (hs_seq s) j n\<rparr>) i = (if i = j then n else seq_of s i)"
  by (simp_all add: seq_of_def note_ev_def update_conv)


subsection \<open>A small host for examples\<close>

definition demo_policy :: policy where
  "demo_policy = \<lparr>block_commands = [''*rm -rf*''], block_paths = [''/etc/*''], confirm_commands = [''git push*''],
     confirm_write = [], auto_commands = [''echo *'', ''sh''], auto_read = [''/w/**'']\<rparr>"

definition demo_env :: "nat env" where
  "demo_env = \<lparr>en_policy = demo_policy, en_expanduser = id, en_expandvars = id,
     en_cipher = \<lparr>encrypt = \<lambda>_. 0, decrypt = \<lambda>_. None, key_exists = True\<rparr>, en_vault_msg = \<lambda>_. ''vault'',
     en_sandbox = PNone, en_firejail = False, en_resolve = id, en_shell = ''sh'', en_max_sessions = 2, en_sink = True,
     en_uuid = nat_str, en_popen = \<lambda>_ _ _. Inr 7, en_term = \<lambda>_ _. True, en_exit = \<lambda>_ _. Some 0, en_write = \<lambda>_ _ _. None,
     en_drain = \<lambda>_ _. [(1, ''ok'', [])],
     en_stream = \<lambda>_ _. map (\<lambda>x. \<lparr>ps_stop = False, ps_now = 1, ps_item = x\<rparr>)
       [Line Out (''pw=hunter2!'' @ [newline]), Quiet, Line Err (''warn'' @ [newline]), Eof, Eof], en_cwd = [''w''], en_decode = \<lambda>_ b. Inr b, en_regex = \<lambda>p _. Inr (sublist p),
     en_glob = \<lambda>_ _ _. Inr [[''a.txt'']], en_diff = \<lambda>_ _ _. [], en_stamp = \<lambda>_. ''19700101T000000'', en_iso = \<lambda>_. ''1970-01-01T00:00:00.000Z'',
     en_watchdog = False, en_psutil = True, en_getpid = 99, en_proc = \<lambda>_ _. ProcNamed ''p'', en_signal = \<lambda>_ _. SigOk,
     en_dead = \<lambda>_ _. True, en_procs = \<lambda>_. [], en_ps = \<lambda>_. None,
     en_getaddrinfo = \<lambda>_ h _. Inr [if h = ''router'' then ''192.168.1.1'' else ''8.8.8.8''],
     en_urlopen = \<lambda>_ _ _ _ _. Inr (200, [], ''ok'')\<rparr>"

definition demo_host :: "nat host" where
  "demo_host = \<lparr>hs_vault = Some \<lparr>v_file = None, v_known = [''hunter2!''], v_audit = []\<rparr>,
     hs_confirm = \<lparr>cf_local = [], cf_bridge = None, cf_minutes = 30\<rparr>, hs_trace = [], hs_seq = [], hs_sessions = [],
     hs_watches = [], hs_running = [], hs_cancelled = {},
     hs_fs = TDir 0 [(''w'', TDir 1 [(''a.txt'', TFile 2 (''one'' @ [newline] @ ''two'')), (''node_modules'', TDir 1 [(''b.txt'', TFile 3 ''one'')])])],
     hs_calls = 0, hs_clock = 0\<rparr>"

end
