(* ===== verification/Sessions.thy ===== *)
theory Sessions
  imports Host
begin

text \<open>
  The cancellation table and the live shell sessions of \<open>agent/executor_v2.py\<close>: registering and stopping a
  running task, opening, writing to, closing and reaping sessions. A session handle stands for the object it
  names; ids come from \<open>en_uuid\<close>. The reader threads appear as the steps \<open>session_output\<close> and \<open>session_exit\<close>.
\<close>

subsection \<open>Running tasks\<close>

definition register_running :: "string \<Rightarrow> handle \<Rightarrow> 'b host \<Rightarrow> 'b host" where
  "register_running i h s = s\<lparr>hs_running := dict_set (hs_running s) i h\<rparr>"

definition forget_handle :: "handle \<Rightarrow> 'b host \<Rightarrow> 'b host" where
  "forget_handle h s = s\<lparr>hs_running := filter (\<lambda>(k, v). v \<noteq> h) (hs_running s)\<rparr>"

definition unregister_running :: "string \<Rightarrow> 'b host \<Rightarrow> 'b host" where
  "unregister_running i s = s\<lparr>hs_running := dict_del (hs_running s) i\<rparr>"

definition cancel_requested :: "'b host \<Rightarrow> string \<Rightarrow> bool" where
  "cancel_requested s i = (i \<in> hs_cancelled s)"

definition clear_cancel :: "string \<Rightarrow> 'b host \<Rightarrow> 'b host" where
  "clear_cancel i s = s\<lparr>hs_cancelled := hs_cancelled s - {i}\<rparr>"

definition running_task_ids :: "'b host \<Rightarrow> string list" where
  "running_task_ids s = sort (map fst (hs_running s))"

text \<open>\<open>terminate()\<close>, a bounded \<open>wait\<close>, and \<open>kill()\<close> when it does not end.\<close>

definition terminate_proc :: "'b env \<Rightarrow> int \<Rightarrow> 'b host \<Rightarrow> 'b host" where
  "terminate_proc env pid s =
     (let s1 = note_ev (EvTerm pid) (called s) in if en_term env (hs_calls s) pid then s1 else note_ev (EvKill pid) s1)"

text \<open>\<open>ShellSession.close\<close>: the exit code and the state in which the session object is closed.\<close>

definition set_session :: "string \<Rightarrow> session \<Rightarrow> 'b host \<Rightarrow> 'b host" where
  "set_session sid x s = s\<lparr>hs_sessions := dict_set (hs_sessions s) sid x\<rparr>"

definition close_session :: "'b env \<Rightarrow> session \<Rightarrow> 'b host \<Rightarrow> session \<times> 'b host" where
  "close_session env x s = (if ss_exit x = None
     then (let s1 = terminate_proc env (ss_pid x) s in (x\<lparr>ss_exit := en_exit env (hs_calls s1) (ss_pid x), ss_closed := True\<rparr>, called s1))
     else (x\<lparr>ss_closed := True\<rparr>, s))"

definition stop :: "'b env \<Rightarrow> string \<Rightarrow> 'b host \<Rightarrow> bool \<times> 'b host" where
  "stop env i s = (let s1 = s\<lparr>hs_cancelled := insert i (hs_cancelled s)\<rparr> in
     case map_of (hs_running s1) i of
       None \<Rightarrow> (False, s1)
     | Some (HProc pid) \<Rightarrow> (True, terminate_proc env pid s1)
     | Some (HSession sid) \<Rightarrow> (True, case map_of (hs_sessions s1) sid of None \<Rightarrow> s1
          | Some x \<Rightarrow> (case close_session env x s1 of (x', s2) \<Rightarrow> set_session sid x' s2)))"

subsection \<open>Sessions\<close>

definition alive :: "session \<Rightarrow> bool" where
  "alive x = (ss_exit x = None)"

definition idle_for :: "rat \<Rightarrow> session \<Rightarrow> rat" where
  "idle_for now x = now - ss_last x"

definition is_dead :: "rat \<Rightarrow> session \<Rightarrow> bool" where
  "is_dead now x = (\<not> alive x \<or> idle_for now x > ss_idle x)"

definition drop_session :: "string \<Rightarrow> 'b host \<Rightarrow> 'b host" where
  "drop_session sid s = s\<lparr>hs_sessions := dict_del (hs_sessions s) sid\<rparr>"

definition reap_one :: "'b env \<Rightarrow> string \<Rightarrow> 'b host \<Rightarrow> 'b host" where
  "reap_one env sid s = (case map_of (hs_sessions s) sid of None \<Rightarrow> s
     | Some x \<Rightarrow> drop_session sid (forget_handle (HSession sid) (snd (close_session env x s))))"

definition dead_ids :: "'b host \<Rightarrow> string list" where
  "dead_ids s = map fst (filter (\<lambda>(sid, x). is_dead (hs_clock s) x) (hs_sessions s))"

definition reap_sessions :: "'b env \<Rightarrow> 'b host \<Rightarrow> string list \<times> 'b host" where
  "reap_sessions env s = (dead_ids s, fold (reap_one env) (dead_ids s) s)"

text \<open>\<open>payload.get("command") or _default_shell()\<close>.\<close>

definition session_command :: "'b env \<Rightarrow> task \<Rightarrow> pyval" where
  "session_command env t = py_or (dget (t_payload t) ''command'') (PStr (en_shell env))"

definition new_session :: "rat \<Rightarrow> string \<Rightarrow> int \<Rightarrow> rat \<Rightarrow> string list \<Rightarrow> session" where
  "new_session now command pid idle secrets = \<lparr>ss_command = command, ss_pid = pid, ss_idle = idle, ss_created = now,
     ss_last = now, ss_secrets = secrets, ss_out = [], ss_err = [], ss_exit = None, ss_closed = False\<rparr>"

definition session_meta :: "string \<Rightarrow> int \<Rightarrow> string \<Rightarrow> level \<Rightarrow> dict" where
  "session_meta sid pid command l = [(''session_id'', PStr sid), (''pid'', PInt pid), (''command'', PStr command),
     (''sandbox'', PStr (level_str l))]"

definition exec_session_open :: "'b env \<Rightarrow> task \<Rightarrow> string \<Rightarrow> 'b host \<Rightarrow> (exn + result) \<times> 'b host" where
  "exec_session_open env t dec s0 =
     (let s = snd (reap_sessions env s0) in
      if int (length (hs_sessions s)) \<ge> en_max_sessions env
      then (Inr (fail t dec (''session limit reached ('' @ int_str (en_max_sessions env) @ '')'')), s)
      else (case need_text (session_command env t) of Inl e \<Rightarrow> (Inl e, s) | Inr command \<Rightarrow>
      (case resolve_secrets env command s of
        (Inl e, s1) \<Rightarrow> (Inr (fail t dec (en_vault_msg env e)), s1)
      | (Inr (resolved, secrets), s1) \<Rightarrow>
        (case cwd_of t of Inl e \<Rightarrow> (Inl e, s1) | Inr cwd \<Rightarrow>
        (let l = sandbox_level env (t_kind t) in
         case popen env resolved l cwd s1 of
           (Inl e, s2) \<Rightarrow> (Inl e, s2)
         | (Inr pid, s2) \<Rightarrow>
           (let sid = ''s-'' @ en_uuid env (hs_calls s2); s3 = called s2 in
            case to_float (dget_or (t_payload t) ''idle_timeout_sec'' (PFloat 900)) of
              Inl e \<Rightarrow> (Inl e, s3)
            | Inr idle \<Rightarrow>
              (Inr ((mk_result (t_id t) True dec)\<lparr>r_stdout := sid, r_metadata := session_meta sid pid command l\<rparr>),
               register_running (t_id t) (HSession sid)
                 (set_session sid (new_session (hs_clock s3) command pid idle secrets) s3))))))))"

definition gate_session_open :: "'b env \<Rightarrow> task \<Rightarrow> 'b host \<Rightarrow> (exn + result) \<times> 'b host" where
  "gate_session_open env t s =
     (case need_attr ''strip'' (session_command env t) of Inl e \<Rightarrow> (Inl e, s) | Inr command \<Rightarrow>
     (case paths_of (dget_or (t_payload t) ''paths'' (PList [])) of Inl e \<Rightarrow> (Inl e, s) | Inr paths \<Rightarrow>
     (case gate env t command paths s of
        (Some early, s1) \<Rightarrow> (Inr early, s1)
      | (None, s1) \<Rightarrow> exec_session_open env t ''auto'' s1)))"

subsection \<open>Writing and draining\<close>

text \<open>The drain window: \<open>looks\<close> are the successive looks at the buffer with the clock before each; the window
  ends at the deadline or once output has come and 0.15 s have been quiet, and one last look follows.\<close>

definition last_look :: "(rat \<times> string \<times> string) list \<Rightarrow> string list \<times> string list \<Rightarrow> string list \<times> string list" where
  "last_look looks acc = (case looks of [] \<Rightarrow> (fst acc @ [[]], snd acc @ [[]])
     | (_, a, b) # _ \<Rightarrow> (fst acc @ [a], snd acc @ [b]))"

fun drain_window :: "rat \<Rightarrow> (rat \<times> string \<times> string) list \<Rightarrow> rat option \<Rightarrow> string list \<times> string list \<Rightarrow> string list \<times> string list" where
  "drain_window deadline [] quiet acc = last_look [] acc"
| "drain_window deadline ((now, a, b) # looks) quiet acc =
     (if \<not> now < deadline then last_look ((now, a, b) # looks) acc
      else if a \<noteq> [] \<or> b \<noteq> [] then drain_window deadline looks None (fst acc @ [a], snd acc @ [b])
      else if fst acc \<noteq> [] \<or> snd acc \<noteq> []
        then (let q = (case quiet of None \<Rightarrow> now | Some q \<Rightarrow> q) in
          if now - q > 15/100 then last_look looks acc else drain_window deadline looks (Some q) acc)
      else drain_window deadline looks quiet acc)"

text \<open>What was buffered before the write is found by the first look.\<close>

definition with_buffer :: "rat \<Rightarrow> string \<Rightarrow> string \<Rightarrow> (rat \<times> string \<times> string) list \<Rightarrow> (rat \<times> string \<times> string) list" where
  "with_buffer now a b looks = (case looks of [] \<Rightarrow> [(now, a, b)] | (n, x, y) # r \<Rightarrow> (n, a @ x, b @ y) # r)"

definition add_values :: "string list \<Rightarrow> string list \<Rightarrow> string list" where
  "add_values old new = first_seen [] (old @ new)"

definition with_newline :: "string \<Rightarrow> string" where
  "with_newline x = (if x \<noteq> [] \<and> last x \<noteq> CHR 0x0A then x @ [CHR 0x0A] else x)"

text \<open>\<open>session.write\<close>: the message of the exception, when it fails.\<close>

definition write_session :: "'b env \<Rightarrow> string \<Rightarrow> session \<Rightarrow> string \<Rightarrow> 'b host \<Rightarrow> string option \<times> 'b host" where
  "write_session env sid x text s =
     (if ss_closed x then (Some ''I/O operation on closed file.'', s)
      else case en_write env (hs_calls s) (ss_pid x) text of
        Some msg \<Rightarrow> (Some msg, called s)
      | None \<Rightarrow> (None, note_ev (EvInput sid text) (set_session sid (x\<lparr>ss_last := hs_clock s\<rparr>) (called s))))"

definition lookup_session :: "'b host \<Rightarrow> pyval \<Rightarrow> exn + (string \<times> session) option" where
  "lookup_session s v = (case v of
       PStr sid \<Rightarrow> Inr (map_option (Pair sid) (map_of (hs_sessions s) sid))
     | PList _ \<Rightarrow> Inl (''TypeError'', ''unhashable type: '' @ quoted (type_name v))
     | PDict _ \<Rightarrow> Inl (''TypeError'', ''unhashable type: '' @ quoted (type_name v))
     | _ \<Rightarrow> Inr None)"

definition sid_of :: "task \<Rightarrow> pyval" where
  "sid_of t = dget_or (t_payload t) ''session_id'' (PStr [])"

definition drained :: "'b env \<Rightarrow> task \<Rightarrow> string \<Rightarrow> string \<Rightarrow> session \<Rightarrow> rat \<Rightarrow> 'b host \<Rightarrow> (exn + result) \<times> 'b host" where
  "drained env t dec sid x window s =
     (let looks = with_buffer (hs_clock s) (ss_out x) (ss_err x) (en_drain env (hs_calls s) (ss_pid x));
          parts = drain_window (hs_clock s + window) looks None ([], []);
          x1 = x\<lparr>ss_out := [], ss_err := [], ss_last := hs_clock s\<rparr> in
      (Inr ((mk_result (t_id t) True dec)\<lparr>r_stdout := scrub s (concat (fst parts)) (ss_secrets x),
          r_stderr := scrub s (concat (snd parts)) (ss_secrets x),
          r_metadata := [(''session_id'', PStr sid), (''alive'', PBool (alive x1))]\<rparr>),
       set_session sid x1 (called s)))"

definition exec_session_write :: "'b env \<Rightarrow> task \<Rightarrow> string \<Rightarrow> 'b host \<Rightarrow> (exn + result) \<times> 'b host" where
  "exec_session_write env t dec s0 =
     (let s = snd (reap_sessions env s0) in
      case lookup_session s (sid_of t) of
        Inl e \<Rightarrow> (Inl e, s)
      | Inr None \<Rightarrow> (Inr (fail t dec (''no such session: '' @ py_str (sid_of t))), s)
      | Inr (Some (sid, x)) \<Rightarrow>
        (case need_text (dget_or (t_payload t) ''input'' (PStr [])) of Inl e \<Rightarrow> (Inl e, s) | Inr text \<Rightarrow>
        (case resolve_secrets env text s of
          (Inl e, s1) \<Rightarrow> (Inr (fail t dec (en_vault_msg env e)), s1)
        | (Inr (resolved, used), s1) \<Rightarrow>
          (let x1 = (if used = [] then x else x\<lparr>ss_secrets := add_values (ss_secrets x) used\<rparr>);
               s2 = set_session sid x1 s1; line = with_newline resolved in
           case to_float (dget_or (t_payload t) ''read_timeout_sec'' (PFloat 2)) of Inl e \<Rightarrow> (Inl e, s2) | Inr window \<Rightarrow>
           (case (if line = [] then (None, s2) else write_session env sid x1 line s2) of
              (Some msg, s3) \<Rightarrow> (Inr (fail t dec (''write failed: '' @ msg)), s3)
            | (None, s3) \<Rightarrow> drained env t dec sid x1 window s3)))))"

text \<open>Only the block rules are applied to what is typed into a session.\<close>

definition gate_session_write :: "'b env \<Rightarrow> task \<Rightarrow> 'b host \<Rightarrow> (exn + result) \<times> 'b host" where
  "gate_session_write env t s =
     (case need_attr ''strip'' (dget_or (t_payload t) ''input'' (PStr [])) of Inl e \<Rightarrow> (Inl e, s) | Inr text \<Rightarrow>
     (case paths_of (dget_or (t_payload t) ''paths'' (PList [])) of Inl e \<Rightarrow> (Inl e, s) | Inr paths \<Rightarrow>
     (case judge env t (strip text) (''session_write '' @ repr_str (strip text)) paths s of ((d, reason), s1) \<Rightarrow>
       if d = BLOCK then (Inr (fail t ''block'' reason), s1)
       else exec_session_write env t ''auto'' s1)))"

definition session_close :: "'b env \<Rightarrow> task \<Rightarrow> 'b host \<Rightarrow> (exn + result) \<times> 'b host" where
  "session_close env t s = (case lookup_session s (sid_of t) of
       Inl e \<Rightarrow> (Inl e, s)
     | Inr None \<Rightarrow> (Inr (fail t ''auto'' (''no such session: '' @ py_str (sid_of t))), s)
     | Inr (Some (sid, x)) \<Rightarrow>
       (case close_session env x (drop_session sid s) of (x', s1) \<Rightarrow>
         (Inr ((mk_result (t_id t) True ''auto'')\<lparr>r_stdout := scrub s1 (ss_out x) (ss_secrets x),
            r_stderr := scrub s1 (ss_err x) (ss_secrets x), r_exit_code := ss_exit x',
            r_metadata := [(''session_id'', PStr sid), (''closed'', PBool True),
              (''uptime_sec'', PFloat (py_round 3 (hs_clock s - ss_created x)))]\<rparr>),
          forget_handle (HSession sid) s1)))"

definition close_all :: "'b env \<Rightarrow> 'b host \<Rightarrow> 'b host" where
  "close_all env s = fold (\<lambda>(sid, x) s. drop_session sid (snd (close_session env x s))) (hs_sessions s) s"

definition shutdown :: "'b env \<Rightarrow> 'b host \<Rightarrow> 'b host" where
  "shutdown env s = (close_all env s)\<lparr>hs_watches := [], hs_running := [], hs_cancelled := {}\<rparr>"

text \<open>The reader threads and the process.\<close>

definition session_output :: "string \<Rightarrow> string \<Rightarrow> string \<Rightarrow> 'b host \<Rightarrow> 'b host" where
  "session_output sid a b s = (case map_of (hs_sessions s) sid of None \<Rightarrow> s
     | Some x \<Rightarrow> set_session sid (x\<lparr>ss_out := ss_out x @ a, ss_err := ss_err x @ b\<rparr>) s)"

definition session_exit :: "string \<Rightarrow> int \<Rightarrow> 'b host \<Rightarrow> 'b host" where
  "session_exit sid rc s = (case map_of (hs_sessions s) sid of None \<Rightarrow> s
     | Some x \<Rightarrow> set_session sid (x\<lparr>ss_exit := Some rc\<rparr>) s)"

end
