(* ===== verification/Shellstream.thy ===== *)
theory Shellstream
  imports Sessions
begin

text \<open>
  \<open>shell_stream\<close> of \<open>agent/executor_v2.py\<close>: the loop that turns the output of a command into scrubbed chunks, and
  the result it ends with. The loop is driven by the passes of \<open>en_stream\<close>, those made while the deadline has not
  come (\<open>ps_now\<close> may also be past it); when they are used up the deadline has passed.
\<close>

record sbuf =
  sb_out :: string
  sb_err :: string
  sb_nout :: nat
  sb_nerr :: nat
  sb_cout :: "string list"
  sb_cerr :: "string list"
  sb_chunks :: nat
  sb_flushed :: rat

definition empty_buf :: "rat \<Rightarrow> sbuf" where
  "empty_buf now = \<lparr>sb_out = [], sb_err = [], sb_nout = 0, sb_nerr = 0, sb_cout = [], sb_cerr = [], sb_chunks = 0, sb_flushed = now\<rparr>"

fun chan_str :: "chan \<Rightarrow> string" where
  "chan_str Out = ''stdout''" | "chan_str Err = ''stderr''"

definition buffered :: "chan \<Rightarrow> sbuf \<Rightarrow> string" where
  "buffered c b = (case c of Out \<Rightarrow> sb_out b | Err \<Rightarrow> sb_err b)"

definition set_buffer :: "chan \<Rightarrow> string \<Rightarrow> sbuf \<Rightarrow> sbuf" where
  "set_buffer c x b = (case c of Out \<Rightarrow> b\<lparr>sb_out := x\<rparr> | Err \<Rightarrow> b\<lparr>sb_err := x\<rparr>)"

definition collect :: "chan \<Rightarrow> string \<Rightarrow> sbuf \<Rightarrow> sbuf" where
  "collect c x b = (case c of
       Out \<Rightarrow> b\<lparr>sb_nout := sb_nout b + length x, sb_cout := sb_cout b @ [x]\<rparr>
     | Err \<Rightarrow> b\<lparr>sb_nerr := sb_nerr b + length x, sb_cerr := sb_cerr b @ [x]\<rparr>)"

record stream_cfg =
  sc_timeout :: rat
  sc_flush :: rat
  sc_max_chunk :: int

text \<open>The closure \<open>flush(stream, force)\<close>.\<close>

definition flush_stream :: "'b env \<Rightarrow> task \<Rightarrow> string list \<Rightarrow> stream_cfg \<Rightarrow> rat \<Rightarrow> bool \<Rightarrow> chan \<Rightarrow> sbuf \<times> 'b host \<Rightarrow> sbuf \<times> 'b host" where
  "flush_stream env t secrets cfg now force c bs = (case bs of (b, s) \<Rightarrow>
     (let text = buffered c b in
      if text = [] then (b, s)
      else if \<not> force \<and> newline \<notin> set text \<and> int (length text) < sc_max_chunk cfg \<and> now - sb_flushed b < sc_flush cfg
        then (b, s)
      else (let x = scrub s text secrets; b1 = collect c x (set_buffer c [] b);
                s1 = snd (emit env t [(''stream'', PStr (chan_str c)), (''text'', PStr x)] False s) in
            (b1\<lparr>sb_chunks := Suc (sb_chunks b1)\<rparr>, s1))))"

definition flush_both :: "'b env \<Rightarrow> task \<Rightarrow> string list \<Rightarrow> stream_cfg \<Rightarrow> rat \<Rightarrow> sbuf \<times> 'b host \<Rightarrow> sbuf \<times> 'b host" where
  "flush_both env t secrets cfg now bs =
     flush_stream env t secrets cfg now True Err (flush_stream env t secrets cfg now True Out bs)"

definition append_line :: "'b env \<Rightarrow> task \<Rightarrow> string list \<Rightarrow> stream_cfg \<Rightarrow> rat \<Rightarrow> chan \<Rightarrow> string \<Rightarrow> sbuf \<times> 'b host \<Rightarrow> sbuf \<times> 'b host" where
  "append_line env t secrets cfg now c text bs = (case bs of (b, s) \<Rightarrow>
     (let b1 = set_buffer c (buffered c b @ text) b in
      if newline \<in> set (buffered c b1) \<or> int (length (buffered c b1)) \<ge> sc_max_chunk cfg
      then (case flush_stream env t secrets cfg now True c (b1, s) of (b2, s2) \<Rightarrow> (b2\<lparr>sb_flushed := now\<rparr>, s2))
      else (b1, s)))"

text \<open>The reading loop: how it ended (timed out, cancelled), the buffers and the state.\<close>

fun stream_loop :: "'b env \<Rightarrow> task \<Rightarrow> string list \<Rightarrow> stream_cfg \<Rightarrow> rat \<Rightarrow> nat \<Rightarrow> pass list \<Rightarrow> sbuf \<times> 'b host \<Rightarrow>
    (bool \<times> bool) \<times> sbuf \<times> 'b host" where
  "stream_loop env t secrets cfg deadline 0 ps bs = ((False, False), bs)"
| "stream_loop env t secrets cfg deadline (Suc n) [] bs = ((True, False), bs)"
| "stream_loop env t secrets cfg deadline (Suc n) (p # ps) bs =
     (let bs1 = (if ps_stop p then (fst bs, snd (stop env (t_id t) (snd bs))) else bs) in
      if cancel_requested (snd bs1) (t_id t) then ((False, True), bs1)
      else if deadline - ps_now p \<le> 0 then ((True, False), bs1)
      else (case ps_item p of
          Quiet \<Rightarrow> (case flush_both env t secrets cfg (ps_now p) bs1 of (b, s) \<Rightarrow>
            stream_loop env t secrets cfg deadline (Suc n) ps (b\<lparr>sb_flushed := ps_now p\<rparr>, s))
        | Eof \<Rightarrow> stream_loop env t secrets cfg deadline n ps bs1
        | Line c text \<Rightarrow> stream_loop env t secrets cfg deadline (Suc n) ps
            (append_line env t secrets cfg (ps_now p) c text bs1)))"

definition last_n :: "nat \<Rightarrow> string \<Rightarrow> string" where
  "last_n n x = drop (length x - n) x"

definition exit_val :: "int option \<Rightarrow> pyval" where
  "exit_val rc = (case rc of None \<Rightarrow> PNone | Some n \<Rightarrow> PInt n)"

definition stream_final :: "string \<Rightarrow> bool \<Rightarrow> bool \<Rightarrow> int option \<Rightarrow> sbuf \<Rightarrow> dict" where
  "stream_final dec timed_out cancelled rc b =
     [(''ok'', PBool (\<not> timed_out \<and> \<not> cancelled \<and> rc = Some 0)), (''decision'', PStr dec), (''exit_code'', exit_val rc),
      (''stats'', PDict [(''chunks'', PInt (int (sb_chunks b))), (''stdout_bytes'', PInt (int (sb_nout b))),
        (''stderr_bytes'', PInt (int (sb_nerr b)))])]
     @ (if cancelled then [(''cancelled'', PBool True), (''error'', PStr ''cancelled'')]
        else if timed_out then [(''error'', PStr ''timeout'')] else [])"

definition stream_result :: "task \<Rightarrow> string \<Rightarrow> level \<Rightarrow> bool \<Rightarrow> bool \<Rightarrow> int option \<Rightarrow> sbuf \<Rightarrow> dict \<Rightarrow> result" where
  "stream_result t dec l timed_out cancelled rc b body =
     \<lparr>r_task_id = t_id t, r_ok = (\<not> timed_out \<and> \<not> cancelled \<and> rc = Some 0),
      r_decision = (if cancelled then ''cancelled'' else dec),
      r_stdout = last_n 200000 (concat (sb_cout b)), r_stderr = last_n 16000 (concat (sb_cerr b)), r_exit_code = rc,
      r_error = (if cancelled then ''cancelled'' else if timed_out then ''timeout'' else []),
      r_metadata = [(''streamed'', PBool True), (''chunks'', PInt (int (sb_chunks b))), (''cancelled'', PBool cancelled),
        (''sandbox'', PStr (level_str l)), (''final_chunk'', PDict body)]\<rparr>"

text \<open>After the loop: the last flush, the end of the process, the final chunk and the result. The exit code is
  \<open>None\<close> when the process could not be waited for; a process that has not exited after both pipes closed is
  killed.\<close>

definition finish_stream :: "'b env \<Rightarrow> task \<Rightarrow> string \<Rightarrow> string list \<Rightarrow> stream_cfg \<Rightarrow> level \<Rightarrow> int \<Rightarrow> rat \<Rightarrow>
    (bool \<times> bool) \<times> sbuf \<times> 'b host \<Rightarrow> result \<times> 'b host" where
  "finish_stream env t dec secrets cfg l pid now st = (case st of ((timed_out, cancelled0), bs) \<Rightarrow>
     (case flush_both env t secrets cfg now bs of (b, s) \<Rightarrow>
       (let cancelled = (cancelled0 \<or> cancel_requested s (t_id t));
            s1 = (if timed_out \<or> cancelled then note_ev (EvKill pid) s else s);
            rc = en_exit env (hs_calls s1) pid;
            s2 = (if \<not> (timed_out \<or> cancelled) \<and> rc = None then note_ev (EvKill pid) (called s1) else called s1);
            s3 = unregister_running (t_id t) s2;
            s4 = (if cancelled then clear_cancel (t_id t) s3 else s3) in
        case emit env t (stream_final dec timed_out cancelled rc b) True s4 of (body, s5) \<Rightarrow>
          (stream_result t dec l timed_out cancelled rc b body, s5))))"

text \<open>A stream that does not start: one final chunk and a failed result.\<close>

definition stream_error :: "'b env \<Rightarrow> task \<Rightarrow> string \<Rightarrow> string \<Rightarrow> 'b host \<Rightarrow> result \<times> 'b host" where
  "stream_error env t dec err s =
     (case emit env t [(''ok'', PBool False), (''decision'', PStr dec), (''error'', PStr err)] True s of
       (body, s1) \<Rightarrow> ((fail t dec err)\<lparr>r_metadata := [(''final_chunk'', PDict body)]\<rparr>, s1))"

definition stream_config :: "task \<Rightarrow> exn + stream_cfg" where
  "stream_config t =
     and_then (to_float (dget_or (t_payload t) ''timeout_sec'' (PInt 600))) (\<lambda>timeout.
     and_then (to_float (dget_or (t_payload t) ''flush_interval_ms'' (PInt 500))) (\<lambda>ms.
     and_then (to_int (dget_or (t_payload t) ''max_chunk_bytes'' (PInt 16000))) (\<lambda>n.
       Inr \<lparr>sc_timeout = timeout, sc_flush = ms / 1000, sc_max_chunk = n\<rparr>)))"

definition exec_shell_stream :: "'b env \<Rightarrow> task \<Rightarrow> string \<Rightarrow> 'b host \<Rightarrow> (exn + result) \<times> 'b host" where
  "exec_shell_stream env t dec s =
     (case stream_config t of Inl e \<Rightarrow> (Inl e, s) | Inr cfg \<Rightarrow>
     (case need_text (dget_or (t_payload t) ''command'' (PStr [])) of Inl e \<Rightarrow> (Inl e, s) | Inr template \<Rightarrow>
     (case resolve_secrets env template s of
       (Inl e, s1) \<Rightarrow>
         (let msg = en_vault_msg env e;
              s2 = audit_ev (t_id t) ''secret_resolve'' ''shell_stream'' ''error'' [(''error'', PStr msg)] s1 in
          apfst Inr (stream_error env t dec msg s2))
     | (Inr (command, secrets), s1) \<Rightarrow>
       (case cwd_of t of Inl e \<Rightarrow> (Inl e, s1) | Inr cwd \<Rightarrow>
       (let l = sandbox_level env (t_kind t) in
        case popen env command l cwd s1 of
          (Inl e, s2) \<Rightarrow> apfst Inr (stream_error env t dec (snd e) s2)
        | (Inr pid, s2) \<Rightarrow>
          (let s3 = called (register_running (t_id t) (HProc pid) s2); now = hs_clock s3;
               st = stream_loop env t secrets cfg (now + sc_timeout cfg) 2 (en_stream env (hs_calls s2) pid) (empty_buf now, s3) in
           apfst Inr (finish_stream env t dec secrets cfg l pid now st)))))))"

definition gate_shell_stream :: "'b env \<Rightarrow> task \<Rightarrow> 'b host \<Rightarrow> (exn + result) \<times> 'b host" where
  "gate_shell_stream env t s =
     (case need_attr ''strip'' (dget_or (t_payload t) ''command'' (PStr [])) of Inl e \<Rightarrow> (Inl e, s) | Inr command \<Rightarrow>
     (case paths_of (dget_or (t_payload t) ''paths'' (PList [])) of Inl e \<Rightarrow> (Inl e, s) | Inr paths \<Rightarrow>
     (case gate env t command paths s of
        (Some early, s1) \<Rightarrow> (Inr early, s1)
      | (None, s1) \<Rightarrow> exec_shell_stream env t ''auto'' s1)))"

subsection \<open>What the stream sends\<close>



lemma stop_keeps [simp]:
  "chunks (snd (stop env i s)) = chunks s" "known (snd (stop env i s)) = known s" "seq_of (snd (stop env i s)) j = seq_of s j"
  by (auto simp: stop_def Let_def terminate_proc_def close_session_def set_session_def called_def
      split: option.splits handle.splits)

lemma emit_simps [simp]:
  "known (snd (emit env t body f s)) = known s"
  "seq_of (snd (emit env t body f s)) i = (if i = t_id t then Suc (seq_of s i) else seq_of s i)"
  "chunks (snd (emit env t body f s)) = chunks s @ (if en_sink env then [(fst (emit env t body f s), seq_of s (t_id t), f)] else [])"
  "fst (emit env t body f s) = dict_merge [(''task_id'', PStr (t_id t)), (''seq'', PInt (int (seq_of s (t_id t)))), (''is_final'', PBool f)] body"
  by (simp_all add: emit_def next_seq_def Let_def seq_of_def[symmetric])

text \<open>The chunk with number \<open>n\<close> carrying \<open>text\<close> of a channel.\<close>

definition data_chunk :: "task \<Rightarrow> nat \<Rightarrow> chan \<times> string \<Rightarrow> dict \<times> nat \<times> bool" where
  "data_chunk t n ct = ([(''task_id'', PStr (t_id t)), (''seq'', PInt (int n)), (''is_final'', PBool False),
     (''stream'', PStr (chan_str (fst ct))), (''text'', PStr (snd ct))], n, False)"

fun data_chunks :: "task \<Rightarrow> nat \<Rightarrow> (chan \<times> string) list \<Rightarrow> (dict \<times> nat \<times> bool) list" where
  "data_chunks t n [] = []"
| "data_chunks t n (c # cs) = data_chunk t n c # data_chunks t (Suc n) cs"

lemma data_chunks_append [simp]: "data_chunks t n (xs @ ys) = data_chunks t n xs @ data_chunks t (n + length xs) ys"
  by (induction xs arbitrary: n) auto

definition on_chan :: "chan \<Rightarrow> (chan \<times> string) list \<Rightarrow> string list" where
  "on_chan c xs = map snd (filter (\<lambda>x. fst x = c) xs)"

lemma on_chan_simps [simp]: "on_chan c [] = []" "on_chan c ((d, x) # xs) = (if d = c then x # on_chan c xs else on_chan c xs)"
  "on_chan c (xs @ ys) = on_chan c xs @ on_chan c ys"
  by (simp_all add: on_chan_def)

fun line_of :: "pass \<Rightarrow> (chan \<times> string) option" where
  "line_of p = (case ps_item p of Line c x \<Rightarrow> Some (c, x) | _ \<Rightarrow> None)"

definition lines_of :: "pass list \<Rightarrow> (chan \<times> string) list" where
  "lines_of ps = List.map_filter line_of ps"

lemma lines_append [simp]: "lines_of (xs @ ys) = lines_of xs @ lines_of ys"
  by (simp add: lines_of_def map_filter_append)

text \<open>The loop's invariant: the pieces sent so far, redacted, are the chunks, and with the buffers they are the
  lines read.\<close>

definition stream_inv :: "'b env \<Rightarrow> task \<Rightarrow> string list \<Rightarrow> 'b host \<Rightarrow> (chan \<times> string) list \<Rightarrow> sbuf \<times> 'b host \<Rightarrow> bool" where
  "stream_inv env t secrets s0 lines bs = (case bs of (b, s) \<Rightarrow>
     known s = known s0 \<and> (\<exists>ps. let cs = map (\<lambda>(c, p). (c, redact (known s0) p secrets)) ps in
       chunks s = chunks s0 @ (if en_sink env then data_chunks t (seq_of s0 (t_id t)) cs else []) \<and>
       seq_of s (t_id t) = seq_of s0 (t_id t) + length cs \<and> sb_chunks b = length cs \<and>
       sb_cout b = on_chan Out cs \<and> sb_cerr b = on_chan Err cs \<and>
       sb_nout b = length (concat (on_chan Out cs)) \<and> sb_nerr b = length (concat (on_chan Err cs)) \<and>
       concat (on_chan Out ps) @ sb_out b = concat (on_chan Out lines) \<and>
       concat (on_chan Err ps) @ sb_err b = concat (on_chan Err lines)))"

lemma chan_str_ne [simp]: "dict_merge [(''task_id'', a), (''seq'', b), (''is_final'', c)] [(''stream'', d), (''text'', e)] =
   [(''task_id'', a), (''seq'', b), (''is_final'', c), (''stream'', d), (''text'', e)]"
  by (simp add: dict_merge_def)

lemma inv_flush:
  assumes "stream_inv env t secrets s0 lines bs"
  shows "stream_inv env t secrets s0 lines (flush_stream env t secrets cfg now f c bs)"
proof -
  obtain b s where bs: "bs = (b, s)" by (cases bs)
  obtain ps where i: "let cs = map (\<lambda>(c, p). (c, redact (known s0) p secrets)) ps in
       chunks s = chunks s0 @ (if en_sink env then data_chunks t (seq_of s0 (t_id t)) cs else []) \<and>
       seq_of s (t_id t) = seq_of s0 (t_id t) + length cs \<and> sb_chunks b = length cs \<and>
       sb_cout b = on_chan Out cs \<and> sb_cerr b = on_chan Err cs \<and>
       sb_nout b = length (concat (on_chan Out cs)) \<and> sb_nerr b = length (concat (on_chan Err cs)) \<and>
       concat (on_chan Out ps) @ sb_out b = concat (on_chan Out lines) \<and>
       concat (on_chan Err ps) @ sb_err b = concat (on_chan Err lines)" and k: "known s = known s0"
    using assms by (auto simp: stream_inv_def bs)
  show ?thesis
  proof (cases "flush_stream env t secrets cfg now f c bs = bs")
    case True
    then show ?thesis using assms by simp
  next
    case False
    then have e: "flush_stream env t secrets cfg now f c bs =
      (let x = redact (known s0) (buffered c b) secrets; b1 = collect c x (set_buffer c [] b) in
        (b1\<lparr>sb_chunks := Suc (sb_chunks b1)\<rparr>, snd (emit env t [(''stream'', PStr (chan_str c)), (''text'', PStr x)] False s)))"
      by (auto simp: flush_stream_def bs Let_def scrub_def k split: if_splits)
    have "stream_inv env t secrets s0 lines (let x = redact (known s0) (buffered c b) secrets; b1 = collect c x (set_buffer c [] b) in
        (b1\<lparr>sb_chunks := Suc (sb_chunks b1)\<rparr>, snd (emit env t [(''stream'', PStr (chan_str c)), (''text'', PStr x)] False s)))"
      unfolding stream_inv_def Let_def prod.case
    proof (intro conjI exI[of _ "ps @ [(c, buffered c b)]"])
    qed (use i k in \<open>cases c; simp add: Let_def data_chunk_def collect_def set_buffer_def buffered_def\<close>)+
    then show ?thesis unfolding e .
  qed
qed

lemma inv_flush_both:
  assumes "stream_inv env t secrets s0 lines bs"
  shows "stream_inv env t secrets s0 lines (flush_both env t secrets cfg now bs)"
  unfolding flush_both_def by (intro inv_flush assms)

lemma inv_flushed: "stream_inv env t secrets s0 lines (b\<lparr>sb_flushed := now\<rparr>, s) = stream_inv env t secrets s0 lines (b, s)"
  by (simp add: stream_inv_def)

lemma inv_more:
  assumes "stream_inv env t secrets s0 lines (b, s)"
  shows "stream_inv env t secrets s0 (lines @ [(c, x)]) (set_buffer c (buffered c b @ x) b, s)"
proof -
  obtain ps where i: "let cs = map (\<lambda>(c, p). (c, redact (known s0) p secrets)) ps in
       chunks s = chunks s0 @ (if en_sink env then data_chunks t (seq_of s0 (t_id t)) cs else []) \<and>
       seq_of s (t_id t) = seq_of s0 (t_id t) + length cs \<and> sb_chunks b = length cs \<and>
       sb_cout b = on_chan Out cs \<and> sb_cerr b = on_chan Err cs \<and>
       sb_nout b = length (concat (on_chan Out cs)) \<and> sb_nerr b = length (concat (on_chan Err cs)) \<and>
       concat (on_chan Out ps) @ sb_out b = concat (on_chan Out lines) \<and>
       concat (on_chan Err ps) @ sb_err b = concat (on_chan Err lines)" and k: "known s = known s0"
    using assms by (auto simp: stream_inv_def)
  show ?thesis unfolding stream_inv_def prod.case
    by (intro conjI exI[of _ ps]) (use i k in \<open>cases c; simp add: Let_def set_buffer_def buffered_def flip: append_assoc\<close>)+
qed

lemma inv_append:
  assumes "stream_inv env t secrets s0 lines bs"
  shows "stream_inv env t secrets s0 (lines @ [(c, x)]) (append_line env t secrets cfg now c x bs)"
proof -
  obtain b s where bs: "bs = (b, s)" by (cases bs)
  let ?b = "set_buffer c (buffered c b @ x) b"
  have 1: "stream_inv env t secrets s0 (lines @ [(c, x)]) (?b, s)" using inv_more assms bs by blast
  obtain b2 s2 where f: "flush_stream env t secrets cfg now True c (?b, s) = (b2, s2)" by fastforce
  have "stream_inv env t secrets s0 (lines @ [(c, x)]) (b2, s2)" using inv_flush[OF 1] f by metis
  then show ?thesis using 1 by (simp add: append_line_def bs Let_def f inv_flushed)
qed

lemma inv_stop:
  assumes "stream_inv env t secrets s0 lines (b, s)"
  shows "stream_inv env t secrets s0 lines (b, snd (stop env i s))"
  using assms by (simp add: stream_inv_def)

lemma stream_loop_inv:
  assumes "stream_inv env t secrets s0 lines bs"
  shows "\<exists>k \<le> length ps. stream_inv env t secrets s0 (lines @ lines_of (take k ps)) (snd (stream_loop env t secrets cfg dl n ps bs)) \<and>
    (fst (stream_loop env t secrets cfg dl n ps bs) = (False, False) \<longrightarrow>
       length (filter (\<lambda>p. ps_item p = Eof) (take k ps)) = n)"
  using assms
proof (induction ps arbitrary: n bs lines)
  case Nil
  then show ?case by (cases n) (auto simp: lines_of_def List.map_filter_def)
next
  case (Cons p ps)
  obtain b s where bs: "bs = (b, s)" by (cases bs)
  show ?case
  proof (cases n)
    case 0
    then show ?thesis using Cons.prems by (intro exI[of _ 0]) (simp add: lines_of_def List.map_filter_def)
  next
    case (Suc m)
    let ?s1 = "if ps_stop p then snd (stop env (t_id t) s) else s"
    let ?bs1 = "(b, ?s1)"
    have i1: "stream_inv env t secrets s0 lines ?bs1" using Cons.prems by (auto simp: bs intro: inv_stop)
    define R where "R = stream_loop env t secrets cfg dl n (p # ps) bs"
    consider (halt) x where "R = (x, ?bs1)" "x \<noteq> (False, False)"
      | (quiet) b' s' where "flush_both env t secrets cfg (ps_now p) ?bs1 = (b', s')" "ps_item p = Quiet"
          "R = stream_loop env t secrets cfg dl n ps (b'\<lparr>sb_flushed := ps_now p\<rparr>, s')"
      | (eof) "ps_item p = Eof" "R = stream_loop env t secrets cfg dl m ps ?bs1"
      | (line) c x where "ps_item p = Line c x" "R = stream_loop env t secrets cfg dl n ps (append_line env t secrets cfg (ps_now p) c x ?bs1)"
    proof (cases "cancel_requested ?s1 (t_id t) \<or> dl - ps_now p \<le> 0")
      case True
      then show ?thesis using halt[of "(True, False)"] halt[of "(False, True)"]
        by (cases "cancel_requested ?s1 (t_id t)"; auto simp: R_def bs Suc Let_def split: if_splits)
    next
      case False
      then show ?thesis using quiet eof line
        by (cases "ps_item p"; cases "flush_both env t secrets cfg (ps_now p) ?bs1") (auto simp: R_def bs Suc Let_def split: if_splits)
    qed
    then have "\<exists>k \<le> length (p # ps). stream_inv env t secrets s0 (lines @ lines_of (take k (p # ps))) (snd R) \<and>
      (fst R = (False, False) \<longrightarrow> length (filter (\<lambda>p. ps_item p = Eof) (take k (p # ps))) = n)"
    proof cases
      case halt
      then show ?thesis using i1 by (intro exI[of _ 0]) (simp add: lines_of_def List.map_filter_def)
    next
      case quiet
      have "stream_inv env t secrets s0 lines (b'\<lparr>sb_flushed := ps_now p\<rparr>, s')"
        using inv_flush_both[OF i1] quiet(1) inv_flushed by metis
      from Cons.IH[OF this, of n] obtain k where "k \<le> length ps"
        "stream_inv env t secrets s0 (lines @ lines_of (take k ps)) (snd R)"
        "fst R = (False, False) \<longrightarrow> length (filter (\<lambda>p. ps_item p = Eof) (take k ps)) = n" unfolding quiet(3)[symmetric] by blast
      then show ?thesis using quiet(2) by (intro exI[of _ "Suc k"]) (simp add: lines_of_def List.map_filter_def)
    next
      case eof
      from Cons.IH[OF i1, of m] obtain k where "k \<le> length ps"
        "stream_inv env t secrets s0 (lines @ lines_of (take k ps)) (snd R)"
        "fst R = (False, False) \<longrightarrow> length (filter (\<lambda>p. ps_item p = Eof) (take k ps)) = m" unfolding eof(2)[symmetric] by blast
      then show ?thesis using eof(1) Suc by (intro exI[of _ "Suc k"]) (simp add: lines_of_def List.map_filter_def)
    next
      case line
      from Cons.IH[OF inv_append[OF i1, of c x cfg "ps_now p"], of n] obtain k where "k \<le> length ps"
        "stream_inv env t secrets s0 ((lines @ [(c, x)]) @ lines_of (take k ps)) (snd R)"
        "fst R = (False, False) \<longrightarrow> length (filter (\<lambda>p. ps_item p = Eof) (take k ps)) = n" unfolding line(2)[symmetric] by blast
      then show ?thesis using line(1) by (intro exI[of _ "Suc k"]) (simp add: lines_of_def List.map_filter_def)
    qed
    then show ?thesis unfolding R_def .
  qed
qed

lemma flushed_empty:
  "fst (flush_both env t secrets cfg now bs) = b \<Longrightarrow> sb_out b = [] \<and> sb_err b = []"
  by (cases bs) (auto simp: flush_both_def flush_stream_def Let_def collect_def set_buffer_def buffered_def)


lemma upd_calls [simp]: "known (called s) = known s" "chunks (called s) = chunks s" "seq_of (called s) i = seq_of s i"
  by (simp_all add: called_def)

lemma misc_keeps [simp]:
  "known (register_running i h s) = known s" "chunks (register_running i h s) = chunks s" "seq_of (register_running i h s) j = seq_of s j"
  "known (unregister_running i s) = known s" "chunks (unregister_running i s) = chunks s" "seq_of (unregister_running i s) j = seq_of s j"
  "known (clear_cancel i s) = known s" "chunks (clear_cancel i s) = chunks s" "seq_of (clear_cancel i s) j = seq_of s j"
  by (simp_all add: register_running_def unregister_running_def clear_cancel_def)

lemma vault_keeps: "chunks (s\<lparr>hs_vault := v\<rparr>) = chunks s" "seq_of (s\<lparr>hs_vault := v\<rparr>) i = seq_of s i"
  by (simp_all add: chunks_def seq_of_def)

lemma resolve_keeps:
  assumes "resolve_secrets env x s = (r, s1)"
  shows "chunks s1 = chunks s \<and> seq_of s1 i = seq_of s i"
  using assms by (auto simp: resolve_secrets_def vault_keeps split: prod.splits sum.splits)

lemma popen_keeps:
  assumes "popen env x l cwd s = (r, s1)"
  shows "chunks s1 = chunks s \<and> seq_of s1 i = seq_of s i \<and> known s1 = known s"
  using assms by (auto simp: popen_def Let_def split: sum.splits)

lemma finish_stream_spec:
  assumes i: "stream_inv env t secrets s0 lines (snd st)" and f: "finish_stream env t dec secrets cfg l pid now st = (r, s')" and k: "en_sink env"
  shows "\<exists>ps d. (let cs = map (\<lambda>(c, p). (c, redact (known s0) p secrets)) ps in
      chunks s' = chunks s0 @ data_chunks t (seq_of s0 (t_id t)) cs @ [(d, seq_of s0 (t_id t) + length cs, True)] \<and>
      r_stdout r = last_n 200000 (concat (on_chan Out cs)) \<and> r_stderr r = last_n 16000 (concat (on_chan Err cs)) \<and>
      concat (on_chan Out ps) = concat (on_chan Out lines) \<and> concat (on_chan Err ps) = concat (on_chan Err lines) \<and>
      dget (r_metadata r) ''final_chunk'' = PDict d \<and>
      (r_ok r \<longrightarrow> fst st = (False, False) \<and> r_exit_code r = Some 0))"
proof -
  obtain x y bs where st: "st = ((x, y), bs)" by (metis prod.exhaust)
  obtain b s where fl: "flush_both env t secrets cfg now bs = (b, s)" by fastforce
  have e: "sb_out b = []" "sb_err b = []" using flushed_empty[of env t secrets cfg now bs b] fl by auto
  have "stream_inv env t secrets s0 lines (b, s)" using inv_flush_both[of env t secrets s0 lines bs cfg now] i fl st by simp
  then obtain ps where q: "known s = known s0" "let cs = map (\<lambda>(c, p). (c, redact (known s0) p secrets)) ps in
       chunks s = chunks s0 @ (if en_sink env then data_chunks t (seq_of s0 (t_id t)) cs else []) \<and>
       seq_of s (t_id t) = seq_of s0 (t_id t) + length cs \<and> sb_chunks b = length cs \<and>
       sb_cout b = on_chan Out cs \<and> sb_cerr b = on_chan Err cs \<and>
       sb_nout b = length (concat (on_chan Out cs)) \<and> sb_nerr b = length (concat (on_chan Err cs)) \<and>
       concat (on_chan Out ps) @ sb_out b = concat (on_chan Out lines) \<and>
       concat (on_chan Err ps) @ sb_err b = concat (on_chan Err lines)"
    by (auto simp: stream_inv_def)
  define c where "c = (y \<or> cancel_requested s (t_id t))"
  define s1 where "s1 = (if x \<or> c then note_ev (EvKill pid) s else s)"
  define rc where "rc = en_exit env (hs_calls s1) pid"
  define s2 where "s2 = (if \<not> (x \<or> c) \<and> rc = None then note_ev (EvKill pid) (called s1) else called s1)"
  define s4 where "s4 = (if c then clear_cancel (t_id t) (unregister_running (t_id t) s2) else unregister_running (t_id t) s2)"
  define fin where "fin = stream_final dec x c rc b"
  have keep: "chunks s4 = chunks s" "seq_of s4 (t_id t) = seq_of s (t_id t)" by (simp_all add: s4_def s2_def s1_def)
  have "finish_stream env t dec secrets cfg l pid now st =
      (case emit env t fin True s4 of (body, s5) \<Rightarrow> (stream_result t dec l x c rc b body, s5))"
    by (simp add: finish_stream_def st fl Let_def fin_def s4_def s2_def rc_def s1_def c_def)
  then have r: "r = stream_result t dec l x c rc b (fst (emit env t fin True s4))" "s' = snd (emit env t fin True s4)"
    using f by (simp_all add: case_prod_unfold)
  show ?thesis
    by (rule exI[of _ ps], rule exI[of _ "fst (emit env t fin True s4)"])
      (use q e keep k in \<open>auto simp: Let_def r stream_result_def dget_def st c_def\<close>)
qed


lemma stream_spec:
  assumes "en_sink env" "stream_config t = Inr cfg" "need_text (dget_or (t_payload t) ''command'' (PStr [])) = Inr template"
    "resolve_secrets env template s = (Inr (command, secrets), s1)" "cwd_of t = Inr cwd"
    "popen env command (sandbox_level env (t_kind t)) cwd s1 = (Inr pid, s2)" "exec_shell_stream env t dec s = (out, s')"
  shows "\<exists>r ps k d. out = Inr r \<and>
    (let cs = map (\<lambda>(c, p). (c, redact (known s1) p secrets)) ps; passes = take k (en_stream env (hs_calls s2) pid) in
      chunks s' = chunks s @ data_chunks t (seq_of s (t_id t)) cs @ [(d, seq_of s (t_id t) + length cs, True)] \<and>
      (\<forall>c. concat (on_chan c ps) = concat (on_chan c (lines_of passes))) \<and>
      r_stdout r = last_n 200000 (concat (on_chan Out cs)) \<and> r_stderr r = last_n 16000 (concat (on_chan Err cs)) \<and>
      dget (r_metadata r) ''final_chunk'' = PDict d \<and>
      (r_ok r \<longrightarrow> r_exit_code r = Some 0 \<and> length (filter (\<lambda>p. ps_item p = Eof) passes) = 2))"
proof -
  define s3 where "s3 = called (register_running (t_id t) (HProc pid) s2)"
  define now where "now = hs_clock s3"
  define st where "st = stream_loop env t secrets cfg (now + sc_timeout cfg) 2 (en_stream env (hs_calls s2) pid) (empty_buf now, s3)"
  define l where "l = sandbox_level env (t_kind t)"
  have "exec_shell_stream env t dec s = apfst Inr (finish_stream env t dec secrets cfg l pid now st)"
    using assms(2-6) by (simp add: exec_shell_stream_def Let_def s3_def now_def st_def l_def)
  then obtain r where f: "finish_stream env t dec secrets cfg l pid now st = (r, s')" and out: "out = Inr r"
    using assms(7) by (cases "finish_stream env t dec secrets cfg l pid now st") auto
  have "stream_inv env t secrets s3 [] (empty_buf now, s3)"
    by (auto simp: stream_inv_def empty_buf_def Let_def lines_of_def List.map_filter_def intro!: exI[of _ "[]"])
  from stream_loop_inv[OF this, of "en_stream env (hs_calls s2) pid" cfg "now + sc_timeout cfg" 2]
  obtain k where i: "stream_inv env t secrets s3 (lines_of (take k (en_stream env (hs_calls s2) pid))) (snd st)"
    and n: "fst st = (False, False) \<Longrightarrow> length (filter (\<lambda>p. ps_item p = Eof) (take k (en_stream env (hs_calls s2) pid))) = 2"
    unfolding st_def by auto
  have keep: "chunks s3 = chunks s" "seq_of s3 (t_id t) = seq_of s (t_id t)" "known s3 = known s1"
    using resolve_keeps[OF assms(4), of "t_id t"] popen_keeps[OF assms(6), of "t_id t"] by (simp_all add: s3_def)
  obtain ps d where "let cs = map (\<lambda>(c, p). (c, redact (known s3) p secrets)) ps in
      chunks s' = chunks s3 @ data_chunks t (seq_of s3 (t_id t)) cs @ [(d, seq_of s3 (t_id t) + length cs, True)] \<and>
      r_stdout r = last_n 200000 (concat (on_chan Out cs)) \<and> r_stderr r = last_n 16000 (concat (on_chan Err cs)) \<and>
      concat (on_chan Out ps) = concat (on_chan Out (lines_of (take k (en_stream env (hs_calls s2) pid)))) \<and>
      concat (on_chan Err ps) = concat (on_chan Err (lines_of (take k (en_stream env (hs_calls s2) pid)))) \<and>
      dget (r_metadata r) ''final_chunk'' = PDict d \<and> (r_ok r \<longrightarrow> fst st = (False, False) \<and> r_exit_code r = Some 0)"
    using finish_stream_spec[OF i f assms(1)] by blast
  moreover have "(\<forall>c. P c) = (P Out \<and> P Err)" for P by (metis chan.exhaust)
  ultimately show ?thesis using n
    by (intro exI[of _ r] exI[of _ ps] exI[of _ k] exI[of _ d]) (simp add: Let_def out keep)
qed

lemma data_chunks_text:
  "(d, n, f) \<in> set (data_chunks t m cs) \<Longrightarrow> \<exists>c x. (c, x) \<in> set cs \<and> dget d ''text'' = PStr x"
proof (induction cs arbitrary: m)
  case (Cons a cs)
  then show ?case by (cases a) (auto simp: data_chunk_def dget_def dest!: Cons.IH)
qed simp

text \<open>C28: a streamed command sends its output in numbered chunks and exactly one final chunk, last. The text of the
  chunks is the command's lines, cut into pieces in order and redacted piece by piece, with nothing left out or
  repeated; the result repeats the end of it, and it is ok only when both pipes were read to their end and the
  command exited with 0.\<close>

theorem shell_stream_chunks:
  assumes "en_sink env" "stream_config t = Inr cfg" "need_text (dget_or (t_payload t) ''command'' (PStr [])) = Inr template"
    "resolve_secrets env template s = (Inr (command, secrets), s1)" "cwd_of t = Inr cwd"
    "popen env command (sandbox_level env (t_kind t)) cwd s1 = (Inr pid, s2)" "exec_shell_stream env t dec s = (out, s')"
  shows "\<exists>r ps k d. out = Inr r \<and>
    (let cs = map (\<lambda>(c, p). (c, redact (known s1) p secrets)) ps; passes = take k (en_stream env (hs_calls s2) pid) in
      chunks s' = chunks s @ data_chunks t (seq_of s (t_id t)) cs @ [(d, seq_of s (t_id t) + length cs, True)] \<and>
      (\<forall>c. concat (on_chan c ps) = concat (on_chan c (lines_of passes))) \<and>
      r_stdout r = last_n 200000 (concat (on_chan Out cs)) \<and> r_stderr r = last_n 16000 (concat (on_chan Err cs)) \<and>
      dget (r_metadata r) ''final_chunk'' = PDict d \<and>
      (r_ok r \<longrightarrow> r_exit_code r = Some 0 \<and> length (filter (\<lambda>p. ps_item p = Eof) passes) = 2))"
  by (rule stream_spec[OF assms])



definition demo_stream :: task where
  "demo_stream = mk_task ''t'' ''shell_stream'' [(''command'', PStr ''echo hi'')]"

lemma stream_setup:
  "stream_config demo_stream = Inr \<lparr>sc_timeout = 600, sc_flush = 1/2, sc_max_chunk = 16000\<rparr>"
  "need_text (dget_or (t_payload demo_stream) ''command'' (PStr [])) = Inr ''echo hi''"
  "resolve_secrets demo_env ''echo hi'' demo_host = (Inr (''echo hi'', []), demo_host)"
  "cwd_of demo_stream = Inr None"
  "popen demo_env ''echo hi'' (sandbox_level demo_env (t_kind demo_stream)) None demo_host =
     (Inr 7, note_ev (EvSpawn ''echo hi'') (called demo_host))"
proof -
  show "stream_config demo_stream = Inr \<lparr>sc_timeout = 600, sc_flush = 1/2, sc_max_chunk = 16000\<rparr>"
    by (simp add: stream_config_def demo_stream_def to_float_def to_int_def dget_or_def)
  show "need_text (dget_or (t_payload demo_stream) ''command'' (PStr [])) = Inr ''echo hi''" by code_simp
  have "has_placeholder ''echo hi'' = False" by code_simp
  then show "resolve_secrets demo_env ''echo hi'' demo_host = (Inr (''echo hi'', []), demo_host)"
    by (simp add: resolve_secrets_def resolve_with_def)
  show "cwd_of demo_stream = Inr None" by code_simp
  have "sandbox_level demo_env (t_kind demo_stream) = LevelNone" by code_simp
  then show "popen demo_env ''echo hi'' (sandbox_level demo_env (t_kind demo_stream)) None demo_host =
     (Inr 7, note_ev (EvSpawn ''echo hi'') (called demo_host))"
    by (simp add: popen_def wrap_popen_args_def demo_env_def demo_host_def)
qed

theorem shell_stream_chunks_witness:
  "\<exists>out s' ps k d. exec_shell_stream demo_env demo_stream ''auto'' demo_host = (Inr out, s') \<and>
     (let cs = map (\<lambda>(c, p). (c, redact [''hunter2!''] p [])) ps in
      chunks s' = data_chunks demo_stream 0 cs @ [(d, length cs, True)] \<and>
      concat (on_chan Out ps) = concat (on_chan Out (lines_of (take k (en_stream demo_env 1 7)))))"
proof -
  obtain out s' where e: "exec_shell_stream demo_env demo_stream ''auto'' demo_host = (out, s')" by fastforce
  have s: "en_sink demo_env" "known demo_host = [''hunter2!'']" "chunks demo_host = []" "seq_of demo_host x = 0"
    "hs_calls (note_ev (EvSpawn y) (called demo_host)) = 1" for x y
    by (simp_all add: demo_env_def demo_host_def known_def chunks_def seq_of_def List.map_filter_def note_ev_def called_def)
  have i: "t_id demo_stream = ''t''" by (simp add: demo_stream_def)
  show ?thesis using shell_stream_chunks[OF s(1) stream_setup e] e by (fastforce simp: s Let_def i)
qed


text \<open>A secret that holds a newline comes in two lines and is not recognised in either.\<close>

lemma multiline_secret_sent:
  "on_chan Out (map (\<lambda>(c, p). (c, redact [''secr'' @ [newline] @ ''et42''] p [])) [(Out, ''secr'' @ [newline]), (Out, ''et42'' @ [newline])])
    = [''secr'' @ [newline], ''et42'' @ [newline]]"
  by code_simp

end
