(* ===== verification/Signing.thy ===== *)
theory Signing
  imports Json
begin

text \<open>
  \<open>agent/signing.py\<close> and \<open>agent/verify.py\<close>: the canonical bytes of a document, signing and verifying it,
  the signer the reporters use, and the exit code of the verifier. Ed25519 comes from the \<open>cryptography\<close>
  package and is a parameter: a private key signs bytes, a public key accepts or rejects them, and a key
  file loads or does not. Bytes are strings of characters; base64 decoding is strict.
\<close>

subsection \<open>Bytes\<close>

text \<open>\<open>str.encode("utf-8")\<close> on the modelled characters.\<close>

definition utf8_char :: "char \<Rightarrow> string" where
  "utf8_char c = (let n = code c in if n < 128 then [c] else [char_of (192 + n div 64), char_of (128 + n mod 64)])"

definition utf8 :: "string \<Rightarrow> string" where
  "utf8 s = concat (map utf8_char s)"

definition b64_alphabet :: string where
  "b64_alphabet = ''ABCDEFGHIJKLMNOPQRSTUVWXYZabcdefghijklmnopqrstuvwxyz0123456789+/''"

definition b64_digit :: "nat \<Rightarrow> char" where
  "b64_digit n = b64_alphabet ! n"

definition b64_val :: "char \<Rightarrow> nat option" where
  "b64_val c = map_of (zip b64_alphabet [0..<64]) c"

fun b64_encode :: "string \<Rightarrow> string" where
  "b64_encode [] = []"
| "b64_encode [a] = [b64_digit (code a div 4), b64_digit (code a mod 4 * 16), CHR ''='', CHR ''='']"
| "b64_encode [a, b] = [b64_digit (code a div 4), b64_digit (code a mod 4 * 16 + code b div 16),
     b64_digit (code b mod 16 * 4), CHR ''='']"
| "b64_encode (a # b # c # r) = [b64_digit (code a div 4), b64_digit (code a mod 4 * 16 + code b div 16),
     b64_digit (code b mod 16 * 4 + code c div 64), b64_digit (code c mod 64)] @ b64_encode r"

fun b64_decode :: "string \<Rightarrow> string option" where
  "b64_decode [] = Some []"
| "b64_decode (w # x # y # z # r) =
     (if r = [] \<and> z = CHR ''='' then
        (if y = CHR ''='' then
          (case (b64_val w, b64_val x) of (Some p, Some q) \<Rightarrow> Some [char_of (p * 4 + q div 16)] | _ \<Rightarrow> None)
         else (case (b64_val w, b64_val x, b64_val y) of
            (Some p, Some q, Some m) \<Rightarrow> Some [char_of (p * 4 + q div 16), char_of (q mod 16 * 16 + m div 4)] | _ \<Rightarrow> None))
      else (case (b64_val w, b64_val x, b64_val y, b64_val z) of
          (Some p, Some q, Some m, Some n) \<Rightarrow>
            map_option (\<lambda>s. char_of (p * 4 + q div 16) # char_of (q mod 16 * 16 + m div 4) # char_of (m mod 4 * 64 + n) # s) (b64_decode r)
        | _ \<Rightarrow> None))"
| "b64_decode _ = None"

subsection \<open>Documents\<close>

definition SIGNATURE_FIELD :: string where
  "SIGNATURE_FIELD = ''signature''"

definition unsigned :: "dict \<Rightarrow> dict" where
  "unsigned doc = filter (\<lambda>(k, v). k \<noteq> SIGNATURE_FIELD) doc"

definition canonical_json :: "dict \<Rightarrow> string" where
  "canonical_json doc = json_print json_compact (sort_keys (PDict (unsigned doc)))"

definition canonical_bytes :: "dict \<Rightarrow> string" where
  "canonical_bytes doc = utf8 (canonical_json doc)"

text \<open>Ed25519: \<open>ed_sign\<close> and \<open>ed_verify\<close> on keys and bytes.\<close>

record ('sk, 'pk) ed25519 =
  ed_sign :: "'sk \<Rightarrow> string \<Rightarrow> string"
  ed_verify :: "'pk \<Rightarrow> string \<Rightarrow> string \<Rightarrow> bool"
  ed_public :: "'sk \<Rightarrow> 'pk"

definition sign_document :: "('sk, 'pk) ed25519 \<Rightarrow> 'sk \<Rightarrow> dict \<Rightarrow> dict" where
  "sign_document ed key doc = dict_set doc SIGNATURE_FIELD (PStr (b64_encode (ed_sign ed key (canonical_bytes doc))))"

definition verify_document :: "('sk, 'pk) ed25519 \<Rightarrow> 'pk \<Rightarrow> dict \<Rightarrow> bool" where
  "verify_document ed key doc = (case dget doc SIGNATURE_FIELD of
       PStr raw \<Rightarrow> if raw = [] then False
         else (case b64_decode raw of None \<Rightarrow> False | Some sig \<Rightarrow> ed_verify ed key sig (canonical_bytes doc))
     | _ \<Rightarrow> False)"

subsection \<open>The signer of the reporters\<close>

text \<open>The private key file: missing, holding something that is not a key, or a key.\<close>

datatype 'sk key_file = NoFile | Corrupt | KeyFile 'sk

datatype sign_error = CannotLoadKey

record 'sk signer =
  sg_enabled :: bool
  sg_file :: "'sk key_file"
  sg_crypto :: bool
  sg_key :: "'sk option"
  sg_warned :: bool
  sg_audited :: "string list"

text \<open>\<open>_load\<close>: a missing package or file is a \<open>SigningError\<close> and gives no key; a file that does not hold a
  key makes \<open>load_pem_private_key\<close> raise something else, which is not caught.\<close>

definition load_key :: "'sk signer \<Rightarrow> (sign_error + 'sk option) \<times> 'sk signer" where
  "load_key sg = (case sg_key sg of Some k \<Rightarrow> (Inr (Some k), sg)
     | None \<Rightarrow> if \<not> sg_crypto sg then (Inr None, sg\<lparr>sg_warned := True\<rparr>)
         else (case sg_file sg of
             NoFile \<Rightarrow> (Inr None, sg\<lparr>sg_warned := True\<rparr>)
           | Corrupt \<Rightarrow> (Inl CannotLoadKey, sg)
           | KeyFile k \<Rightarrow> (Inr (Some k), sg\<lparr>sg_key := Some k\<rparr>)))"

definition signer_available :: "'sk signer \<Rightarrow> bool" where
  "signer_available sg = (sg_enabled sg \<and> sg_file sg \<noteq> NoFile)"

definition signer_sign :: "('sk, 'pk) ed25519 \<Rightarrow> dict \<Rightarrow> string \<Rightarrow> 'sk signer \<Rightarrow> (sign_error + dict) \<times> 'sk signer" where
  "signer_sign ed doc ctx sg =
     (if \<not> sg_enabled sg then (Inr doc, sg)
      else if sg_file sg = NoFile then (Inr doc, sg\<lparr>sg_warned := True\<rparr>)
      else (case load_key sg of
          (Inl e, sg') \<Rightarrow> (Inl e, sg')
        | (Inr None, sg') \<Rightarrow> (Inr doc, sg')
        | (Inr (Some key), sg') \<Rightarrow>
            (Inr (sign_document ed key doc), sg'\<lparr>sg_audited := sg_audited sg' @ [if ctx = [] then ''result'' else ctx]\<rparr>)))"

subsection \<open>The verifier\<close>

text \<open>\<open>main\<close> of \<open>verify.py\<close> after the key was loaded: what each file holds, \<open>None\<close> when it cannot be read or
  parsed.\<close>

definition verify_file :: "('sk, 'pk) ed25519 \<Rightarrow> 'pk \<Rightarrow> pyval option \<Rightarrow> nat \<times> nat \<Rightarrow> nat \<times> nat" where
  "verify_file ed key f c = (case c of (failures, errors) \<Rightarrow> (case f of
       Some (PDict doc) \<Rightarrow> if verify_document ed key doc then (failures, errors) else (failures + 1, errors)
     | _ \<Rightarrow> (failures, errors + 1)))"

definition verify_main :: "('sk, 'pk) ed25519 \<Rightarrow> 'pk option \<Rightarrow> pyval option list \<Rightarrow> int" where
  "verify_main ed key files = (case key of None \<Rightarrow> 2
     | Some k \<Rightarrow> (case fold (verify_file ed k) files (0, 0) of (failures, errors) \<Rightarrow>
         if errors > 0 then 2 else if failures > 0 then 1 else 0))"

subsection \<open>Bytes are read back\<close>

lemma b64_val_digit [simp]: "n < 64 \<Longrightarrow> b64_val (b64_digit n) = Some n"
proof -
  have "\<forall>n \<in> set [0..<64]. b64_val (b64_digit n) = Some n" by code_simp
  then show "n < 64 \<Longrightarrow> b64_val (b64_digit n) = Some n" by simp
qed

lemma b64_digit_pad [simp]: "n < 64 \<Longrightarrow> b64_digit n \<noteq> CHR ''=''"
proof -
  have "\<forall>n \<in> set [0..<64]. b64_digit n \<noteq> CHR ''=''" by code_simp
  then show "n < 64 \<Longrightarrow> b64_digit n \<noteq> CHR ''=''" by simp
qed

lemma sixbits:
  assumes "a < 256" "b < 256" "c < (256::nat)"
  shows "a div 4 < 64" "a mod 4 * 16 < 64" "a mod 4 * 16 + b div 16 < 64" "b mod 16 * 4 < 64"
    "b mod 16 * 4 + c div 64 < 64" "c mod 64 < 64"
    "a div 4 * 4 + (a mod 4 * 16) div 16 = a" "a div 4 * 4 + (a mod 4 * 16 + b div 16) div 16 = a"
    "(a mod 4 * 16 + b div 16) mod 16 * 16 + (b mod 16 * 4) div 4 = b"
    "(a mod 4 * 16 + b div 16) mod 16 * 16 + (b mod 16 * 4 + c div 64) div 4 = b"
    "(b mod 16 * 4 + c div 64) mod 4 * 64 + c mod 64 = c" "b div 16 mod 16 * 16 + b mod 16 = b"
proof -
  have q: "a div 4 < 64" "b div 16 < 16" "c div 64 < 4" using assms by (auto simp: less_mult_imp_div_less)
  have m: "a mod 4 < 4" "b mod 16 < 16" by simp_all
  show "a div 4 < 64" "a mod 4 * 16 < 64" "a mod 4 * 16 + b div 16 < 64" "b mod 16 * 4 < 64"
    "b mod 16 * 4 + c div 64 < 64" "c mod 64 < 64" using q m by linarith+
  have e: "(x * 16 + y) div 16 = x" "(x * 16 + y) mod 16 = y" if "y < 16" for x y :: nat using that by simp_all
  have f: "(x * 4 + y) div 4 = x" "(x * 4 + y) mod 4 = y" if "y < 4" for x y :: nat using that by simp_all
  show "a div 4 * 4 + (a mod 4 * 16) div 16 = a" by simp
  show "a div 4 * 4 + (a mod 4 * 16 + b div 16) div 16 = a" using e(1)[OF q(2)] by simp
  show "(a mod 4 * 16 + b div 16) mod 16 * 16 + (b mod 16 * 4) div 4 = b" using e(2)[OF q(2)] by simp
  show "(a mod 4 * 16 + b div 16) mod 16 * 16 + (b mod 16 * 4 + c div 64) div 4 = b" using e(2)[OF q(2)] f(1)[OF q(3)] by simp
  show "(b mod 16 * 4 + c div 64) mod 4 * 64 + c mod 64 = c" using f(2)[OF q(3)] by simp
  show "b div 16 mod 16 * 16 + b mod 16 = b" using q(2) by simp
qed

lemma b64_roundtrip: "b64_decode (b64_encode s) = Some s"
proof (induction s rule: b64_encode.induct)
  case (4 a b c r)
  have neq: "b64_digit (code c mod 64) \<noteq> CHR ''=''" by simp
  show ?case using 4 neq sixbits[of "code a" "code b" "code c"] by simp
next
  case (2 a)
  show ?case using sixbits[of "code a" 0 0] by simp
next
  case (3 a b)
  show ?case using sixbits[of "code a" "code b" 0] by simp
qed simp

lemma utf8_inj: "utf8 s = utf8 t \<Longrightarrow> s = t"
proof (induction s arbitrary: t)
  case Nil
  then show ?case by (cases t) (auto simp: utf8_def utf8_char_def Let_def split: if_splits)
next
  case (Cons c s)
  obtain d t' where t: "t = d # t'"
    using Cons.prems by (cases t) (auto simp: utf8_def utf8_char_def Let_def split: if_splits)
  have b: "code x < 256" "128 \<le> code x \<Longrightarrow> 192 + code x div 64 < 256" "128 + code x mod 64 < 256" for x
    using code_less[of x] by linarith+
  have eq: "utf8_char c @ utf8 s = utf8_char d @ utf8 t'" using Cons.prems t by (simp add: utf8_def)
  have "c = d \<and> utf8 s = utf8 t'"
  proof (cases "code c < 128")
    case True
    then have h: "c = hd (utf8_char d)" using eq by (auto simp: utf8_char_def Let_def split: if_splits)
    have "code d < 128"
    proof (rule ccontr)
      assume "\<not> code d < 128"
      then have "code c = 192 + code d div 64" using h b(2)[of d] by (simp add: utf8_char_def Let_def)
      then show False using True by simp
    qed
    then show ?thesis using eq True by (simp add: utf8_char_def Let_def)
  next
    case False
    then have h: "char_of (192 + code c div 64) = hd (utf8_char d)" using eq by (auto simp: utf8_char_def Let_def split: if_splits)
    have d: "\<not> code d < 128"
    proof
      assume "code d < 128"
      then have "code d = 192 + code c div 64" using h False b(2)[of c] by (auto simp: utf8_char_def Let_def)
      then show False using \<open>code d < 128\<close> by simp
    qed
    then have e: "char_of (192 + code c div 64) = (char_of (192 + code d div 64) :: char)"
      "char_of (128 + code c mod 64) = (char_of (128 + code d mod 64) :: char)" "utf8 s = utf8 t'"
      using eq False by (simp_all add: utf8_char_def Let_def)
    have "code (char_of (192 + code c div 64)) = code (char_of (192 + code d div 64))" by (rule arg_cong[OF e(1)])
    moreover have "code (char_of (128 + code c mod 64)) = code (char_of (128 + code d mod 64))" by (rule arg_cong[OF e(2)])
    ultimately have "code c div 64 = code d div 64" "code c mod 64 = code d mod 64"
      using False d b(2)[of c] b(2)[of d] b(3)[of c] b(3)[of d] by simp_all
    then have "code c = code d" by (metis div_mult_mod_eq)
    then show ?thesis using e(3) by (metis char_of_code)
  qed
  then show ?case using Cons.IH t by simp
qed

lemma plain_sort_keys: "plain v \<Longrightarrow> plain (sort_keys v)"
proof (induction v)
  case (PDict d)
  let ?d = "map (\<lambda>(k, v). (k, sort_keys v)) d"
  have "map fst ?d = map fst d" by (induction d) auto
  moreover have "mset (map fst (sort_key fst ?d)) = mset (map fst ?d)" by (simp only: mset_map mset_sort)
  ultimately have "distinct (map fst (sort_key fst ?d))" using PDict.prems by (metis mset_eq_imp_distinct_iff plain.simps(3))
  moreover have "\<forall>(k, v) \<in> set ?d. plain v" using PDict by (fastforce simp: list_all_iff)
  ultimately show ?case by (simp add: list_all_iff)
qed (auto simp: list_all_iff)

lemma plain_unsigned: "plain (PDict d) \<Longrightarrow> plain (PDict (unsigned d))"
proof -
  have "distinct (map fst d) \<Longrightarrow> distinct (map fst (filter P d))" for P :: "string \<times> pyval \<Rightarrow> bool"
    by (rule filter_map_distinct)
  then show "plain (PDict d) \<Longrightarrow> plain (PDict (unsigned d))"
    by (auto simp: unsigned_def list_all_iff)
qed

lemma canonical_inj:
  assumes "plain (PDict d)" "plain (PDict d')" "canonical_bytes d = canonical_bytes d'"
  shows "sort_keys (PDict (unsigned d)) = sort_keys (PDict (unsigned d'))"
proof -
  have "json_print json_compact (sort_keys (PDict (unsigned d))) = json_print json_compact (sort_keys (PDict (unsigned d')))"
    by (rule utf8_inj) (use assms(3) in \<open>simp only: canonical_bytes_def canonical_json_def\<close>)
  then show ?thesis
    using json_print_inj plain_sort_keys plain_unsigned assms(1,2) by (metis white_seps_opts(3))
qed

lemma unsigned_set_signature [simp]: "unsigned (dict_set d SIGNATURE_FIELD v) = unsigned d"
  by (induction d) (auto simp: unsigned_def)

lemma canonical_set_signature [simp]: "canonical_bytes (dict_set d SIGNATURE_FIELD v) = canonical_bytes d"
  by (simp add: canonical_bytes_def canonical_json_def)

subsection \<open>Signing and verifying\<close>

text \<open>What the package promises: a signature made with a private key is accepted under its public key, for the
  bytes that were signed and for no others, and is not empty.\<close>

definition ed_correct :: "('sk, 'pk) ed25519 \<Rightarrow> 'sk \<Rightarrow> bool" where
  "ed_correct ed k = (\<forall>m. ed_sign ed k m \<noteq> [] \<and> ed_verify ed (ed_public ed k) (ed_sign ed k m) m)"

definition ed_binding :: "('sk, 'pk) ed25519 \<Rightarrow> 'sk \<Rightarrow> bool" where
  "ed_binding ed k = (\<forall>m m'. ed_verify ed (ed_public ed k) (ed_sign ed k m) m' \<longrightarrow> m' = m)"

lemma b64_nonempty: "s \<noteq> [] \<Longrightarrow> b64_encode s \<noteq> []"
  by (cases s rule: b64_encode.cases) auto

lemma dget_dict_set [simp]: "dget (dict_set d k v) k = v"
  by (simp add: py_simps)

lemma signature_binds:
  assumes "ed_correct ed k" "ed_binding ed k" "plain (PDict doc)" "plain (PDict doc')"
    "dget doc' SIGNATURE_FIELD = dget (sign_document ed k doc) SIGNATURE_FIELD"
  shows "verify_document ed (ed_public ed k) (sign_document ed k doc)"
    "verify_document ed (ed_public ed k) doc' = (sort_keys (PDict (unsigned doc')) = sort_keys (PDict (unsigned doc)))"
proof -
  let ?s = "ed_sign ed k (canonical_bytes doc)"
  have ne: "?s \<noteq> []" "ed_verify ed (ed_public ed k) ?s (canonical_bytes doc)" using assms(1) by (auto simp: ed_correct_def)
  have v: "verify_document ed (ed_public ed k) d = ed_verify ed (ed_public ed k) ?s (canonical_bytes d)"
    if "dget d SIGNATURE_FIELD = PStr (b64_encode ?s)" for d
    using that b64_nonempty[OF ne(1)] by (simp add: verify_document_def b64_roundtrip)
  show "verify_document ed (ed_public ed k) (sign_document ed k doc)"
    using v[of "sign_document ed k doc"] ne(2) by (simp add: sign_document_def)
  have w: "verify_document ed (ed_public ed k) doc' = ed_verify ed (ed_public ed k) ?s (canonical_bytes doc')"
    by (rule v) (use assms(5) in \<open>simp add: sign_document_def\<close>)
  show "verify_document ed (ed_public ed k) doc' = (sort_keys (PDict (unsigned doc')) = sort_keys (PDict (unsigned doc)))"
  proof
    assume "verify_document ed (ed_public ed k) doc'"
    then have "canonical_bytes doc' = canonical_bytes doc" using w assms(2) by (auto simp: ed_binding_def)
    then show "sort_keys (PDict (unsigned doc')) = sort_keys (PDict (unsigned doc))"
      by (rule canonical_inj[OF assms(4,3)])
  next
    assume "sort_keys (PDict (unsigned doc')) = sort_keys (PDict (unsigned doc))"
    then show "verify_document ed (ed_public ed k) doc'"
      using w ne(2) by (simp add: canonical_bytes_def canonical_json_def)
  qed
qed

text \<open>C30: a signed document verifies, and so does every rearrangement of its fields; whoever changes a field,
  at any depth, and keeps the signature, is rejected.\<close>

theorem signature_binds_document:
  assumes "ed_correct ed k" "ed_binding ed k" "plain (PDict doc)" "plain (PDict doc')"
    "dget doc' SIGNATURE_FIELD = dget (sign_document ed k doc) SIGNATURE_FIELD"
  shows "verify_document ed (ed_public ed k) (sign_document ed k doc) \<and>
    verify_document ed (ed_public ed k) doc' = (sort_keys (PDict (unsigned doc')) = sort_keys (PDict (unsigned doc)))"
  using signature_binds[OF assms] by blast

definition demo_ed :: "(unit, unit) ed25519" where
  "demo_ed = \<lparr>ed_sign = (\<lambda>k m. CHR ''s'' # m), ed_verify = (\<lambda>k s m. s = CHR ''s'' # m), ed_public = (\<lambda>k. k)\<rparr>"

definition demo_doc :: dict where
  "demo_doc = [(''task_id'', PStr ''t''), (''ok'', PBool True)]"

definition demo_forged :: dict where
  "demo_forged = dict_set (sign_document demo_ed () demo_doc) ''ok'' (PBool False)"

theorem signature_binds_document_witness:
  "verify_document demo_ed () (sign_document demo_ed () demo_doc) \<and> \<not> verify_document demo_ed () demo_forged"
proof -
  have c: "ed_correct demo_ed ()" "ed_binding demo_ed ()" by (simp_all add: ed_correct_def ed_binding_def demo_ed_def)
  have p: "plain (PDict demo_doc)" "plain (PDict demo_forged)" by code_simp+
  have s: "dget demo_forged SIGNATURE_FIELD = dget (sign_document demo_ed () demo_doc) SIGNATURE_FIELD" by code_simp
  have ne: "sort_keys (PDict (unsigned demo_forged)) \<noteq> sort_keys (PDict (unsigned demo_doc))" by code_simp
  have pub: "ed_public demo_ed () = ()" by simp
  show ?thesis using signature_binds_document[OF c p s] ne unfolding pub by blast
qed

text \<open>The signer never withholds a result: switched off, without the package or without a key it passes the
  document on unchanged, and with a key it adds a signature that verifies and leaves every other field alone; the
  one exception is a key file that does not hold a key, on which it raises.\<close>

theorem signer_degrades:
  assumes "sg_key sg = None"
  shows "case fst (signer_sign ed doc ctx sg) of
      Inl e \<Rightarrow> sg_enabled sg \<and> sg_crypto sg \<and> sg_file sg = Corrupt
    | Inr d \<Rightarrow> (d = doc \<and> (\<not> sg_enabled sg \<or> \<not> sg_crypto sg \<or> sg_file sg = NoFile)) \<or>
        (\<exists>k. sg_enabled sg \<and> sg_crypto sg \<and> sg_file sg = KeyFile k \<and> d = sign_document ed k doc \<and> unsigned d = unsigned doc)"
proof (cases "sg_file sg")
  case (KeyFile k)
  then show ?thesis using assms by (simp add: signer_sign_def load_key_def sign_document_def)
qed (use assms in \<open>simp_all add: signer_sign_def load_key_def\<close>)

theorem signer_degrades_witness:
  "fst (signer_sign demo_ed demo_doc [] \<lparr>sg_enabled = True, sg_file = NoFile, sg_crypto = True, sg_key = None, sg_warned = False, sg_audited = []\<rparr>) = Inr demo_doc"
  using signer_degrades[where sg = "\<lparr>sg_enabled = True, sg_file = NoFile, sg_crypto = True, sg_key = None, sg_warned = False, sg_audited = []\<rparr>" and ed = demo_ed and doc = demo_doc and ctx = "[]"]
  by (simp add: signer_sign_def)

text \<open>The exit code: 0 only when every file was read and verified.\<close>

lemma verify_fold:
  "fold (verify_file ed k) files (a, b) =
    (a + length (filter (\<lambda>f. case f of Some (PDict d) \<Rightarrow> \<not> verify_document ed k d | _ \<Rightarrow> False) files),
     b + length (filter (\<lambda>f. case f of Some (PDict d) \<Rightarrow> False | _ \<Rightarrow> True) files))"
proof (induction files arbitrary: a b)
  case (Cons f files)
  then show ?case by (cases f; cases "the f") (auto simp: verify_file_def)
qed simp

text \<open>The verifier exits with 0 exactly when it had a key and every file holds a document that verifies.\<close>

theorem verify_main_zero:
  "(verify_main ed key files = 0) =
     (\<exists>k. key = Some k \<and> list_all (\<lambda>f. \<exists>d. f = Some (PDict d) \<and> verify_document ed k d) files)"
proof (cases key)
  case (Some k)
  have "(verify_main ed key files = 0) =
     (filter (\<lambda>f. case f of Some (PDict d) \<Rightarrow> \<not> verify_document ed k d | _ \<Rightarrow> False) files = [] \<and>
      filter (\<lambda>f. case f of Some (PDict d) \<Rightarrow> False | _ \<Rightarrow> True) files = [])"
    using Some by (simp add: verify_main_def verify_fold)
  also have "\<dots> = list_all (\<lambda>f. \<exists>d. f = Some (PDict d) \<and> verify_document ed k d) files"
    by (auto simp: filter_empty_conv list_all_iff split: option.splits pyval.splits) (metis option.exhaust pyval.exhaust)+
  finally show ?thesis using Some by simp
qed (simp add: verify_main_def)

end
