(* ===== verification/Textlines.thy ===== *)
theory Textlines
  imports Prelude
begin

text \<open>\<open>str.splitlines\<close> and the universal newlines of \<open>Path.read_text\<close>, on code points up to U+00FF.\<close>

definition line_end :: "char \<Rightarrow> bool" where
  "line_end c = (code c \<in> {10, 11, 12, 13, 28, 29, 30, 133})"

text \<open>\<open>keep\<close>: whether the lines keep their ends.\<close>

fun splitlines_acc :: "bool \<Rightarrow> string \<Rightarrow> string \<Rightarrow> string list" where
  "splitlines_acc keep cur [] = (if cur = [] then [] else [rev cur])"
| "splitlines_acc keep cur [c] = (if line_end c then [rev cur @ (if keep then [c] else [])] else [rev cur @ [c]])"
| "splitlines_acc keep cur (c # d # cs) =
     (if code c = 13 \<and> code d = 10 then (rev cur @ (if keep then [c, d] else [])) # splitlines_acc keep [] cs
      else if line_end c then (rev cur @ (if keep then [c] else [])) # splitlines_acc keep [] (d # cs)
      else splitlines_acc keep (c # cur) (d # cs))"

definition splitlines :: "bool \<Rightarrow> string \<Rightarrow> string list" where
  "splitlines keep s = splitlines_acc keep [] s"

lemma splitlines_acc_keep: "concat (splitlines_acc True cur s) = rev cur @ s"
  by (induction True cur s rule: splitlines_acc.induct) auto

text \<open>With the ends kept, the lines are the text.\<close>

lemma splitlines_concat [simp]: "concat (splitlines True s) = s"
  by (simp add: splitlines_def splitlines_acc_keep)

fun universal_newlines :: "string \<Rightarrow> string" where
  "universal_newlines [] = []"
| "universal_newlines [c] = [if code c = 13 then CHR 0x0A else c]"
| "universal_newlines (c # d # cs) =
     (if code c = 13 \<and> code d = 10 then CHR 0x0A # universal_newlines cs
      else (if code c = 13 then CHR 0x0A else c) # universal_newlines (d # cs))"

lemma code_cr: "code c = 13 \<longleftrightarrow> c = CHR 0x0D"
proof
  assume "code c = 13"
  then have "char_of (of_char c :: nat) = (char_of (13::nat) :: char)" by (simp add: code_def)
  moreover have "char_of (13::nat) = CHR 0x0D" by code_simp
  ultimately show "c = CHR 0x0D" by simp
qed (simp add: code_def)

lemma universal_newlines_id: "CHR 0x0D \<notin> set s \<Longrightarrow> universal_newlines s = s"
  by (induction s rule: universal_newlines.induct) (auto simp: code_cr)

lemma universal_newlines_no_cr: "CHR 0x0D \<notin> set (universal_newlines s)"
  by (induction s rule: universal_newlines.induct) (auto simp: code_cr)

lemma universal_newlines_idem [simp]: "universal_newlines (universal_newlines s) = universal_newlines s"
  by (rule universal_newlines_id[OF universal_newlines_no_cr])

end
