(* ===== verification/Files.thy ===== *)
theory Files
  imports Host Signing Textlines
begin

text \<open>
  The file verbs of \<open>agent/executor_v2.py\<close>: \<open>patch_file\<close>, \<open>read_file_chunked\<close>, \<open>grep\<close> and \<open>glob\<close> over a tree of
  directories and files. A path is a list of names; links, permissions and \<open>..\<close> are outside the model, and
  reading or writing an existing file does not fail. Regular expressions, globbing, decoding and the text of a
  diff are the environment's.
\<close>

subsection \<open>Paths\<close>

definition path_parts :: "string \<Rightarrow> string list" where
  "path_parts p = filter (\<lambda>x. x \<noteq> [] \<and> x \<noteq> ''.'') (split_on (CHR ''/'') p)"

text \<open>\<open>str(Path(p))\<close>.\<close>

definition path_text :: "string \<Rightarrow> string" where
  "path_text p = (if starts_with ''/'' p then ''/'' @ join ''/'' (path_parts p)
     else if path_parts p = [] then ''.'' else join ''/'' (path_parts p))"

definition abs_parts :: "'b env \<Rightarrow> string \<Rightarrow> string list" where
  "abs_parts env p = (if starts_with ''/'' p then [] else en_cwd env) @ path_parts p"

text \<open>\<open>Path(payload.get("path", default)).expanduser()\<close>.\<close>

definition path_arg :: "'b env \<Rightarrow> task \<Rightarrow> string \<Rightarrow> exn + string" where
  "path_arg env t dflt = and_then (str_item (dget_or (t_payload t) ''path'' (PStr dflt))) (\<lambda>p. Inr (en_expanduser env p))"

fun look :: "tree \<Rightarrow> string list \<Rightarrow> tree option" where
  "look u [] = Some u"
| "look (TFile m b) (x # xs) = None"
| "look (TDir m es) (x # xs) = (case map_of es x of None \<Rightarrow> None | Some u \<Rightarrow> look u xs)"

text \<open>Putting a file at a path whose directory exists.\<close>

fun put :: "string list \<Rightarrow> tree \<Rightarrow> tree \<Rightarrow> tree" where
  "put [] new u = new"
| "put (x # xs) new (TFile m b) = TFile m b"
| "put [x] new (TDir m es) = TDir m (dict_set es x new)"
| "put (x # y # ys) new (TDir m es) = (case map_of es x of None \<Rightarrow> TDir m es
     | Some u \<Rightarrow> TDir m (dict_set es x (put (y # ys) new u)))"

definition file_bytes :: "'b env \<Rightarrow> 'b host \<Rightarrow> string \<Rightarrow> string option" where
  "file_bytes env s p = (case look (hs_fs s) (abs_parts env p) of Some (TFile m b) \<Rightarrow> Some b | _ \<Rightarrow> None)"

subsection \<open>patch\_file\<close>

fun replace_first :: "'a list \<Rightarrow> 'a list \<Rightarrow> 'a list \<Rightarrow> 'a list" where
  "replace_first old new [] = []"
| "replace_first old new (c # cs) =
     (if old \<noteq> [] \<and> prefix old (c # cs) then new @ drop (length old) (c # cs) else c # replace_first old new cs)"

datatype edit_fail = EditError string dict | EditRaise exn

definition edit_label :: "nat \<Rightarrow> string" where
  "edit_label i = ''edit['' @ nat_str i @ '']: ''"

text \<open>One edit on the text: the new text and the number of replacements.\<close>

definition apply_edit :: "nat \<Rightarrow> pyval \<Rightarrow> string \<Rightarrow> edit_fail + (string \<times> nat)" where
  "apply_edit i e content = (case e of
     PDict d \<Rightarrow>
       (let old = dget_or d ''old_string'' (PStr []); new = dget_or d ''new_string'' (PStr []);
            all = truthy (dget_or d ''replace_all'' (PBool False)) in
        if \<not> truthy old then Inl (EditError (edit_label i @ ''old_string is empty'') [])
        else if old = new then Inl (EditError (edit_label i @ ''old_string == new_string (no-op)'') [])
        else (case old of
          PStr x \<Rightarrow>
            (let n = count_occ x content in
             if n = 0 then Inl (EditError (edit_label i @ ''old_string not found'')
                 [(''edit_index'', PInt (int i)), (''occurrences'', PInt 0)])
             else if n > 1 \<and> \<not> all then Inl (EditError (edit_label i @ ''old_string is not unique ('' @ nat_str n @
                 '' occurrences); pass replace_all=true to replace them all'')
                 [(''edit_index'', PInt (int i)), (''occurrences'', PInt (int n))])
             else (case new of
                 PStr y \<Rightarrow> Inr (if all then (replace_occ x y content, n) else (replace_first x y content, 1))
               | _ \<Rightarrow> Inl (EditRaise (''TypeError'', ''replace() argument 2 must be str, not '' @ type_name new))))
        | _ \<Rightarrow> Inl (EditRaise (''TypeError'', ''must be str, not '' @ type_name old))))
   | _ \<Rightarrow> Inl (EditRaise (''AttributeError'', quoted (type_name e) @ '' object has no attribute '' @ quoted ''get'')))"

fun apply_edits :: "nat \<Rightarrow> pyval list \<Rightarrow> string \<Rightarrow> nat \<Rightarrow> edit_fail + (string \<times> nat)" where
  "apply_edits i [] content n = Inr (content, n)"
| "apply_edits i (e # es) content n = (case apply_edit i e content of
       Inl f \<Rightarrow> Inl f | Inr (content', k) \<Rightarrow> apply_edits (Suc i) es content' (n + k))"

text \<open>The \<open>edits\<close> of the payload, or the one edit its own fields describe; a value that is no list is refused.\<close>

definition edits_of :: "dict \<Rightarrow> pyval list option" where
  "edits_of p = (let e = dget p ''edits'' in
     if \<not> truthy e then Some [PDict [(''old_string'', dget_or p ''old_string'' (PStr [])),
         (''new_string'', dget_or p ''new_string'' (PStr [])),
         (''replace_all'', PBool (truthy (dget_or p ''replace_all'' (PBool False))))]]
     else (case e of PList es \<Rightarrow> Some es | _ \<Rightarrow> None))"

definition patch_meta :: "'b env \<Rightarrow> string \<Rightarrow> nat \<Rightarrow> nat \<Rightarrow> string \<Rightarrow> string \<Rightarrow> string \<Rightarrow> pyval \<Rightarrow> bool \<Rightarrow> dict" where
  "patch_meta env path applied n diff original content backup dry =
     [(''path'', PStr (path_text path)), (''applied'', PInt (int applied)), (''replacements'', PInt (int n)),
      (''diff'', PStr (take 200000 diff)), (''bytes_before'', PInt (int (length (utf8 original)))),
      (''bytes_after'', PInt (int (length (utf8 content)))), (''backup_path'', backup), (''dry_run'', PBool dry)]"

definition patch_ok :: "task \<Rightarrow> string \<Rightarrow> string \<Rightarrow> dict \<Rightarrow> result" where
  "patch_ok t dec diff meta = (mk_result (t_id t) True dec)\<lparr>r_stdout := take 200000 diff, r_metadata := meta\<rparr>"

definition write_file :: "string list \<Rightarrow> string \<Rightarrow> rat \<Rightarrow> string \<Rightarrow> 'b host \<Rightarrow> 'b host" where
  "write_file parts shown m bytes s = note_ev (EvFile shown bytes) (s\<lparr>hs_fs := put parts (TFile m bytes) (hs_fs s)\<rparr>)"

definition backup_name :: "'b env \<Rightarrow> rat \<Rightarrow> string \<Rightarrow> string" where
  "backup_name env now name = name @ ''.bak-'' @ en_stamp env now"

definition exec_patch_file :: "'b env \<Rightarrow> task \<Rightarrow> string \<Rightarrow> 'b host \<Rightarrow> (exn + result) \<times> 'b host" where
  "exec_patch_file env t dec s =
     (let p = t_payload t in
      case path_arg env t [] of Inl e \<Rightarrow> (Inl e, s) | Inr path \<Rightarrow>
      (case look (hs_fs s) (abs_parts env path) of
        Some (TFile m bytes) \<Rightarrow>
          (case edits_of p of None \<Rightarrow> (Inr (fail t dec ''edits must be a list''), s) | Some edits \<Rightarrow>
          (case en_decode env ''utf-8'' bytes of Inl e \<Rightarrow> (Inl e, s) | Inr text \<Rightarrow>
          (let original = universal_newlines text in
           case apply_edits 0 edits original 0 of
             Inl (EditRaise e) \<Rightarrow> (Inl e, s)
           | Inl (EditError msg meta) \<Rightarrow> (Inr ((fail t dec msg)\<lparr>r_metadata := meta\<rparr>), s)
           | Inr (content, n) \<Rightarrow>
             (let parts = abs_parts env path; name = last parts;
                  diff = concat (en_diff env name (splitlines True original) (splitlines True content));
                  meta = (\<lambda>b dry. patch_meta env path (length edits) n diff original content b dry) in
              if truthy (dget p ''dry_run'') then (Inr (patch_ok t dec diff (meta PNone True)), s)
              else if truthy (dget_or p ''backup'' (PBool True)) then
                (let bparts = butlast parts @ [backup_name env (hs_clock s) name];
                     bshown = join ''/'' (butlast (path_parts path) @ [backup_name env (hs_clock s) name]);
                     shown = (if starts_with ''/'' path then ''/'' @ bshown else bshown) in
                 (Inr (patch_ok t dec diff (meta (PStr shown) False)),
                  write_file parts (path_text path) (hs_clock s) (utf8 content) (write_file bparts shown m bytes s)))
              else (Inr (patch_ok t dec diff (meta PNone False)),
                    write_file parts (path_text path) (hs_clock s) (utf8 content) s)))))
      | _ \<Rightarrow> (Inr (fail t dec (''file not found: '' @ path_text path)), s)))"

text \<open>The gate shared by the file verbs: the command is the verb and the path, which is also the path checked.\<close>

definition gate_path :: "'b env \<Rightarrow> task \<Rightarrow> string \<Rightarrow> string \<Rightarrow> (task \<Rightarrow> string \<Rightarrow> 'b host \<Rightarrow> (exn + result) \<times> 'b host) \<Rightarrow>
    'b host \<Rightarrow> (exn + result) \<times> 'b host" where
  "gate_path env t verb dflt exec s =
     (case path_arg env t dflt of Inl e \<Rightarrow> (Inl e, s) | Inr path \<Rightarrow>
     (case gate env t (verb @ '' '' @ path_text path) [path_text path] s of
        (Some early, s1) \<Rightarrow> (Inr early, s1)
      | (None, s1) \<Rightarrow> exec t ''auto'' s1))"

definition gate_patch_file :: "'b env \<Rightarrow> task \<Rightarrow> 'b host \<Rightarrow> (exn + result) \<times> 'b host" where
  "gate_patch_file env t s = gate_path env t ''patch'' [] (exec_patch_file env) s"

subsection \<open>read\_file\_chunked\<close>

text \<open>The bytes read and the next offset, \<open>None\<close> at the end of the file.\<close>

definition read_chunk :: "string \<Rightarrow> nat \<Rightarrow> nat \<Rightarrow> string \<times> nat option" where
  "read_chunk bytes offset limit = (let raw = take limit (drop offset bytes) in
     (raw, if offset + length raw \<ge> length bytes then None else Some (offset + length raw)))"

definition exec_read_chunked :: "'b env \<Rightarrow> task \<Rightarrow> string \<Rightarrow> 'b host \<Rightarrow> (exn + result) \<times> 'b host" where
  "exec_read_chunked env t dec s =
     (let p = t_payload t in
      case path_arg env t [] of Inl e \<Rightarrow> (Inl e, s) | Inr path \<Rightarrow>
      (case file_bytes env s path of
        None \<Rightarrow> (Inr (fail t dec (''file not found: '' @ path_text path)), s)
      | Some bytes \<Rightarrow>
        (case to_int (dget_or p ''offset'' (PInt 0)) of Inl e \<Rightarrow> (Inl e, s) | Inr off \<Rightarrow>
        (case to_int (dget_or p ''limit_bytes'' (PInt 65536)) of Inl e \<Rightarrow> (Inl e, s) | Inr lmt \<Rightarrow>
        (let offset = nat (max 0 off); (raw, next) = read_chunk bytes offset (nat (max 1 lmt));
             enc = dget_or p ''encoding'' (PStr ''utf-8'') in
         case str_item enc of Inl _ \<Rightarrow> (Inl (''TypeError'', ''decode() argument '' @ quoted ''encoding'' @ '' must be str, not '' @ type_name enc), s)
         | Inr encoding \<Rightarrow>
         (case en_decode env encoding raw of Inl e \<Rightarrow> (Inl e, s) | Inr text \<Rightarrow>
           (Inr ((mk_result (t_id t) True dec)\<lparr>r_stdout := text, r_metadata :=
              [(''path'', PStr (path_text path)), (''offset'', PInt (int offset)), (''bytes_read'', PInt (int (length raw))),
               (''total_size'', PInt (int (length bytes))),
               (''next_offset'', case next of None \<Rightarrow> PNone | Some n \<Rightarrow> PInt (int n)), (''eof'', PBool (next = None)),
               (''content'', PStr text), (''encoding'', PStr encoding)]\<rparr>), s)))))))"

definition gate_read_chunked :: "'b env \<Rightarrow> task \<Rightarrow> 'b host \<Rightarrow> (exn + result) \<times> 'b host" where
  "gate_read_chunked env t s = gate_path env t ''read_chunk'' [] (exec_read_chunked env) s"

subsection \<open>What patching changes\<close>

lemma look_put_new: "look u p = Some (TDir m es) \<Longrightarrow> look (put (p @ [x]) new u) (p @ [x]) = Some new"
proof (induction p arbitrary: u)
  case Nil
  then show ?case by (auto simp: update_conv)
next
  case (Cons y p)
  then obtain k fs v where u: "u = TDir k fs" "map_of fs y = Some v" "look v p = Some (TDir m es)"
    by (cases u) (auto split: option.splits)
  obtain z zs where z: "p @ [x] = z # zs" by (cases p) auto
  show ?case using Cons.IH[OF u(3)] u(1,2) by (simp add: z update_conv)
qed

lemma look_put_other: "\<not> prefix p q \<Longrightarrow> \<not> prefix q p \<Longrightarrow> look (put p new u) q = look u q"
proof (induction p new u arbitrary: q rule: put.induct)
  case (3 x new m es)
  then show ?case by (cases q) (auto simp: update_conv)
next
  case (4 x y ys new m es)
  obtain z zs where q: "q = z # zs" using 4(3) by (cases q) auto
  show ?case
  proof (cases "map_of es x")
    case None
    then show ?thesis by simp
  next
    case (Some u)
    show ?thesis
    proof (cases "z = x")
      case True
      then show ?thesis using 4 Some q by (simp add: update_conv)
    next
      case False
      then show ?thesis using Some q by (simp add: update_conv)
    qed
  qed
qed auto

lemma look_parent: "look u (p @ [x]) = Some v \<Longrightarrow> \<exists>m es. look u p = Some (TDir m es)"
proof (induction p arbitrary: u)
  case Nil
  then show ?case by (cases u) auto
next
  case (Cons y p)
  then show ?case by (cases u) (auto split: option.splits)
qed

lemma look_put_dir: "look u p = Some (TDir m es) \<Longrightarrow> \<exists>m es. look (put (p @ [x]) new u) p = Some (TDir m es)"
  using look_parent[OF look_put_new] by blast

text \<open>A text that occurs once is replaced where it stands.\<close>

lemma replace_first_splits:
  assumes "x \<noteq> []" "count_occ x c \<noteq> 0"
  shows "\<exists>a b. c = a @ x @ b \<and> replace_first x y c = a @ y @ b"
  using assms
proof (induction c)
  case (Cons h c)
  show ?case
  proof (cases "prefix x (h # c)")
    case True
    then obtain zs where z: "h # c = x @ zs" by (auto simp: prefix_def)
    have "replace_first x y (h # c) = y @ drop (length x) (h # c)" using True Cons.prems(1) by simp
    then have "replace_first x y (h # c) = y @ zs" unfolding z by simp
    then show ?thesis using z by (metis append_Nil)
  next
    case False
    then obtain a b where "c = a @ x @ b" "replace_first x y c = a @ y @ b" using Cons by auto
    then show ?thesis using False by (intro exI[of _ "h # a"] exI[of _ b]) simp
  qed
qed simp

lemma write_file_fs [simp]: "hs_fs (write_file p n m b s) = put p (TFile m b) (hs_fs s)"
  by (simp add: write_file_def note_ev_def)

lemma patch_cases:
  "(\<exists>out. exec_patch_file env t dec s = (out, s)) \<or>
   (\<exists>path m bytes edits text content n r. path_arg env t [] = Inr path \<and> look (hs_fs s) (abs_parts env path) = Some (TFile m bytes) \<and>
      edits_of (t_payload t) = Some edits \<and> en_decode env ''utf-8'' bytes = Inr text \<and>
      apply_edits 0 edits (universal_newlines text) 0 = Inr (content, n) \<and> fst (exec_patch_file env t dec s) = Inr r \<and> r_ok r \<and>
      (let parts = abs_parts env path; bparts = butlast parts @ [backup_name env (hs_clock s) (last parts)];
           new = TFile (hs_clock s) (utf8 content) in
       hs_fs (snd (exec_patch_file env t dec s)) = put parts new
         (if truthy (dget_or (t_payload t) ''backup'' (PBool True)) then put bparts (TFile m bytes) (hs_fs s) else hs_fs s)))"
  unfolding exec_patch_file_def Let_def
  by (auto split: sum.splits option.splits tree.splits edit_fail.splits prod.splits if_splits simp: patch_ok_def)

lemma patch_effect:
  assumes "hs_fs s = TDir m0 es0"
  shows "(\<exists>out. exec_patch_file env t dec s = (out, s)) \<or>
   (\<exists>path m bytes edits text content n r. path_arg env t [] = Inr path \<and> look (hs_fs s) (abs_parts env path) = Some (TFile m bytes) \<and>
      edits_of (t_payload t) = Some edits \<and> en_decode env ''utf-8'' bytes = Inr text \<and>
      apply_edits 0 edits (universal_newlines text) 0 = Inr (content, n) \<and> fst (exec_patch_file env t dec s) = Inr r \<and> r_ok r \<and>
      (let fs' = hs_fs (snd (exec_patch_file env t dec s)); parts = abs_parts env path;
           bparts = butlast parts @ [backup_name env (hs_clock s) (last parts)] in
       look fs' parts = Some (TFile (hs_clock s) (utf8 content)) \<and>
       (truthy (dget_or (t_payload t) ''backup'' (PBool True)) \<longrightarrow> look fs' bparts = Some (TFile m bytes)) \<and>
       (\<forall>q. \<not> prefix parts q \<and> \<not> prefix q parts \<and> \<not> prefix bparts q \<and> \<not> prefix q bparts \<longrightarrow> look fs' q = look (hs_fs s) q)))"
  using patch_cases[of env t dec s]
proof (elim disjE exE conjE)
  fix out assume "exec_patch_file env t dec s = (out, s)"
  then show ?thesis by blast
next
  fix path m bytes edits tx content n r
  assume a: "path_arg env t [] = Inr path" "look (hs_fs s) (abs_parts env path) = Some (TFile m bytes)"
    "edits_of (t_payload t) = Some edits" "en_decode env ''utf-8'' bytes = Inr tx"
    "apply_edits 0 edits (universal_newlines tx) 0 = Inr (content, n)" "fst (exec_patch_file env t dec s) = Inr r" "r_ok r"
    and f: "let parts = abs_parts env path; bparts = butlast parts @ [backup_name env (hs_clock s) (last parts)];
           new = TFile (hs_clock s) (utf8 content) in
       hs_fs (snd (exec_patch_file env t dec s)) = put parts new
         (if truthy (dget_or (t_payload t) ''backup'' (PBool True)) then put bparts (TFile m bytes) (hs_fs s) else hs_fs s)"
  define fs where "fs = hs_fs (snd (exec_patch_file env t dec s))"
  have "abs_parts env path \<noteq> []" using a(2) assms by auto
  then obtain d x where p: "abs_parts env path = d @ [x]" by (metis append_butlast_last_id)
  define b where "b = backup_name env (hs_clock s) x"
  have bx: "b \<noteq> x" by (simp add: b_def backup_name_def)
  then have pre: "\<not> prefix (d @ [b]) (d @ [x])" "\<not> prefix (d @ [x]) (d @ [b])" by auto
  obtain k es where dir: "look (hs_fs s) d = Some (TDir k es)" using look_parent a(2) p by metis
  define bk where "bk = truthy (dget_or (t_payload t) ''backup'' (PBool True))"
  define fs1 where "fs1 = (if bk then put (d @ [b]) (TFile m bytes) (hs_fs s) else hs_fs s)"
  have fs: "fs = put (d @ [x]) (TFile (hs_clock s) (utf8 content)) fs1"
    using f by (simp add: fs_def p Let_def fs1_def bk_def b_def)
  have "\<exists>k' es'. look fs1 d = Some (TDir k' es')"
    using dir look_put_dir[OF dir, of b "TFile m bytes"] by (cases bk) (simp_all add: fs1_def)
  then obtain k' es' where dir1: "look fs1 d = Some (TDir k' es')" by blast
  have 1: "look fs (d @ [x]) = Some (TFile (hs_clock s) (utf8 content))" unfolding fs by (rule look_put_new[OF dir1])
  have 2: "bk \<longrightarrow> look fs (d @ [b]) = Some (TFile m bytes)"
    unfolding fs look_put_other[OF pre(2,1)] using look_put_new[OF dir] by (simp add: fs1_def)
  have 3: "look fs q = look (hs_fs s) q" if "\<not> prefix (d @ [x]) q" "\<not> prefix q (d @ [x])" "\<not> prefix (d @ [b]) q" "\<not> prefix q (d @ [b])" for q
    unfolding fs look_put_other[OF that(1,2)] using look_put_other[OF that(3,4)] by (simp add: fs1_def)
  have "let parts = abs_parts env path; bparts = butlast parts @ [backup_name env (hs_clock s) (last parts)] in
       look fs parts = Some (TFile (hs_clock s) (utf8 content)) \<and> (bk \<longrightarrow> look fs bparts = Some (TFile m bytes)) \<and>
       (\<forall>q. \<not> prefix parts q \<and> \<not> prefix q parts \<and> \<not> prefix bparts q \<and> \<not> prefix q bparts \<longrightarrow> look fs q = look (hs_fs s) q)"
    unfolding Let_def p butlast_snoc last_snoc b_def[symmetric] using 1 2 3 by blast
  then show ?thesis using a unfolding fs_def bk_def Let_def by blast
qed


definition demo_patch :: "string \<Rightarrow> task" where
  "demo_patch old = mk_task ''p'' ''patch_file'' [(''path'', PStr ''a.txt''), (''old_string'', PStr old), (''new_string'', PStr ''2'')]"


text \<open>Reading a file of CRLF lines and writing it back turns every line end into LF, also those no edit touches.\<close>

lemma patch_rewrites_line_ends:
  assumes "apply_edits 0 edits (universal_newlines text) 0 = Inr (content, n)" "edits = []"
  shows "content = universal_newlines text \<and> CHR 0x0D \<notin> set content"
  using assms universal_newlines_no_cr by auto

subsection \<open>Reading a file page by page\<close>

text \<open>A client that follows \<open>next_offset\<close>.\<close>

function read_pages :: "string \<Rightarrow> nat \<Rightarrow> nat \<Rightarrow> string list" where
  "read_pages bytes limit offset = (case read_chunk bytes offset (Suc limit) of
       (raw, None) \<Rightarrow> [raw] | (raw, Some n) \<Rightarrow> raw # read_pages bytes limit n)"
  by pat_completeness auto
termination
  by (relation "measure (\<lambda>(b, l, off). length b - off)") (auto simp: read_chunk_def Let_def split: if_splits)

declare read_pages.simps [simp del]

text \<open>Following \<open>next_offset\<close> from any offset reads the rest of the file exactly once, in pages of the limit but
  for the last.\<close>

theorem read_pages_complete:
  "concat (read_pages bytes limit offset) = drop offset bytes \<and>
   list_all (\<lambda>p. length p = Suc limit) (butlast (read_pages bytes limit offset)) \<and> length (last (read_pages bytes limit offset)) \<le> Suc limit \<and>
   read_pages bytes limit offset \<noteq> []"
proof (induction bytes limit offset rule: read_pages.induct)
  case (1 bytes limit offset)
  show ?case
  proof (cases "snd (read_chunk bytes offset (Suc limit))")
    case None
    then show ?thesis by (subst (1 2 3 4) read_pages.simps) (auto simp: read_chunk_def Let_def split: if_splits)
  next
    case (Some n)
    then have n: "read_chunk bytes offset (Suc limit) = (take (Suc limit) (drop offset bytes), Some n)"
      "n = offset + Suc limit" "Suc limit \<le> length (drop offset bytes)"
      by (auto simp: read_chunk_def Let_def split: if_splits)
    have e: "read_pages bytes limit offset = take (Suc limit) (drop offset bytes) # read_pages bytes limit n"
      by (subst read_pages.simps) (simp add: n(1))
    have "take (Suc limit) (drop offset bytes) @ drop n bytes = drop offset bytes"
      unfolding n(2) by (metis append_take_drop_id drop_drop add.commute)
    then show ?thesis using 1[OF n(1)[symmetric] refl] n(3) unfolding e by simp
  qed
qed

end
