(* ===== verification/Watches.thy ===== *)
theory Watches
  imports Files Sessions
begin

text \<open>
  The directory watches of \<open>agent/executor_v2.py\<close>: the bounded event buffer with its overflow counter, the
  polling backend that compares two snapshots of modification times, and the three kinds that start, drain and
  stop a watch. Backend threads appear as the step \<open>watch_event\<close>.
\<close>

definition base_name :: "string \<Rightarrow> string" where
  "base_name p = rev (takeWhile (\<lambda>c. c \<noteq> CHR ''/'') (rev p))"

definition watch_matches :: "watch \<Rightarrow> string \<Rightarrow> bool" where
  "watch_matches w path = list_ex (fnmatchcase (base_name path)) (fw_patterns w)"

definition watch_evt :: "string \<Rightarrow> string \<Rightarrow> string \<Rightarrow> string option \<Rightarrow> dict" where
  "watch_evt ts ty path dst = [(''ts'', PStr ts), (''type'', PStr ty), (''path'', PStr path)]
     @ (case dst of None \<Rightarrow> [] | Some d \<Rightarrow> [(''dest_path'', PStr d)])"

text \<open>\<open>deque(maxlen=m).append\<close>: the oldest entry goes when the buffer is full.\<close>

definition push_bounded :: "nat \<Rightarrow> 'a list \<Rightarrow> 'a \<Rightarrow> 'a list" where
  "push_bounded m xs x = drop (Suc (length xs) - m) (xs @ [x])"

definition record_event :: "string \<Rightarrow> string \<Rightarrow> string \<Rightarrow> string option \<Rightarrow> watch \<Rightarrow> watch" where
  "record_event ts ty path dst w = (if \<not> watch_matches w path then w
     else w\<lparr>fw_dropped := (if length (fw_events w) = fw_max w then Suc (fw_dropped w) else fw_dropped w),
            fw_events := push_bounded (fw_max w) (fw_events w) (watch_evt ts ty path dst)\<rparr>)"

definition drain_watch :: "int \<Rightarrow> watch \<Rightarrow> (dict list \<times> nat) \<times> watch" where
  "drain_watch n w = (let k = nat (min n (int (length (fw_events w)))) in
     ((take k (fw_events w), fw_dropped w), w\<lparr>fw_events := drop k (fw_events w), fw_dropped := 0\<rparr>))"

text \<open>One round of the polling backend: created and modified files first, then the deleted ones.\<close>

definition poll_changes :: "(string \<times> rat) list \<Rightarrow> (string \<times> rat) list \<Rightarrow> (string \<times> string) list" where
  "poll_changes prev cur =
     List.map_filter (\<lambda>(p, m). case map_of prev p of None \<Rightarrow> Some (''created'', p)
        | Some k \<Rightarrow> if k \<noteq> m then Some (''modified'', p) else None) cur
     @ List.map_filter (\<lambda>(p, m). if map_of cur p = None then Some (''deleted'', p) else None) prev"

definition poll_round :: "string \<Rightarrow> (string \<times> rat) list \<Rightarrow> (string \<times> rat) list \<Rightarrow> watch \<Rightarrow> watch" where
  "poll_round ts prev cur w = fold (\<lambda>(ty, p). record_event ts ty p None) (poll_changes prev cur) w"

subsection \<open>The task kinds\<close>

definition set_watch :: "string \<Rightarrow> watch \<Rightarrow> 'b host \<Rightarrow> 'b host" where
  "set_watch wid w s = s\<lparr>hs_watches := dict_set (hs_watches s) wid w\<rparr>"

definition patterns_of :: "dict \<Rightarrow> exn + string list" where
  "patterns_of p = paths_of (py_or (dget p ''patterns'') (PList [PStr ''*'']))"

definition watch_backend :: "'b env \<Rightarrow> bool \<Rightarrow> string" where
  "watch_backend env force = (if force \<or> \<not> en_watchdog env then ''polling'' else ''watchdog'')"

definition exec_watch_start :: "'b env \<Rightarrow> task \<Rightarrow> string \<Rightarrow> 'b host \<Rightarrow> (exn + result) \<times> 'b host" where
  "exec_watch_start env t dec s =
     (let p = t_payload t in
      case path_arg env t ''.'' of Inl e \<Rightarrow> (Inl e, s) | Inr path \<Rightarrow>
      (case look (hs_fs s) (abs_parts env path) of
        Some (TDir m es) \<Rightarrow>
          (let wid = ''w-'' @ en_uuid env (hs_calls s); s1 = called s;
               recursive = truthy (dget_or p ''recursive'' (PBool True)) in
           case patterns_of p of Inl e \<Rightarrow> (Inl e, s1) | Inr pats \<Rightarrow>
           (case to_int (dget_or p ''max_buffer'' (PInt 1000)) of Inl e \<Rightarrow> (Inl e, s1) | Inr n \<Rightarrow>
           (case to_float (dget_or p ''poll_interval_sec'' (PFloat 1)) of Inl e \<Rightarrow> (Inl e, s1) | Inr iv \<Rightarrow>
            if n < 0 then (Inl (''ValueError'', ''maxlen must be non-negative''), s1)
            else (Inr ((mk_result (t_id t) True dec)\<lparr>r_stdout := wid, r_metadata :=
                   [(''watch_id'', PStr wid), (''backend'', PStr (watch_backend env (truthy (dget_or p ''force_polling'' (PBool False))))),
                    (''path'', PStr (path_text path)), (''recursive'', PBool recursive)]\<rparr>),
                  set_watch wid \<lparr>fw_path = path_text path, fw_recursive = recursive, fw_patterns = pats, fw_max = nat n,
                    fw_events = [], fw_dropped = 0, fw_stopped = False\<rparr> s1))))
      | _ \<Rightarrow> (Inr (fail t dec (''not a directory: '' @ path_text path)), s)))"

definition gate_watch_start :: "'b env \<Rightarrow> task \<Rightarrow> 'b host \<Rightarrow> (exn + result) \<times> 'b host" where
  "gate_watch_start env t s = gate_path env t ''watch_start'' ''.'' (exec_watch_start env) s"

definition wid_of :: "task \<Rightarrow> pyval" where
  "wid_of t = dget_or (t_payload t) ''watch_id'' (PStr [])"

definition lookup_watch :: "'b host \<Rightarrow> pyval \<Rightarrow> exn + (string \<times> watch) option" where
  "lookup_watch s v = (case v of
       PStr wid \<Rightarrow> Inr (map_option (Pair wid) (map_of (hs_watches s) wid))
     | PList _ \<Rightarrow> Inl (''TypeError'', ''unhashable type: '' @ quoted (type_name v))
     | PDict _ \<Rightarrow> Inl (''TypeError'', ''unhashable type: '' @ quoted (type_name v))
     | _ \<Rightarrow> Inr None)"

definition evt_line :: "dict \<Rightarrow> string" where
  "evt_line e = py_str (dget e ''type'') @ '' '' @ py_str (dget e ''path'')"

definition watch_poll :: "task \<Rightarrow> 'b host \<Rightarrow> (exn + result) \<times> 'b host" where
  "watch_poll t s = (case lookup_watch s (wid_of t) of
       Inl e \<Rightarrow> (Inl e, s)
     | Inr None \<Rightarrow> (Inr (fail t ''auto'' (''no such watch: '' @ py_str (wid_of t))), s)
     | Inr (Some (wid, w)) \<Rightarrow>
       (case to_int (dget_or (t_payload t) ''max_events'' (PInt 200)) of Inl e \<Rightarrow> (Inl e, s) | Inr n \<Rightarrow>
       (case drain_watch n w of ((evs, dropped), w') \<Rightarrow>
         (Inr ((mk_result (t_id t) True ''auto'')\<lparr>r_stdout := join [newline] (map evt_line evs), r_metadata :=
            [(''watch_id'', PStr wid), (''events'', PList (map PDict evs)), (''count'', PInt (int (length evs))),
             (''dropped'', PInt (int dropped)), (''alive'', PBool True)]\<rparr>), set_watch wid w' s))))"

definition watch_stop :: "task \<Rightarrow> 'b host \<Rightarrow> (exn + result) \<times> 'b host" where
  "watch_stop t s = (case lookup_watch s (wid_of t) of
       Inl e \<Rightarrow> (Inl e, s)
     | Inr None \<Rightarrow> (Inr (fail t ''auto'' (''no such watch: '' @ py_str (wid_of t))), s)
     | Inr (Some (wid, w)) \<Rightarrow>
         (Inr ((mk_result (t_id t) True ''auto'')\<lparr>r_metadata := [(''watch_id'', PStr wid), (''stopped'', PBool True)]\<rparr>),
          s\<lparr>hs_watches := dict_del (hs_watches s) wid\<rparr>))"

definition watch_event :: "string \<Rightarrow> string \<Rightarrow> string \<Rightarrow> string \<Rightarrow> string option \<Rightarrow> 'b host \<Rightarrow> 'b host" where
  "watch_event wid ts ty path dst s = (case map_of (hs_watches s) wid of None \<Rightarrow> s
     | Some w \<Rightarrow> set_watch wid (record_event ts ty path dst w) s)"

subsection \<open>Nothing is lost silently\<close>

text \<open>What happens to a watch: an event comes in, or the buffer is drained.\<close>

datatype watch_op = Incoming string string string "string option" | Drain int

fun watch_run :: "watch_op list \<Rightarrow> watch \<Rightarrow> dict list \<Rightarrow> nat \<Rightarrow> (dict list \<times> nat) \<times> watch" where
  "watch_run [] w out lost = ((out, lost), w)"
| "watch_run (Incoming ts ty p d # ops) w out lost = watch_run ops (record_event ts ty p d w) out lost"
| "watch_run (Drain n # ops) w out lost = (case drain_watch n w of ((evs, k), w') \<Rightarrow> watch_run ops w' (out @ evs) (lost + k))"

fun accepted :: "watch \<Rightarrow> watch_op list \<Rightarrow> dict list" where
  "accepted w [] = []"
| "accepted w (Incoming ts ty p d # ops) = (if watch_matches w p then watch_evt ts ty p d # accepted w ops else accepted w ops)"
| "accepted w (Drain n # ops) = accepted w ops"

lemma watch_keeps [simp]: "fw_patterns (record_event ts ty p d w) = fw_patterns w" "fw_max (record_event ts ty p d w) = fw_max w"
  "fw_patterns (snd (drain_watch n w)) = fw_patterns w" "fw_max (snd (drain_watch n w)) = fw_max w"
  by (simp_all add: record_event_def drain_watch_def Let_def)

lemma accepted_cong: "fw_patterns w = fw_patterns v \<Longrightarrow> accepted w ops = accepted v ops"
  by (induction v ops rule: accepted.induct) (auto simp: watch_matches_def)

lemma subseq_drop_mid: "subseq (xs @ ys) zs \<Longrightarrow> subseq (xs @ drop n ys) zs"
proof -
  assume "subseq (xs @ ys) zs"
  moreover have "subseq (drop n ys) (take n ys @ drop n ys)" by (rule subseq_drop_many) simp
  then have "subseq (xs @ drop n ys) (xs @ ys)" by (simp add: subseq_append')
  ultimately show ?thesis by (rule subseq_order.trans[rotated])
qed

lemma watch_run_inv:
  assumes "length (fw_events w) \<le> fw_max w" "subseq (out @ fw_events w) past"
    "length past = length out + lost + fw_dropped w + length (fw_events w)"
  shows "case watch_run ops w out lost of ((out', lost'), w') \<Rightarrow>
     length (fw_events w') \<le> fw_max w \<and> subseq (out' @ fw_events w') (past @ accepted w ops) \<and>
     length (past @ accepted w ops) = length out' + lost' + fw_dropped w' + length (fw_events w')"
  using assms
proof (induction ops w out lost arbitrary: past rule: watch_run.induct)
  case (2 ts ty p d ops w out lost)
  let ?w = "record_event ts ty p d w"
  have acc: "accepted ?w ops = accepted w ops" by (rule accepted_cong) simp
  show ?case
  proof (cases "watch_matches w p")
    case False
    then show ?thesis using 2 by (simp add: record_event_def)
  next
    case True
    let ?e = "watch_evt ts ty p d"
    have "subseq (out @ fw_events w @ [?e]) (past @ [?e])"
      using 2(3) subseq_append_iff[of "out @ fw_events w" "[?e]"] list_emb_append_mono[of "(=)" "out @ fw_events w" past "[?e]" "[?e]"] by simp
    moreover have "fw_events ?w = drop (Suc (length (fw_events w)) - fw_max w) (fw_events w @ [?e])"
      using True by (simp add: record_event_def push_bounded_def)
    ultimately have s: "subseq (out @ fw_events ?w) (past @ [?e])" by (metis subseq_drop_mid)
    have l: "length (fw_events ?w) \<le> fw_max ?w" using True 2(2) by (simp add: record_event_def push_bounded_def)
    have "length (past @ [?e]) = length out + lost + fw_dropped ?w + length (fw_events ?w)"
      using True 2(2,4) by (auto simp: record_event_def push_bounded_def)
    from 2(1)[OF l s this] show ?thesis using True acc by simp
  qed
next
  case (3 n ops w out lost)
  let ?k = "nat (min n (int (length (fw_events w))))"
  let ?w = "w\<lparr>fw_events := drop ?k (fw_events w), fw_dropped := 0\<rparr>"
  have d: "drain_watch n w = ((take ?k (fw_events w), fw_dropped w), ?w)" by (simp add: drain_watch_def Let_def)
  have acc: "accepted ?w ops = accepted w ops" by (rule accepted_cong) simp
  have "?k \<le> length (fw_events w)" by simp
  then show ?case using 3(1)[OF d[symmetric] refl, of past] 3(2-4) acc d by simp
qed simp

text \<open>A watch never holds more events than its buffer, and every event that matched its patterns is delivered,
  still buffered or counted as dropped; those delivered and buffered are in the order they happened.\<close>

theorem watch_accounts_for_events:
  "let w0 = \<lparr>fw_path = p, fw_recursive = r, fw_patterns = pats, fw_max = m, fw_events = [], fw_dropped = 0, fw_stopped = b\<rparr> in
    case watch_run ops w0 [] 0 of ((out, lost), w) \<Rightarrow> length (fw_events w) \<le> m \<and>
      length (accepted w0 ops) = length out + lost + fw_dropped w + length (fw_events w) \<and>
      subseq (out @ fw_events w) (accepted w0 ops)"
  unfolding Let_def
  using watch_run_inv[of "\<lparr>fw_path = p, fw_recursive = r, fw_patterns = pats, fw_max = m, fw_events = [], fw_dropped = 0, fw_stopped = b\<rparr>" "[]" "[]" 0 ops]
  by (simp add: case_prod_unfold)

subsection \<open>The polling backend\<close>

text \<open>A round reports each path at most once, as what happened to it.\<close>

lemma map_filter_mem: "(y \<in> set (List.map_filter f xs)) = (\<exists>x \<in> set xs. f x = Some y)"
  by (force simp: List.map_filter_def)

lemma poll_changes_exact:
  assumes "distinct (map fst prev)" "distinct (map fst cur)"
  shows "((ty, p) \<in> set (poll_changes prev cur)) = (case (map_of prev p, map_of cur p) of
      (None, None) \<Rightarrow> False | (None, Some m) \<Rightarrow> ty = ''created'' | (Some k, None) \<Rightarrow> ty = ''deleted''
    | (Some k, Some m) \<Rightarrow> k \<noteq> m \<and> ty = ''modified'')"
proof -
  define f where "f = (\<lambda>(p, m). case map_of prev p of None \<Rightarrow> Some (''created'', p) | Some k \<Rightarrow> if k \<noteq> m then Some (''modified'', p) else None)"
  define g where "g = (\<lambda>(p :: string, m :: rat). if map_of cur p = None then Some (''deleted'', p) else None)"
  have c: "((p, m) \<in> set cur) = (map_of cur p = Some m)" "((p, m) \<in> set prev) = (map_of prev p = Some m)" for p m
    using assms by simp_all
  have keep: "f (q, m) = Some (ty, p) \<Longrightarrow> q = p" "g (q, m) = Some (ty, p) \<Longrightarrow> q = p" for q m
    by (auto simp: f_def g_def split: option.splits if_splits)
  have "((ty, p) \<in> set (poll_changes prev cur)) = ((\<exists>x \<in> set cur. f x = Some (ty, p)) \<or> (\<exists>x \<in> set prev. g x = Some (ty, p)))"
    unfolding poll_changes_def f_def[symmetric] g_def[symmetric] set_append Un_iff map_filter_mem ..
  also have "\<dots> = ((\<exists>m. map_of cur p = Some m \<and> f (p, m) = Some (ty, p)) \<or> (\<exists>m. map_of prev p = Some m \<and> g (p, m) = Some (ty, p)))"
    using keep c by fast
  also have "\<dots> = (case (map_of prev p, map_of cur p) of
      (None, None) \<Rightarrow> False | (None, Some m) \<Rightarrow> ty = ''created'' | (Some k, None) \<Rightarrow> ty = ''deleted''
    | (Some k, Some m) \<Rightarrow> k \<noteq> m \<and> ty = ''modified'')"
    by (cases "map_of prev p"; cases "map_of cur p") (auto simp: f_def g_def)
  finally show ?thesis .
qed

end
