(* ===== verification/Search.thy ===== *)
theory Search
  imports Files
begin

text \<open>
  \<open>grep\<close> and \<open>glob\<close> of \<open>agent/executor_v2.py\<close>: the walk over a tree that prunes noise directories, the scan of each
  file line by line with its limit, and the listing of a glob's hits by modification time.
\<close>

definition DEFAULT_PRUNE_DIRS :: "string list" where
  "DEFAULT_PRUNE_DIRS = [''.git'', ''.hg'', ''.svn'', ''node_modules'', ''__pycache__'', ''.venv'', ''venv'', ''.mypy_cache'',
     ''.pytest_cache'', ''dist'', ''build'']"

definition hidden :: "string \<Rightarrow> bool" where
  "hidden x = starts_with ''.'' x"

definition enters :: "bool \<Rightarrow> string \<Rightarrow> bool" where
  "enters inc_hidden d = (d \<notin> set DEFAULT_PRUNE_DIRS \<and> (inc_hidden \<or> \<not> hidden d))"

definition picks :: "bool \<Rightarrow> string \<Rightarrow> string \<Rightarrow> bool" where
  "picks inc_hidden pat f = ((inc_hidden \<or> \<not> hidden f) \<and> fnmatchcase f pat)"

text \<open>\<open>os.walk\<close> from the top: the files of a directory, then its subdirectories in order. Paths are relative to the
  root of the walk.\<close>

definition dir_files :: "bool \<Rightarrow> string \<Rightarrow> (string \<times> tree) list \<Rightarrow> (string list \<times> string) list" where
  "dir_files h pat es = List.map_filter (\<lambda>(n, u). case u of TFile m b \<Rightarrow> if picks h pat n then Some ([n], b) else None
     | TDir m ds \<Rightarrow> None) es"

fun walk :: "bool \<Rightarrow> string \<Rightarrow> tree \<Rightarrow> (string list \<times> string) list"
  and walk_dirs :: "bool \<Rightarrow> string \<Rightarrow> (string \<times> tree) list \<Rightarrow> (string list \<times> string) list" where
  "walk h pat (TFile m b) = []"
| "walk h pat (TDir m es) = dir_files h pat es @ walk_dirs h pat es"
| "walk_dirs h pat [] = []"
| "walk_dirs h pat ((n, u) # es) =
     (if enters h n then map (\<lambda>(p, b). (n # p, b)) (walk h pat u) else []) @ walk_dirs h pat es"

definition walk_files :: "bool \<Rightarrow> string \<Rightarrow> string \<Rightarrow> tree \<Rightarrow> (string list \<times> string) list" where
  "walk_files h pat name base = (case base of TFile m b \<Rightarrow> if fnmatchcase name pat then [([], b)] else []
     | TDir m es \<Rightarrow> walk h pat base)"

subsection \<open>grep\<close>

text \<open>\<open>xs[a:b]\<close> with Python's treatment of negative bounds.\<close>

definition slice_index :: "nat \<Rightarrow> int \<Rightarrow> nat" where
  "slice_index n i = nat (min (int n) (if i < 0 then max 0 (i + int n) else i))"

definition py_slice :: "int \<Rightarrow> int \<Rightarrow> 'a list \<Rightarrow> 'a list" where
  "py_slice a b xs = drop (slice_index (length xs) a) (take (slice_index (length xs) b) xs)"

definition str_list :: "string list \<Rightarrow> pyval" where
  "str_list xs = PList (map PStr xs)"

definition grep_entry :: "int \<Rightarrow> string \<Rightarrow> string list \<Rightarrow> nat \<Rightarrow> dict" where
  "grep_entry context path lines i =
     [(''path'', PStr path), (''line_no'', PInt (int i + 1)), (''line'', PStr (take 2000 (lines ! i)))]
     @ (if context \<noteq> 0 then [(''before'', str_list (py_slice (max 0 (int i - context)) (int i) lines)),
          (''after'', str_list (py_slice (int i + 1) (int i + 1 + context) lines))] else [])"

text \<open>The lines of one file from number \<open>i\<close> on: the matches found and whether the limit was reached.\<close>

function grep_lines :: "(string \<Rightarrow> bool) \<Rightarrow> int \<Rightarrow> int \<Rightarrow> string \<Rightarrow> string list \<Rightarrow> nat \<Rightarrow> dict list \<Rightarrow> dict list \<times> bool" where
  "grep_lines rx context limit path lines i acc =
     (if length lines \<le> i then (acc, False)
      else if \<not> rx (lines ! i) then grep_lines rx context limit path lines (Suc i) acc
      else (let acc' = acc @ [grep_entry context path lines i] in
        if int (length acc') \<ge> limit then (acc', True) else grep_lines rx context limit path lines (Suc i) acc'))"
  by pat_completeness auto
termination
  by (relation "measure (\<lambda>(rx, c, l, p, ls, i, acc). length ls - i)") auto

declare grep_lines.simps [simp del]

definition is_binary :: "string \<Rightarrow> bool" where
  "is_binary bytes = (char_of (0::nat) \<in> set (take 8192 bytes))"

record grep_cfg =
  gc_rx :: "string \<Rightarrow> bool"
  gc_limit :: int
  gc_max_bytes :: int
  gc_context :: int

text \<open>The files in turn: matches, files scanned, truncated. \<open>show\<close> is the text of a path.\<close>

fun grep_files :: "(string \<Rightarrow> exn + string) \<Rightarrow> (string list \<Rightarrow> string) \<Rightarrow> grep_cfg \<Rightarrow> (string list \<times> string) list \<Rightarrow>
    dict list \<Rightarrow> nat \<Rightarrow> exn + (dict list \<times> nat \<times> bool)" where
  "grep_files dec show_path g [] acc n = Inr (acc, n, False)"
| "grep_files dec show_path g ((p, bytes) # fs) acc n =
     (if int (length bytes) > gc_max_bytes g \<or> is_binary bytes then grep_files dec show_path g fs acc n
      else (case dec bytes of Inl e \<Rightarrow> Inl e | Inr text \<Rightarrow>
        (case grep_lines (gc_rx g) (gc_context g) (gc_limit g) (show_path p) (splitlines False text) 0 acc of
           (acc', True) \<Rightarrow> Inr (acc', Suc n, True)
         | (acc', False) \<Rightarrow> grep_files dec show_path g fs acc' (Suc n))))"

definition join_path :: "string \<Rightarrow> string list \<Rightarrow> string" where
  "join_path base p = (if p = [] then base else if base = ''.'' then join ''/'' p
     else if ends_with ''/'' base then base @ join ''/'' p else base @ ''/'' @ join ''/'' p)"

definition grep_line_text :: "dict \<Rightarrow> string" where
  "grep_line_text d = py_str (dget d ''path'') @ '':'' @ py_str (dget d ''line_no'') @ '': '' @ py_str (dget d ''line'')"

definition grep_config :: "(string \<Rightarrow> bool) \<Rightarrow> dict \<Rightarrow> exn + grep_cfg" where
  "grep_config rx p =
     and_then (to_int (dget_or p ''max_results'' (PInt 500))) (\<lambda>l.
     and_then (to_int (dget_or p ''max_file_bytes'' (PInt 5000000))) (\<lambda>m.
     and_then (to_int (dget_or p ''context'' (PInt 0))) (\<lambda>c.
       Inr \<lparr>gc_rx = rx, gc_limit = l, gc_max_bytes = m, gc_context = c\<rparr>)))"

definition exec_grep :: "'b env \<Rightarrow> task \<Rightarrow> string \<Rightarrow> 'b host \<Rightarrow> (exn + result) \<times> 'b host" where
  "exec_grep env t dec s =
     (let p = t_payload t in
      case path_arg env t ''.'' of Inl e \<Rightarrow> (Inl e, s) | Inr path \<Rightarrow>
      (case look (hs_fs s) (abs_parts env path) of
        None \<Rightarrow> (Inr (fail t dec (''path not found: '' @ path_text path)), s)
      | Some base \<Rightarrow>
        (case need_text (dget_or p ''pattern'' (PStr [])) of Inl e \<Rightarrow> (Inl e, s) | Inr pattern \<Rightarrow>
        (case en_regex env pattern (truthy (dget p ''ignore_case'')) of
          Inl msg \<Rightarrow> (Inr (fail t dec (''bad regex: '' @ msg)), s)
        | Inr rx \<Rightarrow>
          (case grep_config rx p of Inl e \<Rightarrow> (Inl e, s) | Inr g \<Rightarrow>
          (case str_item (dget_or p ''include'' (PStr ''*'')) of Inl e \<Rightarrow> (Inl e, s) | Inr inc \<Rightarrow>
          (let h = truthy (dget_or p ''include_hidden'' (PBool False));
               name = (case path_parts path of [] \<Rightarrow> [] | ps \<Rightarrow> last ps) in
           case grep_files (en_decode env ''utf-8'') (join_path (path_text path)) g (walk_files h inc name base) [] 0 of
             Inl e \<Rightarrow> (Inl e, s)
           | Inr (matches, scanned, truncated) \<Rightarrow>
             (Inr ((mk_result (t_id t) True dec)\<lparr>r_stdout := join [newline] (map grep_line_text matches), r_metadata :=
                [(''matches'', PList (map PDict matches)), (''count'', PInt (int (length matches))),
                 (''files_scanned'', PInt (int scanned)), (''truncated'', PBool truncated)]\<rparr>), s))))))))"

definition gate_grep :: "'b env \<Rightarrow> task \<Rightarrow> 'b host \<Rightarrow> (exn + result) \<times> 'b host" where
  "gate_grep env t s = gate_path env t ''grep'' ''.'' (exec_grep env) s"

subsection \<open>glob\<close>

definition tree_mtime :: "tree \<Rightarrow> rat" where
  "tree_mtime u = (case u of TFile m b \<Rightarrow> m | TDir m es \<Rightarrow> m)"

fun is_file :: "tree \<Rightarrow> bool" where
  "is_file (TFile m b) = True" | "is_file (TDir m es) = False"

definition glob_found :: "bool \<Rightarrow> tree \<Rightarrow> string list list \<Rightarrow> (rat \<times> string list) list" where
  "glob_found files_only base hits = List.map_filter (\<lambda>p. case look base p of None \<Rightarrow> None
     | Some u \<Rightarrow> if files_only \<and> \<not> is_file u then None else Some (tree_mtime u, p)) hits"

definition newest_first :: "(rat \<times> string list) list \<Rightarrow> (rat \<times> string list) list" where
  "newest_first xs = sort_key (\<lambda>x. - fst x) xs"

definition slice_to :: "int \<Rightarrow> 'a list \<Rightarrow> 'a list" where
  "slice_to n xs = take (slice_index (length xs) n) xs"

definition exec_glob :: "'b env \<Rightarrow> task \<Rightarrow> string \<Rightarrow> 'b host \<Rightarrow> (exn + result) \<times> 'b host" where
  "exec_glob env t dec s =
     (let p = t_payload t in
      case path_arg env t ''.'' of Inl e \<Rightarrow> (Inl e, s) | Inr path \<Rightarrow>
      (case look (hs_fs s) (abs_parts env path) of
        None \<Rightarrow> (Inr (fail t dec (''path not found: '' @ path_text path)), s)
      | Some base \<Rightarrow>
        (case to_int (dget_or p ''max_results'' (PInt 1000)) of Inl e \<Rightarrow> (Inl e, s) | Inr limit \<Rightarrow>
        (case str_item (dget_or p ''pattern'' (PStr ''*'')) of Inl e \<Rightarrow> (Inl e, s) | Inr pattern \<Rightarrow>
        (let recursive = truthy (dget_or p ''recursive'' (PBool True)); files_only = truthy (dget_or p ''files_only'' (PBool True)) in
         case en_glob env base (recursive \<and> \<not> contains ''**'' pattern) pattern of Inl e \<Rightarrow> (Inl e, s) | Inr hits \<Rightarrow>
         (let found = newest_first (glob_found files_only base hits);
              paths = map (\<lambda>(m, q). join_path (path_text path) q) (slice_to limit found) in
          (Inr ((mk_result (t_id t) True dec)\<lparr>r_stdout := join [newline] paths, r_metadata :=
             [(''paths'', str_list paths), (''count'', PInt (int (length paths))),
              (''truncated'', PBool (int (length found) > limit)), (''pattern'', PStr pattern), (''root'', PStr (path_text path))]\<rparr>), s)))))))"

definition gate_glob :: "'b env \<Rightarrow> task \<Rightarrow> 'b host \<Rightarrow> (exn + result) \<times> 'b host" where
  "gate_glob env t s = gate_path env t ''glob'' ''.'' (exec_glob env) s"

subsection \<open>What the walk visits\<close>

text \<open>A tree in which no directory lists a name twice.\<close>

fun wf_tree :: "tree \<Rightarrow> bool" where
  "wf_tree (TFile m b) = True"
| "wf_tree (TDir m es) = (distinct (map fst es) \<and> (\<forall>(n, u) \<in> set es. wf_tree u))"

definition visible :: "bool \<Rightarrow> string \<Rightarrow> tree \<Rightarrow> string list \<Rightarrow> string \<Rightarrow> bool" where
  "visible h pat u p b = (p \<noteq> [] \<and> (\<exists>m. look u p = Some (TFile m b)) \<and> list_all (enters h) (butlast p) \<and> picks h pat (last p))"

lemma dir_files_mem: "distinct (map fst es) \<Longrightarrow>
    ((p, b) \<in> set (dir_files h pat es)) = (\<exists>n m. p = [n] \<and> map_of es n = Some (TFile m b) \<and> picks h pat n)"
  by (force simp: dir_files_def List.map_filter_def split: tree.splits if_splits)

lemma walk_mem:
  "wf_tree u \<Longrightarrow> ((p, b) \<in> set (walk h pat u)) = visible h pat u p b"
  "distinct (map fst es) \<Longrightarrow> \<forall>(n, u) \<in> set es. wf_tree u \<Longrightarrow>
     ((p, b) \<in> set (walk_dirs h pat es)) = (\<exists>n q u. p = n # q \<and> map_of es n = Some u \<and> enters h n \<and> visible h pat u q b)"
proof (induction h pat u and h pat es arbitrary: p b and p b rule: walk_walk_dirs.induct)
  case (1 h pat m b')
  then show ?case by (cases p) (auto simp: visible_def)
next
  case (2 h pat m es)
  have d: "distinct (map fst es)" "\<forall>(n, u) \<in> set es. wf_tree u" using 2(2) by auto
  have "((p, b) \<in> set (walk h pat (TDir m es))) = ((\<exists>n m. p = [n] \<and> map_of es n = Some (TFile m b) \<and> picks h pat n) \<or>
      (\<exists>n q u. p = n # q \<and> map_of es n = Some u \<and> enters h n \<and> visible h pat u q b))"
    using 2(1)[OF d] dir_files_mem[OF d(1)] by simp
  also have "\<dots> = visible h pat (TDir m es) p b"
  proof (cases p)
    case (Cons n q)
    then show ?thesis by (cases q) (auto simp: visible_def split: option.splits)
  qed (simp add: visible_def)
  finally show ?case .
next
  case (4 h pat n u es)
  have w: "wf_tree u" "n \<notin> fst ` set es" and d: "distinct (map fst es)" "\<forall>(n, u) \<in> set es. wf_tree u" using 4(3,4) by auto
  have m: "((p, b) \<in> set (walk_dirs h pat ((n, u) # es))) = ((enters h n \<and> (\<exists>q. p = n # q \<and> visible h pat u q b)) \<or>
      (\<exists>k q v. p = k # q \<and> map_of es k = Some v \<and> enters h k \<and> visible h pat v q b))"
  proof (cases "enters h n")
    case True
    then show ?thesis using 4(1)[OF True w(1)] 4(2)[OF d] by auto
  next
    case False
    then show ?thesis using 4(2)[OF d] by simp
  qed
  have "map_of es n = None" using w(2) by (simp add: map_of_eq_None_iff)
  then show ?case unfolding m by (cases p; cases "hd p = n") auto
qed simp

lemma walk_files_mem:
  assumes "wf_tree (TDir m es)"
  shows "((p, b) \<in> set (walk_files h pat name (TDir m es))) = visible h pat (TDir m es) p b"
  using walk_mem(1)[OF assms] by (simp add: walk_files_def)

subsection \<open>What grep reports\<close>

definition file_matches :: "grep_cfg \<Rightarrow> string \<Rightarrow> string \<Rightarrow> dict list" where
  "file_matches g path text = (let lines = splitlines False text in
     map (grep_entry (gc_context g) path lines) (filter (\<lambda>i. gc_rx g (lines ! i)) [0..<length lines]))"

definition searchable :: "grep_cfg \<Rightarrow> string \<Rightarrow> bool" where
  "searchable g bytes = (int (length bytes) \<le> gc_max_bytes g \<and> \<not> is_binary bytes)"

definition all_matches :: "(string \<Rightarrow> string) \<Rightarrow> (string list \<Rightarrow> string) \<Rightarrow> grep_cfg \<Rightarrow> (string list \<times> string) list \<Rightarrow> dict list" where
  "all_matches txt show_path g fs = concat (map (\<lambda>(p, b). file_matches g (show_path p) (txt b)) (filter (\<lambda>(p, b). searchable g b) fs))"

definition grep_max :: "grep_cfg \<Rightarrow> nat" where
  "grep_max g = max 1 (nat (gc_limit g))"

lemma grep_lines_spec:
  assumes "length acc < max 1 (nat limit)"
  shows "grep_lines rx ctx limit path lines i acc =
    (let all = map (grep_entry ctx path lines) (filter (\<lambda>i. rx (lines ! i)) [i..<length lines]) in
     (take (max 1 (nat limit)) (acc @ all), max 1 (nat limit) \<le> length acc + length all))"
  using assms
proof (induction rx ctx limit path lines i acc rule: grep_lines.induct)
  case (1 rx ctx limit path lines i acc)
  show ?case
  proof (cases "length lines \<le> i")
    case True
    have "\<not> max 1 (nat limit) \<le> length acc" using 1(3) by linarith
    then show ?thesis using True 1(3) by (subst grep_lines.simps) (simp add: Let_def)
  next
    case False
    then have u: "[i..<length lines] = i # [Suc i..<length lines]" by (simp add: upt_conv_Cons)
    show ?thesis
    proof (cases "rx (lines ! i)")
      case rx: False
      then show ?thesis using 1(1)[OF False rx 1(3)] False by (subst grep_lines.simps) (simp add: u)
    next
      case rx: True
      define acc' where "acc' = acc @ [grep_entry ctx path lines i]"
      show ?thesis
      proof (cases "int (length acc') \<ge> limit")
        case True
        then have "length acc' = max 1 (nat limit)" using 1(3) by (auto simp: acc'_def)
        moreover define M where "M = max 1 (nat limit)"
        ultimately have M: "M = length acc'" by simp
        define r where "r = map (grep_entry ctx path lines) (filter (\<lambda>i. rx (lines ! i)) [Suc i..<length lines])"
        have "acc @ map (grep_entry ctx path lines) (filter (\<lambda>i. rx (lines ! i)) [i..<length lines]) = acc' @ r"
          "length acc + length (map (grep_entry ctx path lines) (filter (\<lambda>i. rx (lines ! i)) [i..<length lines])) = length acc' + length r"
          using rx by (simp_all add: u acc'_def r_def)
        moreover have "grep_lines rx ctx limit path lines i acc = (acc', True)"
          using False rx True by (subst grep_lines.simps) (simp add: acc'_def[symmetric] Let_def)
        ultimately show ?thesis unfolding M_def[symmetric] Let_def by (simp add: M)
      next
        case lim: False
        then have "length acc' < max 1 (nat limit)" by (auto simp: acc'_def)
        then have "grep_lines rx ctx limit path lines (Suc i) acc' =
          (let all = map (grep_entry ctx path lines) (filter (\<lambda>i. rx (lines ! i)) [Suc i..<length lines]) in
           (take (max 1 (nat limit)) (acc' @ all), max 1 (nat limit) \<le> length acc' + length all))"
          using 1(2)[OF False _ acc'_def] rx lim by blast
        then show ?thesis using False rx lim by (subst grep_lines.simps) (simp add: u acc'_def Let_def)
      qed
    qed
  qed
qed

lemma grep_files_spec:
  assumes "\<And>b. dec b = Inr (txt b)" "length acc < grep_max g"
  shows "\<exists>k. grep_files dec show_path g fs acc n = Inr (take (grep_max g) (acc @ all_matches txt show_path g fs), k,
      grep_max g \<le> length acc + length (all_matches txt show_path g fs))"
  using assms(2)
proof (induction fs arbitrary: acc n)
  case Nil
  then show ?case by (simp add: all_matches_def)
next
  case (Cons f fs)
  obtain p b where f: "f = (p, b)" by fastforce
  show ?case
  proof (cases "searchable g b")
    case False
    then have "grep_files dec show_path g (f # fs) acc n = grep_files dec show_path g fs acc n"
      "all_matches txt show_path g (f # fs) = all_matches txt show_path g fs"
      by (auto simp: f searchable_def all_matches_def)
    then show ?thesis using Cons by simp
  next
    case True
    define ms where "ms = file_matches g (show_path p) (txt b)"
    have a: "all_matches txt show_path g (f # fs) = ms @ all_matches txt show_path g fs"
      using True by (simp add: f all_matches_def ms_def)
    have l: "grep_lines (gc_rx g) (gc_context g) (gc_limit g) (show_path p) (splitlines False (txt b)) 0 acc =
        (take (grep_max g) (acc @ ms), grep_max g \<le> length acc + length ms)"
      using grep_lines_spec[of acc "gc_limit g"] Cons.prems by (simp add: grep_max_def ms_def file_matches_def Let_def)
    show ?thesis
    proof (cases "grep_max g \<le> length acc + length ms")
      case full: True
      then have "grep_files dec show_path g (f # fs) acc n = Inr (take (grep_max g) (acc @ ms), Suc n, True)"
        using True l by (simp add: f searchable_def assms(1))
      then show ?thesis using full by (simp add: a)
    next
      case False
      then have "grep_files dec show_path g (f # fs) acc n = grep_files dec show_path g fs (acc @ ms) (Suc n)"
        using True l by (simp add: f searchable_def assms(1))
      then show ?thesis using Cons.IH[of "acc @ ms" "Suc n"] False by (simp add: a add.assoc)
    qed
  qed
qed


definition demo_tree :: tree where
  "demo_tree = TDir 0 [(''a.txt'', TFile 2 (''one'' @ [newline] @ ''two'')), (''node_modules'', TDir 1 [(''b.txt'', TFile 3 ''one'')]),
     (''src'', TDir 1 [(''c.txt'', TFile 3 ''one'')])]"


end
