(* ===== verification/Netlocal.thy ===== *)
theory Netlocal
  imports Host Signing "HOL-Library.Word"
begin

text \<open>
  \<open>http_local\<close>, \<open>process_list\<close> and \<open>process_kill\<close> of \<open>agent/executor_v2.py\<close>. The check that a URL stays on the
  local network is modelled in full: how \<open>urllib.parse.urlparse\<close> takes a URL apart, how \<open>ipaddress\<close> reads an
  address, as a 32 or 128 bit word, and which networks it calls loopback, private or link-local (the tables are
  those of the library). The resolver, the network, the process table and its signals are the environment's.
\<close>

subsection \<open>Addresses\<close>

datatype ipaddr = IP4 "32 word" | IP6 "128 word"

definition parse_octet :: "string \<Rightarrow> nat option" where
  "parse_octet x = (if \<not> all_digits x \<or> length x > 3 \<or> (x \<noteq> ''0'' \<and> hd x = CHR ''0'') \<or> digits_val x > 255 then None
     else Some (digits_val x))"

definition parse_ip4 :: "string \<Rightarrow> 32 word option" where
  "parse_ip4 x = (case map parse_octet (split_on (CHR ''.'') x) of
       [Some a, Some b, Some c, Some d] \<Rightarrow> Some (of_nat (((a * 256 + b) * 256 + c) * 256 + d))
     | _ \<Rightarrow> None)"

definition hex_of :: "char \<Rightarrow> nat option" where
  "hex_of c = (let n = code c in if 48 \<le> n \<and> n \<le> 57 then Some (n - 48) else if 97 \<le> n \<and> n \<le> 102 then Some (n - 87)
     else if 65 \<le> n \<and> n \<le> 70 then Some (n - 55) else None)"

fun hex_digits :: "nat \<Rightarrow> string \<Rightarrow> nat option" where
  "hex_digits a [] = Some a"
| "hex_digits a (c # cs) = (case hex_of c of None \<Rightarrow> None | Some d \<Rightarrow> hex_digits (16 * a + d) cs)"

definition parse_hextet :: "string \<Rightarrow> nat option" where
  "parse_hextet x = (if x = [] \<or> length x > 4 then None else hex_digits 0 x)"

fun hextets :: "nat \<Rightarrow> string list \<Rightarrow> nat option" where
  "hextets a [] = Some a"
| "hextets a (p # ps) = (case parse_hextet p of None \<Rightarrow> None | Some d \<Rightarrow> hextets (a * 65536 + d) ps)"

text \<open>An IPv4 suffix is written as two hextets; \<open>to_hex\<close> is \<open>'%x'\<close>.\<close>

fun to_hex :: "nat \<Rightarrow> string" where
  "to_hex n = (if n < 16 then [hex_digit n] else to_hex (n div 16) @ [hex_digit (n mod 16)])"

declare to_hex.simps [simp del]

definition ip6_parts :: "string \<Rightarrow> string list option" where
  "ip6_parts x = (let parts = split_on (CHR '':'') x in
     if length parts < 3 then None
     else if CHR ''.'' \<in> set (last parts)
       then (case parse_ip4 (last parts) of None \<Rightarrow> None
         | Some w \<Rightarrow> Some (butlast parts @ [to_hex (unat w div 65536), to_hex (unat w mod 65536)]))
     else Some parts)"

definition inner_empty :: "string list \<Rightarrow> nat list" where
  "inner_empty parts = filter (\<lambda>i. parts ! i = []) [1..<length parts - 1]"

definition ip6_value :: "string list \<Rightarrow> nat option" where
  "ip6_value parts =
     (if length parts > 9 then None
      else (case inner_empty parts of
          [] \<Rightarrow> if length parts \<noteq> 8 \<or> hd parts = [] \<or> last parts = [] then None else hextets 0 parts
        | [i] \<Rightarrow>
          (let hi = (if hd parts = [] then i - 1 else i); lo0 = length parts - i - 1;
               lo = (if last parts = [] then lo0 - 1 else lo0) in
           if (hd parts = [] \<and> hi \<noteq> 0) \<or> (last parts = [] \<and> lo \<noteq> 0) \<or> hi + lo \<ge> 8 then None
           else (case hextets 0 (take hi parts) of None \<Rightarrow> None
              | Some a \<Rightarrow> hextets (a * 65536 ^ (8 - (hi + lo))) (drop (length parts - lo) parts)))
        | _ \<Rightarrow> None))"

text \<open>A scope after \<open>%\<close> is cut off; it must not be empty or hold another \<open>%\<close>.\<close>

definition parse_ip6 :: "string \<Rightarrow> 128 word option" where
  "parse_ip6 x = (if CHR ''/'' \<in> set x then None else
     (let addr = takeWhile (\<lambda>c. c \<noteq> CHR ''%'') x; rest = dropWhile (\<lambda>c. c \<noteq> CHR ''%'') x in
      if rest \<noteq> [] \<and> (tl rest = [] \<or> CHR ''%'' \<in> set (tl rest)) then None
      else (case ip6_parts addr of None \<Rightarrow> None | Some ps \<Rightarrow> map_option of_nat (ip6_value ps))))"

definition ip_address :: "string \<Rightarrow> ipaddr option" where
  "ip_address x = (case parse_ip4 x of Some w \<Rightarrow> Some (IP4 w) | None \<Rightarrow> map_option IP6 (parse_ip6 x))"

text \<open>Membership in a network given by an address and the length of its prefix.\<close>

definition in_net :: "'a::len word \<Rightarrow> 'a word \<times> nat \<Rightarrow> bool" where
  "in_net w net = (drop_bit (LENGTH('a) - snd net) w = drop_bit (LENGTH('a) - snd net) (fst net))"

definition private4 :: "(32 word \<times> nat) list" where
  "private4 = [(0x00000000, 8), (0x0A000000, 8), (0x7F000000, 8), (0xA9FE0000, 16), (0xAC100000, 12), (0xC0000000, 24),
     (0xC00000AA, 31), (0xC0000200, 24), (0xC0A80000, 16), (0xC6120000, 15), (0xC6336400, 24), (0xCB007100, 24),
     (0xF0000000, 4), (0xFFFFFFFF, 32)]"

definition private4_except :: "(32 word \<times> nat) list" where
  "private4_except = [(0xC0000009, 32), (0xC000000A, 32)]"

definition is_private4 :: "32 word \<Rightarrow> bool" where
  "is_private4 w = (list_ex (in_net w) private4 \<and> \<not> list_ex (in_net w) private4_except)"

definition private6 :: "(128 word \<times> nat) list" where
  "private6 = [(1, 128), (0, 128), (0xFFFF00000000, 96), (0x0064FF9B000100000000000000000000, 48),
     (0x01000000000000000000000000000000, 64), (0x20010000000000000000000000000000, 23),
     (0x20010DB8000000000000000000000000, 32), (0x20020000000000000000000000000000, 16),
     (0xFC000000000000000000000000000000, 7), (0xFE800000000000000000000000000000, 10)]"

definition private6_except :: "(128 word \<times> nat) list" where
  "private6_except = [(0x20010001000000000000000000000001, 128), (0x20010001000000000000000000000002, 128),
     (0x20010003000000000000000000000000, 32), (0x20010004011200000000000000000000, 48),
     (0x20010020000000000000000000000000, 28), (0x20010030000000000000000000000000, 28)]"

definition ipv4_mapped :: "128 word \<Rightarrow> 32 word option" where
  "ipv4_mapped w = (if drop_bit 32 w = 0xFFFF then Some (ucast w) else None)"

definition is_private6 :: "128 word \<Rightarrow> bool" where
  "is_private6 w = (case ipv4_mapped w of Some v \<Rightarrow> is_private4 v
     | None \<Rightarrow> list_ex (in_net w) private6 \<and> \<not> list_ex (in_net w) private6_except)"

definition is_local_addr :: "ipaddr \<Rightarrow> bool" where
  "is_local_addr a = (case a of
       IP4 w \<Rightarrow> in_net w (0x7F000000, 8) \<or> is_private4 w \<or> in_net w (0xA9FE0000, 16)
     | IP6 w \<Rightarrow> w = 1 \<or> is_private6 w \<or> in_net w (0xFE800000000000000000000000000000, 10))"

definition is_local_ip :: "string \<Rightarrow> bool" where
  "is_local_ip ip = (case ip_address ip of None \<Rightarrow> False | Some a \<Rightarrow> is_local_addr a)"

subsection \<open>URLs\<close>

definition is_alpha :: "char \<Rightarrow> bool" where
  "is_alpha c = (let n = code c in (65 \<le> n \<and> n \<le> 90) \<or> (97 \<le> n \<and> n \<le> 122))"

definition scheme_char :: "char \<Rightarrow> bool" where
  "scheme_char c = (is_alpha c \<or> is_digit c \<or> c \<in> set ''+-.'')"

definition split_scheme :: "string \<Rightarrow> string \<times> string" where
  "split_scheme u = (let pre = takeWhile (\<lambda>c. c \<noteq> CHR '':'') u in
     if pre \<noteq> [] \<and> pre \<noteq> u \<and> is_alpha (hd u) \<and> list_all scheme_char pre then (lower pre, drop (Suc (length pre)) u)
     else ([], u))"

text \<open>The text in brackets must be an IPv6 address, or \<open>v<hex>.<text>\<close>.\<close>

definition check_bracketed :: "string \<Rightarrow> bool" where
  "check_bracketed h =
     (if starts_with ''v'' h
      then (let hex = takeWhile (\<lambda>c. hex_of c \<noteq> None) (tl h); rest = dropWhile (\<lambda>c. hex_of c \<noteq> None) (tl h) in
         hex \<noteq> [] \<and> length rest \<ge> 2 \<and> hd rest = CHR ''.'' \<and> newline \<notin> set (tl rest))
      else (case ip_address h of Some (IP6 _) \<Rightarrow> True | _ \<Rightarrow> False))"

definition bracketed :: "string \<Rightarrow> string" where
  "bracketed netloc = takeWhile (\<lambda>c. c \<noteq> CHR '']'') (tl (dropWhile (\<lambda>c. c \<noteq> CHR ''['') netloc))"

text \<open>\<open>urlparse(url)\<close>: scheme and network location.\<close>

definition url_split :: "string \<Rightarrow> exn + (string \<times> string)" where
  "url_split url =
     (let u = filter (\<lambda>c. c \<notin> {CHR 0x09, CHR 0x0D, newline}) (dropWhile (\<lambda>c. code c \<le> 32) url) in
      case split_scheme u of (scheme, rest) \<Rightarrow>
       (if \<not> starts_with ''//'' rest then Inr (scheme, [])
        else (let netloc = takeWhile (\<lambda>c. c \<notin> set ''/?#'') (drop 2 rest) in
          if (CHR ''['' \<in> set netloc) \<noteq> (CHR '']'' \<in> set netloc) then Inl (''ValueError'', ''Invalid IPv6 URL'')
          else if CHR ''['' \<in> set netloc \<and> \<not> check_bracketed (bracketed netloc)
            then Inl (''ValueError'', quoted (bracketed netloc) @ '' does not appear to be an IPv4 or IPv6 address'')
          else Inr (scheme, netloc))))"

definition after_last :: "char \<Rightarrow> string \<Rightarrow> string" where
  "after_last c s = rev (takeWhile (\<lambda>x. x \<noteq> c) (rev s))"

definition after_first :: "char \<Rightarrow> string \<Rightarrow> string" where
  "after_first c s = tl (dropWhile (\<lambda>x. x \<noteq> c) s)"

definition host_info :: "string \<Rightarrow> string \<times> string" where
  "host_info netloc = (let h = after_last (CHR ''@'') netloc in
     if CHR ''['' \<in> set h
     then (let b = after_first (CHR ''['') h in
       (takeWhile (\<lambda>c. c \<noteq> CHR '']'') b, after_first (CHR '':'') (after_first (CHR '']'') b)))
     else (takeWhile (\<lambda>c. c \<noteq> CHR '':'') h, after_first (CHR '':'') h))"

text \<open>The zone after \<open>%\<close> keeps its case.\<close>

definition hostname :: "string \<Rightarrow> string" where
  "hostname netloc = (let h = fst (host_info netloc) in
     lower (takeWhile (\<lambda>c. c \<noteq> CHR ''%'') h) @ dropWhile (\<lambda>c. c \<noteq> CHR ''%'') h)"

definition url_port :: "string \<Rightarrow> exn + int option" where
  "url_port netloc = (let p = snd (host_info netloc) in
     if p = [] then Inr None
     else if \<not> all_digits p then Inl (''ValueError'', ''Port could not be cast to integer value as '' @ repr_str p)
     else if digits_val p > 65535 then Inl (''ValueError'', ''Port out of range 0-65535'')
     else Inr (Some (int (digits_val p))))"

text \<open>What \<open>urlparse\<close> makes of a value that is not a string: one that is false counts as the empty string.\<close>

definition url_text :: "pyval \<Rightarrow> exn + string" where
  "url_text v = (if \<not> truthy v then Inr [] else need_attr ''decode'' v)"

definition first_not_local :: "string list \<Rightarrow> string option" where
  "first_not_local ips = find (\<lambda>ip. \<not> is_local_ip ip) ips"

definition assert_local_url :: "'b env \<Rightarrow> pyval \<Rightarrow> 'b host \<Rightarrow> (exn + (bool \<times> string)) \<times> 'b host" where
  "assert_local_url env v s =
     (case url_text v of Inl e \<Rightarrow> (Inl e, s) | Inr url \<Rightarrow>
     (case url_split url of Inl e \<Rightarrow> (Inl e, s) | Inr (scheme, netloc) \<Rightarrow>
      if scheme \<noteq> ''http'' \<and> scheme \<noteq> ''https''
      then (Inr (False, ''scheme not allowed: '' @ (if scheme = [] then ''(none)'' else scheme)), s)
      else if hostname netloc = [] then (Inr (False, ''url has no host''), s)
      else (case url_port netloc of Inl e \<Rightarrow> (Inl e, s) | Inr port \<Rightarrow>
        (let p = (case port of None \<Rightarrow> 0 | Some n \<Rightarrow> n);
             q = (if p \<noteq> 0 then p else if scheme = ''https'' then 443 else 80) in
         case en_getaddrinfo env (hs_calls s) (hostname netloc) q of
           Inl msg \<Rightarrow> (Inr (False, ''cannot resolve host '' @ repr_str (hostname netloc) @ '': '' @ msg), called s)
         | Inr ips \<Rightarrow>
             (if ips = [] then (Inr (False, ''cannot resolve host '' @ repr_str (hostname netloc)), called s)
              else (case first_not_local ips of
                  Some ip \<Rightarrow> (Inr (False, ''host not local: '' @ ip), called s)
                | None \<Rightarrow> (Inr (True, []), called s)))))))"

subsection \<open>http\_local\<close>

definition HTTP_METHODS :: "string list" where
  "HTTP_METHODS = [''GET'', ''POST'', ''PUT'', ''PATCH'', ''DELETE'', ''HEAD'', ''OPTIONS'']"

definition upper_char :: "char \<Rightarrow> char" where
  "upper_char c = (let n = code c in if (97 \<le> n \<and> n \<le> 122) \<or> (224 \<le> n \<and> n \<le> 254 \<and> n \<noteq> 247) then char_of (n - 32) else c)"

definition upper :: "string \<Rightarrow> string" where
  "upper s = map upper_char s"

definition method_of :: "task \<Rightarrow> exn + string" where
  "method_of t = and_then (need_attr ''upper'' (py_or (dget (t_payload t) ''method'') (PStr ''GET''))) (\<lambda>m. Inr (upper m))"

text \<open>\<open>{str(k): str(v) for k, v in (headers or {}).items()}\<close>.\<close>

definition headers_of :: "task \<Rightarrow> exn + dict" where
  "headers_of t = (case py_or (dget (t_payload t) ''headers'') (PDict []) of
       PDict d \<Rightarrow> Inr (map (\<lambda>(k, v). (k, PStr (py_str v))) d)
     | v \<Rightarrow> Inl (''AttributeError'', quoted (type_name v) @ '' object has no attribute '' @ quoted ''items''))"

definition resolve_body :: "'b env \<Rightarrow> pyval \<Rightarrow> 'b host \<Rightarrow> (vault_error + (pyval \<times> string list)) \<times> 'b host" where
  "resolve_body env v s = (if is_pstr v \<or> is_pdict v \<or> is_plist v then resolve_secrets_in env v s else (Inr (v, []), s))"

definition body_bytes :: "pyval \<Rightarrow> string option" where
  "body_bytes v = (case v of PNone \<Rightarrow> None | PStr x \<Rightarrow> Some (utf8 x) | _ \<Rightarrow> Some (utf8 (json_print json_default v)))"

definition header_list :: "pyval \<Rightarrow> (string \<times> string) list" where
  "header_list v = map (\<lambda>(k, x). (k, py_str x)) (pdict_items v)"

definition with_content_type :: "pyval \<Rightarrow> (string \<times> string) list \<Rightarrow> (string \<times> string) list" where
  "with_content_type v hs = (if v = PNone \<or> map_of hs ''Content-Type'' \<noteq> None then hs
     else dict_set hs ''Content-Type'' (if is_pstr v then ''text/plain'' else ''application/json''))"

text \<open>\<open>x[:n]\<close> and \<open>read(n)\<close> of \<open>n\<close> bytes, all of them when \<open>n\<close> is negative.\<close>

definition py_take :: "int \<Rightarrow> 'a list \<Rightarrow> 'a list" where
  "py_take n xs = (if n \<ge> 0 then take (nat n) xs else take (length xs - nat (- n)) xs)"

definition read_bytes :: "int \<Rightarrow> string \<Rightarrow> string" where
  "read_bytes n x = (if n < 0 then x else take (nat n) x)"

definition http_result :: "'b env \<Rightarrow> task \<Rightarrow> string \<Rightarrow> string \<Rightarrow> pyval \<Rightarrow> string list \<Rightarrow> int \<Rightarrow> int \<times> dict \<times> string \<Rightarrow> 'b host \<Rightarrow> exn + result" where
  "http_result env t dec m url secrets max_bytes resp s = (case resp of (status, hs, full) \<Rightarrow>
     (let raw = read_bytes (max_bytes + 1) full in
      case en_decode env ''utf-8'' (py_take max_bytes raw) of Inl e \<Rightarrow> Inl e | Inr body \<Rightarrow>
      (let text = scrub s body secrets in
       Inr \<lparr>r_task_id = t_id t, r_ok = (200 \<le> status \<and> status < 400), r_decision = dec, r_stdout = text, r_stderr = [],
         r_exit_code = Some status, r_error = [],
         r_metadata = [(''url'', url), (''method'', PStr m), (''status'', PInt status), (''headers'', PDict hs), (''body'', PStr text),
           (''truncated'', PBool (int (length raw) > max_bytes)), (''elapsed_ms'', PFloat 0)]\<rparr>)))"

definition exec_http_local :: "'b env \<Rightarrow> task \<Rightarrow> string \<Rightarrow> 'b host \<Rightarrow> (exn + result) \<times> 'b host" where
  "exec_http_local env t dec s =
     (let url = dget_or (t_payload t) ''url'' (PStr []) in
      case method_of t of Inl e \<Rightarrow> (Inl e, s) | Inr m \<Rightarrow>
      if m \<notin> set HTTP_METHODS then (Inr (fail t dec (''method not allowed: '' @ m)), s)
      else (case assert_local_url env url s of
          (Inl e, s1) \<Rightarrow> (Inl e, s1)
        | (Inr (False, why), s1) \<Rightarrow> (Inr (fail t dec why), s1)
        | (Inr (True, _), s1) \<Rightarrow>
          (case headers_of t of Inl e \<Rightarrow> (Inl e, s1) | Inr hs0 \<Rightarrow>
          (case resolve_secrets_in env (PDict hs0) s1 of
             (Inl e, s2) \<Rightarrow> (Inr (fail t dec (en_vault_msg env e)), s2)
           | (Inr (hs, used), s2) \<Rightarrow>
             (case resolve_body env (dget (t_payload t) ''body'') s2 of
               (Inl e, s3) \<Rightarrow> (Inr (fail t dec (en_vault_msg env e)), s3)
             | (Inr (body, used'), s3) \<Rightarrow>
               (let headers = with_content_type body (header_list hs) in
                case to_int (dget_or (t_payload t) ''max_bytes'' (PInt 1000000)) of Inl e \<Rightarrow> (Inl e, s3) | Inr max_bytes \<Rightarrow>
                (case to_float (dget_or (t_payload t) ''timeout_sec'' (PInt 30)) of Inl e \<Rightarrow> (Inr (fail t dec (exn_text e)), s3) | Inr _ \<Rightarrow>
                 (let s4 = note_ev (EvHttp m (py_str url)) (called s3) in
                  case en_urlopen env (hs_calls s3) (py_str url) m headers (body_bytes body) of
                    Inl e \<Rightarrow> (Inr (fail t dec (exn_text e)), s4)
                  | Inr resp \<Rightarrow> (http_result env t dec m url (used @ used') max_bytes resp s4, s4)))))))))"

definition gate_http_local :: "'b env \<Rightarrow> task \<Rightarrow> 'b host \<Rightarrow> (exn + result) \<times> 'b host" where
  "gate_http_local env t s =
     (case method_of t of Inl e \<Rightarrow> (Inl e, s) | Inr m \<Rightarrow>
     (case gate env t (''http_local '' @ m @ '' '' @ py_str (dget_or (t_payload t) ''url'' (PStr []))) [] s of
        (Some early, s1) \<Rightarrow> (Inr early, s1)
      | (None, s1) \<Rightarrow> exec_http_local env t ''auto'' s1))"

subsection \<open>Which IPv4 addresses are local\<close>

lemma in_net4: "in_net (w :: 32 word) (b, k) = (unat w div 2 ^ (32 - k) = unat b div 2 ^ (32 - k))"
  unfolding in_net_def word_unat_eq_iff unat_drop_bit_eq by (simp add: drop_bit_eq_div)

definition ip4_word :: "nat \<Rightarrow> nat \<Rightarrow> nat \<Rightarrow> nat \<Rightarrow> 32 word" where
  "ip4_word a b c d = of_nat (((a * 256 + b) * 256 + c) * 256 + d)"

definition dotted :: "nat \<Rightarrow> nat \<Rightarrow> nat \<Rightarrow> nat \<Rightarrow> string" where
  "dotted a b c d = join ''.'' (map nat_str [a, b, c, d])"

lemma split_on_join4:
  assumes "x \<notin> set a" "x \<notin> set b" "x \<notin> set c" "x \<notin> set d"
  shows "split_on x (join [x] [a, b, c, d]) = [a, b, c, d]"
  using assms by (simp add: split_on_append split_on_no_sep)

lemma nat_str_no_dot: "CHR ''.'' \<notin> set (nat_str n)"
  using nat_str_digits[of n] by (auto simp: list_all_iff is_digit_def code_def dest!: bspec)

lemma nat_str_hd0: "nat_str n \<noteq> ''0'' \<Longrightarrow> hd (nat_str n) \<noteq> CHR ''0''"
proof -
  have "nat_str 0 = ''0''" by code_simp
  then show "nat_str n \<noteq> ''0'' \<Longrightarrow> hd (nat_str n) \<noteq> CHR ''0''" using nat_str_no_zero[of n] by metis
qed

lemma parse_octet_str [simp]:
  assumes "n < 256" shows "parse_octet (nat_str n) = Some n"
proof -
  have "length (nat_str n) \<le> 3" using nat_str_length[of n 3] assms by simp
  moreover have "\<not> (nat_str n \<noteq> ''0'' \<and> hd (nat_str n) = CHR ''0'')" using nat_str_hd0[of n] by blast
  moreover have "all_digits (nat_str n)" by (simp add: all_digits_def)
  ultimately show ?thesis using assms unfolding parse_octet_def by (simp only: nat_str_val simp_thms if_False not_less[symmetric]) simp
qed

lemma parse_dotted:
  assumes "a < 256" "b < 256" "c < 256" "d < 256"
  shows "parse_ip4 (dotted a b c d) = Some (ip4_word a b c d)"
proof -
  have "split_on (CHR ''.'') (dotted a b c d) = map nat_str [a, b, c, d]"
    unfolding dotted_def using split_on_join4[of "CHR ''.''" "nat_str a" "nat_str b" "nat_str c" "nat_str d"] nat_str_no_dot by simp
  then show ?thesis using assms by (simp add: parse_ip4_def ip4_word_def)
qed

lemma radix: "y < m \<Longrightarrow> y' < m \<Longrightarrow> (x * m + y = x' * m + y') = (x = x' \<and> y = y')" for x y m :: nat
proof
  assume a: "y < m" "y' < m" "x * m + y = x' * m + y'"
  have "(x * m + y) div m = x" "(x' * m + y') div m = x'" using a(1,2) by simp_all
  then show "x = x' \<and> y = y'" using a(3) by simp
qed simp

lemma ip4_unat:
  assumes "a < 256" "b < 256" "c < 256" "d < 256"
  shows "unat (ip4_word a b c d) = ((a * 256 + b) * 256 + c) * 256 + d"
proof -
  have "((a * 256 + b) * 256 + c) * 256 + d < 2 ^ 32" using assms by simp
  then show ?thesis unfolding ip4_word_def unat_of_nat by (subst mod_less) simp_all
qed

text \<open>The quotient of the address by a power of two, in terms of its octets.\<close>

lemma quad_div:
  fixes a b c d :: nat
  assumes "b < 256" "c < 256" "d < 256"
  shows "(((a * 256 + b) * 256 + c) * 256 + d) div 256 = (a * 256 + b) * 256 + c"
    "(((a * 256 + b) * 256 + c) * 256 + d) div 65536 = a * 256 + b"
    "(((a * 256 + b) * 256 + c) * 256 + d) div 131072 = (a * 256 + b) div 2"
    "(((a * 256 + b) * 256 + c) * 256 + d) div 1048576 = (a * 256 + b) div 16"
    "(((a * 256 + b) * 256 + c) * 256 + d) div 16777216 = a"
    "(((a * 256 + b) * 256 + c) * 256 + d) div 268435456 = a div 16"
    "(((a * 256 + b) * 256 + c) * 256 + d) div 2 = ((a * 256 + b) * 256 + c) * 128 + d div 2"
  using assms by auto

lemma local4_octets:
  assumes "a < 256" "b < 256" "c < 256" "d < 256"
  shows "is_local_addr (IP4 (ip4_word a b c d)) =
    (a = 0 \<or> a = 10 \<or> a = 127 \<or> (a = 169 \<and> b = 254) \<or> (a = 172 \<and> 16 \<le> b \<and> b \<le> 31) \<or> (a = 192 \<and> b = 168) \<or>
     (a = 192 \<and> b = 0 \<and> c = 0 \<and> d \<noteq> 9 \<and> d \<noteq> 10) \<or> (a = 192 \<and> b = 0 \<and> c = 2) \<or> (a = 198 \<and> (b = 18 \<or> b = 19)) \<or>
     (a = 198 \<and> b = 51 \<and> c = 100) \<or> (a = 203 \<and> b = 0 \<and> c = 113) \<or> 240 \<le> a)"
proof -
  have 8: "(a div 16 = 15) = (240 \<le> a)" using assms by auto
  have ab: "(a * 256 + b = x * 256 + y) = (a = x \<and> b = y)" if "y < 256" for x y using radix[of b 256 y a x] assms that by blast
  have abc: "((a * 256 + b) * 256 + c = (x * 256 + y) * 256 + z) = (a = x \<and> b = y \<and> c = z)" if "y < 256" "z < 256" for x y z
    using radix[of c 256 z "a * 256 + b" "x * 256 + y"] ab[of y x] assms that by blast
  have abcd: "(((a * 256 + b) * 256 + c) * 256 + d = ((x * 256 + y) * 256 + z) * 256 + u) = (a = x \<and> b = y \<and> c = z \<and> d = u)"
    if "y < 256" "z < 256" "u < 256" for x y z u
    using radix[of d 256 u "(a * 256 + b) * 256 + c" "(x * 256 + y) * 256 + z"] abc[of y z x] assms that by blast
  have d: "(a * 256 + b) div 16 = a * 16 + b div 16" "(a * 256 + b) div 2 = a * 128 + b div 2" by auto
  have m: "b div 16 < 16" "b div 2 < 128" "d div 2 < 128" using assms by auto
  have q: "(b div 16 = 1) = (16 \<le> b \<and> b \<le> 31)" "(b div 2 = 9) = (b = 18 \<or> b = 19)" by auto
  have 12: "((a * 256 + b) div 16 = 2753) = (a = 172 \<and> 16 \<le> b \<and> b \<le> 31)"
    unfolding d q(1)[symmetric] using radix[of "b div 16" 16 1 a 172] m by simp
  have 15: "((a * 256 + b) div 2 = 25353) = (a = 198 \<and> (b = 18 \<or> b = 19))"
    unfolding d q(2)[symmetric] using radix[of "b div 2" 128 9 a 198] m by simp
  have 31: "(((a * 256 + b) * 256 + c) * 128 + d div 2 = 1610612821) = (a = 192 \<and> b = 0 \<and> c = 0 \<and> d div 2 = 85)"
    using radix[of "d div 2" 128 85 "(a * 256 + b) * 256 + c" "(192 * 256 + 0) * 256 + 0"] abc[of 0 0 192] m by simp
  have 16: "(a * 256 + b = 43518) = (a = 169 \<and> b = 254)" "(a * 256 + b = 49320) = (a = 192 \<and> b = 168)"
    using ab[of 254 169] ab[of 168 192] by simp_all
  have 24: "((a * 256 + b) * 256 + c = 12582912) = (a = 192 \<and> b = 0 \<and> c = 0)" "((a * 256 + b) * 256 + c = 12582914) = (a = 192 \<and> b = 0 \<and> c = 2)"
    "((a * 256 + b) * 256 + c = 12989284) = (a = 198 \<and> b = 51 \<and> c = 100)" "((a * 256 + b) * 256 + c = 13303921) = (a = 203 \<and> b = 0 \<and> c = 113)"
    using abc[of 0 0 192] abc[of 0 2 192] abc[of 51 100 198] abc[of 0 113 203] by simp_all
  have 32: "(((a * 256 + b) * 256 + c) * 256 + d = 3221225481) = (a = 192 \<and> b = 0 \<and> c = 0 \<and> d = 9)"
    "(((a * 256 + b) * 256 + c) * 256 + d = 3221225482) = (a = 192 \<and> b = 0 \<and> c = 0 \<and> d = 10)"
    "(((a * 256 + b) * 256 + c) * 256 + d = 4294967295) = (a = 255 \<and> b = 255 \<and> c = 255 \<and> d = 255)"
    using abcd[of 0 0 9 192] abcd[of 0 0 10 192] abcd[of 255 255 255 255] by simp_all
  define w where "w = ip4_word a b c d"
  define x2 where "x2 = a * 256 + b"
  define x3 where "x3 = x2 * 256 + c"
  define x4 where "x4 = x3 * 256 + d"
  define y where "y = x3 * 128 + d div 2"
  note f = x2_def[symmetric] x3_def[symmetric] x4_def[symmetric] y_def[symmetric] w_def[symmetric]
  note u = ip4_unat[OF assms, unfolded f] quad_div[OF assms(2-4), of a, unfolded f]
  note v = 12[unfolded f] 15[unfolded f] 16[unfolded f] 24[unfolded f] 32[unfolded f] 31[unfolded f] 8
  have e: "list_ex (in_net w) private4_except = (a = 192 \<and> b = 0 \<and> c = 0 \<and> (d = 9 \<or> d = 10))"
    by (simp add: private4_except_def in_net4 u v) blast
  have p: "list_ex (in_net w) private4 = (a = 0 \<or> a = 10 \<or> a = 127 \<or> (a = 169 \<and> b = 254) \<or> (a = 172 \<and> 16 \<le> b \<and> b \<le> 31) \<or>
      (a = 192 \<and> b = 0 \<and> c = 0) \<or> (a = 192 \<and> b = 0 \<and> c = 0 \<and> d div 2 = 85) \<or> (a = 192 \<and> b = 0 \<and> c = 2) \<or> (a = 192 \<and> b = 168) \<or>
      (a = 198 \<and> (b = 18 \<or> b = 19)) \<or> (a = 198 \<and> b = 51 \<and> c = 100) \<or> (a = 203 \<and> b = 0 \<and> c = 113) \<or> 240 \<le> a \<or>
      (a = 255 \<and> b = 255 \<and> c = 255 \<and> d = 255))"
    by (simp add: private4_def in_net4 u v)
  have n: "in_net w (0x7F000000, 8) = (a = 127)" "in_net w (0xA9FE0000, 16) = (a = 169 \<and> b = 254)"
    by (simp_all add: in_net4 u v)
  show ?thesis
    unfolding is_local_addr_def ipaddr.case is_private4_def w_def[symmetric] e p n
  proof (cases "a = 192")
  qed auto
qed

subsection \<open>Requests stay local\<close>

lemma resolve_in_trace: "resolve_secrets_in env v s = (r, s') \<Longrightarrow> hs_trace s' = hs_trace s \<and> hs_calls s' = hs_calls s"
  by (auto simp: resolve_secrets_in_def split: option.splits if_splits prod.splits sum.splits)

lemma resolve_body_trace: "resolve_body env v s = (r, s') \<Longrightarrow> hs_trace s' = hs_trace s \<and> hs_calls s' = hs_calls s"
  by (auto simp: resolve_body_def dest: resolve_in_trace split: if_splits)

lemma assert_local_trace: "assert_local_url env v s = (r, s') \<Longrightarrow> hs_trace s' = hs_trace s"
  by (auto simp: assert_local_url_def Let_def called_def split: sum.splits prod.splits if_splits option.splits)

definition stays_local :: "'b env \<Rightarrow> nat \<Rightarrow> string \<Rightarrow> bool" where
  "stays_local env n url = (\<exists>scheme netloc port ips. url_split url = Inr (scheme, netloc) \<and> scheme \<in> {''http'', ''https''} \<and>
     en_getaddrinfo env n (hostname netloc) port = Inr ips \<and> ips \<noteq> [] \<and> list_all is_local_ip ips)"

lemma assert_local_ok:
  assumes "assert_local_url env v s = (Inr (True, w), s')"
  shows "\<exists>url. url_text v = Inr url \<and> stays_local env (hs_calls s) url"
proof -
  obtain url scheme netloc port ips where u: "url_text v = Inr url" "url_split url = Inr (scheme, netloc)"
    "scheme = ''http'' \<or> scheme = ''https''" "en_getaddrinfo env (hs_calls s) (hostname netloc) port = Inr ips" "ips \<noteq> []"
    "first_not_local ips = None"
    using assms unfolding assert_local_url_def Let_def
    by (auto split: sum.splits prod.splits if_splits option.splits)
  have "list_all is_local_ip ips" using u(6) by (auto simp: first_not_local_def find_None_iff list_all_iff)
  then show ?thesis using u unfolding stays_local_def by blast
qed

lemma url_text_py: "url_text v = Inr url \<Longrightarrow> url = [] \<or> v = PStr url"
  by (cases v) (auto simp: url_text_def need_attr_def split: if_splits)

lemma url_split_empty: "url_split [] = Inr ([], [])"
  by (simp add: url_split_def split_scheme_def Let_def starts_with_def)

lemma http_trace:
  "hs_trace (snd (exec_http_local env t dec s)) = hs_trace s \<or>
   (\<exists>m url. hs_trace (snd (exec_http_local env t dec s)) = hs_trace s @ [EvHttp m url] \<and> m \<in> set HTTP_METHODS \<and>
      dget_or (t_payload t) ''url'' (PStr []) = PStr url \<and> stays_local env (hs_calls s) url)"
proof -
  let ?u = "dget_or (t_payload t) ''url'' (PStr [])"
  show ?thesis
  proof (cases "method_of t")
    case (Inl e)
    then show ?thesis by (simp add: exec_http_local_def)
  next
    case (Inr m)
    obtain r s1 where a: "assert_local_url env ?u s = (r, s1)" by fastforce
    note tr = assert_local_trace[OF a]
    show ?thesis
    proof (cases "m \<in> set HTTP_METHODS \<and> (\<exists>w. r = Inr (True, w))")
      case False
      then show ?thesis using Inr a tr by (auto simp: exec_http_local_def Let_def split: sum.splits prod.splits bool.splits)
    next
      case True
      then obtain w where ok: "m \<in> set HTTP_METHODS" "assert_local_url env ?u s = (Inr (True, w), s1)" using a by blast
      obtain url where url: "url_text ?u = Inr url" "stays_local env (hs_calls s) url" using assert_local_ok[OF ok(2)] by blast
      then have "url \<noteq> []" by (auto simp: stays_local_def url_split_empty)
      then have p: "?u = PStr url" using url_text_py[OF url(1)] by blast
      show ?thesis
        using Inr ok p tr url unfolding exec_http_local_def Let_def
        by (auto simp: note_ev_def called_def split: sum.splits prod.splits bool.splits dest!: resolve_in_trace resolve_body_trace)
    qed
  qed
qed


text \<open>The IPv4 addresses the check lets through are exactly those of the loopback, private and link-local
  networks, together with the blocks the library counts as private as well: 0/8, 192.0.0/24 (but for two
  addresses), the documentation and benchmark networks, and 240/4.\<close>

theorem local_ipv4_exact:
  assumes "a < 256" "b < 256" "c < 256" "d < 256"
  shows "is_local_ip (dotted a b c d) =
    (a = 0 \<or> a = 10 \<or> a = 127 \<or> (a = 169 \<and> b = 254) \<or> (a = 172 \<and> 16 \<le> b \<and> b \<le> 31) \<or> (a = 192 \<and> b = 168) \<or>
     (a = 192 \<and> b = 0 \<and> c = 0 \<and> d \<noteq> 9 \<and> d \<noteq> 10) \<or> (a = 192 \<and> b = 0 \<and> c = 2) \<or> (a = 198 \<and> (b = 18 \<or> b = 19)) \<or>
     (a = 198 \<and> b = 51 \<and> c = 100) \<or> (a = 203 \<and> b = 0 \<and> c = 113) \<or> 240 \<le> a)"
  unfolding is_local_ip_def ip_address_def parse_dotted[OF assms] option.case by (rule local4_octets[OF assms])

theorem local_ipv4_exact_witness:
  "is_local_ip ''192.168.1.1'' \<and> \<not> is_local_ip ''8.8.8.8'' \<and> is_local_ip ''250.1.2.3''"
proof -
  have "dotted 192 168 1 1 = ''192.168.1.1''" "dotted 8 8 8 8 = ''8.8.8.8''" "dotted 250 1 2 3 = ''250.1.2.3''" by code_simp+
  then show ?thesis using local_ipv4_exact[of 192 168 1 1] local_ipv4_exact[of 8 8 8 8] local_ipv4_exact[of 250 1 2 3] by simp
qed

text \<open>A 6to4 address carries a public IPv4 address and is let through, since its block counts as private.\<close>

lemma six_to_four_passes: "is_local_ip ''2002:808:808::1''"
proof -
  have "parse_ip4 ''2002:808:808::1'' = None" "ip6_parts ''2002:808:808::1'' = Some [''2002'', ''808'', ''808'', [], ''1'']"
    by (simp_all add: parse_ip4_def ip6_parts_def parse_octet_def all_digits_def is_digit_def code_def)
  moreover have "inner_empty [''2002'', ''808'', ''808'', [], ''1''] = [3]" by (simp add: inner_empty_def upt_rec)
  then have "ip6_value [''2002'', ''808'', ''808'', [], ''1''] = Some 0x20020808080800000000000000000001"
    by (simp add: ip6_value_def parse_hextet_def hex_of_def Let_def code_def)
  ultimately have "ip_address ''2002:808:808::1'' = Some (IP6 0x20020808080800000000000000000001)"
    by (simp add: ip_address_def parse_ip6_def)
  then show ?thesis
    by (simp add: is_local_ip_def is_local_addr_def is_private6_def ipv4_mapped_def private6_def private6_except_def in_net_def drop_bit_eq_div)
qed

end
