(* ===== verification/Processes.thy ===== *)
theory Processes
  imports Netlocal Textlines
begin

text \<open>
  \<open>process_list\<close> and \<open>process_kill\<close> of \<open>agent/executor_v2.py\<close>. The list is that of \<open>psutil\<close> (a parameter) or is
  read from the output of \<open>ps\<close>; signals go to the environment and are recorded in the trace.
\<close>

subsection \<open>Listing\<close>

text \<open>\<open>line.split(None, n)\<close>: at most \<open>n\<close> cuts; the last part keeps its blanks.\<close>

fun split_max :: "nat \<Rightarrow> string \<Rightarrow> string list" where
  "split_max 0 x = (if lstrip x = [] then [] else [lstrip x])"
| "split_max (Suc n) x = (if lstrip x = [] then []
     else takeWhile (\<lambda>c. \<not> is_space c) (lstrip x) # split_max n (dropWhile (\<lambda>c. \<not> is_space c) (lstrip x)))"

definition is_number :: "string \<Rightarrow> bool" where
  "is_number x = (str_to_float x \<noteq> None)"

text \<open>One line of \<open>ps -eo pid,comm,%cpu,rss,user,stat,args\<close>.\<close>

definition ps_entry :: "string \<Rightarrow> dict option" where
  "ps_entry line = (let parts = split_max 6 (strip line) in
     if length parts < 6 \<or> \<not> all_digits (parts ! 0) then None
     else Some [(''pid'', PInt (int (digits_val (parts ! 0)))), (''name'', PStr (parts ! 1)),
       (''cmdline'', PStr (take 500 (if length parts > 6 then parts ! 6 else parts ! 1))),
       (''username'', PStr (parts ! 4)), (''status'', PStr (parts ! 5)),
       (''cpu_percent'', PFloat (case str_to_float (parts ! 2) of Some r \<Rightarrow> r | None \<Rightarrow> 0)),
       (''memory_mb'', PFloat (if all_digits (parts ! 3) then py_round 2 (of_nat (digits_val (parts ! 3)) / 1024) else 0)),
       (''created'', PNone)])"

definition list_fallback :: "string option \<Rightarrow> dict list \<times> string" where
  "list_fallback out = (case out of None \<Rightarrow> ([], ''unavailable'')
     | Some x \<Rightarrow> (List.map_filter ps_entry (splitlines False x), ''ps''))"

definition matches_needle :: "string \<Rightarrow> dict \<Rightarrow> bool" where
  "matches_needle needle pr = (sublist needle (lower (py_str (dget_or pr ''name'' (PStr [])))) \<or>
     sublist needle (lower (py_str (dget_or pr ''cmdline'' (PStr [])))))"

definition sort_field :: "pyval \<Rightarrow> exn + string" where
  "sort_field v = (case v of
       PStr x \<Rightarrow> Inr (if x = ''cpu'' then ''cpu_percent'' else if x = ''pid'' then ''pid'' else ''memory_mb'')
     | PList _ \<Rightarrow> Inl (''TypeError'', ''unhashable type: '' @ quoted (type_name v))
     | PDict _ \<Rightarrow> Inl (''TypeError'', ''unhashable type: '' @ quoted (type_name v))
     | _ \<Rightarrow> Inr ''memory_mb'')"

text \<open>\<open>pr.get(key) or 0\<close>, a number.\<close>

definition field_num :: "string \<Rightarrow> dict \<Rightarrow> rat" where
  "field_num k pr = (case number (dget pr k) of None \<Rightarrow> 0 | Some r \<Rightarrow> r)"

definition sort_procs :: "string \<Rightarrow> dict list \<Rightarrow> dict list" where
  "sort_procs k procs = sort_key (\<lambda>pr. if k \<noteq> ''pid'' then - field_num k pr else field_num k pr) procs"

definition pad8 :: "string \<Rightarrow> string" where
  "pad8 x = replicate (8 - length x) (CHR '' '') @ x"

definition proc_line :: "dict \<Rightarrow> string" where
  "proc_line pr = pad8 (py_str (dget pr ''pid'')) @ ''  '' @ py_str (dget_or pr ''name'' (PStr []))"

definition exec_process_list :: "'b env \<Rightarrow> task \<Rightarrow> string \<Rightarrow> 'b host \<Rightarrow> (exn + result) \<times> 'b host" where
  "exec_process_list env t dec s =
     (case need_attr ''lower'' (py_or (dget (t_payload t) ''filter'') (PStr [])) of Inl e \<Rightarrow> (Inl e, s) | Inr f \<Rightarrow>
     (case to_int (dget_or (t_payload t) ''limit'' (PInt 100)) of Inl e \<Rightarrow> (Inl e, s) | Inr limit \<Rightarrow>
      (let needle = lower f;
           (procs0, backend) = (if en_psutil env then (en_procs env (hs_calls s), ''psutil'') else list_fallback (en_ps env (hs_calls s)));
           procs1 = (if needle = [] then procs0 else filter (matches_needle needle) procs0) in
       case sort_field (dget_or (t_payload t) ''sort_by'' (PStr ''memory'')) of Inl e \<Rightarrow> (Inl e, called s) | Inr k \<Rightarrow>
       (let sorted_procs = sort_procs k procs1; procs = py_take limit sorted_procs in
        (Inr ((mk_result (t_id t) True dec)\<lparr>r_stdout := join [newline] (map proc_line procs),
            r_metadata := [(''processes'', PList (map PDict procs)), (''count'', PInt (int (length procs))), (''backend'', PStr backend),
              (''truncated'', PBool (int (length sorted_procs) > limit))]\<rparr>), called s)))))"

definition gate_process_list :: "'b env \<Rightarrow> task \<Rightarrow> 'b host \<Rightarrow> (exn + result) \<times> 'b host" where
  "gate_process_list env t s = (case gate env t ''process_list'' [] s of
       (Some early, s1) \<Rightarrow> (Inr early, s1) | (None, s1) \<Rightarrow> exec_process_list env t ''auto'' s1)"

subsection \<open>Killing\<close>

text \<open>Sending one signal: \<open>True\<close> for SIGKILL.\<close>

definition send_signal :: "'b env \<Rightarrow> bool \<Rightarrow> int \<Rightarrow> 'b host \<Rightarrow> sig_reply \<times> 'b host" where
  "send_signal env force pid s = (en_signal env (hs_calls s) pid, note_ev (if force then EvKill pid else EvTerm pid) (called s))"

definition kill_result :: "task \<Rightarrow> string \<Rightarrow> int \<Rightarrow> string \<Rightarrow> string \<Rightarrow> bool \<Rightarrow> 'b host \<Rightarrow> (exn + result) \<times> 'b host" where
  "kill_result t dec pid name sig killed s =
     (Inr ((mk_result (t_id t) killed dec)\<lparr>r_metadata := [(''pid'', PInt pid), (''name'', PStr name), (''signal'', PStr sig), (''killed'', PBool killed)]\<rparr>),
      audit_ev (t_id t) ''process_kill'' (''pid:'' @ int_str pid) (if killed then ''ok'' else ''error'')
        [(''name'', PStr name), (''signal'', PStr sig)] s)"

text \<open>With \<open>psutil\<close>: SIGTERM, a wait, and SIGKILL when the process does not end in time.\<close>

definition kill_psutil :: "'b env \<Rightarrow> task \<Rightarrow> string \<Rightarrow> int \<Rightarrow> bool \<Rightarrow> 'b host \<Rightarrow> (exn + result) \<times> 'b host" where
  "kill_psutil env t dec pid force s = (case en_proc env (hs_calls s) pid of
       ProcMissing \<Rightarrow> (Inr (fail t dec (''no such process: '' @ int_str pid)), called s)
     | ProcDenied \<Rightarrow> (Inr (fail t dec (''access denied for pid '' @ int_str pid)), called s)
     | ProcNamed name \<Rightarrow>
       (case send_signal env force pid (called s) of
          (SigDenied, s1) \<Rightarrow> (Inr (fail t dec (''access denied for pid '' @ int_str pid)), s1)
        | (SigGone e, s1) \<Rightarrow> (Inl e, s1)
        | (SigOk, s1) \<Rightarrow>
          (if force then kill_result t dec pid name ''SIGKILL'' (en_dead env (hs_calls s1) pid) s1
           else if en_term env (hs_calls s1) pid then kill_result t dec pid name ''SIGTERM'' (en_dead env (hs_calls s1) pid) (called s1)
           else (case send_signal env True pid (called s1) of
               (SigDenied, s2) \<Rightarrow> (Inr (fail t dec (''access denied for pid '' @ int_str pid)), s2)
             | (SigGone e, s2) \<Rightarrow> (Inl e, s2)
             | (SigOk, s2) \<Rightarrow> kill_result t dec pid name ''SIGKILL'' (en_dead env (hs_calls s2) pid) s2))))"

definition kill_os :: "'b env \<Rightarrow> task \<Rightarrow> string \<Rightarrow> int \<Rightarrow> bool \<Rightarrow> 'b host \<Rightarrow> (exn + result) \<times> 'b host" where
  "kill_os env t dec pid force s = (case send_signal env force pid s of
       (SigDenied, s1) \<Rightarrow> (Inr (fail t dec (''access denied for pid '' @ int_str pid)), s1)
     | (SigGone e, s1) \<Rightarrow> (Inr (fail t dec (''no such process: '' @ int_str pid)), s1)
     | (SigOk, s1) \<Rightarrow> kill_result t dec pid [] (if force then ''SIGKILL'' else ''SIGTERM'') True s1)"

definition exec_process_kill :: "'b env \<Rightarrow> task \<Rightarrow> string \<Rightarrow> 'b host \<Rightarrow> (exn + result) \<times> 'b host" where
  "exec_process_kill env t dec s = (case py_int (dget (t_payload t) ''pid'') of
       None \<Rightarrow> (Inr (fail t dec ''pid must be an integer''), s)
     | Some pid \<Rightarrow>
       if pid \<le> 1 then (Inr (fail t dec (''refusing to kill pid '' @ int_str pid)), s)
       else if pid = en_getpid env then (Inr (fail t dec ''refusing to kill the harness itself''), s)
       else (case to_float (dget_or (t_payload t) ''timeout_sec'' (PInt 5)) of Inl e \<Rightarrow> (Inl e, s) | Inr _ \<Rightarrow>
         (let force = truthy (dget_or (t_payload t) ''force'' (PBool False)) in
          if en_psutil env then kill_psutil env t dec pid force s else kill_os env t dec pid force s)))"

definition gate_process_kill :: "'b env \<Rightarrow> task \<Rightarrow> 'b host \<Rightarrow> (exn + result) \<times> 'b host" where
  "gate_process_kill env t s = (case gate env t (''process_kill '' @ py_str (dget (t_payload t) ''pid'')) [] s of
       (Some early, s1) \<Rightarrow> (Inr early, s1) | (None, s1) \<Rightarrow> exec_process_kill env t ''auto'' s1)"

subsection \<open>What may be signalled\<close>

fun signal_of :: "event \<Rightarrow> int option" where
  "signal_of (EvTerm p) = Some p" | "signal_of (EvKill p) = Some p" | "signal_of _ = None"

lemma send_signal_trace: "hs_trace (snd (send_signal env f p s)) = hs_trace s @ [if f then EvKill p else EvTerm p]"
  by (simp add: send_signal_def note_ev_def called_def)

lemma kill_result_trace: "\<exists>a. hs_trace (snd (kill_result t d p n g k s)) = hs_trace s @ [a] \<and> signal_of a = None"
  by (simp add: kill_result_def audit_ev_def note_ev_def)

lemma called_trace [simp]: "hs_trace (called s) = hs_trace s"
  by (simp add: called_def)

definition signals :: "'b host \<Rightarrow> event list" where
  "signals s = filter (\<lambda>e. signal_of e \<noteq> None) (hs_trace s)"

lemma signals_simps [simp]: "signals (called s) = signals s"
  "signals (note_ev e s) = signals s @ (if signal_of e = None then [] else [e])"
  "signals (audit_ev a b c d m s) = signals s"
  by (simp_all add: signals_def called_def note_ev_def audit_ev_def)

lemma signals_kill_result [simp]: "signals (snd (kill_result t d p n g k s)) = signals s"
  by (simp add: kill_result_def)

text \<open>\<open>process_kill\<close> signals at most the process that was asked for, never process 0 or 1, a group or the
  harness itself; without \<open>force\<close> SIGTERM comes first and SIGKILL only after it.\<close>

theorem process_kill_guarded:
  "signals (snd (exec_process_kill env t dec s)) = signals s \<or>
   (\<exists>pid. py_int (dget (t_payload t) ''pid'') = Some pid \<and> 1 < pid \<and> pid \<noteq> en_getpid env \<and>
      ((truthy (dget_or (t_payload t) ''force'' (PBool False)) \<and> signals (snd (exec_process_kill env t dec s)) = signals s @ [EvKill pid]) \<or>
       (\<not> truthy (dget_or (t_payload t) ''force'' (PBool False)) \<and>
         signals (snd (exec_process_kill env t dec s)) \<in> {signals s @ [EvTerm pid], signals s @ [EvTerm pid, EvKill pid]})))"
proof -
  have ps: "signals (snd (kill_psutil env t dec pid f s)) = signals s \<or>
      (f \<and> signals (snd (kill_psutil env t dec pid f s)) = signals s @ [EvKill pid]) \<or>
      (\<not> f \<and> signals (snd (kill_psutil env t dec pid f s)) \<in> {signals s @ [EvTerm pid], signals s @ [EvTerm pid, EvKill pid]})" for pid f
    by (cases f) (auto simp: kill_psutil_def send_signal_def split: proc_view.splits sig_reply.splits prod.splits)
  have os: "(f \<and> signals (snd (kill_os env t dec pid f s)) = signals s @ [EvKill pid]) \<or>
      (\<not> f \<and> signals (snd (kill_os env t dec pid f s)) = signals s @ [EvTerm pid])" for pid f
    by (cases f) (auto simp: kill_os_def send_signal_def split: sig_reply.splits)
  show ?thesis
  proof (cases "py_int (dget (t_payload t) ''pid'')")
    case (Some pid)
    have "signals (snd (exec_process_kill env t dec s)) = signals s \<or> (1 < pid \<and> pid \<noteq> en_getpid env \<and>
        (snd (exec_process_kill env t dec s) = snd (kill_psutil env t dec pid (truthy (dget_or (t_payload t) ''force'' (PBool False))) s) \<or>
         snd (exec_process_kill env t dec s) = snd (kill_os env t dec pid (truthy (dget_or (t_payload t) ''force'' (PBool False))) s)))"
      by (auto simp: exec_process_kill_def Some Let_def split: sum.splits)
    then show ?thesis using ps[where pid = pid] os[where pid = pid] Some by (metis insertCI)
  qed (simp add: exec_process_kill_def)
qed

end
