(* ===== verification/Fabric.thy ===== *)
theory Fabric
  imports Shellstream Sessions Watches Search Processes Netlocal
begin

text \<open>
  \<open>ExecutorV2.run\<close> and \<open>resume_after_confirm\<close>: the dispatch of the fourteen kinds of \<open>agent/executor_v2.py\<close> to
  their handlers, the conversion of exceptions to results, and what holds of the executor as a whole: nothing
  reaches the outside without the policy's consent.
\<close>

definition V2_KINDS :: "string list" where
  "V2_KINDS = [''shell_stream'', ''shell_session_open'', ''shell_session_write'', ''shell_session_close'', ''grep'', ''glob'',
     ''patch_file'', ''watch_start'', ''watch_poll'', ''watch_stop'', ''process_list'', ''process_kill'', ''http_local'', ''read_file_chunked'']"

definition handles :: "string \<Rightarrow> bool" where
  "handles kind = (kind \<in> set V2_KINDS)"

type_synonym 'b handler = "task \<Rightarrow> 'b host \<Rightarrow> (exn + result) \<times> 'b host"

definition gated_handlers :: "'b env \<Rightarrow> (string \<times> 'b handler) list" where
  "gated_handlers env =
     [(''shell_stream'', gate_shell_stream env), (''shell_session_open'', gate_session_open env),
      (''shell_session_write'', gate_session_write env), (''shell_session_close'', session_close env),
      (''grep'', gate_grep env), (''glob'', gate_glob env), (''patch_file'', gate_patch_file env),
      (''watch_start'', gate_watch_start env), (''watch_poll'', watch_poll), (''watch_stop'', watch_stop),
      (''process_list'', gate_process_list env), (''process_kill'', gate_process_kill env),
      (''http_local'', gate_http_local env), (''read_file_chunked'', gate_read_chunked env)]"

definition exec_handlers :: "'b env \<Rightarrow> (string \<times> 'b handler) list" where
  "exec_handlers env =
     [(''shell_stream'', \<lambda>t. exec_shell_stream env t ''approved''), (''shell_session_open'', \<lambda>t. exec_session_open env t ''approved''),
      (''shell_session_write'', \<lambda>t. exec_session_write env t ''approved''), (''shell_session_close'', session_close env),
      (''grep'', \<lambda>t. exec_grep env t ''approved''), (''glob'', \<lambda>t. exec_glob env t ''approved''),
      (''patch_file'', \<lambda>t. exec_patch_file env t ''approved''), (''watch_start'', \<lambda>t. exec_watch_start env t ''approved''),
      (''watch_poll'', watch_poll), (''watch_stop'', watch_stop), (''process_list'', \<lambda>t. exec_process_list env t ''approved''),
      (''process_kill'', \<lambda>t. exec_process_kill env t ''approved''), (''http_local'', \<lambda>t. exec_http_local env t ''approved''),
      (''read_file_chunked'', \<lambda>t. exec_read_chunked env t ''approved'')]"

text \<open>An exception that escapes a handler becomes a failed result.\<close>

definition caught :: "task \<Rightarrow> string \<Rightarrow> (exn + result) \<times> 'b host \<Rightarrow> result \<times> 'b host" where
  "caught t dec rs = (case rs of (Inl e, s) \<Rightarrow> (fail t dec (exn_text e), s) | (Inr r, s) \<Rightarrow> (r, s))"

definition run :: "'b env \<Rightarrow> task \<Rightarrow> 'b host \<Rightarrow> result \<times> 'b host" where
  "run env t s =
     (if cancel_requested s (t_id t)
      then ((fail t ''cancelled'' ''cancelled before execution'')\<lparr>r_metadata := [(''cancelled'', PBool True)]\<rparr>, clear_cancel (t_id t) s)
      else (case map_of (gated_handlers env) (t_kind t) of
          None \<Rightarrow> (fail t ''unknown_kind'' (''unknown kind: '' @ t_kind t), s)
        | Some h \<Rightarrow> caught t ''error'' (h t s)))"

definition resume_after_confirm :: "'b env \<Rightarrow> task \<Rightarrow> bool \<Rightarrow> 'b host \<Rightarrow> result \<times> 'b host" where
  "resume_after_confirm env t approved s =
     (if \<not> approved then (fail t ''denied'' ''confirmation denied by user'', s)
      else (case map_of (exec_handlers env) (t_kind t) of
          None \<Rightarrow> (fail t ''unknown_kind'' (''unknown kind: '' @ t_kind t), s)
        | Some h \<Rightarrow> caught t ''approved'' (h t s)))"

lemma handlers_complete: "map fst (gated_handlers env) = V2_KINDS" "map fst (exec_handlers env) = V2_KINDS"
  by (simp_all add: gated_handlers_def exec_handlers_def V2_KINDS_def)

subsection \<open>Nothing happens without consent\<close>

definition outside :: "'b host \<Rightarrow> event list \<times> tree" where
  "outside s = (filter effect (hs_trace s), hs_fs s)"

lemma outside_simps [simp]:
  "outside (called s) = outside s" "\<not> effect e \<Longrightarrow> outside (note_ev e s) = outside s"
  "outside (s\<lparr>hs_vault := v\<rparr>) = outside s" "outside (s\<lparr>hs_confirm := c\<rparr>) = outside s" "outside (s\<lparr>hs_watches := w\<rparr>) = outside s"
  "outside (s\<lparr>hs_cancelled := cs\<rparr>) = outside s" "outside (s\<lparr>hs_running := r\<rparr>) = outside s" "outside (s\<lparr>hs_sessions := x\<rparr>) = outside s"
  by (simp_all add: outside_def called_def note_ev_def)

lemma gate_refuses:
  assumes "fst (decide (penv_of env s) (en_policy env) c ps) \<noteq> AUTO"
  shows "\<exists>r. fst (gate env t c ps s) = Some r" "outside (snd (gate env t c ps s)) = outside s"
  using assms by (auto simp: gate_def judge_def park_def Let_def split: decision.splits prod.splits)

text \<open>The command and the paths the policy is asked about.\<close>

definition file_verb :: "string \<Rightarrow> (string \<times> string) option" where
  "file_verb kind = map_of [(''grep'', ''grep'', ''.''), (''glob'', ''glob'', ''.''), (''patch_file'', ''patch'', []),
     (''watch_start'', ''watch_start'', ''.''), (''read_file_chunked'', ''read_chunk'', [])] kind"

definition gate_input :: "'b env \<Rightarrow> task \<Rightarrow> exn + string \<times> string list" where
  "gate_input env t = (case file_verb (t_kind t) of
     Some (verb, dflt) \<Rightarrow> and_then (path_arg env t dflt) (\<lambda>p. Inr (verb @ '' '' @ path_text p, [path_text p]))
   | None \<Rightarrow>
     if t_kind t = ''process_list'' then Inr (''process_list'', [])
     else if t_kind t = ''process_kill'' then Inr (''process_kill '' @ py_str (dget (t_payload t) ''pid''), [])
     else if t_kind t = ''http_local'' then and_then (method_of t) (\<lambda>m.
       Inr (''http_local '' @ m @ '' '' @ py_str (dget_or (t_payload t) ''url'' (PStr [])), []))
     else and_then (need_attr ''strip'' (if t_kind t = ''shell_session_open'' then session_command env t
         else if t_kind t = ''shell_stream'' then dget_or (t_payload t) ''command'' (PStr [])
         else dget_or (t_payload t) ''input'' (PStr []))) (\<lambda>c.
       and_then (paths_of (dget_or (t_payload t) ''paths'' (PList []))) (\<lambda>ps.
       Inr (if t_kind t = ''shell_session_write'' then strip c else c, ps))))"

definition verdict_of :: "'b env \<Rightarrow> task \<Rightarrow> 'b host \<Rightarrow> decision option" where
  "verdict_of env t s = (case gate_input env t of Inl e \<Rightarrow> None
     | Inr (c, ps) \<Rightarrow> Some (fst (decide (penv_of env s) (en_policy env) c ps)))"

text \<open>One lemma per handler: without \<open>AUTO\<close> (for a session write: with \<open>BLOCK\<close>) the outside is as it was.\<close>

lemma gate_path_refuses:
  assumes "\<And>p. path_arg env t dflt = Inr p \<Longrightarrow>
    fst (decide (penv_of env s) (en_policy env) (verb @ '' '' @ path_text p) [path_text p]) \<noteq> AUTO"
  shows "outside (snd (gate_path env t verb dflt ex s)) = outside s"
proof (cases "path_arg env t dflt")
  case (Inr p)
  let ?g = "gate env t (verb @ '' '' @ path_text p) [path_text p] s"
  obtain r where "fst ?g = Some r" "outside (snd ?g) = outside s" using gate_refuses[OF assms[OF Inr], of t] by blast
  then show ?thesis using Inr by (cases ?g) (simp add: gate_path_def)
qed (simp add: gate_path_def)

lemma gate_then:
  assumes "fst (decide (penv_of env s) (en_policy env) c ps) \<noteq> AUTO"
  shows "outside (snd (case gate env t c ps s of (Some early, s1) \<Rightarrow> (Inr early, s1) | (None, s1) \<Rightarrow> ex s1)) = outside s"
proof -
  obtain r where "fst (gate env t c ps s) = Some r" "outside (snd (gate env t c ps s)) = outside s"
    using gate_refuses[OF assms, of t] by blast
  then show ?thesis by (cases "gate env t c ps s") simp
qed

lemma outside_caught [simp]: "outside (snd (caught t d x)) = outside (snd x)"
  by (simp add: caught_def split: prod.splits sum.splits)

lemma watch_poll_outside [simp]: "outside (snd (watch_poll t s)) = outside s"
  by (auto simp: watch_poll_def set_watch_def split: sum.splits option.splits prod.splits)

lemma watch_stop_outside [simp]: "outside (snd (watch_stop t s)) = outside s"
  by (auto simp: watch_stop_def split: sum.splits option.splits prod.splits)

subsection \<open>What needs consent\<close>

lemma verdict_auto: "gate_input env t = Inr (c, ps) \<Longrightarrow> verdict_of env t s \<noteq> Some AUTO \<Longrightarrow>
    fst (decide (penv_of env s) (en_policy env) c ps) \<noteq> AUTO"
  by (simp add: verdict_of_def)

lemma file_kinds_refuse:
  assumes "file_verb (t_kind t) = Some (verb, dflt)" "verdict_of env t s \<noteq> Some AUTO"
  shows "outside (snd (gate_path env t verb dflt ex s)) = outside s"
  by (rule gate_path_refuses) (use assms in \<open>simp add: verdict_of_def gate_input_def\<close>)

lemma write_blocked:
  assumes "t_kind t = ''shell_session_write''" "verdict_of env t s \<noteq> Some AUTO" "verdict_of env t s \<noteq> Some CONFIRM"
  shows "outside (snd (gate_session_write env t s)) = outside s"
proof (cases "need_attr ''strip'' (dget_or (t_payload t) ''input'' (PStr []))")
  case (Inr c)
  show ?thesis
  proof (cases "paths_of (dget_or (t_payload t) ''paths'' (PList []))")
    case (Inr ps)
    have "fst (decide (penv_of env s) (en_policy env) (strip c) ps) \<notin> {AUTO, CONFIRM}"
      using assms \<open>need_attr _ _ = Inr c\<close> Inr by (auto simp: verdict_of_def gate_input_def file_verb_def)
    then have "fst (decide (penv_of env s) (en_policy env) (strip c) ps) = BLOCK"
      by (cases "fst (decide (penv_of env s) (en_policy env) (strip c) ps)") auto
    then show ?thesis using \<open>need_attr _ _ = Inr c\<close> Inr by (auto simp: gate_session_write_def judge_def Let_def split: prod.splits)
  qed (use Inr in \<open>simp add: gate_session_write_def\<close>)
qed (simp add: gate_session_write_def)

lemma stream_refuses:
  assumes "t_kind t = ''shell_stream''" "verdict_of env t s \<noteq> Some AUTO"
  shows "outside (snd (gate_shell_stream env t s)) = outside s"
proof (cases "need_attr ''strip'' (dget_or (t_payload t) ''command'' (PStr []))")
  case (Inr c)
  show ?thesis
  proof (cases "paths_of (dget_or (t_payload t) ''paths'' (PList []))")
    case (Inr ps)
    have "fst (decide (penv_of env s) (en_policy env) c ps) \<noteq> AUTO"
      using assms \<open>need_attr _ _ = Inr c\<close> Inr by (auto simp: verdict_of_def gate_input_def file_verb_def)
    then show ?thesis using \<open>need_attr _ _ = Inr c\<close> Inr gate_then by (simp add: gate_shell_stream_def)
  qed (use Inr in \<open>simp add: gate_shell_stream_def\<close>)
qed (simp add: gate_shell_stream_def)

lemma open_refuses:
  assumes "t_kind t = ''shell_session_open''" "verdict_of env t s \<noteq> Some AUTO"
  shows "outside (snd (gate_session_open env t s)) = outside s"
proof (cases "need_attr ''strip'' (session_command env t)")
  case (Inr c)
  show ?thesis
  proof (cases "paths_of (dget_or (t_payload t) ''paths'' (PList []))")
    case (Inr ps)
    have "fst (decide (penv_of env s) (en_policy env) c ps) \<noteq> AUTO"
      using assms \<open>need_attr _ _ = Inr c\<close> Inr by (auto simp: verdict_of_def gate_input_def file_verb_def)
    then show ?thesis using \<open>need_attr _ _ = Inr c\<close> Inr gate_then by (simp add: gate_session_open_def)
  qed (use Inr in \<open>simp add: gate_session_open_def\<close>)
qed (simp add: gate_session_open_def)

lemma process_refuses:
  assumes "verdict_of env t s \<noteq> Some AUTO"
  shows "t_kind t = ''process_list'' \<Longrightarrow> outside (snd (gate_process_list env t s)) = outside s"
    "t_kind t = ''process_kill'' \<Longrightarrow> outside (snd (gate_process_kill env t s)) = outside s"
  using assms gate_then by (auto simp: gate_process_list_def gate_process_kill_def verdict_of_def gate_input_def file_verb_def)

lemma http_refuses:
  assumes "t_kind t = ''http_local''" "verdict_of env t s \<noteq> Some AUTO"
  shows "outside (snd (gate_http_local env t s)) = outside s"
proof (cases "method_of t")
  case (Inr m)
  then have "fst (decide (penv_of env s) (en_policy env) (''http_local '' @ m @ '' '' @ py_str (dget_or (t_payload t) ''url'' (PStr []))) []) \<noteq> AUTO"
    using assms by (auto simp: verdict_of_def gate_input_def file_verb_def)
  then show ?thesis using Inr gate_then by (simp add: gate_http_local_def)
qed (simp add: gate_http_local_def)

lemma run_refuses:
  assumes "t_kind t \<noteq> ''shell_session_close''" "verdict_of env t s \<noteq> Some AUTO"
    "t_kind t = ''shell_session_write'' \<longrightarrow> verdict_of env t s \<noteq> Some CONFIRM"
  shows "outside (snd (run env t s)) = outside s"
proof (cases "cancel_requested s (t_id t)")
  case True
  then show ?thesis by (simp add: run_def clear_cancel_def)
next
  case False
  show ?thesis
  proof (cases "map_of (gated_handlers env) (t_kind t)")
    case None
    then show ?thesis using False by (simp add: run_def)
  next
    case (Some h)
    then have mem: "(t_kind t, h) \<in> set (gated_handlers env)" by (rule map_of_SomeD)
    have "outside (snd (h t s)) = outside s"
      using mem assms stream_refuses open_refuses write_blocked[of t env s] process_refuses http_refuses
        file_kinds_refuse[of t "''grep''" "''.''"] file_kinds_refuse[of t "''glob''" "''.''"] file_kinds_refuse[of t "''patch''" "[]"]
        file_kinds_refuse[of t "''watch_start''" "''.''"] file_kinds_refuse[of t "''read_chunk''" "[]"]
      unfolding gated_handlers_def
      by (auto simp: gate_grep_def gate_glob_def gate_patch_file_def gate_watch_start_def gate_read_chunked_def file_verb_def)
    then show ?thesis using False Some by (simp add: run_def)
  qed
qed

text \<open>Nothing reaches the outside (no process, signal, input, file or request) unless the policy answers \<open>AUTO\<close>
  to what the task asks for; the exceptions are closing a session, and typing into one, which only the block
  rules stop.\<close>

theorem effects_need_consent:
  "outside (snd (run env t s)) = outside s \<or> verdict_of env t s = Some AUTO \<or> t_kind t = ''shell_session_close'' \<or>
   (t_kind t = ''shell_session_write'' \<and> verdict_of env t s = Some CONFIRM)"
  using run_refuses by blast

end
