(* ===== verification/Contract.thy ===== *)
theory Contract
  imports Tasks
begin

text \<open>
  What the callers of an executor rely on, whichever kinds it serves: it answers under the task's id, a refused task
  has changed nothing that an observer can see, and a denied confirmation changes nothing at all. An execution may also
  end in an exception. \<open>seen\<close> is what can be observed of the executor's state.
\<close>

definition REFUSALS :: "string list" where
  "REFUSALS = [''block'', ''confirm_required'', ''unknown_kind'', ''denied'']"

definition total :: "result \<times> 'w \<Rightarrow> ('e + result) \<times> 'w" where
  "total rw = (Inr (fst rw), snd rw)"

lemma total_simps [simp]: "fst (total rw) = Inr (fst rw)" "snd (total rw) = snd rw"
  by (simp_all add: total_def)

fun exec_all :: "('t \<Rightarrow> 's \<Rightarrow> ('e + result) \<times> 's) \<Rightarrow> 't list \<Rightarrow> 's \<Rightarrow> ('e + result) list \<times> 's" where
  "exec_all f [] s = ([], s)"
| "exec_all f (t # ts) s = (case f t s of (r, s') \<Rightarrow> (case exec_all f ts s' of (rs, s'') \<Rightarrow> (r # rs, s'')))"

definition denial :: "string \<Rightarrow> result" where
  "denial i = (mk_result i False ''denied'')\<lparr>r_error := ''confirmation denied by user''\<rparr>"

definition refusal :: "'e + result \<Rightarrow> bool" where
  "refusal x = (case x of Inl e \<Rightarrow> False | Inr r \<Rightarrow> r_decision r \<in> set REFUSALS)"

definition answers :: "string \<Rightarrow> 'e + result \<Rightarrow> bool" where
  "answers i x = (case x of Inl e \<Rightarrow> True | Inr r \<Rightarrow> r_task_id r = i)"

lemma refusal_simps [simp]: "\<not> refusal (Inl e)" "refusal (Inr r) = (r_decision r \<in> set REFUSALS)"
  by (simp_all add: refusal_def)

lemma answers_simps [simp]: "answers i (Inl e)" "answers i (Inr r) = (r_task_id r = i)"
  by (simp_all add: answers_def)

locale task_executor =
  fixes ident :: "'t \<Rightarrow> string"
    and exec :: "'t \<Rightarrow> 's \<Rightarrow> ('e + result) \<times> 's"
    and resume :: "'t \<Rightarrow> bool \<Rightarrow> 's \<Rightarrow> result \<times> 's"
    and seen :: "'s \<Rightarrow> 'o"
  assumes exec_id: "answers (ident t) (fst (exec t s))"
    and exec_refused: "refusal (fst (exec t s)) \<Longrightarrow> seen (snd (exec t s)) = seen s"
    and resume_id: "r_task_id (fst (resume t ok s)) = ident t"
    and resume_denied: "resume t False s = (denial (ident t), s)"
begin

lemma all_ids: "list_all2 (\<lambda>t. answers (ident t)) ts (fst (exec_all exec ts s))"
proof (induction ts arbitrary: s)
  case (Cons t ts)
  then show ?case using exec_id[of t s] by (simp add: case_prod_beta)
qed simp

lemma all_refused: "list_all refusal (fst (exec_all exec ts s)) \<Longrightarrow> seen (snd (exec_all exec ts s)) = seen s"
proof (induction ts arbitrary: s)
  case (Cons t ts)
  have "refusal (fst (exec t s))" using Cons.prems by (simp add: case_prod_beta)
  then have "seen (snd (exec t s)) = seen s" by (rule exec_refused)
  moreover have "seen (snd (exec_all exec ts (snd (exec t s)))) = seen (snd (exec t s))"
    by (rule Cons.IH) (use Cons.prems in \<open>simp add: case_prod_beta\<close>)
  ultimately show ?case by (simp add: case_prod_beta)
qed simp

lemma denied_unseen: "seen (snd (resume t False s)) = seen s"
  by (simp add: resume_denied)

end

end
