(* ===== verification/Answers.thy ===== *)
theory Answers
  imports Fabric Contract
begin

text \<open>
  What the v2 executor answers: every handler replies under the task's id and with the decision it was called with, so a
  refusal (\<open>block\<close>, \<open>confirm_required\<close>, \<open>unknown_kind\<close>, \<open>denied\<close>) always means that nothing has happened outside. The
  executor of \<open>agent/executor_v2.py\<close> meets the contract of the theory Contract.
\<close>

definition replies :: "task \<Rightarrow> string list \<Rightarrow> (exn + result) \<times> 's \<Rightarrow> bool" where
  "replies t decs rs = (case fst rs of Inl e \<Rightarrow> True | Inr r \<Rightarrow> r_task_id r = t_id t \<and> r_decision r \<in> set decs)"

lemma fail_sel [simp]: "r_task_id (fail t d e) = t_id t" "r_decision (fail t d e) = d" "r_ok (fail t d e) = False" "r_error (fail t d e) = e"
  by (simp_all add: fail_def)

lemma replies_simps [simp]: "replies t ds (Inl e, s)" "replies t ds (Inr r, s) = (r_task_id r = t_id t \<and> r_decision r \<in> set ds)"
  by (simp_all add: replies_def)

lemma r_grep: "replies t [dec] (exec_grep env t dec s)"
  by (auto simp: exec_grep_def Let_def split: sum.splits option.splits prod.splits)

lemma r_glob: "replies t [dec] (exec_glob env t dec s)"
  by (auto simp: exec_glob_def Let_def split: sum.splits option.splits prod.splits)

lemma r_patch: "replies t [dec] (exec_patch_file env t dec s)"
  by (auto simp: exec_patch_file_def patch_ok_def Let_def split: sum.splits option.splits prod.splits tree.splits edit_fail.splits)

lemma r_read: "replies t [dec] (exec_read_chunked env t dec s)"
  by (auto simp: exec_read_chunked_def Let_def split: sum.splits option.splits prod.splits)

lemma r_watch: "replies t [dec] (exec_watch_start env t dec s)"
  by (auto simp: exec_watch_start_def Let_def split: sum.splits option.splits prod.splits tree.splits)

lemma r_poll: "replies t [''auto''] (watch_poll t s)" "replies t [''auto''] (watch_stop t s)"
  by (auto simp: watch_poll_def watch_stop_def Let_def split: sum.splits option.splits prod.splits)

lemma r_list: "replies t [dec] (exec_process_list env t dec s)"
  by (auto simp: exec_process_list_def Let_def split: sum.splits option.splits prod.splits)

lemma r_kill: "replies t [dec] (exec_process_kill env t dec s)"
  by (auto simp: exec_process_kill_def kill_psutil_def kill_os_def kill_result_def Let_def split: sum.splits option.splits prod.splits proc_view.splits sig_reply.splits)

lemma r_http: "replies t [dec] (exec_http_local env t dec s)"
  by (auto simp: exec_http_local_def http_result_def Let_def split: bool.splits sum.splits option.splits prod.splits)

lemma r_close: "replies t [''auto''] (session_close env t s)"
  by (auto simp: session_close_def Let_def split: sum.splits option.splits prod.splits)

lemma r_open: "replies t [dec] (exec_session_open env t dec s)"
  by (auto simp: exec_session_open_def Let_def split: sum.splits option.splits prod.splits)

lemma r_write: "replies t [dec] (exec_session_write env t dec s)"
  by (auto simp: exec_session_write_def drained_def Let_def split: sum.splits option.splits prod.splits)

lemma r_stream: "replies t [dec, ''cancelled''] (exec_shell_stream env t dec s)"
  by (auto simp: exec_shell_stream_def stream_error_def finish_stream_def stream_result_def Let_def split: sum.splits option.splits prod.splits)


subsection \<open>The contract\<close>

lemma refusals [simp]: "''auto'' \<notin> set REFUSALS" "''error'' \<notin> set REFUSALS" "''approved'' \<notin> set REFUSALS" "''cancelled'' \<notin> set REFUSALS"
  by (simp_all add: REFUSALS_def)

text \<open>A handler that either leaves the outside alone or answers with one of \<open>ds\<close>.\<close>

definition guarded :: "task \<Rightarrow> string list \<Rightarrow> 'b host \<Rightarrow> (exn + result) \<times> 'b host \<Rightarrow> bool" where
  "guarded t ds s rs = (outside (snd rs) = outside s \<and> (case fst rs of Inl e \<Rightarrow> True | Inr r \<Rightarrow> r_task_id r = t_id t) \<or> replies t ds rs)"

lemma guarded_gate:
  assumes "\<And>s1. replies t ds (ex s1)"
  shows "guarded t ds s (case gate env t c ps s of (Some early, s1) \<Rightarrow> (Inr early, s1) | (None, s1) \<Rightarrow> ex s1)"
proof (cases "fst (decide (penv_of env s) (en_policy env) c ps) = AUTO")
  case True
  then have "fst (gate env t c ps s) = None" by (auto simp: gate_def judge_def Let_def split: prod.splits)
  then show ?thesis using assms by (cases "gate env t c ps s") (simp add: guarded_def)
next
  case False
  have "\<And>r. fst (gate env t c ps s) = Some r \<Longrightarrow> r_task_id r = t_id t"
    by (auto simp: gate_def judge_def park_def Let_def split: decision.splits prod.splits)
  then show ?thesis using gate_refuses[OF False, of t] by (cases "gate env t c ps s") (auto simp: guarded_def)
qed

lemma guarded_error: "fst rs = Inl e \<Longrightarrow> outside (snd rs) = outside s \<Longrightarrow> guarded t ds s rs"
  by (simp add: guarded_def)

lemma guarded_path: "(\<And>s1. replies t ds (ex t ''auto'' s1)) \<Longrightarrow> guarded t ds s (gate_path env t verb dflt ex s)"
  unfolding gate_path_def by (cases "path_arg env t dflt") (simp_all add: guarded_gate guarded_error)

lemma guarded_replies: "replies t ds rs \<Longrightarrow> guarded t ds s rs"
  by (simp add: guarded_def)

lemma guarded_mono: "guarded t ds s rs \<Longrightarrow> set ds \<subseteq> set ds' \<Longrightarrow> guarded t ds' s rs"
  by (auto simp: guarded_def replies_def split: sum.splits)

lemma shell_guarded:
  "guarded t [''auto'', ''cancelled''] s (gate_shell_stream env t s)"
  "guarded t [''auto''] s (gate_session_open env t s)"
  "guarded t [''auto''] s (gate_session_write env t s)"
  "guarded t [''auto''] s (session_close env t s)"
proof -
  show "guarded t [''auto'', ''cancelled''] s (gate_shell_stream env t s)"
    unfolding gate_shell_stream_def by (auto intro: guarded_error guarded_gate r_stream split: sum.split)
  show "guarded t [''auto''] s (gate_session_open env t s)"
    unfolding gate_session_open_def by (auto intro: guarded_error guarded_gate r_open split: sum.split)
  show "guarded t [''auto''] s (gate_session_write env t s)"
    by (auto simp: gate_session_write_def judge_def Let_def intro: guarded_error guarded_replies r_write
      split: sum.split prod.split) (simp_all add: guarded_def)
qed (rule guarded_replies[OF r_close])

lemma file_guarded:
  "guarded t [''auto''] s (gate_grep env t s)" "guarded t [''auto''] s (gate_glob env t s)"
  "guarded t [''auto''] s (gate_patch_file env t s)" "guarded t [''auto''] s (gate_read_chunked env t s)"
  "guarded t [''auto''] s (gate_watch_start env t s)"
  unfolding gate_grep_def gate_glob_def gate_patch_file_def gate_read_chunked_def gate_watch_start_def
  by (rule guarded_path; rule r_grep r_glob r_patch r_read r_watch)+

lemma other_guarded:
  "guarded t [''auto''] s (watch_poll t s)" "guarded t [''auto''] s (watch_stop t s)"
  "guarded t [''auto''] s (gate_process_list env t s)" "guarded t [''auto''] s (gate_process_kill env t s)"
  "guarded t [''auto''] s (gate_http_local env t s)"
  unfolding gate_process_list_def gate_process_kill_def gate_http_local_def
  by (auto intro: guarded_error guarded_gate guarded_replies r_poll r_list r_kill r_http split: sum.split)

lemmas handler_guards = shell_guarded file_guarded other_guarded

lemma handlers_guarded:
  assumes "(k, h) \<in> set (gated_handlers env)"
  shows "guarded t [''auto'', ''cancelled''] s (h t s)"
  using assms unfolding gated_handlers_def by (auto intro: handler_guards handler_guards[THEN guarded_mono])

lemma exec_handlers_reply:
  assumes "(k, h) \<in> set (exec_handlers env)"
  shows "replies t [''auto'', ''approved'', ''cancelled''] (h t s)"
proof -
  have mono: "replies t ds rs \<Longrightarrow> set ds \<subseteq> set [''auto'', ''approved'', ''cancelled''] \<Longrightarrow>
      replies t [''auto'', ''approved'', ''cancelled''] rs" for ds and rs :: "(exn + result) \<times> 'a host"
    by (auto simp: replies_def split: sum.splits)
  show ?thesis
    using assms unfolding exec_handlers_def
    by (auto intro: r_stream[THEN mono] r_open[THEN mono] r_write[THEN mono] r_close[THEN mono] r_grep[THEN mono] r_glob[THEN mono]
      r_patch[THEN mono] r_watch[THEN mono] r_poll[THEN mono] r_list[THEN mono] r_kill[THEN mono] r_http[THEN mono] r_read[THEN mono])
qed

lemma run_answers:
  "r_task_id (fst (run env t s)) = t_id t"
  "r_decision (fst (run env t s)) \<in> set REFUSALS \<Longrightarrow> outside (snd (run env t s)) = outside s"
proof -
  have "r_task_id (fst (run env t s)) = t_id t \<and>
      (r_decision (fst (run env t s)) \<in> set REFUSALS \<longrightarrow> outside (snd (run env t s)) = outside s)"
  proof (cases "cancel_requested s (t_id t)")
    case False
    show ?thesis
    proof (cases "map_of (gated_handlers env) (t_kind t)")
      case (Some h)
      have g: "guarded t [''auto'', ''cancelled''] s (h t s)" by (rule handlers_guarded[OF map_of_SomeD[OF Some]])
      show ?thesis
      proof (cases "fst (h t s)")
        case (Inr r)
        then have "r_task_id r = t_id t" "r_decision r \<in> set REFUSALS \<Longrightarrow> outside (snd (h t s)) = outside s"
          using g by (auto simp: guarded_def replies_def)
        then show ?thesis using False Some Inr by (cases "h t s") (auto simp: run_def caught_def)
      next
        case (Inl e)
        then show ?thesis using False Some by (cases "h t s") (auto simp: run_def caught_def)
      qed
    qed (use False in \<open>simp add: run_def\<close>)
  qed (simp add: run_def clear_cancel_def)
  then show "r_task_id (fst (run env t s)) = t_id t"
    "r_decision (fst (run env t s)) \<in> set REFUSALS \<Longrightarrow> outside (snd (run env t s)) = outside s" by blast+
qed

lemma resume_answers: "r_task_id (fst (resume_after_confirm env t ok s)) = t_id t"
proof (cases "map_of (exec_handlers env) (t_kind t)")
  case (Some h)
  then have "replies t [''auto'', ''approved'', ''cancelled''] (h t s)" by (rule exec_handlers_reply[OF map_of_SomeD])
  then show ?thesis using Some by (cases "h t s") (auto simp: resume_after_confirm_def caught_def split: sum.splits)
qed (simp add: resume_after_confirm_def)

lemma resume_refused: "resume_after_confirm env t False s = (denial (t_id t), s)"
  by (simp add: resume_after_confirm_def denial_def fail_def)

interpretation v2: task_executor t_id "\<lambda>t s. total (run env t s)" "resume_after_confirm env" outside for env
  by unfold_locales (simp_all add: run_answers resume_answers resume_refused)

end
