(* ===== verification/Router.thy ===== *)
theory Router
  imports Subtasks Answers Files
begin

text \<open>
  \<open>agent/executor.py\<close>: the router and the first four kinds, \<open>shell\<close>, \<open>read_file\<close>, \<open>write_file\<close> and \<open>list_dir\<close>. The
  v2 kinds go to the executor of the theory Fabric; the v3 executor is an argument, with a state of its own beside
  the host's. \<open>subprocess.run\<close> and the set of v3 kinds are arguments too. A command is a string: any other value is
  the error that searching it for placeholders raises.
\<close>

subsection \<open>The environment of the router\<close>

datatype run_reply = RunDone int string string | RunTimeout | RunRaise string

type_synonym ('b, 'x) world = "'b host \<times> 'x"
type_synonym ('b, 'x) runner_fn = "subtask \<Rightarrow> ('b, 'x) world \<Rightarrow> (exn + result) \<times> ('b, 'x) world"

record ('b, 'x) router =
  ro_env :: "'b env"
  ro_run :: "nat \<Rightarrow> string \<Rightarrow> pyval \<Rightarrow> run_reply"
  ro_v3_kinds :: "string list"
  ro_v3 :: "('b, 'x) runner_fn"
  ro_v3_resume :: "subtask \<Rightarrow> bool \<Rightarrow> ('b, 'x) world \<Rightarrow> result \<times> ('b, 'x) world"

definition is_v2_kind :: "string \<Rightarrow> bool" where
  "is_v2_kind kind = (kind \<in> set V2_KINDS)"

definition is_v3_kind :: "('b, 'x) router \<Rightarrow> string \<Rightarrow> bool" where
  "is_v3_kind R kind = (kind \<in> set (ro_v3_kinds R))"

subsection \<open>shell\<close>

definition text_option :: "pyval \<Rightarrow> string option" where
  "text_option v = (case v of PStr x \<Rightarrow> Some x | _ \<Rightarrow> None)"

definition exec_shell :: "('b, 'x) router \<Rightarrow> task \<Rightarrow> 'b host \<Rightarrow> (exn + result) \<times> 'b host" where
  "exec_shell R t s = (let env = ro_env R in
     case need_text (dget_or (t_payload t) ''command'' (PStr [])) of Inl e \<Rightarrow> (Inl e, s) | Inr cmd \<Rightarrow>
     (case resolve_secrets env cmd s of
        (Inl e, s1) \<Rightarrow> (Inr (fail t ''auto'' (en_vault_msg env e)), s1)
      | (Inr (text, secrets), s1) \<Rightarrow>
        (let l = sandbox_level env (t_kind t);
             launch = wrap_popen_args (en_firejail env) (en_resolve env) text l (text_option (dget (t_payload t) ''cwd''));
             s2 = note_ev (EvSpawn launch) (called s1) in
         case ro_run R (hs_calls s1) launch (dget_or (t_payload t) ''timeout_sec'' (PInt 300)) of
           RunTimeout \<Rightarrow> (Inr (fail t ''auto'' ''timeout''), s2)
         | RunRaise msg \<Rightarrow> (Inr (fail t ''auto'' msg), s2)
         | RunDone rc out err \<Rightarrow> (Inr ((mk_result (t_id t) (rc = 0) ''auto'')\<lparr>r_stdout := last_n 16000 (scrub s1 out secrets),
              r_stderr := last_n 4000 (scrub s1 err secrets), r_exit_code := Some rc,
              r_metadata := (if l = LevelNone then [] else [(''sandbox'', PStr (level_str l))])\<rparr>), s2))))"

definition run_shell :: "('b, 'x) router \<Rightarrow> task \<Rightarrow> 'b host \<Rightarrow> (exn + result) \<times> 'b host" where
  "run_shell R t s =
     (case need_attr ''strip'' (dget_or (t_payload t) ''command'' (PStr [])) of Inl e \<Rightarrow> (Inl e, s) | Inr cmd \<Rightarrow>
     (case paths_of (dget_or (t_payload t) ''paths'' (PList [])) of Inl e \<Rightarrow> (Inl e, s) | Inr paths \<Rightarrow>
     (case gate (ro_env R) t cmd paths s of (Some early, s1) \<Rightarrow> (Inr early, s1) | (None, s1) \<Rightarrow> exec_shell R t s1)))"

subsection \<open>Files\<close>

text \<open>\<open>str(e)\<close> of an \<open>OSError\<close> with a path.\<close>

definition os_error :: "nat \<Rightarrow> string \<Rightarrow> string \<Rightarrow> string" where
  "os_error n msg path = ''[Errno '' @ nat_str n @ ''] '' @ msg @ '': '' @ repr_str (path_text path)"

text \<open>Why a path cannot be opened: a component is missing or no directory.\<close>

fun walk_error :: "tree \<Rightarrow> string list \<Rightarrow> string \<Rightarrow> string" where
  "walk_error (TFile m b) ps path = os_error 20 ''Not a directory'' path"
| "walk_error (TDir m es) [] path = os_error 21 ''Is a directory'' path"
| "walk_error (TDir m es) (x # xs) path = (case map_of es x of None \<Rightarrow> os_error 2 ''No such file or directory'' path
     | Some u \<Rightarrow> walk_error u xs path)"

definition read_file :: "('b, 'x) router \<Rightarrow> task \<Rightarrow> 'b host \<Rightarrow> (exn + result) \<times> 'b host" where
  "read_file R t s = (let env = ro_env R in
     case path_arg env t [] of Inl e \<Rightarrow> (Inl e, s) | Inr path \<Rightarrow>
     (case judge env t (''cat '' @ path_text path) (''read '' @ path_text path) [path_text path] s of ((d, reason), s1) \<Rightarrow>
      if d = BLOCK then (Inr (fail t ''block'' reason), s1)
      else (case look (hs_fs s1) (abs_parts env path) of
          Some (TFile m bytes) \<Rightarrow> (case en_decode env ''utf-8'' bytes of
              Inl e \<Rightarrow> (Inr (fail t (decision_str d) (snd e)), s1)
            | Inr text \<Rightarrow> (Inr ((mk_result (t_id t) True (decision_str d))\<lparr>r_stdout := take 200000 (universal_newlines text),
                r_metadata := [(''path'', PStr (path_text path)), (''size'', PInt (int (length bytes)))]\<rparr>), s1))
        | _ \<Rightarrow> (Inr (fail t (decision_str d) (walk_error (hs_fs s1) (abs_parts env path) path)), s1))))"

text \<open>\<open>mkdir(parents=True, exist_ok=True)\<close>: the new tree, or the error.\<close>

fun mkdirs :: "rat \<Rightarrow> string list \<Rightarrow> tree \<Rightarrow> tree option" where
  "mkdirs now ps (TFile m b) = None"
| "mkdirs now [] (TDir m es) = Some (TDir m es)"
| "mkdirs now (x # xs) (TDir m es) = (case map_of es x of
     None \<Rightarrow> map_option (\<lambda>u. TDir now (dict_set es x u)) (mkdirs now xs (TDir now []))
   | Some u \<Rightarrow> map_option (\<lambda>u. TDir m (dict_set es x u)) (mkdirs now xs u))"

definition parent_text :: "string \<Rightarrow> string" where
  "parent_text path = (let ps = butlast (path_parts path) in
     if starts_with ''/'' path then ''/'' @ join ''/'' ps else if ps = [] then ''.'' else join ''/'' ps)"

definition exec_write_file :: "('b, 'x) router \<Rightarrow> task \<Rightarrow> 'b host \<Rightarrow> (exn + result) \<times> 'b host" where
  "exec_write_file R t s = (let env = ro_env R in
     case path_arg env t [] of Inl e \<Rightarrow> (Inl e, s) | Inr path \<Rightarrow>
     (let parts = abs_parts env path in
      case mkdirs (hs_clock s) (butlast parts) (hs_fs s) of
        None \<Rightarrow> (Inr (fail t ''auto'' (case look (hs_fs s) (butlast parts) of
            Some (TFile m b) \<Rightarrow> os_error 17 ''File exists'' (parent_text path)
          | _ \<Rightarrow> os_error 20 ''Not a directory'' (parent_text path))), s)
      | Some fs \<Rightarrow> (let s1 = s\<lparr>hs_fs := fs\<rparr> in
        case dget_or (t_payload t) ''content'' (PStr []) of
          PStr content \<Rightarrow>
            (case look fs parts of Some (TDir m es) \<Rightarrow> (Inr (fail t ''auto'' (os_error 21 ''Is a directory'' path)), s1)
             | _ \<Rightarrow> (Inr ((mk_result (t_id t) True ''auto'')\<lparr>r_metadata :=
                 [(''path'', PStr (path_text path)), (''bytes'', PInt (int (length (utf8 content))))]\<rparr>),
                 write_file parts (path_text path) (hs_clock s) (utf8 content) s1))
        | v \<Rightarrow> (Inr (fail t ''auto'' (''data must be str, not '' @ type_name v)), s1))))"

definition write_file_task :: "('b, 'x) router \<Rightarrow> task \<Rightarrow> 'b host \<Rightarrow> (exn + result) \<times> 'b host" where
  "write_file_task R t s = gate_path (ro_env R) t ''write'' [] (\<lambda>t _. exec_write_file R t) s"

definition list_dir :: "('b, 'x) router \<Rightarrow> task \<Rightarrow> 'b host \<Rightarrow> (exn + result) \<times> 'b host" where
  "list_dir R t s = (let env = ro_env R in
     case path_arg env t [] of Inl e \<Rightarrow> (Inl e, s) | Inr path \<Rightarrow>
     (case judge env t (''ls '' @ path_text path) (''list '' @ path_text path) [path_text path] s of ((d, reason), s1) \<Rightarrow>
      if d = BLOCK then (Inr (fail t ''block'' reason), s1)
      else (case look (hs_fs s1) (abs_parts env path) of
          Some (TDir m es) \<Rightarrow> (let entries = sort (map fst es) in
            (Inr ((mk_result (t_id t) True (decision_str d))\<lparr>r_stdout := join [newline] entries,
               r_metadata := [(''path'', PStr (path_text path)), (''count'', PInt (int (length entries)))]\<rparr>), s1))
        | Some (TFile m b) \<Rightarrow> (Inr (fail t (decision_str d) (os_error 20 ''Not a directory'' path)), s1)
        | None \<Rightarrow> (Inr (fail t (decision_str d) (walk_error (hs_fs s1) (abs_parts env path) path)), s1))))"

subsection \<open>The router\<close>

definition on_host :: "(exn + result) \<times> 'b host \<Rightarrow> 'x \<Rightarrow> (exn + result) \<times> ('b, 'x) world" where
  "on_host rs x = (fst rs, (snd rs, x))"

abbreviation base :: "subtask \<Rightarrow> task" where
  "base t \<equiv> task.truncate t"

lemma base_simps [simp]: "t_id (base t) = t_id t" "t_kind (base t) = t_kind t" "t_payload (base t) = t_payload t"
  by (simp_all add: task.defs)

definition router_run :: "('b, 'x) router \<Rightarrow> ('b, 'x) runner_fn" where
  "router_run R st w = (let t = base st in case w of (s, x) \<Rightarrow>
     if is_v3_kind R (t_kind t) then ro_v3 R st w
     else if is_v2_kind (t_kind t) then (case run (ro_env R) t s of (r, s') \<Rightarrow> (Inr r, (s', x)))
     else if t_kind t = ''shell'' then on_host (run_shell R t s) x
     else if t_kind t = ''read_file'' then on_host (read_file R t s) x
     else if t_kind t = ''write_file'' then on_host (write_file_task R t s) x
     else if t_kind t = ''list_dir'' then on_host (list_dir R t s) x
     else (Inr (fail t ''unknown_kind'' (''unknown kind: '' @ t_kind t)), w))"

text \<open>An exception in a resumed v1 task becomes a failed result whose error is its message alone.\<close>

definition message_only :: "task \<Rightarrow> (exn + result) \<times> ('b, 'x) world \<Rightarrow> result \<times> ('b, 'x) world" where
  "message_only t rw = (case rw of (Inl e, w) \<Rightarrow> (fail t ''approved'' (snd e), w) | (Inr r, w) \<Rightarrow> (r, w))"

definition router_resume :: "('b, 'x) router \<Rightarrow> subtask \<Rightarrow> bool \<Rightarrow> ('b, 'x) world \<Rightarrow> result \<times> ('b, 'x) world" where
  "router_resume R st approved w = (let t = base st in case w of (s, x) \<Rightarrow>
     if \<not> approved then (fail t ''denied'' ''confirmation denied by user'', w)
     else if is_v3_kind R (t_kind t) then ro_v3_resume R st approved w
     else if is_v2_kind (t_kind t) then (case resume_after_confirm (ro_env R) t approved s of (r, s') \<Rightarrow> (r, (s', x)))
     else if t_kind t = ''shell'' then message_only t (on_host (exec_shell R t s) x)
     else if t_kind t = ''write_file'' then message_only t (on_host (exec_write_file R t s) x)
     else if t_kind t = ''read_file'' then message_only t (on_host (read_file R t s) x)
     else if t_kind t = ''list_dir'' then message_only t (on_host (list_dir R t s) x)
     else (fail t ''unknown_kind'' (''unknown kind: '' @ t_kind t), w))"

subsection \<open>The router asks first\<close>

text \<open>What the policy is asked about, for the kinds of this theory and those of the v2 executor.\<close>

definition router_input :: "'b env \<Rightarrow> task \<Rightarrow> exn + string \<times> string list" where
  "router_input env t =
     (if t_kind t = ''shell'' then and_then (need_attr ''strip'' (dget_or (t_payload t) ''command'' (PStr []))) (\<lambda>c.
        and_then (paths_of (dget_or (t_payload t) ''paths'' (PList []))) (\<lambda>ps. Inr (c, ps)))
      else if t_kind t = ''write_file'' then and_then (path_arg env t []) (\<lambda>p. Inr (''write '' @ path_text p, [path_text p]))
      else gate_input env t)"

definition router_verdict :: "'b env \<Rightarrow> task \<Rightarrow> 'b host \<Rightarrow> decision option" where
  "router_verdict env t s = (case router_input env t of Inl e \<Rightarrow> None
     | Inr (c, ps) \<Rightarrow> Some (fst (decide (penv_of env s) (en_policy env) c ps)))"

lemma router_verdict_v2: "is_v2_kind (t_kind t) \<Longrightarrow> router_verdict env t s = verdict_of env t s"
  by (auto simp: is_v2_kind_def V2_KINDS_def router_verdict_def router_input_def verdict_of_def)

lemma shell_refuses:
  assumes "t_kind t = ''shell''" "router_verdict (ro_env R) t s \<noteq> Some AUTO"
  shows "outside (snd (run_shell R t s)) = outside s"
proof (cases "need_attr ''strip'' (dget_or (t_payload t) ''command'' (PStr []))")
  case (Inr c)
  show ?thesis
  proof (cases "paths_of (dget_or (t_payload t) ''paths'' (PList []))")
    case (Inr ps)
    have "fst (decide (penv_of (ro_env R) s) (en_policy (ro_env R)) c ps) \<noteq> AUTO"
      using assms \<open>need_attr _ _ = Inr c\<close> Inr by (auto simp: router_verdict_def router_input_def)
    then show ?thesis using \<open>need_attr _ _ = Inr c\<close> Inr gate_then by (simp add: run_shell_def)
  qed (use Inr in \<open>simp add: run_shell_def\<close>)
qed (simp add: run_shell_def)

lemma write_refuses:
  assumes "t_kind t = ''write_file''" "router_verdict (ro_env R) t s \<noteq> Some AUTO"
  shows "outside (snd (write_file_task R t s)) = outside s"
  unfolding write_file_task_def by (rule gate_path_refuses) (use assms in \<open>simp add: router_verdict_def router_input_def\<close>)

lemma judge_outside [simp]: "outside (snd (judge env t c sh ps s)) = outside s"
  by (simp add: judge_def Let_def)

lemma read_only:
  "outside (snd (read_file R t s)) = outside s" "outside (snd (list_dir R t s)) = outside s"
proof -
  have j: "judge env t c sh ps s = (dr, s1) \<Longrightarrow> outside s1 = outside s" for env c sh ps dr s1
    using judge_outside[of env t c sh ps s] by simp
  show "outside (snd (read_file R t s)) = outside s" "outside (snd (list_dir R t s)) = outside s"
    by (auto simp: read_file_def list_dir_def Let_def j split: sum.split option.split prod.split tree.split)
qed


text \<open>A file the policy wants confirmed is read without asking anybody.\<close>

lemma read_on_confirm:
  assumes "path_arg (ro_env R) t [] = Inr p"
    and "fst (decide (penv_of (ro_env R) s) (en_policy (ro_env R)) (''cat '' @ path_text p) [path_text p]) = CONFIRM"
    and "look (hs_fs s) (abs_parts (ro_env R) p) = Some (TFile m bytes)" "en_decode (ro_env R) ''utf-8'' bytes = Inr x"
  shows "\<exists>r. fst (read_file R t s) = Inr r \<and> r_ok r \<and> r_stdout r = take 200000 (universal_newlines x) \<and>
    hs_confirm (snd (read_file R t s)) = hs_confirm s"
  using assms by (auto simp: read_file_def judge_def Let_def note_ev_def mk_result_def split: prod.split)

end
