(* ===== verification/Llmtask.thy ===== *)
theory Llmtask
  imports Host Json Subtasks
begin

text \<open>
  \<open>agent/llm_task.py\<close>: the loop in which a model asks for tools and the executor decides whether they run. The
  provider and the executor are arguments, each with its state: \<open>turn\<close> is one turn of the model, \<open>execute\<close> hands
  a task to the executor. The text a JSON decoding error is reported with is an argument (\<open>jmsg\<close>); the wall-clock
  duration of a run is left out.
\<close>

definition DEFAULT_MAX_ITERATIONS :: int where "DEFAULT_MAX_ITERATIONS = 10"

definition MAX_ALLOWED_ITERATIONS :: int where "MAX_ALLOWED_ITERATIONS = 50"

definition DEFAULT_TOOL_KINDS :: "string list" where
  "DEFAULT_TOOL_KINDS = [''shell'', ''read_file'', ''write_file'', ''list_dir'', ''grep'', ''glob'']"

definition llm_error :: "string \<Rightarrow> exn" where
  "llm_error m = (''LlmTaskError'', m)"

subsection \<open>Tool calls\<close>

record toolcall =
  tc_id :: string
  tc_name :: string
  tc_arguments :: dict

definition toolcall_from_dict :: "(string \<Rightarrow> string) \<Rightarrow> nat \<Rightarrow> pyval \<Rightarrow> exn + toolcall" where
  "toolcall_from_dict jmsg index datav = (case datav of
     PDict data \<Rightarrow>
       (let function = (case dget data ''function'' of PDict f \<Rightarrow> f | _ \<Rightarrow> []);
            name = strip (str_or_empty (py_or (dget function ''name'') (dget data ''name'')));
            raw = dget_or function ''arguments'' (dget_or data ''arguments'' (PDict []));
            mk = (\<lambda>args. \<lparr>tc_id = py_str (py_or (dget data ''id'') (PStr (''call-'' @ nat_str index))), tc_name = name, tc_arguments = args\<rparr>);
            object_of = (\<lambda>v. case v of PDict a \<Rightarrow> Inr (mk a)
              | _ \<Rightarrow> Inl (llm_error (''tool call '' @ name @ '' arguments must be an object''))) in
        if name = [] then Inl (llm_error ''tool call has no name'')
        else (case raw of
            PStr x \<Rightarrow> (case json_loads (if x = [] then ''{}'' else x) of
                None \<Rightarrow> Inl (llm_error (''tool call '' @ name @ '' has unparseable arguments: '' @ jmsg x))
              | Some v \<Rightarrow> object_of v)
          | v \<Rightarrow> object_of v))
   | _ \<Rightarrow> Inl (''AttributeError'', quoted (type_name datav) @ '' object has no attribute '' @ quoted ''get''))"

fun toolcalls_from :: "(string \<Rightarrow> string) \<Rightarrow> nat \<Rightarrow> pyval list \<Rightarrow> exn + toolcall list" where
  "toolcalls_from jmsg i [] = Inr []"
| "toolcalls_from jmsg i (v # vs) = and_then (toolcall_from_dict jmsg i v) (\<lambda>c.
     and_then (toolcalls_from jmsg (Suc i) vs) (\<lambda>cs. Inr (c # cs)))"

text \<open>Iterating over a value: a string by character, a dictionary by key.\<close>

definition py_iter :: "pyval \<Rightarrow> exn + pyval list" where
  "py_iter v = (case v of PList vs \<Rightarrow> Inr vs | PStr x \<Rightarrow> Inr (map (\<lambda>c. PStr [c]) x) | PDict d \<Rightarrow> Inr (map (\<lambda>(k, _). PStr k) d)
     | _ \<Rightarrow> Inl (''TypeError'', quoted (type_name v) @ '' object is not iterable''))"

subsection \<open>Providers\<close>

record response =
  rs_content :: string
  rs_calls :: "toolcall list"

type_synonym messages = "dict list"
type_synonym 'p model = "messages \<Rightarrow> string list \<Rightarrow> 'p \<Rightarrow> (exn + response) \<times> 'p"

definition wants_tools :: "response \<Rightarrow> bool" where
  "wants_tools r = (rs_calls r \<noteq> [])"

definition coerce_turn :: "(string \<Rightarrow> string) \<Rightarrow> pyval \<Rightarrow> exn + response" where
  "coerce_turn jmsg v = (case v of
     PStr x \<Rightarrow> Inr \<lparr>rs_content = x, rs_calls = []\<rparr>
   | PDict d \<Rightarrow> and_then (py_iter (py_or (dget d ''tool_calls'') (PList []))) (\<lambda>raw.
       and_then (toolcalls_from jmsg 0 raw) (\<lambda>cs. Inr \<lparr>rs_content = py_str (dget_or d ''content'' (PStr [])), rs_calls = cs\<rparr>))
   | _ \<Rightarrow> Inl (llm_error (''cannot interpret scripted turn: '' @ py_repr v)))"

fun coerce_turns :: "(string \<Rightarrow> string) \<Rightarrow> pyval list \<Rightarrow> exn + response list" where
  "coerce_turns jmsg [] = Inr []"
| "coerce_turns jmsg (v # vs) = and_then (coerce_turn jmsg v) (\<lambda>t. and_then (coerce_turns jmsg vs) (\<lambda>ts. Inr (t # ts)))"

text \<open>The providers a packet can name. \<open>Scripted\<close>: the turns, the closing message and how often it was asked;
  \<open>Keyword\<close>: the target and the turn number.\<close>

datatype provider = Scripted "response list" string nat | Echo string | Keyword string nat

definition scripted_complete :: "response list \<Rightarrow> string \<Rightarrow> nat \<Rightarrow> response" where
  "scripted_complete turns exhausted index = (if index < length turns then turns ! index else \<lparr>rs_content = exhausted, rs_calls = []\<rparr>)"

definition has_role :: "string \<Rightarrow> dict \<Rightarrow> bool" where
  "has_role x m = (dget m ''role'' = PStr x)"

definition echo_complete :: "string \<Rightarrow> messages \<Rightarrow> response" where
  "echo_complete pre ms = \<lparr>rs_content = pre @
     (case find (has_role ''user'') (rev ms) of None \<Rightarrow> [] | Some m \<Rightarrow> py_str (dget_or m ''content'' (PStr []))), rs_calls = []\<rparr>"

text \<open>\<open>re.search\<close> for a word between word boundaries.\<close>

definition word_char :: "char \<Rightarrow> bool" where
  "word_char c = (let n = code c in 48 \<le> n \<and> n \<le> 57 \<or> 65 \<le> n \<and> n \<le> 90 \<or> n = 95 \<or> 97 \<le> n \<and> n \<le> 122 \<or>
     n \<in> {170, 178, 179, 181, 185, 186, 188, 189, 190} \<or> 192 \<le> n \<and> n \<noteq> 215 \<and> n \<noteq> 247)"

definition word_at :: "string \<Rightarrow> string \<Rightarrow> bool" where
  "word_at w rest = (starts_with w rest \<and> (case drop (length w) rest of [] \<Rightarrow> True | c # _ \<Rightarrow> \<not> word_char c))"

fun has_word :: "bool \<Rightarrow> string \<Rightarrow> string \<Rightarrow> bool" where
  "has_word inside w [] = False"
| "has_word inside w (c # cs) = (\<not> inside \<and> word_at w (c # cs) \<or> has_word (word_char c) w cs)"

definition keyword_rules :: "(string list \<times> string \<times> string) list" where
  "keyword_rules = [([''read'', ''cat''], ''read_file'', ''path''), ([''list'', ''ls'', ''dir''], ''list_dir'', ''path''),
     ([''run'', ''shell'', ''execute''], ''shell'', ''command'')]"

definition keyword_complete :: "string \<Rightarrow> nat \<Rightarrow> messages \<Rightarrow> string list \<Rightarrow> response" where
  "keyword_complete target turn ms tools =
     (if list_ex (has_role ''tool'') ms
      then \<lparr>rs_content = ''observed '' @ nat_str (length (filter (has_role ''tool'') ms)) @ '' tool result(s)'', rs_calls = []\<rparr>
      else (let prompt = lower (join '' '' (map (\<lambda>m. py_str (dget_or m ''content'' (PStr []))) (filter (has_role ''user'') ms))) in
        (case find (\<lambda>(ws, tool, arg). list_ex (\<lambda>w. has_word False w prompt) ws \<and> tool \<in> set tools) keyword_rules of
           None \<Rightarrow> \<lparr>rs_content = ''nothing to do'', rs_calls = []\<rparr>
         | Some (ws, tool, arg) \<Rightarrow> \<lparr>rs_content = [], rs_calls =
             [\<lparr>tc_id = ''call-'' @ nat_str turn, tc_name = tool, tc_arguments = [(arg, PStr target)]\<rparr>]\<rparr>)))"

definition mock_complete :: "provider model" where
  "mock_complete ms tools p = (case p of
     Scripted turns ex n \<Rightarrow> (Inr (scripted_complete turns ex n), Scripted turns ex (Suc n))
   | Echo pre \<Rightarrow> (Inr (echo_complete pre ms), p)
   | Keyword target n \<Rightarrow> (Inr (keyword_complete target (Suc n) ms tools), Keyword target (Suc n)))"

text \<open>The adapter to a chat client, which is an argument and answers in the OpenAI shape: an object whose first choice
  holds the message.\<close>

definition http_complete :: "(string \<Rightarrow> string) \<Rightarrow> (messages \<Rightarrow> dict list option \<Rightarrow> exn + pyval) \<Rightarrow> dict list \<Rightarrow> messages \<Rightarrow> string list \<Rightarrow> exn + response" where
  "http_complete jmsg chat all_schemas ms tools =
     (let schemas = filter (\<lambda>s. case dget_or s ''function'' (PDict []) of PDict f \<Rightarrow> dget f ''name'' \<in> PStr ` set tools | _ \<Rightarrow> False) all_schemas in
      and_then (chat ms (if schemas = [] then None else Some schemas)) (\<lambda>raw.
        (let message = (case raw of PDict d \<Rightarrow> (case py_or (dget d ''choices'') (PList [PDict []]) of
               PList (PDict c # _) \<Rightarrow> pdict_items (dget_or c ''message'' (PDict [])) | _ \<Rightarrow> []) | _ \<Rightarrow> []) in
         and_then (py_iter (py_or (dget message ''tool_calls'') (PList []))) (\<lambda>cs.
         and_then (toolcalls_from jmsg 0 cs) (\<lambda>calls.
           Inr \<lparr>rs_content = str_or_empty (dget message ''content''), rs_calls = calls\<rparr>)))))"

definition build_provider :: "(string \<Rightarrow> string) \<Rightarrow> dict \<Rightarrow> exn + provider" where
  "build_provider jmsg payload =
     (let name = lower (strip (py_str (py_or (dget payload ''provider'') (PStr ''echo'')))) in
      if name = ''scripted'' then
        (case py_or (dget payload ''script'') (py_or (dget payload ''turns'') (PList [])) of
           PList turns \<Rightarrow> and_then (coerce_turns jmsg turns) (\<lambda>ts. Inr (Scripted ts ''done'' 0))
         | _ \<Rightarrow> Inl (llm_error (''scripted provider needs a '' @ quoted ''script'' @ '' list'')))
      else if name = ''keyword'' then Inr (Keyword (py_str (dget_or payload ''target'' (PStr ''.''))) 0)
      else if name = ''echo'' then Inr (Echo (py_str (dget_or payload ''prefix'' (PStr ''echo: ''))))
      else Inl (llm_error (''unknown provider: '' @ repr_str name @ ''; available: ['' @
        join '', '' (map repr_str [''echo'', ''keyword'', ''scripted'']) @ '']'')))"

definition provider_name :: "provider \<Rightarrow> string" where
  "provider_name p = (case p of Scripted _ _ _ \<Rightarrow> ''scripted'' | Echo _ \<Rightarrow> ''echo'' | Keyword _ _ \<Rightarrow> ''keyword'')"

subsection \<open>The loop\<close>

text \<open>The record of one tool call, as it goes into the result.\<close>

record toolrec =
  tr_call :: string
  tr_tool :: string
  tr_ok :: bool
  tr_decision :: string
  tr_exit :: "int option option"
  tr_error :: string
  tr_content :: string

definition toolrec_dict :: "toolrec \<Rightarrow> dict" where
  "toolrec_dict r = [(''tool_call_id'', PStr (tr_call r)), (''tool'', PStr (tr_tool r)), (''ok'', PBool (tr_ok r)),
     (''decision'', PStr (tr_decision r))] @ (case tr_exit r of None \<Rightarrow> [] | Some c \<Rightarrow> [(''exit_code'', opt_int c)]) @
     [(''error'', PStr (tr_error r)), (''content'', PStr (tr_content r))]"

text \<open>The text of a \<open>SubtaskError\<close>, given the type of the packet and the manager's limits.\<close>

fun subtask_msg :: "string \<Rightarrow> int \<Rightarrow> int \<Rightarrow> subtask_error \<Rightarrow> string" where
  "subtask_msg ty depth active SpecNotObject = ''task spec must be an object, got '' @ ty"
| "subtask_msg ty depth active NoKind = ''task spec needs a '' @ quoted ''kind''"
| "subtask_msg ty depth active PayloadNotObject = ''task payload must be an object''"
| "subtask_msg ty depth active (TooDeep d) = ''sub-task depth '' @ int_str d @ '' exceeds max_depth='' @ int_str depth"
| "subtask_msg ty depth active (InFlight i) = ''sub-task id already in flight: '' @ i"
| "subtask_msg ty depth active TooMany = ''too many sub-tasks in flight (max_active='' @ int_str active @ '')''"

type_synonym 's executor = "subtask \<Rightarrow> 's \<Rightarrow> (exn + result) \<times> 's"

definition tool_task :: "string option \<Rightarrow> nat \<Rightarrow> toolcall \<Rightarrow> subtask_error + subtask" where
  "tool_task parent iteration c = build_subtask [] (PDict
     [(''id'', PStr ((case parent of Some p \<Rightarrow> p | None \<Rightarrow> ''llm'') @ ''-tool-'' @ nat_str iteration @ ''-'' @ tc_id c)),
      (''kind'', PStr (tc_name c)), (''payload'', PDict (tc_arguments c))]) parent 0 0"

definition tool_failed :: "toolcall \<Rightarrow> exn \<Rightarrow> toolrec" where
  "tool_failed c e = \<lparr>tr_call = tc_id c, tr_tool = tc_name c, tr_ok = False, tr_decision = ''error'', tr_exit = None,
     tr_error = exn_text e, tr_content = ''error: '' @ snd e\<rparr>"

definition tool_done :: "toolcall \<Rightarrow> result \<Rightarrow> toolrec" where
  "tool_done c r = (let out = last_n 4000 (r_stdout r); err = last_n 1000 (r_stderr r) in
     \<lparr>tr_call = tc_id c, tr_tool = tc_name c, tr_ok = r_ok r, tr_decision = r_decision r, tr_exit = Some (r_exit_code r),
      tr_error = r_error r, tr_content = (if out \<noteq> [] then out else if err \<noteq> [] then err
        else if r_error r \<noteq> [] then r_error r else ''(no output)'')\<rparr>)"

definition run_tool :: "'s executor \<Rightarrow> string option \<Rightarrow> string list \<Rightarrow> nat \<Rightarrow> toolcall \<Rightarrow> 's \<Rightarrow> toolrec \<times> 's" where
  "run_tool execute parent offered iteration c s =
     (if tc_name c \<notin> set offered
      then (\<lparr>tr_call = tc_id c, tr_tool = tc_name c, tr_ok = False, tr_decision = ''unavailable_tool'', tr_exit = None,
             tr_error = ''tool not available: '' @ tc_name c, tr_content = ''error: tool not available: '' @ tc_name c\<rparr>, s)
      else (case tool_task parent iteration c of
          Inl e \<Rightarrow> (tool_failed c (''SubtaskError'', subtask_msg ''dict'' 0 0 e), s)
        | Inr t \<Rightarrow> (case execute t s of
            (Inl e, s') \<Rightarrow> (tool_failed c e, s')
          | (Inr r, s') \<Rightarrow> (tool_done c r, s'))))"

text \<open>\<open>lm_halt\<close>: why the turn stops the loop, with what is waiting.\<close>

record lloop =
  lm_messages :: messages
  lm_results :: "toolrec list"
  lm_halt :: "(string \<times> dict) option"

definition tool_message :: "toolcall \<Rightarrow> toolrec \<Rightarrow> dict" where
  "tool_message c r = [(''role'', PStr ''tool''), (''tool_call_id'', PStr (tc_id c)), (''name'', PStr (tc_name c)), (''content'', PStr (tr_content r))]"

definition halting :: "toolcall \<Rightarrow> toolrec \<Rightarrow> (string \<times> dict) option" where
  "halting c r = (let waiting = [(''tool_call_id'', PStr (tc_id c)), (''tool'', PStr (tc_name c)), (''reason'', PStr (tr_error r))] in
     if tr_decision r = ''confirm_required'' then Some (''confirm_required'', waiting)
     else if tr_decision r = ''block'' then Some (''blocked'', waiting) else None)"

definition note_tool :: "toolcall \<Rightarrow> toolrec \<Rightarrow> lloop \<Rightarrow> lloop" where
  "note_tool c r l = l\<lparr>lm_messages := lm_messages l @ [tool_message c r], lm_results := lm_results l @ [r],
     lm_halt := (case lm_halt l of None \<Rightarrow> halting c r | Some h \<Rightarrow> Some h)\<rparr>"

fun run_tools :: "'s executor \<Rightarrow> string option \<Rightarrow> string list \<Rightarrow> nat \<Rightarrow> toolcall list \<Rightarrow> lloop \<Rightarrow> 's \<Rightarrow> lloop \<times> 's" where
  "run_tools execute parent offered i [] l s = (l, s)"
| "run_tools execute parent offered i (c # cs) l s = (case run_tool execute parent offered i c s of (r, s') \<Rightarrow>
     run_tools execute parent offered i cs (note_tool c r l) s')"

definition call_dict :: "toolcall \<Rightarrow> pyval" where
  "call_dict c = PDict [(''id'', PStr (tc_id c)), (''type'', PStr ''function''),
     (''function'', PDict [(''name'', PStr (tc_name c)), (''arguments'', PStr (json_print json_default (PDict (tc_arguments c))))])]"

definition assistant :: "response \<Rightarrow> dict" where
  "assistant r = [(''role'', PStr ''assistant''), (''content'', PStr (rs_content r))] @
     (if wants_tools r then [(''tool_calls'', PList (map call_dict (rs_calls r)))] else [])"

record llm_result =
  lr_ok :: bool
  lr_stop :: string
  lr_iterations :: nat
  lr_final :: string
  lr_messages :: messages
  lr_results :: "toolrec list"
  lr_pending :: "dict option"

definition stopped :: "string \<Rightarrow> nat \<Rightarrow> string \<Rightarrow> dict option \<Rightarrow> lloop \<Rightarrow> llm_result" where
  "stopped why i final pending l = \<lparr>lr_ok = (why = ''final''), lr_stop = why, lr_iterations = i, lr_final = final,
     lr_messages = lm_messages l, lr_results = lm_results l, lr_pending = pending\<rparr>"

text \<open>The loop, by the number of turns left; \<open>i\<close> turns are over.\<close>

fun llm_loop :: "'p model \<Rightarrow> 's executor \<Rightarrow> string option \<Rightarrow> string list \<Rightarrow> nat \<Rightarrow> nat \<Rightarrow> lloop \<Rightarrow> 'p \<Rightarrow> 's \<Rightarrow> llm_result \<times> 'p \<times> 's" where
  "llm_loop turn execute parent offered 0 i l p s = (stopped ''max_iterations'' i [] None l, p, s)"
| "llm_loop turn execute parent offered (Suc n) i l p s =
     (case turn (lm_messages l) offered p of
        (Inl e, p') \<Rightarrow> (stopped ''provider_error'' (Suc i) (exn_text e) None l, p', s)
      | (Inr r, p') \<Rightarrow>
          (let l1 = l\<lparr>lm_messages := lm_messages l @ [assistant r]\<rparr> in
           if \<not> wants_tools r then (stopped ''final'' (Suc i) (rs_content r) None l1, p', s)
           else (case run_tools execute parent offered (Suc i) (rs_calls r) l1 s of (l2, s') \<Rightarrow>
             (case lm_halt l2 of
                Some (why, pending) \<Rightarrow> (stopped why (Suc i) (''halted: '' @ why) (Some pending) l2, p', s')
              | None \<Rightarrow> llm_loop turn execute parent offered n (Suc i) l2 p' s'))))"

definition available_tools :: "pyval \<Rightarrow> string list \<Rightarrow> exn + string list" where
  "available_tools tools allowed = (if truthy tools
     then and_then (py_iter tools) (\<lambda>vs. Inr (List.map_filter (\<lambda>v. case v of PStr x \<Rightarrow> if x \<in> set allowed then Some x else None | _ \<Rightarrow> None) vs))
     else Inr allowed)"

definition llm_run :: "'p model \<Rightarrow> 's executor \<Rightarrow> string option \<Rightarrow> string list \<Rightarrow> string \<Rightarrow> string \<Rightarrow> int \<Rightarrow> pyval \<Rightarrow> 'p \<Rightarrow> 's \<Rightarrow>
    exn + llm_result \<times> 'p \<times> 's" where
  "llm_run turn execute parent allowed prompt system max_iterations tools p s =
     (if strip prompt = [] then Inl (llm_error (''llm_task needs a non-empty '' @ quoted ''prompt''))
      else and_then (available_tools tools allowed) (\<lambda>offered.
        Inr (llm_loop turn execute parent offered (nat (max 1 (min max_iterations MAX_ALLOWED_ITERATIONS))) 0
          \<lparr>lm_messages = [[(''role'', PStr ''system''), (''content'', PStr system)], [(''role'', PStr ''user''), (''content'', PStr prompt)]],
           lm_results = [], lm_halt = None\<rparr> p s)))"

definition llm_result_dict :: "llm_result \<Rightarrow> dict" where
  "llm_result_dict r = [(''ok'', PBool (lr_ok r)), (''stop_reason'', PStr (lr_stop r)), (''iterations'', PInt (int (lr_iterations r))),
     (''final_message'', PStr (lr_final r)), (''messages'', PList (map PDict (lr_messages r))),
     (''tool_results'', PList (map (PDict \<circ> toolrec_dict) (lr_results r))), (''tool_calls'', PInt (int (length (lr_results r))))] @
     (case lr_pending r of None \<Rightarrow> [] | Some d \<Rightarrow> [(''pending_confirmation'', PDict d)])"

subsection \<open>What the loop may run, and when it stops\<close>

text \<open>An executor that also writes down what it was given.\<close>

definition logged :: "'s executor \<Rightarrow> (subtask list \<times> 's) executor" where
  "logged ex t ls = (case ex t (snd ls) of (r, s') \<Rightarrow> (r, (fst ls @ [t], s')))"

lemma tool_task_kind: "tool_task parent i c = Inr t \<Longrightarrow> t_kind t = strip (tc_name c)"
  by (auto simp: tool_task_def build_subtask_def dget_def str_or_empty_def Let_def split: if_splits pyval.splits option.splits)

lemma run_tool_log:
  "\<exists>new. fst (snd (run_tool (logged ex) parent offered i c ls)) = fst ls @ new \<and> (\<forall>t \<in> set new. t_kind t \<in> strip ` set offered)"
proof (cases "tc_name c \<in> set offered")
  case True
  then show ?thesis
    by (cases "tool_task parent i c") (auto simp: run_tool_def logged_def tool_task_kind split: prod.split sum.split)
qed (simp add: run_tool_def)

lemma run_tools_log:
  "\<exists>new. fst (snd (run_tools (logged ex) parent offered i cs l ls)) = fst ls @ new \<and> (\<forall>t \<in> set new. t_kind t \<in> strip ` set offered)"
proof (induction cs arbitrary: l ls)
  case (Cons c cs)
  obtain r ls' where r: "run_tool (logged ex) parent offered i c ls = (r, ls')" by (meson surj_pair)
  obtain new where new: "fst ls' = fst ls @ new" "\<forall>t \<in> set new. t_kind t \<in> strip ` set offered"
    using run_tool_log[of ex parent offered i c ls] r by auto
  obtain more where "fst (snd (run_tools (logged ex) parent offered i cs (note_tool c r l) ls')) = fst ls' @ more"
    "\<forall>t \<in> set more. t_kind t \<in> strip ` set offered"
    using Cons.IH by blast
  then show ?case using new r by (intro exI[of _ "new @ more"]) auto
qed simp

lemma llm_loop_log:
  "\<exists>new. fst (snd (snd (llm_loop turn (logged ex) parent offered n i l p ls))) = fst ls @ new \<and>
     (\<forall>t \<in> set new. t_kind t \<in> strip ` set offered)"
proof (induction n arbitrary: i l p ls)
  case (Suc n)
  obtain rr p' where t: "turn (lm_messages l) offered p = (rr, p')" by fastforce
  show ?case
  proof (cases rr)
    case (Inr r)
    define l1 where "l1 = l\<lparr>lm_messages := lm_messages l @ [assistant r]\<rparr>"
    obtain l2 ls' where rt: "run_tools (logged ex) parent offered (Suc i) (rs_calls r) l1 ls = (l2, ls')" by (meson surj_pair)
    obtain new where new: "fst ls' = fst ls @ new" "\<forall>t \<in> set new. t_kind t \<in> strip ` set offered"
      using run_tools_log[of ex parent offered "Suc i" "rs_calls r" l1 ls] rt by auto
    obtain more where more: "fst (snd (snd (llm_loop turn (logged ex) parent offered n (Suc i) l2 p' ls'))) = fst ls' @ more"
      "\<forall>t \<in> set more. t_kind t \<in> strip ` set offered"
      using Suc.IH by blast
    have *: "llm_loop turn (logged ex) parent offered (Suc n) i l p ls =
       (if \<not> wants_tools r then (stopped ''final'' (Suc i) (rs_content r) None l1, p', ls)
        else case lm_halt l2 of Some (why, pending) \<Rightarrow> (stopped why (Suc i) (''halted: '' @ why) (Some pending) l2, p', ls')
          | None \<Rightarrow> llm_loop turn (logged ex) parent offered n (Suc i) l2 p' ls')"
      using t Inr rt by (simp add: l1_def[symmetric])
    show ?thesis
    proof (cases "wants_tools r")
      case True
      show ?thesis
      proof (cases "lm_halt l2")
        case None
        then show ?thesis using * True new more by (intro exI[of _ "new @ more"]) auto
      next
        case (Some h)
        then show ?thesis using * True new by (cases h) (auto intro!: exI[of _ new])
      qed
    qed (use * in simp)
  qed (use t in simp)
qed simp

definition gate_held :: "toolrec \<Rightarrow> bool" where
  "gate_held r = (tr_decision r = ''confirm_required'' \<or> tr_decision r = ''block'')"

definition halt_ok :: "lloop \<Rightarrow> bool" where
  "halt_ok l = ((lm_halt l = None) = (\<not> list_ex gate_held (lm_results l)) \<and>
     (case lm_halt l of None \<Rightarrow> True | Some (why, d) \<Rightarrow> why \<in> {''confirm_required'', ''blocked''}))"

lemma note_tool_ok: "halt_ok l \<Longrightarrow> halt_ok (note_tool c r l)"
  by (auto simp: halt_ok_def note_tool_def halting_def gate_held_def Let_def split: option.splits)

lemma run_tools_ok: "halt_ok l \<Longrightarrow> halt_ok (fst (run_tools ex parent offered i cs l s))"
proof (induction cs arbitrary: l s)
  case (Cons c cs)
  then show ?case using note_tool_ok by (simp split: prod.split)
qed simp

lemma messages_ok [simp]: "halt_ok (l\<lparr>lm_messages := ms\<rparr>) = halt_ok l"
  by (simp add: halt_ok_def)

definition stop_ok :: "llm_result \<Rightarrow> bool" where
  "stop_ok r = ((lr_stop r \<in> {''confirm_required'', ''blocked''}) = list_ex gate_held (lr_results r) \<and>
     (lr_pending r \<noteq> None) = list_ex gate_held (lr_results r) \<and> lr_ok r = (lr_stop r = ''final''))"

lemma stopped_iterations [simp]: "lr_iterations (stopped why i f d l) = i"
  by (simp add: stopped_def)

lemma stop_plain: "halt_ok l \<Longrightarrow> lm_halt l = None \<Longrightarrow> why \<notin> {''confirm_required'', ''blocked''} \<Longrightarrow> stop_ok (stopped why i f None l)"
  by (simp add: stop_ok_def stopped_def halt_ok_def)

lemma llm_loop_stop:
  assumes "halt_ok l" "lm_halt l = None"
  shows "stop_ok (fst (llm_loop turn ex parent offered n i l p s)) \<and> i \<le> lr_iterations (fst (llm_loop turn ex parent offered n i l p s)) \<and>
    lr_iterations (fst (llm_loop turn ex parent offered n i l p s)) \<le> i + n"
  using assms
proof (induction n arbitrary: i l p s)
  case 0
  then show ?case using stop_plain[OF 0] by simp
next
  case (Suc n)
  obtain rr p' where t: "turn (lm_messages l) offered p = (rr, p')" by fastforce
  show ?case
  proof (cases rr)
    case (Inl e)
    then show ?thesis using Inl t stop_plain[OF Suc.prems] by simp
  next
    case (Inr r)
    define l1 where "l1 = l\<lparr>lm_messages := lm_messages l @ [assistant r]\<rparr>"
    have l1: "halt_ok l1" "lm_halt l1 = None" using Suc.prems by (simp_all add: l1_def)
    obtain l2 s' where rt: "run_tools ex parent offered (Suc i) (rs_calls r) l1 s = (l2, s')" by fastforce
    have l2: "halt_ok l2" using run_tools_ok[OF l1(1), of ex parent offered "Suc i" "rs_calls r" s] rt by simp
    have *: "llm_loop turn ex parent offered (Suc n) i l p s =
       (if \<not> wants_tools r then (stopped ''final'' (Suc i) (rs_content r) None l1, p', s)
        else case lm_halt l2 of Some (why, pending) \<Rightarrow> (stopped why (Suc i) (''halted: '' @ why) (Some pending) l2, p', s')
          | None \<Rightarrow> llm_loop turn ex parent offered n (Suc i) l2 p' s')"
      using t Inr rt by (simp add: l1_def[symmetric])
    show ?thesis
    proof (cases "wants_tools r")
      case True
      show ?thesis
      proof (cases "lm_halt l2")
        case None
        then show ?thesis using * True Suc.IH[OF l2 None, of "Suc i" p' s'] by simp
      next
        case (Some h)
        obtain why d where h: "h = (why, d)" by fastforce
        then have "why \<in> {''confirm_required'', ''blocked''}" "list_ex gate_held (lm_results l2)"
          using l2 Some by (simp_all add: halt_ok_def)
        then have "stop_ok (stopped why (Suc i) (''halted: '' @ why) (Some d) l2)"
          by (auto simp: stop_ok_def stopped_def)
        then show ?thesis using * True Some h by simp
      qed
    next
      case False
      then show ?thesis using * stop_plain[OF l1] by simp
    qed
  qed
qed

lemma offered_subset: "available_tools tools allowed = Inr offered \<Longrightarrow> set offered \<subseteq> set allowed"
proof (cases "truthy tools")
  case True
  assume "available_tools tools allowed = Inr offered"
  then obtain vs where o: "offered = List.map_filter (\<lambda>v. case v of PStr x \<Rightarrow> if x \<in> set allowed then Some x else None | _ \<Rightarrow> None) vs"
    using True by (cases "py_iter tools") (auto simp: available_tools_def)
  show ?thesis unfolding o by (induction vs) (auto simp: map_filter_simps split: pyval.splits)
qed (simp add: available_tools_def)

lemma llm_runE:
  assumes "llm_run turn ex parent allowed prompt sys n tools p s = Inr (r, p', s')"
  obtains offered l where "available_tools tools allowed = Inr offered" "halt_ok l" "lm_halt l = None"
    "llm_loop turn ex parent offered (nat (max 1 (min n MAX_ALLOWED_ITERATIONS))) 0 l p s = (r, p', s')"
proof (cases "available_tools tools allowed")
  case (Inl e)
  then show ?thesis using assms by (simp add: llm_run_def split: if_splits)
next
  case (Inr offered)
  let ?l = "\<lparr>lm_messages = [[(''role'', PStr ''system''), (''content'', PStr sys)], [(''role'', PStr ''user''), (''content'', PStr prompt)]],
           lm_results = [], lm_halt = None\<rparr>"
  have "halt_ok ?l" by (simp add: halt_ok_def)
  moreover have "llm_loop turn ex parent offered (nat (max 1 (min n MAX_ALLOWED_ITERATIONS))) 0 ?l p s = (r, p', s')"
    using assms Inr by (simp add: llm_run_def split: if_splits)
  ultimately show ?thesis using that[OF Inr, of ?l] by simp
qed



text \<open>A run in which the model asks for a shell command and for a tool that does not exist, then for confirmation.\<close>

definition demo_calls :: "toolcall list" where
  "demo_calls = [\<lparr>tc_id = ''a'', tc_name = ''shell'', tc_arguments = [(''command'', PStr ''ls'')]\<rparr>,
     \<lparr>tc_id = ''b'', tc_name = ''memory_set'', tc_arguments = []\<rparr>]"

definition demo_model :: provider where
  "demo_model = Scripted [\<lparr>rs_content = [], rs_calls = demo_calls\<rparr>,
     \<lparr>rs_content = [], rs_calls = [\<lparr>tc_id = ''c'', tc_name = ''write_file'', tc_arguments = []\<rparr>]\<rparr>] ''done'' 0"

definition demo_answer :: "unit executor" where
  "demo_answer t s = (Inr (if t_kind t = ''write_file'' then fail (task.truncate t) ''confirm_required'' ''rule'' else mk_result (t_id t) True ''auto''), s)"

definition demo_llm :: "exn + llm_result \<times> provider \<times> subtask list \<times> unit" where
  "demo_llm = llm_run mock_complete (logged demo_answer) (Some ''p'') DEFAULT_TOOL_KINDS ''go'' [] 7 PNone demo_model ([], ())"

lemma demo_llm_value:
  "case demo_llm of Inl e \<Rightarrow> False | Inr (r, p', asked, u) \<Rightarrow> map t_kind asked = [''shell'', ''write_file''] \<and>
     map t_id asked = [''p-tool-1-a'', ''p-tool-2-c''] \<and> lr_stop r = ''confirm_required'' \<and>
     map tr_decision (lr_results r) = [''auto'', ''unavailable_tool'', ''confirm_required'']"
  by code_simp

lemma demo_llm_runs:
  obtains r p' asked where "demo_llm = Inr (r, p', asked, ())" "map t_kind asked = [''shell'', ''write_file'']"
    "lr_stop r = ''confirm_required''"
proof (cases demo_llm)
  case (Inr x)
  obtain r p' asked u where x: "x = (r, p', asked, u)" by (metis surj_pair)
  have v: "map t_kind asked = [''shell'', ''write_file'']" "lr_stop r = ''confirm_required''"
    using demo_llm_value by (simp_all add: Inr x)
  show ?thesis by (rule that[of r p' asked]) (use v in \<open>simp_all add: Inr x\<close>)
next
  case (Inl e)
  have False using demo_llm_value unfolding Inl by simp
  then show ?thesis ..
qed



text \<open>The calls of a turn that come after one the policy stopped are still executed.\<close>

lemma held_turn_goes_on:
  "fst (run_tool ex parent offered i c s) = r \<Longrightarrow> gate_held r \<Longrightarrow>
   run_tools ex parent offered i (c # cs) l s = run_tools ex parent offered i cs (note_tool c r l) (snd (run_tool ex parent offered i c s))"
  by (cases "run_tool ex parent offered i c s") simp

end
