(* ===== verification/Handshake.thy ===== *)
theory Handshake
  imports Router Llmtask
begin

text \<open>
  \<open>agent/handshake.py\<close>: the capability report and the negotiation. Which modules can be imported, what the \<open>platform\<close>
  module says and the uptime are arguments.
\<close>

definition SUPPORTED_PROTOCOLS :: "string list" where
  "SUPPORTED_PROTOCOLS = [''1.0'', ''2.0'', ''3.0'']"

definition V1_KINDS :: "string list" where
  "V1_KINDS = [''list_dir'', ''read_file'', ''shell'', ''write_file'']"

record capability =
  ca_name :: string
  ca_available :: bool
  ca_detail :: string

definition capability_dict :: "capability \<Rightarrow> dict" where
  "capability_dict c = [(''name'', PStr (ca_name c)), (''available'', PBool (ca_available c)), (''detail'', PStr (ca_detail c))]"

record report =
  rp_kinds :: "(string \<times> string list) list"
  rp_capabilities :: "capability list"
  rp_limits :: dict
  rp_host :: dict
  rp_policy :: dict
  rp_uptime :: rat

definition all_kinds :: "report \<Rightarrow> string list" where
  "all_kinds r = sort (remdups (concat (map snd (rp_kinds r))))"

definition strs :: "string list \<Rightarrow> pyval" where
  "strs xs = PList (map PStr xs)"

definition report_dict :: "report \<Rightarrow> dict" where
  "report_dict r = [(''harness'', PStr ''iddo-harness''), (''version'', PStr ''3.0.0''), (''identity'', PStr ''brick:iddo-harness''),
     (''protocols'', strs SUPPORTED_PROTOCOLS), (''amp_version'', PStr ''1.0''),
     (''kinds'', PDict (map (\<lambda>(g, ks). (g, strs ks)) (rp_kinds r))), (''all_kinds'', strs (all_kinds r)),
     (''capabilities'', PList (map (PDict \<circ> capability_dict) (rp_capabilities r))), (''limits'', PDict (rp_limits r)),
     (''host'', PDict (rp_host r)), (''policy'', PDict (rp_policy r)), (''uptime_sec'', PFloat (rp_uptime r))]"

subsection \<open>The report\<close>

definition detect_capabilities :: "(string \<Rightarrow> bool) \<Rightarrow> capability list" where
  "detect_capabilities importable = map (\<lambda>(m, label, detail). \<lparr>ca_name = label, ca_available = importable m, ca_detail = detail\<rparr>)
     [(''watchdog'', ''watchdog'', ''native filesystem events; falls back to mtime polling''),
      (''psutil'', ''psutil'', ''rich process listing; falls back to ps/tasklist''),
      (''croniter'', ''croniter'', ''cron parsing; falls back to the built-in parser''),
      (''websockets'', ''websockets'', ''low-latency transport; git bridge always works''),
      (''yaml'', ''PyYAML'', ''policy and config parsing''),
      (''httpx'', ''httpx'', ''HTTP LLM backends; mock providers need nothing''),
      (''sqlite3'', ''sqlite3'', ''memory store; required for memory_* kinds'')]"

definition py_len :: "pyval \<Rightarrow> exn + int" where
  "py_len v = (case v of PList xs \<Rightarrow> Inr (int (length xs)) | PStr x \<Rightarrow> Inr (int (length x)) | PDict d \<Rightarrow> Inr (int (length d))
     | _ \<Rightarrow> Inl (''TypeError'', ''object of type '' @ quoted (type_name v) @ '' has no len()''))"

fun sum_lens :: "pyval list \<Rightarrow> exn + int" where
  "sum_lens [] = Inr 0"
| "sum_lens (v # vs) = and_then (py_len (py_or v (PList []))) (\<lambda>n. and_then (sum_lens vs) (\<lambda>m. Inr (n + m)))"

text \<open>The sections of the configuration are dictionaries.\<close>

definition count_rules :: "dict \<Rightarrow> string \<Rightarrow> string \<Rightarrow> exn + int" where
  "count_rules cfg section_name key = (case dget_or (pdict_items (dget cfg section_name)) key (PList []) of
     PDict d \<Rightarrow> sum_lens (map snd d) | v \<Rightarrow> py_len (py_or v (PList [])))"

fun counts :: "dict \<Rightarrow> (string \<times> string \<times> string) list \<Rightarrow> exn + dict" where
  "counts cfg [] = Inr []"
| "counts cfg ((label, sec, key) # xs) = and_then (count_rules cfg sec key) (\<lambda>n. and_then (counts cfg xs) (\<lambda>d. Inr ((label, PInt n) # d)))"

definition policy_summary :: "dict option \<Rightarrow> exn + dict" where
  "policy_summary policy = (case policy of None \<Rightarrow> Inr [(''available'', PBool False)]
     | Some cfg \<Rightarrow> and_then (counts cfg [(''auto_allow_commands'', ''auto_allow'', ''commands''), (''auto_allow_read_paths'', ''auto_allow'', ''paths''),
           (''require_confirm_commands'', ''require_confirm'', ''commands''), (''require_confirm_write_paths'', ''require_confirm'', ''paths''),
           (''block_commands'', ''block'', ''commands''), (''block_paths'', ''block'', ''paths'')])
        (\<lambda>cs. Inr ([(''available'', PBool True), (''default_decision'', PStr ''confirm'')] @ cs @
           [(''confirm_timeout_minutes'', dget (pdict_items (dget cfg ''confirm'')) ''timeout_minutes'')])))"

definition build_report :: "(string \<Rightarrow> bool) \<Rightarrow> dict \<Rightarrow> rat \<Rightarrow> dict option \<Rightarrow> string list \<Rightarrow> string list \<Rightarrow> dict \<Rightarrow> exn + report" where
  "build_report importable host uptime policy v2 v3 limits = and_then (policy_summary policy) (\<lambda>ps.
     Inr \<lparr>rp_kinds = [(''v1'', sort V1_KINDS), (''v2'', sort v2), (''v3'', sort v3)], rp_capabilities = detect_capabilities importable,
       rp_limits = limits, rp_host = host, rp_policy = ps, rp_uptime = py_round 3 uptime\<rparr>)"

subsection \<open>Negotiating\<close>

definition protocol_key :: "string \<Rightarrow> nat list" where
  "protocol_key version = map (\<lambda>c. if isdigit c then digits_val c else 0) (split_on CHR ''.'' version)"

text \<open>\<open>max(xs, key=...)\<close> keeps the first of equal keys.\<close>

fun max_key :: "('a \<Rightarrow> 'k::linorder) \<Rightarrow> 'a \<Rightarrow> 'a list \<Rightarrow> 'a" where
  "max_key f best [] = best"
| "max_key f best (x # xs) = max_key f (if f best < f x then x else best) xs"

definition str_list :: "pyval \<Rightarrow> exn + string list" where
  "str_list v = and_then (py_iter (py_or v (PList []))) (\<lambda>vs. Inr (map py_str vs))"

record deal =
  dl_kinds :: "string list"
  dl_missing :: "string list"
  dl_caps :: "string list"
  dl_missing_caps :: "string list"
  dl_protocols :: "string list"
  dl_agreed :: "string option"

definition compatible :: "deal \<Rightarrow> bool" where
  "compatible d = (dl_missing d = [] \<and> dl_missing_caps d = [] \<and> dl_agreed d \<noteq> None)"

definition requested_protocols :: "dict \<Rightarrow> pyval" where
  "requested_protocols request = (if dget request ''protocols'' = PNone \<and> truthy (dget request ''protocol'')
     then PList [dget request ''protocol''] else dget request ''protocols'')"

definition make_deal :: "report \<Rightarrow> dict \<Rightarrow> exn + deal" where
  "make_deal r request =
     and_then (str_list (dget request ''required_kinds'')) (\<lambda>required.
     and_then (str_list (requested_protocols request)) (\<lambda>protocols.
     and_then (str_list (dget request ''required_capabilities'')) (\<lambda>caps.
       (let shared = (if protocols \<noteq> [] then filter (\<lambda>p. p \<in> set protocols) SUPPORTED_PROTOCOLS else SUPPORTED_PROTOCOLS);
            live = map ca_name (filter ca_available (rp_capabilities r)) in
        Inr \<lparr>dl_kinds = required, dl_missing = filter (\<lambda>k. k \<notin> set (all_kinds r)) required, dl_caps = caps,
          dl_missing_caps = filter (\<lambda>c. c \<notin> set live) caps, dl_protocols = protocols,
          dl_agreed = (case shared of [] \<Rightarrow> None | p # ps \<Rightarrow> Some (max_key protocol_key p ps))\<rparr>))))"

definition deal_dict :: "dict \<Rightarrow> deal \<Rightarrow> dict" where
  "deal_dict request d = [(''requested_kinds'', strs (dl_kinds d)), (''unsupported_kinds'', strs (dl_missing d)),
     (''requested_capabilities'', strs (dl_caps d)), (''missing_capabilities'', strs (dl_missing_caps d)),
     (''requested_protocols'', strs (dl_protocols d)), (''negotiated_protocol'', Subtasks.opt_str (dl_agreed d)),
     (''compatible'', PBool (compatible d))] @
     (if truthy (dget request ''client'') then [(''client'', PStr (py_str (dget request ''client'')))] else [])"

definition negotiate :: "report \<Rightarrow> dict \<Rightarrow> exn + bool \<times> dict" where
  "negotiate r request = and_then (make_deal r request) (\<lambda>d.
     Inr (compatible d, report_dict r @ [(''negotiation'', PDict (deal_dict request d))]))"

subsection \<open>What the answer means\<close>

lemma max_key_in: "max_key f b xs \<in> set (b # xs)"
  by (induction xs arbitrary: b) auto

lemma max_key_max: "x \<in> set (b # xs) \<Longrightarrow> f x \<le> f (max_key f b xs)"
proof (induction xs arbitrary: b x)
  case (Cons y ys)
  have start: "f c \<le> f (max_key f c ys)" for c using Cons.IH[of c c] by simp
  consider "x = b" | "x = y" | "x \<in> set ys" using Cons.prems by auto
  then show ?case
  proof cases
    case 1
    have "f b \<le> f (if f b < f y then y else b)" by auto
    also have "\<dots> \<le> f (max_key f (if f b < f y then y else b) ys)" by (rule start)
    finally show ?thesis using 1 by simp
  next
    case 2
    have "f y \<le> f (if f b < f y then y else b)" by auto
    also have "\<dots> \<le> f (max_key f (if f b < f y then y else b) ys)" by (rule start)
    finally show ?thesis using 2 by simp
  next
    case 3
    then show ?thesis using Cons.IH[of x "if f b < f y then y else b"] by simp
  qed
qed simp

lemma str_list_strs [simp]: "str_list (strs xs) = Inr xs"
  by (cases xs) (simp_all add: str_list_def strs_def py_or_def py_iter_def o_def)

definition shared_protocols :: "string list \<Rightarrow> string set" where
  "shared_protocols ps = (if ps = [] then set SUPPORTED_PROTOCOLS else set SUPPORTED_PROTOCOLS \<inter> set ps)"

text \<open>A negotiation answers \<open>compatible\<close> exactly when every requested kind and capability is there and some protocol is
  shared; the protocol it names is then a shared one, and the highest.\<close>

theorem negotiation_exact:
  "\<exists>d. make_deal r [(''required_kinds'', strs ks), (''protocols'', strs ps), (''required_capabilities'', strs cs)] = Inr d \<and>
     compatible d = (set ks \<subseteq> set (all_kinds r) \<and> set cs \<subseteq> ca_name ` {c \<in> set (rp_capabilities r). ca_available c} \<and> shared_protocols ps \<noteq> {}) \<and>
     (case dl_agreed d of None \<Rightarrow> shared_protocols ps = {}
      | Some p \<Rightarrow> p \<in> shared_protocols ps \<and> shared_protocols ps \<subseteq> {q. protocol_key q \<le> protocol_key p})"
proof -
  define shared where "shared = (if ps \<noteq> [] then filter (\<lambda>p. p \<in> set ps) SUPPORTED_PROTOCOLS else SUPPORTED_PROTOCOLS)"
  have set: "set shared = shared_protocols ps" by (auto simp: shared_def shared_protocols_def)
  define d where "d = \<lparr>dl_kinds = ks, dl_missing = filter (\<lambda>k. k \<notin> set (all_kinds r)) ks, dl_caps = cs,
      dl_missing_caps = filter (\<lambda>c. c \<notin> set (map ca_name (filter ca_available (rp_capabilities r)))) cs, dl_protocols = ps,
      dl_agreed = (case shared of [] \<Rightarrow> None | p # ps \<Rightarrow> Some (max_key protocol_key p ps))\<rparr>"
  have eq: "make_deal r [(''required_kinds'', strs ks), (''protocols'', strs ps), (''required_capabilities'', strs cs)] = Inr d"
    by (simp add: make_deal_def requested_protocols_def dget_def strs_def[symmetric] shared_def[symmetric] d_def Let_def)
  have agreed: "case dl_agreed d of None \<Rightarrow> shared_protocols ps = {}
      | Some p \<Rightarrow> p \<in> shared_protocols ps \<and> shared_protocols ps \<subseteq> {q. protocol_key q \<le> protocol_key p}"
    using max_key_in[of protocol_key] max_key_max[of _ _ _ protocol_key] unfolding set[symmetric] d_def
    by (cases shared) (simp_all add: subset_iff)
  moreover have "(dl_agreed d \<noteq> None) = (shared_protocols ps \<noteq> {})"
    unfolding set[symmetric] d_def by (cases shared) simp_all
  then have "compatible d = (set ks \<subseteq> set (all_kinds r) \<and> set cs \<subseteq> ca_name ` {c \<in> set (rp_capabilities r). ca_available c} \<and> shared_protocols ps \<noteq> {})"
    by (simp add: compatible_def d_def filter_empty_conv subset_eq)
  ultimately show ?thesis using eq by blast
qed

end
