(* ===== verification/Memory.thy ===== *)
theory Memory
  imports Kvstore Json Signing Host
begin

text \<open>
  \<open>agent/memory.py\<close>: the memory store. The SQLite table is the list of its rows in the order of insertion, one row
  for a pair of namespace and key; \<open>INSERT OR REPLACE\<close> removes the old row and appends the new one. The clock is an
  argument; the paths, the lock, the connection and \<open>default_db_path\<close> have no counterpart. Keys and namespaces passed
  to the readers are strings.
\<close>

subsection \<open>Rows and records\<close>

definition DEFAULT_NAMESPACE :: string where "DEFAULT_NAMESPACE = ''default''"

definition MAX_VALUE_BYTES :: nat where "MAX_VALUE_BYTES = 1048576"

definition MAX_KEY_LENGTH :: nat where "MAX_KEY_LENGTH = 512"

text \<open>A row: the encoded value and tags as the table holds them.\<close>

record mrow =
  rw_value :: string
  rw_tags :: string
  rw_created :: rat
  rw_updated :: rat
  rw_expires :: "rat option"

type_synonym mkey = "string \<times> string"
type_synonym mtable = "(mkey \<times> mrow) list"

record mrecord =
  mr_namespace :: string
  mr_key :: string
  mr_value :: pyval
  mr_tags :: "string list"
  mr_created :: rat
  mr_updated :: rat
  mr_expires :: "rat option"

definition ttl_remaining :: "rat \<Rightarrow> mrecord \<Rightarrow> rat option" where
  "ttl_remaining now r = map_option (\<lambda>x. max 0 (x - now)) (mr_expires r)"

definition opt_float :: "rat option \<Rightarrow> pyval" where
  "opt_float x = (case x of None \<Rightarrow> PNone | Some r \<Rightarrow> PFloat r)"

definition mrecord_dict :: "rat \<Rightarrow> bool \<Rightarrow> mrecord \<Rightarrow> dict" where
  "mrecord_dict now with_value r =
     [(''namespace'', PStr (mr_namespace r)), (''key'', PStr (mr_key r)), (''tags'', PList (map PStr (mr_tags r))),
      (''created_at'', PFloat (mr_created r)), (''updated_at'', PFloat (mr_updated r)), (''expires_at'', opt_float (mr_expires r)),
      (''ttl_remaining'', opt_float (ttl_remaining now r))] @ (if with_value then [(''value'', mr_value r)] else [])"

text \<open>\<open>_normalise_tags\<close>.\<close>

definition clean_tags :: "string list \<Rightarrow> string list" where
  "clean_tags raw = fold (\<lambda>tag seen. let text = strip tag in if text \<noteq> [] \<and> text \<notin> set seen then seen @ [text] else seen) raw []"

definition normalise_tags :: "pyval \<Rightarrow> exn + string list" where
  "normalise_tags tags = (case tags of PNone \<Rightarrow> Inr []
     | PStr s \<Rightarrow> Inr (clean_tags (split_on (CHR '','') s))
     | PList xs \<Rightarrow> Inr (clean_tags (map py_str xs))
     | PDict d \<Rightarrow> Inr (clean_tags (map fst d))
     | v \<Rightarrow> Inl (''TypeError'', quoted (type_name v) @ '' object is not iterable''))"

definition memory_error :: "string \<Rightarrow> exn" where
  "memory_error msg = (''MemoryError'', msg)"

definition check_key :: "pyval \<Rightarrow> exn + string" where
  "check_key key = (let text = strip (py_str (py_or key (PStr []))) in
     if text = [] then Inl (memory_error ''key must be a non-empty string'')
     else if length text > MAX_KEY_LENGTH then Inl (memory_error (''key exceeds '' @ nat_str MAX_KEY_LENGTH @ '' characters''))
     else Inr text)"

definition check_namespace :: "pyval \<Rightarrow> string" where
  "check_namespace ns = (let text = strip (py_str (py_or ns (PStr []))) in if text = [] then DEFAULT_NAMESPACE else text)"

definition encode :: "pyval \<Rightarrow> exn + string" where
  "encode v = (let encoded = json_print json_plain (sort_keys v) in
     if length (utf8 encoded) > MAX_VALUE_BYTES
     then Inl (memory_error (''value exceeds '' @ nat_str MAX_VALUE_BYTES @ '' bytes; store a path instead'')) else Inr encoded)"

definition is_expired :: "rat \<Rightarrow> mrow \<Rightarrow> bool" where
  "is_expired now r = (case rw_expires r of None \<Rightarrow> False | Some x \<Rightarrow> x \<le> now)"

definition row_to_record :: "mkey \<times> mrow \<Rightarrow> exn + mrecord" where
  "row_to_record kr = (case kr of ((ns, k), r) \<Rightarrow> (case json_loads (rw_value r) of
       None \<Rightarrow> Inl (''JSONDecodeError'', ''the stored value is not JSON'')
     | Some v \<Rightarrow> Inr \<lparr>mr_namespace = ns, mr_key = k, mr_value = v, mr_tags = filter (\<lambda>t. t \<noteq> []) (split_on (CHR '','') (rw_tags r)),
         mr_created = rw_created r, mr_updated = rw_updated r, mr_expires = rw_expires r\<rparr>))"

subsection \<open>Writing\<close>

text \<open>\<open>INSERT OR REPLACE\<close> and \<open>DELETE\<close> of one key.\<close>

definition put_row :: "mkey \<Rightarrow> mrow \<Rightarrow> mtable \<Rightarrow> mtable" where
  "put_row k r t = filter (\<lambda>x. fst x \<noteq> k) t @ [(k, r)]"

definition del_row :: "mkey \<Rightarrow> mtable \<Rightarrow> mtable" where
  "del_row k t = filter (\<lambda>x. fst x \<noteq> k) t"

definition expiry :: "rat \<Rightarrow> pyval \<Rightarrow> exn + rat option" where
  "expiry now ttl = (if ttl = PNone then Inr None
     else and_then (to_float ttl) (\<lambda>x. if x \<le> 0 then Inl (memory_error ''ttl_seconds must be positive'') else Inr (Some (now + x))))"

definition memory_set :: "rat \<Rightarrow> pyval \<Rightarrow> pyval \<Rightarrow> pyval \<Rightarrow> pyval \<Rightarrow> pyval \<Rightarrow> mtable \<Rightarrow> (exn + mrecord) \<times> mtable" where
  "memory_set now key val ns ttl tags t =
     (let parts = and_then (check_key key) (\<lambda>k. and_then (encode val) (\<lambda>enc. and_then (normalise_tags tags) (\<lambda>tg.
          and_then (expiry now ttl) (\<lambda>ex. Inr (k, enc, tg, ex))))) in
      case parts of Inl e \<Rightarrow> (Inl e, t)
      | Inr (k, enc, tg, ex) \<Rightarrow>
        (let n = check_namespace ns; created = (case map_of t (n, k) of None \<Rightarrow> now | Some r \<Rightarrow> rw_created r) in
         (Inr \<lparr>mr_namespace = n, mr_key = k, mr_value = val, mr_tags = tg, mr_created = created, mr_updated = now, mr_expires = ex\<rparr>,
          put_row (n, k) \<lparr>rw_value = enc, rw_tags = join '','' tg, rw_created = created, rw_updated = now, rw_expires = ex\<rparr> t)))"

definition memory_delete :: "string \<Rightarrow> string \<Rightarrow> mtable \<Rightarrow> bool \<times> mtable" where
  "memory_delete key ns t = (map_of t (ns, key) \<noteq> None, del_row (ns, key) t)"

definition memory_clear :: "string option \<Rightarrow> mtable \<Rightarrow> nat \<times> mtable" where
  "memory_clear ns t = (let left = (case ns of None \<Rightarrow> [] | Some n \<Rightarrow> filter (\<lambda>x. fst (fst x) \<noteq> n) t) in (length t - length left, left))"

definition purge_expired :: "rat \<Rightarrow> mtable \<Rightarrow> nat \<times> mtable" where
  "purge_expired now t = (let left = filter (\<lambda>x. \<not> is_expired now (snd x)) t in (length t - length left, left))"

subsection \<open>Reading\<close>

definition get_record :: "rat \<Rightarrow> string \<Rightarrow> string \<Rightarrow> mtable \<Rightarrow> (exn + mrecord option) \<times> mtable" where
  "get_record now key ns t = (case map_of t (ns, key) of None \<Rightarrow> (Inr None, t)
     | Some r \<Rightarrow> (case row_to_record ((ns, key), r) of Inl e \<Rightarrow> (Inl e, t)
         | Inr x \<Rightarrow> if is_expired now r then (Inr None, snd (memory_delete key ns t)) else (Inr (Some x), t)))"

definition memory_get :: "rat \<Rightarrow> string \<Rightarrow> string \<Rightarrow> pyval \<Rightarrow> mtable \<Rightarrow> (exn + pyval) \<times> mtable" where
  "memory_get now key ns dflt t = (case get_record now key ns t of (r, t') \<Rightarrow>
     (and_then r (\<lambda>x. Inr (case x of None \<Rightarrow> dflt | Some m \<Rightarrow> mr_value m)), t'))"

definition memory_exists :: "rat \<Rightarrow> string \<Rightarrow> string \<Rightarrow> mtable \<Rightarrow> (exn + bool) \<times> mtable" where
  "memory_exists now key ns t = (case get_record now key ns t of (r, t') \<Rightarrow> (and_then r (\<lambda>x. Inr (x \<noteq> None)), t'))"

text \<open>\<open>text LIKE pattern ESCAPE '\'\<close>: \<open>%\<close> any text, \<open>_\<close> any character, ASCII letters in either case.\<close>

definition ascii_lower :: "char \<Rightarrow> char" where
  "ascii_lower c = (if 65 \<le> code c \<and> code c \<le> 90 then char_of (code c + 32) else c)"

function like :: "string \<Rightarrow> string \<Rightarrow> bool" where
  "like [] s = (s = [])"
| "like (p # ps) s =
     (if p = backslash then (case ps of [] \<Rightarrow> False
        | q # qs \<Rightarrow> (case s of [] \<Rightarrow> False | c # cs \<Rightarrow> ascii_lower q = ascii_lower c \<and> like qs cs))
      else if p = CHR ''%'' then (like ps s \<or> (case s of [] \<Rightarrow> False | c # cs \<Rightarrow> like (p # ps) cs))
      else (case s of [] \<Rightarrow> False | c # cs \<Rightarrow> (p = CHR ''_'' \<or> ascii_lower p = ascii_lower c) \<and> like ps cs))"
  by pat_completeness auto
termination
  by (relation "measure (\<lambda>(p, s). length p + length s)") auto

text \<open>Three \<open>replace\<close> calls: the backslash first.\<close>

definition like_prefix :: "string \<Rightarrow> string" where
  "like_prefix p = replace_occ ''_'' [backslash, CHR ''_''] (replace_occ ''%'' [backslash, CHR ''%'']
     (replace_occ [backslash] [backslash, backslash] p)) @ ''%''"

fun all_ok :: "(exn + 'a) list \<Rightarrow> exn + 'a list" where
  "all_ok [] = Inr []"
| "all_ok (r # rs) = and_then r (\<lambda>x. and_then (all_ok rs) (\<lambda>xs. Inr (x # xs)))"

definition newest :: "mtable \<Rightarrow> mtable" where
  "newest t = sort_key (\<lambda>x. (- rw_updated (snd x), snd (fst x))) t"

definition record_expired :: "rat \<Rightarrow> mrecord \<Rightarrow> bool" where
  "record_expired now r = (case mr_expires r of None \<Rightarrow> False | Some x \<Rightarrow> x \<le> now)"

definition memory_list :: "rat \<Rightarrow> string option \<Rightarrow> string \<Rightarrow> string \<Rightarrow> int option \<Rightarrow> bool \<Rightarrow> mtable \<Rightarrow> exn + mrecord list" where
  "memory_list now ns pre tag bound expired t =
     (let rows = newest (filter (\<lambda>x. (case ns of None \<Rightarrow> True | Some n \<Rightarrow> fst (fst x) = n) \<and>
          (pre = [] \<or> like (like_prefix pre) (snd (fst x)))) t) in
      and_then (all_ok (map row_to_record rows)) (\<lambda>rs.
        (let live = (if expired then rs else filter (\<lambda>r. \<not> record_expired now r) rs);
             tagged = (if tag = [] then live else filter (\<lambda>r. tag \<in> set (mr_tags r)) live) in
         Inr (case bound of None \<Rightarrow> tagged | Some n \<Rightarrow> take (nat n) tagged))))"

definition namespaces :: "mtable \<Rightarrow> string list" where
  "namespaces t = sort (remdups (map (fst \<circ> fst) t))"

definition memory_count :: "rat \<Rightarrow> string option \<Rightarrow> mtable \<Rightarrow> exn + nat" where
  "memory_count now ns t = and_then (memory_list now ns [] [] None False t) (\<lambda>rs. Inr (length rs))"

subsection \<open>The table is a key-value store\<close>

lemma map_of_del_row [simp]: "map_of (del_row k t) = (map_of t)(k := None)"
  by (induction t) (auto simp: del_row_def fun_eq_iff)

lemma map_of_put_row [simp]: "map_of (put_row k r t) = (map_of t)(k \<mapsto> r)"
proof
  fix j
  have "map_of (filter (\<lambda>x. fst x \<noteq> k) t) j = ((map_of t)(k := None)) j" using map_of_del_row[of k t] by (simp only: del_row_def)
  then show "map_of (put_row k r t) j = ((map_of t)(k \<mapsto> r)) j" by (simp add: put_row_def map_add_def split: option.splits if_splits)
qed

definition keyed :: "mtable \<Rightarrow> bool" where
  "keyed t = distinct (map fst t)"

lemma keyed_filter [simp]: "keyed t \<Longrightarrow> keyed (filter P t)"
  by (induction t) (auto simp: keyed_def)

interpretation rows: kv_store keyed "\<lambda>_ _. True" map_of put_row del_row
proof
  fix t :: mtable and k v
  assume "keyed t"
  then have "keyed (filter (\<lambda>x. fst x \<noteq> k) t)" by simp
  then show "keyed (put_row k v t)" "keyed (del_row k t)" by (auto simp: put_row_def del_row_def keyed_def)
qed simp_all

subsection \<open>A map with expiry\<close>

text \<open>What can be done to the store, and doing it at an instant.\<close>

datatype mem_op = MSet pyval pyval pyval pyval pyval | MDelete string string | MClear "string option" | MPurge | MGet string string

fun mem_do :: "rat \<times> mem_op \<Rightarrow> mtable \<Rightarrow> mtable" where
  "mem_do (now, MSet key val ns ttl tags) t = snd (memory_set now key val ns ttl tags t)"
| "mem_do (now, MDelete key ns) t = snd (memory_delete key ns t)"
| "mem_do (now, MClear ns) t = snd (memory_clear ns t)"
| "mem_do (now, MPurge) t = snd (purge_expired now t)"
| "mem_do (now, MGet key ns) t = snd (get_record now key ns t)"

text \<open>The abstract store: a map from keys to value, tags, instant of the write and expiry. Expired entries stay in the
  map and are not visible.\<close>

type_synonym mcell = "pyval \<times> string list \<times> rat \<times> rat option"

definition stored_tags :: "string list \<Rightarrow> string list" where
  "stored_tags tg = filter (\<lambda>t. t \<noteq> []) (split_on (CHR '','') (join '','' tg))"

definition set_cell :: "rat \<Rightarrow> pyval \<Rightarrow> pyval \<Rightarrow> pyval \<Rightarrow> pyval \<Rightarrow> pyval \<Rightarrow> (mkey \<times> mcell) option" where
  "set_cell now key val ns ttl tags = (case (check_key key, encode val, normalise_tags tags, expiry now ttl) of
     (Inr k, Inr _, Inr tg, Inr ex) \<Rightarrow> Some ((check_namespace ns, k), (sort_keys val, stored_tags tg, now, ex))
   | _ \<Rightarrow> None)"

fun mem_spec :: "rat \<times> mem_op \<Rightarrow> (mkey \<rightharpoonup> mcell) \<Rightarrow> (mkey \<rightharpoonup> mcell)" where
  "mem_spec (now, MSet key val ns ttl tags) m = (case set_cell now key val ns ttl tags of None \<Rightarrow> m | Some (k, c) \<Rightarrow> m(k \<mapsto> c))"
| "mem_spec (now, MDelete key ns) m = m((ns, key) := None)"
| "mem_spec (now, MClear ns) m = (\<lambda>k. if ns = None \<or> ns = Some (fst k) then None else m k)"
| "mem_spec (now, MPurge) m = m"
| "mem_spec (now, MGet key ns) m = m"

definition visible :: "rat \<Rightarrow> (mkey \<rightharpoonup> mcell) \<Rightarrow> mkey \<Rightarrow> mcell option" where
  "visible now m k = (case m k of Some (v, tg, up, ex) \<Rightarrow> (case ex of Some x \<Rightarrow> if x \<le> now then None else m k | None \<Rightarrow> m k) | None \<Rightarrow> None)"

text \<open>A row as a cell, and what the table shows at an instant.\<close>

definition cell_of :: "mrow \<Rightarrow> mcell option" where
  "cell_of r = map_option (\<lambda>v. (v, filter (\<lambda>t. t \<noteq> []) (split_on (CHR '','') (rw_tags r)), rw_updated r, rw_expires r)) (json_loads (rw_value r))"

definition shown :: "rat \<Rightarrow> mtable \<Rightarrow> mkey \<Rightarrow> mcell option" where
  "shown now t k = (case map_of t k of None \<Rightarrow> None | Some r \<Rightarrow> if is_expired now r then None else cell_of r)"

definition readable :: "mtable \<Rightarrow> bool" where
  "readable t = (keyed t \<and> (\<forall>kr\<in>set t. json_loads (rw_value (snd kr)) \<noteq> None))"

lemma visible_other: "j \<noteq> k \<Longrightarrow> visible now (m(k := c)) j = visible now m j"
  by (simp add: visible_def split: option.splits prod.splits)

lemma map_of_filter_keyed: "keyed t \<Longrightarrow> map_of (filter P t) k = (case map_of t k of None \<Rightarrow> None | Some r \<Rightarrow> if P (k, r) then Some r else None)"
proof (induction t)
  case (Cons kr t)
  then have "keyed t" by (simp add: keyed_def)
  moreover have "map_of t (fst kr) = None" using Cons.prems by (auto simp: keyed_def map_of_eq_None_iff)
  ultimately show ?case using Cons.IH by (cases kr) (auto split: option.splits)
qed simp

lemma encode_loads: "Json.plain v \<Longrightarrow> encode v = Inr s \<Longrightarrow> json_loads s = Some (sort_keys v)"
  by (auto simp: encode_def Let_def loads_print plain_sort_keys split: if_splits)

text \<open>Table and map agree on everything that is visible from now on.\<close>

definition agrees :: "rat \<Rightarrow> mtable \<Rightarrow> (mkey \<rightharpoonup> mcell) \<Rightarrow> bool" where
  "agrees since t m = (\<forall>now k. since \<le> now \<longrightarrow> shown now t k = visible now m k)"

fun op_plain :: "mem_op \<Rightarrow> bool" where
  "op_plain (MSet key val ns ttl tags) = Json.plain val"
| "op_plain _ = True"

lemma shown_filter: "keyed t \<Longrightarrow> shown now (filter P t) k = (case map_of t k of None \<Rightarrow> None | Some r \<Rightarrow> if P (k, r) then shown now t k else None)"
  by (simp add: shown_def map_of_filter_keyed split: option.splits)

lemma is_expired_mono: "is_expired a r \<Longrightarrow> a \<le> b \<Longrightarrow> is_expired b r"
  by (auto simp: is_expired_def split: option.splits)

lemma shown_drop_expired:
  assumes "keyed t" "since \<le> now" "\<And>k r. map_of t k = Some r \<Longrightarrow> \<not> P (k, r) \<Longrightarrow> is_expired since r"
  shows "shown now (filter P t) k = shown now t k"
proof (cases "map_of t k")
  case (Some r)
  have "is_expired now r" if "\<not> P (k, r)" using is_expired_mono[OF assms(3)[OF Some that] assms(2)] .
  then show ?thesis using assms(1) Some by (auto simp: shown_filter) (simp add: shown_def)
qed (simp add: shown_filter[OF assms(1)], simp add: shown_def)

lemma mem_step:
  assumes "readable t" "agrees since t m" "since \<le> now" "op_plain x"
  shows "readable (mem_do (now, x) t) \<and> agrees now (mem_do (now, x) t) (mem_spec (now, x) m)"
proof -
  have key: "keyed t" using assms(1) by (simp add: readable_def)
  have ag: "shown later t k = visible later m k" if "now \<le> later" for later k using assms(2,3) that unfolding agrees_def by (meson order_trans)
  have flt: "readable (filter P t)" for P using assms(1) by (simp add: readable_def)
  show ?thesis
  proof (cases x)
    case (MSet key' val ns ttl tags)
    show ?thesis
    proof (cases "set_cell now key' val ns ttl tags")
      case None
      then have "snd (memory_set now key' val ns ttl tags t) = t"
        by (auto simp: set_cell_def memory_set_def and_then_def Let_def split: sum.splits)
      then show ?thesis using MSet None assms(1) ag by (simp add: agrees_def)
    next
      case (Some kc)
      obtain k enc tg ex where p: "check_key key' = Inr k" "encode val = Inr enc" "normalise_tags tags = Inr tg" "expiry now ttl = Inr ex"
          "kc = ((check_namespace ns, k), (sort_keys val, stored_tags tg, now, ex))"
        using Some by (auto simp: set_cell_def split: sum.splits)
      let ?k = "(check_namespace ns, k)"
      obtain r where r: "snd (memory_set now key' val ns ttl tags t) = put_row ?k r t" "rw_value r = enc" "rw_tags r = join '','' tg"
          "rw_updated r = now" "rw_expires r = ex"
        using p by (auto simp: memory_set_def and_then_def Let_def)
      have l: "json_loads enc = Some (sort_keys val)" using encode_loads p(2) assms(4) MSet by simp
      have "readable (put_row ?k r t)" using rows.valid_put[OF key] assms(1) r(2) l by (auto simp: readable_def put_row_def)
      moreover have "shown later (put_row ?k r t) j = visible later (m(?k \<mapsto> snd kc)) j" if "now \<le> later" for later j
        using ag[OF that, of j] l p(5) r by (auto simp: shown_def visible_def cell_of_def is_expired_def stored_tags_def split: option.splits)
      ultimately show ?thesis using MSet Some r(1) p(5) by (simp add: agrees_def)
    qed
  next
    case (MDelete key' ns)
    have "shown later (del_row (ns, key') t) j = visible later (m((ns, key') := None)) j" if "now \<le> later" for later j
      using ag[OF that, of j] by (cases "j = (ns, key')") (simp add: shown_def visible_def, simp add: shown_def visible_other)
    then show ?thesis using MDelete flt by (simp add: agrees_def memory_delete_def del_row_def)
  next
    case (MClear ns)
    have "shown later (snd (memory_clear ns t)) j = visible later (mem_spec (now, MClear ns) m) j" if "now \<le> later" for later j
    proof (cases ns)
      case None
      then show ?thesis by (simp add: memory_clear_def Let_def shown_def visible_def)
    next
      case (Some n)
      let ?P = "\<lambda>x. fst (fst x) \<noteq> n"
      have "shown later (filter ?P t) j = (if fst j = n then None else shown later t j)"
        unfolding shown_filter[OF key] by (simp add: shown_def split: option.splits)
      moreover have "visible later (mem_spec (now, MClear ns) m) j = (if fst j = n then None else visible later m j)"
        using Some by (simp add: visible_def split: option.splits prod.splits)
      ultimately show ?thesis using Some ag[OF that, of j] by (simp add: memory_clear_def Let_def)
    qed
    moreover have "readable (snd (memory_clear ns t))" using flt by (cases ns) (auto simp: memory_clear_def Let_def readable_def keyed_def)
    ultimately show ?thesis using MClear by (simp add: agrees_def)
  next
    case MPurge
    have "shown later (snd (purge_expired now t)) j = shown later t j" if "now \<le> later" for later j
      using shown_drop_expired[OF key that, of "\<lambda>x. \<not> is_expired now (snd x)"] by (simp add: purge_expired_def Let_def)
    then show ?thesis using MPurge flt ag by (simp add: agrees_def purge_expired_def Let_def)
  next
    case (MGet key' ns)
    show ?thesis
    proof (cases "snd (get_record now key' ns t) = t")
      case True
      then show ?thesis using MGet assms(1) ag by (simp add: agrees_def)
    next
      case False
      then obtain r where r: "map_of t (ns, key') = Some r" "is_expired now r" "snd (get_record now key' ns t) = del_row (ns, key') t"
        by (auto simp: get_record_def memory_delete_def split: option.splits sum.splits if_splits)
      then have "shown later (del_row (ns, key') t) j = shown later t j" if "now \<le> later" for later j
        unfolding del_row_def by (intro shown_drop_expired[OF key that]) auto
      then show ?thesis using MGet r(3) flt ag by (simp add: agrees_def del_row_def)
    qed
  qed
qed

definition mem_run :: "(rat \<times> mem_op) list \<Rightarrow> mtable \<Rightarrow> mtable" where
  "mem_run ops t = fold mem_do ops t"

lemma mem_sim:
  assumes "sorted (map fst ops)" "list_all (\<lambda>x. since \<le> fst x \<and> op_plain (snd x)) ops" "readable t" "agrees since t m"
  shows "readable (mem_run ops t) \<and> (\<forall>now. (\<forall>x\<in>set ops. fst x \<le> now) \<and> since \<le> now \<longrightarrow> agrees now (mem_run ops t) (fold mem_spec ops m))"
  using assms
proof (induction ops arbitrary: since t m)
  case Nil
  then show ?case unfolding mem_run_def agrees_def by (auto intro: order_trans)
next
  case (Cons x ops)
  obtain now op where x: "x = (now, op)" by (cases x)
  have s: "readable (mem_do x t) \<and> agrees now (mem_do x t) (mem_spec x m)"
    using mem_step[OF Cons.prems(3,4), of now op] Cons.prems(2) x by simp
  have "readable (mem_run ops (mem_do x t)) \<and>
      (\<forall>later. (\<forall>x\<in>set ops. fst x \<le> later) \<and> now \<le> later \<longrightarrow> agrees later (mem_run ops (mem_do x t)) (fold mem_spec ops (mem_spec x m)))"
    by (rule Cons.IH) (use Cons.prems s x in \<open>auto simp: list_all_iff\<close>)
  then show ?case using x by (simp add: mem_run_def)
qed

text \<open>What a reader is told of an entry, besides its namespace, its key and its creation date.\<close>

definition view_record :: "mrecord \<Rightarrow> mcell" where
  "view_record r = (mr_value r, mr_tags r, mr_updated r, mr_expires r)"

lemma get_shown:
  assumes "readable t"
  shows "map_sum id (map_option view_record) (fst (get_record now key ns t)) = Inr (shown now t (ns, key))"
proof (cases "map_of t (ns, key)")
  case (Some r)
  then have "((ns, key), r) \<in> set t" by (rule map_of_SomeD)
  then obtain v where "json_loads (rw_value r) = Some v" using assms by (fastforce simp: readable_def)
  then show ?thesis using Some by (simp add: get_record_def row_to_record_def shown_def cell_of_def view_record_def)
qed (simp add: get_record_def shown_def)

text \<open>C12: after any history of writes, deletions, clearings, purges and reads, a read returns what a map with expiry
  holds: the last value written under that key that was neither removed nor has expired, with its tags, date and expiry.\<close>

theorem memory_refines_map:
  assumes "sorted (map fst ops)" "\<forall>x\<in>set ops. fst x \<le> now" "\<forall>x\<in>set ops. op_plain (snd x)"
  shows "map_sum id (map_option view_record) (fst (get_record now key ns (mem_run ops []))) =
    Inr (visible now (fold mem_spec ops Map.empty) (ns, key))"
proof -
  define since where "since = (if ops = [] then now else fst (hd ops))"
  have f: "list_all (\<lambda>x. since \<le> fst x \<and> op_plain (snd x)) ops" "since \<le> now"
    using assms by (auto simp: since_def list_all_iff) (cases ops; force)+
  have "readable [] \<and> agrees since [] Map.empty" by (simp add: readable_def keyed_def agrees_def shown_def visible_def)
  then have "readable (mem_run ops []) \<and> agrees now (mem_run ops []) (fold mem_spec ops Map.empty)"
    using mem_sim[OF assms(1) f(1), of "[]" Map.empty] assms(2) f(2) by blast
  then show ?thesis using get_shown by (simp add: agrees_def)
qed

definition demo_ops :: "(rat \<times> mem_op) list" where
  "demo_ops = [(1, MSet (PStr ''os'') (PStr ''linux'') PNone PNone PNone), (2, MSet (PStr ''build'') (PInt 7) PNone (PInt 10) (PStr ''ci'')),
     (3, MDelete ''os'' ''default''), (4, MPurge)]"

theorem memory_refines_map_witness:
  "map_sum id (map_option view_record) (fst (get_record 5 ''build'' ''default'' (mem_run demo_ops []))) =
    Inr (visible 5 (fold mem_spec demo_ops Map.empty) (''default'', ''build''))"
  using memory_refines_map[of demo_ops 5 "''build''" "''default''"] by (simp add: demo_ops_def)

subsection \<open>Prefix search\<close>

lemma replace_char: "replace_occ [c] new s = concat (map (\<lambda>x. if x = c then new else [x]) s)"
  by (induction s) auto

definition esc :: "char \<Rightarrow> string" where
  "esc c = (if c \<in> {backslash, CHR ''%'', CHR ''_''} then [backslash, c] else [c])"

lemma concat_map_concat: "concat (map f (concat xss)) = concat (map (\<lambda>xs. concat (map f xs)) xss)"
  by (induction xss) auto

lemma like_prefix_esc: "like_prefix p = concat (map esc p) @ ''%''"
proof -
  have "replace_occ ''_'' [backslash, CHR ''_''] (replace_occ ''%'' [backslash, CHR ''%''] (replace_occ [backslash] [backslash, backslash] p)) = concat (map esc p)"
    unfolding replace_char by (induction p) (auto simp: esc_def)
  then show ?thesis by (simp add: like_prefix_def)
qed

lemma like_any: "like ''%'' s"
  by (induction s) auto

lemma like_esc: "like (esc p @ ps) s = (case s of [] \<Rightarrow> False | c # cs \<Rightarrow> ascii_lower p = ascii_lower c \<and> like ps cs)"
  by (auto simp: esc_def split: list.splits)

text \<open>The wildcards of a prefix stand for themselves; the case of ASCII letters is ignored.\<close>

lemma like_prefix_correct: "like (like_prefix p) s = prefix (map ascii_lower p) (map ascii_lower s)"
proof -
  have "like (concat (map esc p) @ ''%'') s = prefix (map ascii_lower p) (map ascii_lower s)"
  proof (induction p arbitrary: s)
    case Nil
    then show ?case using like_any by simp
  next
    case (Cons c p)
    then show ?case by (cases s) (simp_all add: like_esc del: like.simps)
  qed
  then show ?thesis by (simp add: like_prefix_esc)
qed

lemma all_ok_map: "(\<forall>x\<in>set xs. f x = Inr (g x)) \<Longrightarrow> all_ok (map f xs) = Inr (map g xs)"
  by (induction xs) (auto simp: and_then_def)

definition record_of :: "mkey \<times> mrow \<Rightarrow> mrecord" where
  "record_of kr = \<lparr>mr_namespace = fst (fst kr), mr_key = snd (fst kr), mr_value = the (json_loads (rw_value (snd kr))),
     mr_tags = filter (\<lambda>t. t \<noteq> []) (split_on (CHR '','') (rw_tags (snd kr))), mr_created = rw_created (snd kr),
     mr_updated = rw_updated (snd kr), mr_expires = rw_expires (snd kr)\<rparr>"

lemma record_of_row: "readable t \<Longrightarrow> kr \<in> set t \<Longrightarrow> row_to_record kr = Inr (record_of kr)"
  by (auto simp: readable_def row_to_record_def record_of_def split: prod.splits option.splits)

text \<open>What a search asks for.\<close>

definition matches :: "rat \<Rightarrow> string option \<Rightarrow> string \<Rightarrow> string \<Rightarrow> mrecord \<Rightarrow> bool" where
  "matches now ns pre tag r = ((ns = None \<or> ns = Some (mr_namespace r)) \<and> prefix (map ascii_lower pre) (map ascii_lower (mr_key r)) \<and>
     (tag = [] \<or> tag \<in> set (mr_tags r)) \<and> \<not> record_expired now r)"

lemma sorted_pairs: "sorted (map (\<lambda>x. (f x, g x)) xs) \<Longrightarrow> sorted (map f xs)"
  by (induction xs) (auto simp: less_eq_prod_def)

lemma memory_list_rows:
  assumes "readable t"
  shows "memory_list now ns pre tag None False t =
    Inr (filter (matches now ns pre tag) (map record_of (newest t)))"
proof -
  let ?P = "\<lambda>x. (case ns of None \<Rightarrow> True | Some n \<Rightarrow> fst (fst x) = n) \<and> (pre = [] \<or> like (like_prefix pre) (snd (fst x)))"
  let ?L = "filter (\<lambda>r. \<not> record_expired now r) (map record_of (filter ?P (newest t)))"
  have "all_ok (map row_to_record (newest (filter ?P t))) = Inr (map record_of (newest (filter ?P t)))"
    by (rule all_ok_map) (auto simp: newest_def record_of_row[OF assms])
  moreover have "newest (filter ?P t) = filter ?P (newest t)" by (simp add: newest_def filter_sort)
  ultimately have "memory_list now ns pre tag None False t = Inr (if tag = [] then ?L else filter (\<lambda>r. tag \<in> set (mr_tags r)) ?L)"
    by (simp add: memory_list_def Let_def and_then_def del: filter_filter)
  also have "(if tag = [] then ?L else filter (\<lambda>r. tag \<in> set (mr_tags r)) ?L) = filter (\<lambda>r. tag = [] \<or> tag \<in> set (mr_tags r)) ?L"
    by (simp del: filter_filter)
  also have "filter (\<lambda>r. tag = [] \<or> tag \<in> set (mr_tags r)) (filter (\<lambda>r. \<not> record_expired now r) (map record_of (filter ?P xs))) =
      filter (matches now ns pre tag) (map record_of xs)" for xs
    by (induction xs) (auto simp: matches_def record_of_def like_prefix_correct split: option.splits)
  finally show ?thesis .
qed

text \<open>A search returns every live entry that matches namespace, prefix and tag, and no other, the newest update first.
  The wildcards of \<open>LIKE\<close> in the prefix stand for themselves.\<close>

theorem memory_list_finds:
  assumes "sorted (map fst ops)" "\<forall>x\<in>set ops. op_plain (snd x)"
  shows "\<exists>rs. memory_list now ns pre tag None False (mem_run ops []) = Inr rs \<and>
    set rs = {r \<in> record_of ` set (mem_run ops []). matches now ns pre tag r} \<and> sorted (map (\<lambda>r. - mr_updated r) rs)"
proof -
  define t where "t = mem_run ops []"
  have "list_all (\<lambda>x. (if ops = [] then 0 else fst (hd ops)) \<le> fst x \<and> op_plain (snd x)) ops"
    using assms by (auto simp: list_all_iff) (cases ops; force)+
  moreover have "readable [] \<and> agrees x [] Map.empty" for x by (simp add: readable_def keyed_def agrees_def shown_def visible_def)
  ultimately have r: "readable t" using mem_sim[OF assms(1)] t_def by blast
  have "sorted (map (\<lambda>x. (- rw_updated (snd x), snd (fst x))) (newest t))" by (simp add: newest_def)
  then have "sorted (map (\<lambda>x. - rw_updated (snd x)) (newest t))"
    by (rule sorted_pairs)
  then have "sorted (map (\<lambda>r. - mr_updated r) (map record_of (newest t)))" by (simp add: record_of_def comp_def)
  then have "sorted (map (\<lambda>r. - mr_updated r) (filter (matches now ns pre tag) (map record_of (newest t))))"
    by (rule sorted_filter)
  then show ?thesis unfolding t_def[symmetric] memory_list_rows[OF r] by (auto simp: newest_def)
qed

definition demo_rows :: "(rat \<times> mem_op) list" where
  "demo_rows = [(1, MSet (PStr ''ci/linux'') (PInt 1) PNone PNone PNone), (2, MSet (PStr ''CI/mac'') (PInt 2) PNone PNone PNone)]"

theorem memory_list_finds_witness:
  "\<exists>rs. memory_list 5 None ''ci/'' [] None False (mem_run demo_rows []) = Inr rs \<and>
    set rs = {r \<in> record_of ` set (mem_run demo_rows []). matches 5 None ''ci/'' [] r} \<and> sorted (map (\<lambda>r. - mr_updated r) rs)"
  by (rule memory_list_finds) (simp_all add: demo_rows_def)

subsection \<open>Departures\<close>

text \<open>A tag with a comma comes back as two.\<close>

lemma tag_with_comma_splits: "normalise_tags (PList [PStr ''a,b'']) = Inr [''a,b''] \<and> stored_tags [''a,b''] = [''a'', ''b'']"
  by (simp add: normalise_tags_def clean_tags_def stored_tags_def strip_def rstrip_def lstrip_def is_space_def code_def)

text \<open>The key of a write is stripped, that of a read is not: \<open>set\<close> and then \<open>get\<close> under the same text finds nothing.\<close>

lemma padded_key_unread:
  "fst (get_record 2 '' k'' ''default'' (snd (memory_set 1 (PStr '' k'') (PInt 1) PNone PNone PNone []))) = Inr None"
  by (simp add: memory_set_def get_record_def check_key_def check_namespace_def encode_def normalise_tags_def expiry_def and_then_def
     Let_def put_row_def strip_def rstrip_def lstrip_def is_space_def code_def py_or_def MAX_KEY_LENGTH_def MAX_VALUE_BYTES_def
     int_str_def nat_str.simps utf8_def utf8_char_def DEFAULT_NAMESPACE_def)

text \<open>Overwriting an entry that has expired but was not read or purged since keeps its creation date.\<close>

lemma expired_entry_keeps_date:
  assumes "map_of t (ns, k) = Some r" "is_expired now r" "check_key key = Inr k" "check_namespace n = ns"
    "encode val = Inr enc" "normalise_tags tags = Inr tg" "expiry now ttl = Inr ex"
  shows "\<exists>m. fst (memory_set now key val n ttl tags t) = Inr m \<and> mr_created m = rw_created r"
  using assms by (simp add: memory_set_def and_then_def Let_def)

end
