(* ===== verification/Workflow.thy ===== *)
theory Workflow
  imports Subtasks
begin

text \<open>
  \<open>agent/workflow.py\<close>: validation of a plan (\<open>parse_workflow\<close>), Kahn's algorithm
  (\<open>topological_order\<close>), the references \<open>${nodes.x.y}\<close> between nodes, and the runner. The runner's
  loop is modelled pass by pass: the pool, which decides which in-flight nodes a \<open>wait\<close> returns, and
  the instants at which \<open>cancel\<close> is called are arguments; \<open>execute\<close> is the caller's function. Times
  and durations are left out. A node's payload is substituted when it is launched: the outcomes
  it may refer to are final by then.
\<close>

subsection \<open>Nodes, outcomes, plans\<close>

record node =
  n_id :: string
  n_kind :: string
  n_payload :: dict
  n_depends_on :: "string list"
  n_continue :: bool
  n_timeout :: rat

datatype nstate = NSucceeded | NFailed | NSkipped | NCancelled

record outcome =
  o_id :: string
  o_state :: nstate
  o_ok :: bool
  o_result :: "result option"
  o_error :: string
  o_skipped :: string

record spec =
  w_nodes :: "node list"
  w_max_parallel :: int
  w_fail_fast :: bool

definition node_ids :: "spec \<Rightarrow> string list" where
  "node_ids sp = map n_id (w_nodes sp)"

definition by_id :: "spec \<Rightarrow> string \<Rightarrow> node option" where
  "by_id sp i = find (\<lambda>n. n_id n = i) (w_nodes sp)"

fun nstate_str :: "nstate \<Rightarrow> string" where
  "nstate_str NSucceeded = ''succeeded''" | "nstate_str NFailed = ''failed''"
| "nstate_str NSkipped = ''skipped''" | "nstate_str NCancelled = ''cancelled''"

definition outcome_to_dict :: "outcome \<Rightarrow> dict" where
  "outcome_to_dict o' =
     [(''id'', PStr (o_id o')), (''state'', PStr (nstate_str (o_state o'))), (''ok'', PBool (o_ok o'))] @
     (if o_error o' \<noteq> [] then [(''error'', PStr (o_error o'))] else []) @
     (if o_skipped o' \<noteq> [] then [(''skipped_because'', PStr (o_skipped o'))] else []) @
     (case o_result o' of None \<Rightarrow> []
      | Some r \<Rightarrow> [(''stdout'', PStr (last_n 4000 (r_stdout r))), (''stderr'', PStr (last_n 2000 (r_stderr r))),
                   (''exit_code'', opt_int (r_exit_code r)), (''decision'', PStr (r_decision r))])"

datatype wf_error =
    NotObject
  | NoNodes
  | TooManyNodes nat
  | NodeNotObject nat
  | EmptyId nat
  | DuplicateId string
  | NodeNoKind string
  | NodePayload string
  | DependsNotList string
  | BadTimeout string
  | UnknownDep string string
  | SelfDep string
  | UnknownRef string string
  | BadField string string
  | UndeclaredRef string string
  | Cycle "string list"
  | BadMaxParallel

definition MAX_NODES :: nat where
  "MAX_NODES = 100"

definition referenceable :: "string set" where
  "referenceable = {''stdout'', ''stderr'', ''exit_code'', ''ok'', ''error'', ''decision''}"

subsection \<open>References\<close>

definition id_char :: "char \<Rightarrow> bool" where
  "id_char c = (let n = code c in (65 \<le> n \<and> n \<le> 90) \<or> (97 \<le> n \<and> n \<le> 122) \<or> (48 \<le> n \<and> n \<le> 57) \<or> n = 95 \<or> n = 45)"

definition field_char :: "char \<Rightarrow> bool" where
  "field_char c = (id_char c \<and> c \<noteq> CHR ''-'')"

definition ref_open :: string where
  "ref_open = ''${nodes.''"

text \<open>\<open>_REF_RE\<close> at the front of the text: the node, the field and what follows the match.\<close>

definition match_ref :: "string \<Rightarrow> (string \<times> string \<times> string) option" where
  "match_ref s =
     (if \<not> prefix ref_open s then None
      else
        (let r = drop (length ref_open) s; i = takeWhile id_char r; r1 = dropWhile id_char r in
         case r1 of [] \<Rightarrow> None
         | d # r2 \<Rightarrow> if i = [] \<or> d \<noteq> CHR ''.'' then None
             else (let f = takeWhile field_char r2 in
               case dropWhile field_char r2 of [] \<Rightarrow> None
               | e # r3 \<Rightarrow> if f = [] \<or> e \<noteq> CHR ''}'' then None else Some (i, f, r3))))"

lemma match_ref_length: "match_ref s = Some (i, f, r) \<Longrightarrow> length r < length s"
proof -
  assume *: "match_ref s = Some (i, f, r)"
  define t where "t = drop (length ref_open) s"
  obtain d r2 where 1: "dropWhile id_char t = d # r2"
    using * by (auto simp: match_ref_def Let_def t_def split: if_splits list.splits)
  obtain e where 2: "dropWhile field_char r2 = e # r"
    using * 1 by (auto simp: match_ref_def Let_def t_def split: if_splits list.splits)
  have "length (d # r2) \<le> length t" using 1 length_dropWhile_le[of id_char t] by simp
  moreover have "length (e # r) \<le> length r2" using 2 length_dropWhile_le[of field_char r2] by simp
  moreover have "length t \<le> length s" by (simp add: t_def)
  ultimately show ?thesis by simp
qed

text \<open>\<open>_REF_RE.findall\<close> and \<open>_REF_RE.sub\<close>.\<close>

function find_refs :: "string \<Rightarrow> (string \<times> string) list" where
  "find_refs [] = []"
| "find_refs (c # cs) = (case match_ref (c # cs) of
       None \<Rightarrow> find_refs cs
     | Some (i, f, r) \<Rightarrow> (i, f) # find_refs r)"
  by pat_completeness auto
termination
  by (relation "measure length") (auto dest: match_ref_length)

function sub_refs :: "(string \<Rightarrow> string \<Rightarrow> string) \<Rightarrow> string \<Rightarrow> string" where
  "sub_refs g [] = []"
| "sub_refs g (c # cs) = (case match_ref (c # cs) of
       None \<Rightarrow> c # sub_refs g cs
     | Some (i, f, r) \<Rightarrow> g i f @ sub_refs g r)"
  by pat_completeness auto
termination
  by (relation "measure (\<lambda>(g, s). length s)") (auto dest: match_ref_length)

fun references :: "pyval \<Rightarrow> (string \<times> string) list" where
  "references (PStr s) = find_refs s"
| "references (PDict d) = concat (map (\<lambda>(k, v). references v) d)"
| "references (PList xs) = concat (map references xs)"
| "references _ = []"

definition result_field :: "result \<Rightarrow> string \<Rightarrow> pyval" where
  "result_field r f =
     (if f = ''task_id'' then PStr (r_task_id r) else if f = ''ok'' then PBool (r_ok r)
      else if f = ''decision'' then PStr (r_decision r) else if f = ''stdout'' then PStr (r_stdout r)
      else if f = ''stderr'' then PStr (r_stderr r) else if f = ''exit_code'' then opt_int (r_exit_code r)
      else if f = ''error'' then PStr (r_error r) else if f = ''metadata'' then PDict (r_metadata r)
      else PNone)"

definition lookup :: "(string \<times> outcome) list \<Rightarrow> string \<Rightarrow> string \<Rightarrow> pyval" where
  "lookup os i f = (case map_of os i of
       None \<Rightarrow> PNone
     | Some o' \<Rightarrow>
         (if f = ''ok'' then PBool (o_ok o')
          else if f = ''error'' then PStr (o_error o')
          else case o_result o' of None \<Rightarrow> PNone | Some r \<Rightarrow> result_field r f))"

fun substitute :: "(string \<times> outcome) list \<Rightarrow> pyval \<Rightarrow> pyval" where
  "substitute os (PStr s) = (case match_ref (strip s) of
       Some (i, f, []) \<Rightarrow> lookup os i f
     | _ \<Rightarrow> PStr (sub_refs (\<lambda>i f. str_or_empty (lookup os i f)) s))"
| "substitute os (PDict d) = PDict (map (\<lambda>(k, v). (k, substitute os v)) d)"
| "substitute os (PList xs) = PList (map (substitute os) xs)"
| "substitute os v = v"

subsection \<open>Topological order\<close>

lemma kahn_decreases:
  assumes "ready = map n_id (filter (\<lambda>n. map_of rem (n_id n) = Some []) nodes)" "ready \<noteq> []"
  shows "length (filter (\<lambda>(k, ds). k \<notin> set ready) rem) < length rem"
proof -
  obtain n where n: "n \<in> set nodes" "map_of rem (n_id n) = Some []"
    using assms by (auto simp: filter_empty_conv)
  then have "(n_id n, []) \<in> set rem" by (simp add: map_of_SomeD)
  moreover have "n_id n \<in> set ready" using assms(1) n by auto
  ultimately show ?thesis by (intro length_filter_less[of "(n_id n, [])"]) auto
qed

function kahn :: "node list \<Rightarrow> (string \<times> string list) list \<Rightarrow> string list \<Rightarrow> wf_error + string list" where
  "kahn nodes rem order =
     (if rem = [] then Inr order
      else
        (let ready = map n_id (filter (\<lambda>n. map_of rem (n_id n) = Some []) nodes) in
         if ready = [] then Inl (Cycle (sort (map fst rem)))
         else kahn nodes
                (map (\<lambda>(k, ds). (k, filter (\<lambda>d. d \<notin> set ready) ds))
                   (filter (\<lambda>(k, ds). k \<notin> set ready) rem))
                (order @ ready)))"
  by pat_completeness auto
termination
proof (relation "measure (\<lambda>(n, r, o'). length r)", goal_cases)
  case 1
  show ?case by simp
next
  case (2 nodes rem order ready)
  then show ?case using kahn_decreases[of ready rem nodes] by simp
qed

declare kahn.simps [simp del]

definition topological_order :: "node list \<Rightarrow> wf_error + string list" where
  "topological_order nodes = kahn nodes (map (\<lambda>n. (n_id n, n_depends_on n)) nodes) []"

subsection \<open>Validation\<close>

definition node_reserved :: "string list" where
  "node_reserved = [''id'', ''kind'', ''payload'', ''depends_on'', ''continue_on_error'', ''timeout_sec'']"

definition parse_node :: "nat \<Rightarrow> string list \<Rightarrow> pyval \<Rightarrow> wf_error + node" where
  "parse_node index seen rawv = (case rawv of
     PDict raw \<Rightarrow>
       (let i = strip (if truthy (dget raw ''id'') then py_str (dget raw ''id'') else ''node-'' @ nat_str index) in
        if i = [] then Inl (EmptyId index)
        else if i \<in> set seen then Inl (DuplicateId i)
        else
          (let kind = strip (str_or_empty (dget raw ''kind'')) in
           if kind = [] then Inl (NodeNoKind i)
           else
             (let pv = (if dget raw ''payload'' = PNone then PDict (flat_payload node_reserved raw)
                        else dget raw ''payload'') in
              case pv of
                PDict payload \<Rightarrow>
                  (let dv = py_or (dget raw ''depends_on'') (PList []);
                       dv = (case dv of PStr s \<Rightarrow> PList [PStr s] | _ \<Rightarrow> dv) in
                   case dv of
                     PList ds \<Rightarrow>
                       (case py_float (dget_or raw ''timeout_sec'' (PFloat 600)) of
                          None \<Rightarrow> Inl (BadTimeout i)
                        | Some t \<Rightarrow> Inr \<lparr>n_id = i, n_kind = kind, n_payload = payload,
                            n_depends_on = map py_str ds,
                            n_continue = truthy (dget_or raw ''continue_on_error'' (PBool False)),
                            n_timeout = t\<rparr>)
                   | _ \<Rightarrow> Inl (DependsNotList i))
              | _ \<Rightarrow> Inl (NodePayload i))))
   | _ \<Rightarrow> Inl (NodeNotObject index))"

fun parse_nodes :: "nat \<Rightarrow> string list \<Rightarrow> pyval list \<Rightarrow> wf_error + node list" where
  "parse_nodes index seen [] = Inr []"
| "parse_nodes index seen (r # rs) = (case parse_node index seen r of
       Inl e \<Rightarrow> Inl e
     | Inr n \<Rightarrow> (case parse_nodes (Suc index) (n_id n # seen) rs of
          Inl e \<Rightarrow> Inl e | Inr ns \<Rightarrow> Inr (n # ns)))"

fun check_deps :: "string list \<Rightarrow> string \<Rightarrow> string list \<Rightarrow> wf_error option" where
  "check_deps ids i [] = None"
| "check_deps ids i (d # ds) =
     (if d \<notin> set ids then Some (UnknownDep i d) else if d = i then Some (SelfDep i)
      else check_deps ids i ds)"

fun check_refs :: "string list \<Rightarrow> node \<Rightarrow> (string \<times> string) list \<Rightarrow> wf_error option" where
  "check_refs ids n [] = None"
| "check_refs ids n ((i, f) # rs) =
     (if i \<notin> set ids then Some (UnknownRef (n_id n) i)
      else if f \<notin> referenceable then Some (BadField (n_id n) f)
      else if i \<notin> set (n_depends_on n) then Some (UndeclaredRef (n_id n) i)
      else check_refs ids n rs)"

fun check_nodes :: "string list \<Rightarrow> node list \<Rightarrow> wf_error option" where
  "check_nodes ids [] = None"
| "check_nodes ids (n # ns) = (case check_deps ids (n_id n) (n_depends_on n) of
       Some e \<Rightarrow> Some e
     | None \<Rightarrow> (case check_refs ids n (references (PDict (n_payload n))) of
          Some e \<Rightarrow> Some e | None \<Rightarrow> check_nodes ids ns))"

definition parse_workflow :: "pyval \<Rightarrow> wf_error + spec" where
  "parse_workflow pv = (case pv of
     PDict payload \<Rightarrow>
       (case py_or (dget payload ''nodes'') (dget payload ''steps'') of
          PList raws \<Rightarrow>
            (if raws = [] then Inl NoNodes
             else if length raws > MAX_NODES then Inl (TooManyNodes (length raws))
             else case parse_nodes 0 [] raws of
               Inl e \<Rightarrow> Inl e
             | Inr nodes \<Rightarrow>
                (case check_nodes (map n_id nodes) nodes of
                   Some e \<Rightarrow> Inl e
                 | None \<Rightarrow>
                    (case topological_order nodes of
                       Inl e \<Rightarrow> Inl e
                     | Inr _ \<Rightarrow>
                        (case py_int (dget_or payload ''max_parallel'' (PInt 3)) of
                           None \<Rightarrow> Inl BadMaxParallel
                         | Some p \<Rightarrow>
                            (if p < 1 then Inl BadMaxParallel
                             else Inr \<lparr>w_nodes = nodes, w_max_parallel = p,
                                       w_fail_fast = truthy (dget_or payload ''fail_fast'' (PBool True))\<rparr>)))))
        | _ \<Rightarrow> Inl NoNodes)
   | _ \<Rightarrow> Inl NotObject)"

subsection \<open>The runner\<close>

definition skip_reason :: "node \<Rightarrow> (string \<times> outcome) list \<Rightarrow> string" where
  "skip_reason n os = (case find (\<lambda>d. case map_of os d of None \<Rightarrow> False
        | Some o' \<Rightarrow> o_state o' \<in> {NSkipped, NCancelled} \<or> \<not> o_ok o') (n_depends_on n) of
       None \<Rightarrow> []
     | Some d \<Rightarrow> (case map_of os d of None \<Rightarrow> []
         | Some o' \<Rightarrow> if o_state o' = NSkipped then ''dependency '' @ d @ '' was skipped''
             else if o_state o' = NCancelled then ''dependency '' @ d @ '' was cancelled''
             else ''dependency '' @ d @ '' failed''))"

definition node_task_id :: "string option \<Rightarrow> node \<Rightarrow> string" where
  "node_task_id parent n = (case parent of Some p \<Rightarrow> if p \<noteq> [] then p @ ''-'' @ n_id n else n_id n
     | None \<Rightarrow> n_id n)"

text \<open>What the runner is given: how a task is executed (a result, or the text of the exception it
  raised), which in-flight nodes the \<open>i\<close>-th wait returns, and whether \<open>cancel\<close> has been called when
  the flag is read for the \<open>k\<close>-th time (\<open>2 * i\<close>: the launch test of pass \<open>i\<close>; \<open>2 * i + 1\<close>: the test
  when nothing is in flight).\<close>

record wenv =
  w_execute :: "subtask \<Rightarrow> string + result"
  w_done :: "nat \<Rightarrow> string list \<Rightarrow> string list"
  w_cancelled :: "nat \<Rightarrow> bool"
  w_parent :: "string option"

definition blank_outcome :: "string \<Rightarrow> nstate \<Rightarrow> outcome" where
  "blank_outcome i s = \<lparr>o_id = i, o_state = s, o_ok = False, o_result = None, o_error = [], o_skipped = []\<rparr>"

fun subtask_error_str :: "subtask_error \<Rightarrow> string" where
  "subtask_error_str NoKind = ''SubtaskError: task spec needs a kind''"
| "subtask_error_str PayloadNotObject = ''SubtaskError: task payload must be an object''"
| "subtask_error_str _ = ''SubtaskError''"

definition run_node :: "wenv \<Rightarrow> node \<Rightarrow> (string \<times> outcome) list \<Rightarrow> outcome" where
  "run_node env n os =
     (case build_subtask [] (PDict [(''id'', PStr (node_task_id (w_parent env) n)), (''kind'', PStr (n_kind n)),
             (''payload'', substitute os (PDict (n_payload n)))]) (w_parent env) 0 0 of
        Inl e \<Rightarrow> (blank_outcome (n_id n) NFailed)\<lparr>o_error := subtask_error_str e\<rparr>
      | Inr t \<Rightarrow> (case w_execute env t of
          Inl e \<Rightarrow> (blank_outcome (n_id n) NFailed)\<lparr>o_error := e\<rparr>
        | Inr r \<Rightarrow> (blank_outcome (n_id n) (if r_ok r then NSucceeded else NFailed))
            \<lparr>o_ok := r_ok r, o_result := Some r,
             o_error := (if r_ok r then [] else if r_error r \<noteq> [] then r_error r
                         else ''node returned ok=false'')\<rparr>))"

record wstate =
  ws_outcomes :: "(string \<times> outcome) list"
  ws_pending :: "node list"
  ws_flight :: "(node \<times> outcome) list"
  ws_stop :: bool

definition ready_nodes :: "spec \<Rightarrow> wstate \<Rightarrow> node list" where
  "ready_nodes sp st =
     take (nat (w_max_parallel sp - int (length (ws_flight st))))
       (filter (\<lambda>n. n_id n \<in> n_id ` set (ws_pending st) \<and>
           list_all (\<lambda>d. map_of (ws_outcomes st) d \<noteq> None) (n_depends_on n)) (w_nodes sp))"

definition drop_pending :: "node \<Rightarrow> wstate \<Rightarrow> wstate" where
  "drop_pending n st = st\<lparr>ws_pending := filter (\<lambda>m. n_id m \<noteq> n_id n) (ws_pending st)\<rparr>"

definition set_outcome :: "outcome \<Rightarrow> wstate \<Rightarrow> wstate" where
  "set_outcome o' st = st\<lparr>ws_outcomes := dict_set (ws_outcomes st) (o_id o') o'\<rparr>"

definition launch_one :: "wenv \<Rightarrow> node \<Rightarrow> wstate \<Rightarrow> wstate" where
  "launch_one env n st =
     (let reason = skip_reason n (ws_outcomes st) in
      if reason \<noteq> []
      then set_outcome ((blank_outcome (n_id n) NSkipped)\<lparr>o_skipped := reason\<rparr>) (drop_pending n st)
      else (drop_pending n st)\<lparr>ws_flight := ws_flight st @ [(n, run_node env n (ws_outcomes st))]\<rparr>)"

definition launch :: "wenv \<Rightarrow> spec \<Rightarrow> wstate \<Rightarrow> wstate" where
  "launch env sp st = fold (launch_one env) (ready_nodes sp st) st"

text \<open>Nothing runs and nothing was launched: every pending node is resolved.\<close>

definition resolve_one :: "bool \<Rightarrow> node \<Rightarrow> wstate \<Rightarrow> wstate" where
  "resolve_one cancelled n st =
     (let reason = (if cancelled then ''workflow cancelled''
                    else if skip_reason n (ws_outcomes st) \<noteq> [] then skip_reason n (ws_outcomes st)
                    else ''upstream failure'') in
      set_outcome ((blank_outcome (n_id n) (if cancelled then NCancelled else NSkipped))\<lparr>o_skipped := reason\<rparr>)
        (drop_pending n st))"

definition resolve_rest :: "bool \<Rightarrow> wstate \<Rightarrow> wstate" where
  "resolve_rest cancelled st = fold (resolve_one cancelled) (ws_pending st) st"

definition complete_one :: "spec \<Rightarrow> node \<times> outcome \<Rightarrow> wstate \<Rightarrow> wstate" where
  "complete_one sp x st = (case x of (n, o') \<Rightarrow>
     (set_outcome o' st)\<lparr>ws_stop := (ws_stop st \<or> (\<not> o_ok o' \<and> \<not> n_continue n \<and> w_fail_fast sp))\<rparr>)"

text \<open>\<open>wait(..., FIRST_COMPLETED)\<close> returns at least one in-flight node.\<close>

definition wait_done :: "wenv \<Rightarrow> nat \<Rightarrow> wstate \<Rightarrow> (node \<times> outcome) list \<times> (node \<times> outcome) list" where
  "wait_done env i st =
     (let ids = w_done env i (map (\<lambda>(n, o'). n_id n) (ws_flight st));
          ids = (if list_ex (\<lambda>(n, o'). n_id n \<in> set ids) (ws_flight st) then ids
                 else [n_id (fst (hd (ws_flight st)))]) in
      partition (\<lambda>(n, o'). n_id n \<in> set ids) (ws_flight st))"

text \<open>One pass of the loop: \<open>Inl\<close> the state the loop ends in, \<open>Inr\<close> the state of the next pass.\<close>

definition wf_pass :: "wenv \<Rightarrow> spec \<Rightarrow> nat \<Rightarrow> wstate \<Rightarrow> wstate + wstate" where
  "wf_pass env sp i st =
     (let st1 = (if \<not> ws_stop st \<and> \<not> w_cancelled env (2 * i) then launch env sp st else st) in
      if ws_flight st1 = [] then
        (if ws_pending st1 = [] then Inl st1
         else Inl (resolve_rest (w_cancelled env (2 * i + 1)) st1))
      else (case wait_done env i st1 of (fin, rest) \<Rightarrow>
        Inr (fold (complete_one sp) fin (st1\<lparr>ws_flight := rest\<rparr>))))"

text \<open>The loop with a bound on the number of passes; \<open>Suc (length nodes)\<close> passes are enough for
  every validated plan, since each pass but the last completes a node.\<close>

fun wf_loop :: "nat \<Rightarrow> wenv \<Rightarrow> spec \<Rightarrow> nat \<Rightarrow> wstate \<Rightarrow> wstate option" where
  "wf_loop 0 env sp i st = None"
| "wf_loop (Suc k) env sp i st = (case wf_pass env sp i st of
       Inl st' \<Rightarrow> Some st' | Inr st' \<Rightarrow> wf_loop k env sp (Suc i) st')"

definition wf_start :: "spec \<Rightarrow> wstate" where
  "wf_start sp = \<lparr>ws_outcomes = [], ws_pending = w_nodes sp, ws_flight = [], ws_stop = False\<rparr>"

record summary =
  sm_ok :: bool
  sm_cancelled :: bool
  sm_nodes :: "outcome list"
  sm_order :: "wf_error + string list"

definition ordered :: "spec \<Rightarrow> wstate \<Rightarrow> outcome list" where
  "ordered sp st = List.map_filter (\<lambda>n. map_of (ws_outcomes st) (n_id n)) (w_nodes sp)"

definition sm_count :: "nstate \<Rightarrow> summary \<Rightarrow> nat" where
  "sm_count s sm = length (filter (\<lambda>o'. o_state o' = s) (sm_nodes sm))"

text \<open>\<open>run\<close>, with the value of the cancel flag at the end.\<close>

definition run_workflow :: "wenv \<Rightarrow> spec \<Rightarrow> bool \<Rightarrow> summary option" where
  "run_workflow env sp cancelled_end =
     map_option (\<lambda>st.
       (let os = ordered sp st;
            blocking = filter (\<lambda>o'. o_state o' = NFailed \<and>
              (case by_id sp (o_id o') of None \<Rightarrow> True | Some n \<Rightarrow> \<not> n_continue n)) os in
        \<lparr>sm_ok = (blocking = [] \<and> \<not> cancelled_end), sm_cancelled = cancelled_end, sm_nodes = os,
         sm_order = topological_order (w_nodes sp)\<rparr>))
       (wf_loop (Suc (length (w_nodes sp))) env sp 0 (wf_start sp))"

subsection \<open>Invariant of a run\<close>

abbreviation fid :: "node \<times> outcome \<Rightarrow> string" where
  "fid x \<equiv> n_id (fst x)"

definition deps_ok :: "(string \<times> outcome) list \<Rightarrow> node \<Rightarrow> bool" where
  "deps_ok os n = (\<forall>d \<in> set (n_depends_on n). \<exists>o'. map_of os d = Some o' \<and> o_state o' = NSucceeded)"

text \<open>The outcome of a node that was executed, and of one that was not.\<close>

definition executed :: "outcome \<Rightarrow> bool" where
  "executed o' = (o_state o' = NSucceeded \<or> o_state o' = NFailed)"

definition outcome_wf :: "outcome \<Rightarrow> bool" where
  "outcome_wf o' = (o_ok o' = (o_state o' = NSucceeded))"

definition wf_inv :: "spec \<Rightarrow> wstate \<Rightarrow> bool" where
  "wf_inv sp st =
     (mset (map fst (ws_outcomes st)) + mset (map n_id (ws_pending st)) + mset (map fid (ws_flight st))
        = mset (map n_id (w_nodes sp)) \<and>
      set (ws_pending st) \<subseteq> set (w_nodes sp) \<and>
      (\<forall>(n, o') \<in> set (ws_flight st). n \<in> set (w_nodes sp) \<and> o_id o' = n_id n \<and> executed o' \<and>
          outcome_wf o' \<and> deps_ok (ws_outcomes st) n) \<and>
      (\<forall>(i, o') \<in> set (ws_outcomes st). o_id o' = i \<and> outcome_wf o' \<and>
          (executed o' \<longrightarrow> (\<exists>n \<in> set (w_nodes sp). n_id n = i \<and> deps_ok (ws_outcomes st) n))) \<and>
      int (length (ws_flight st)) \<le> w_max_parallel sp)"

definition wf_spec :: "spec \<Rightarrow> bool" where
  "wf_spec sp = (distinct (map n_id (w_nodes sp)) \<and> 1 \<le> w_max_parallel sp)"

lemma run_node_outcome:
  "o_id (run_node env n os) = n_id n \<and> executed (run_node env n os) \<and> outcome_wf (run_node env n os)"
  by (auto simp: run_node_def executed_def outcome_wf_def blank_outcome_def split: sum.splits)

lemma inv_distinct:
  assumes "wf_inv sp st" "wf_spec sp"
  shows "distinct (map fst (ws_outcomes st) @ map n_id (ws_pending st) @ map fid (ws_flight st))"
proof -
  have "mset (map fst (ws_outcomes st) @ map n_id (ws_pending st) @ map fid (ws_flight st)) = mset (map n_id (w_nodes sp))"
    using assms(1) by (simp add: wf_inv_def add.assoc)
  then show ?thesis using assms(2) unfolding wf_spec_def
    by (metis mset_eq_imp_distinct_iff)
qed

lemma deps_ok_update:
  "deps_ok os n \<Longrightarrow> k \<notin> fst ` set os \<Longrightarrow> deps_ok (dict_set os k v) n"
proof -
  assume *: "deps_ok os n" "k \<notin> fst ` set os"
  have "map_of (dict_set os k v) d = map_of os d" if "d \<noteq> k" for d
    using that by (simp add: update_conv)
  moreover have "d \<noteq> k" if "map_of os d = Some o'" for d o'
    using that *(2) by (metis domI dom_map_of_conv_image_fst)
  ultimately show ?thesis using *(1) by (fastforce simp: deps_ok_def)
qed

lemma skip_reason_none:
  assumes "skip_reason n os = []" "\<forall>(i, o') \<in> set os. outcome_wf o'"
    "list_all (\<lambda>d. map_of os d \<noteq> None) (n_depends_on n)"
  shows "deps_ok os n"
proof -
  have "find (\<lambda>d. case map_of os d of None \<Rightarrow> False
        | Some o' \<Rightarrow> o_state o' \<in> {NSkipped, NCancelled} \<or> \<not> o_ok o') (n_depends_on n) = None"
    using assms(1) by (auto simp: skip_reason_def find_Some_iff split: option.splits if_splits)
  then have *: "\<forall>d \<in> set (n_depends_on n). \<not> (case map_of os d of None \<Rightarrow> False
        | Some o' \<Rightarrow> o_state o' \<in> {NSkipped, NCancelled} \<or> \<not> o_ok o')"
    by (simp add: find_None_iff)
  show ?thesis
    unfolding deps_ok_def
  proof
    fix d assume d: "d \<in> set (n_depends_on n)"
    then obtain o' where o: "map_of os d = Some o'" using assms(3) by (auto simp: list_all_iff)
    then have "outcome_wf o'" using assms(2) map_of_SomeD[OF o] by auto
    then show "\<exists>o'. map_of os d = Some o' \<and> o_state o' = NSucceeded"
      using * d o by (auto simp: outcome_wf_def)
  qed
qed

text \<open>Moving one node from the pending list: to the outcomes, or into flight.\<close>

lemma mset_drop_id:
  assumes "distinct (map n_id ns)" "i \<in> n_id ` set ns"
  shows "mset (map n_id ns) = add_mset i (mset (map n_id (filter (\<lambda>m. n_id m \<noteq> i) ns)))"
  using assms
proof (induction ns)
  case (Cons n ns)
  show ?case
  proof (cases "n_id n = i")
    case True
    then have "filter (\<lambda>m. n_id m \<noteq> i) ns = ns" using Cons.prems by (auto simp: filter_id_conv image_iff)
    then show ?thesis using True by simp
  next
    case False
    then show ?thesis using Cons by auto
  qed
qed simp

lemma inv_set_outcome:
  assumes inv: "wf_inv sp st" and sp: "wf_spec sp" and i: "o_id o' \<in> n_id ` set (ws_pending st)"
    and o: "outcome_wf o'" "\<not> executed o'" and n: "n_id n = o_id o'"
  shows "wf_inv sp (set_outcome o' (drop_pending n st))"
proof -
  note d = inv_distinct[OF inv sp]
  have fresh: "o_id o' \<notin> fst ` set (ws_outcomes st)" using d i by auto
  have ms: "mset (map n_id (ws_pending st)) =
     add_mset (o_id o') (mset (map n_id (filter (\<lambda>m. n_id m \<noteq> o_id o') (ws_pending st))))"
    using mset_drop_id[of "ws_pending st" "o_id o'"] d i by simp
  show ?thesis
    using inv o n fresh ms deps_ok_update[OF _ fresh]
    by (fastforce simp: wf_inv_def set_outcome_def drop_pending_def dict_set_fresh)
qed

lemma inv_fly:
  assumes inv: "wf_inv sp st" and sp: "wf_spec sp" and i: "n_id n \<in> n_id ` set (ws_pending st)"
    and n: "n \<in> set (w_nodes sp)" "deps_ok (ws_outcomes st) n" "o_id o' = n_id n" "executed o'" "outcome_wf o'"
    and room: "int (length (ws_flight st)) < w_max_parallel sp"
  shows "wf_inv sp ((drop_pending n st)\<lparr>ws_flight := ws_flight st @ [(n, o')]\<rparr>)"
proof -
  note d = inv_distinct[OF inv sp]
  have ms: "mset (map n_id (ws_pending st)) =
     add_mset (n_id n) (mset (map n_id (filter (\<lambda>m. n_id m \<noteq> n_id n) (ws_pending st))))"
    using mset_drop_id[of "ws_pending st" "n_id n"] d i by simp
  show ?thesis
    using inv n room ms by (auto simp: wf_inv_def drop_pending_def)
qed


lemma launch_one_inv:
  assumes inv: "wf_inv sp st" and sp: "wf_spec sp" and i: "n_id n \<in> n_id ` set (ws_pending st)"
    and n: "n \<in> set (w_nodes sp)" "list_all (\<lambda>d. map_of (ws_outcomes st) d \<noteq> None) (n_depends_on n)"
    and room: "int (length (ws_flight st)) < w_max_parallel sp"
  shows "wf_inv sp (launch_one env n st)"
proof (cases "skip_reason n (ws_outcomes st) = []")
  case True
  have "\<forall>(i, o') \<in> set (ws_outcomes st). outcome_wf o'" using inv by (auto simp: wf_inv_def)
  then have "deps_ok (ws_outcomes st) n" using skip_reason_none[OF True _ n(2)] by simp
  then show ?thesis
    using inv_fly[OF inv sp i n(1) _ _ _ _ room] run_node_outcome[of env n "ws_outcomes st"] True
    by (simp add: launch_one_def)
next
  case False
  then show ?thesis
    using inv_set_outcome[OF inv sp, of "(blank_outcome (n_id n) NSkipped)\<lparr>o_skipped := skip_reason n (ws_outcomes st)\<rparr>" n] i
    by (simp add: launch_one_def Let_def blank_outcome_def outcome_wf_def executed_def)
qed

lemma launch_one_facts:
  "length (ws_flight (launch_one env n st)) \<le> Suc (length (ws_flight st))"
  "m \<noteq> n_id n \<Longrightarrow> m \<in> n_id ` set (ws_pending st) \<Longrightarrow> m \<in> n_id ` set (ws_pending (launch_one env n st))"
  "map_of (ws_outcomes st) d \<noteq> None \<Longrightarrow> map_of (ws_outcomes (launch_one env n st)) d \<noteq> None"
  "length (ws_outcomes st) \<le> length (ws_outcomes (launch_one env n st))"
  "ws_stop (launch_one env n st) = ws_stop st"
  by (auto simp: launch_one_def Let_def set_outcome_def drop_pending_def update_conv)

lemma fold_launch_inv:
  assumes "wf_spec sp" "wf_inv sp st" "distinct (map n_id ns)" "set ns \<subseteq> set (w_nodes sp)"
    "\<forall>n \<in> set ns. n_id n \<in> n_id ` set (ws_pending st)"
    "\<forall>n \<in> set ns. list_all (\<lambda>d. map_of (ws_outcomes st) d \<noteq> None) (n_depends_on n)"
    "int (length (ws_flight st) + length ns) \<le> w_max_parallel sp"
  shows "wf_inv sp (fold (launch_one env) ns st) \<and>
    length (ws_outcomes st) \<le> length (ws_outcomes (fold (launch_one env) ns st)) \<and>
    ws_stop (fold (launch_one env) ns st) = ws_stop st"
  using assms
proof (induction ns arbitrary: st)
  case (Cons n ns)
  note f = launch_one_facts(4,5)[where env = env and n = n and st = st]
  have inv: "wf_inv sp (launch_one env n st)"
    using Cons.prems by (intro launch_one_inv) auto
  have "wf_inv sp (fold (launch_one env) ns (launch_one env n st)) \<and>
    length (ws_outcomes (launch_one env n st)) \<le> length (ws_outcomes (fold (launch_one env) ns (launch_one env n st))) \<and>
    ws_stop (fold (launch_one env) ns (launch_one env n st)) = ws_stop (launch_one env n st)"
  proof (rule Cons.IH[OF Cons.prems(1) inv])
    show "\<forall>m \<in> set ns. n_id m \<in> n_id ` set (ws_pending (launch_one env n st))"
    proof
      fix m assume m: "m \<in> set ns"
      then have "n_id m \<noteq> n_id n" using Cons.prems(3) by (auto simp: image_iff)
      then show "n_id m \<in> n_id ` set (ws_pending (launch_one env n st))"
        using launch_one_facts(2) Cons.prems(5) m by simp
    qed
    show "\<forall>m \<in> set ns. list_all (\<lambda>d. map_of (ws_outcomes (launch_one env n st)) d \<noteq> None) (n_depends_on m)"
      using Cons.prems(6) launch_one_facts(3) by (fastforce simp: list_all_iff)
    show "int (length (ws_flight (launch_one env n st)) + length ns) \<le> w_max_parallel sp"
      using Cons.prems(7) launch_one_facts(1)[where env = env and n = n and st = st] by simp
  qed (use Cons.prems in auto)
  then show ?case using f by simp
qed simp

lemma launch_inv:
  assumes sp: "wf_spec sp" and inv: "wf_inv sp st"
  shows "wf_inv sp (launch env sp st)" "length (ws_outcomes st) \<le> length (ws_outcomes (launch env sp st))"
    "ws_stop (launch env sp st) = ws_stop st"
proof -
  define slots where "slots = nat (w_max_parallel sp - int (length (ws_flight st)))"
  define P where "P = (\<lambda>n::node. n_id n \<in> n_id ` set (ws_pending st) \<and>
           list_all (\<lambda>d. map_of (ws_outcomes st) d \<noteq> None) (n_depends_on n))"
  have r: "ready_nodes sp st = take slots (filter P (w_nodes sp))"
    by (simp add: ready_nodes_def slots_def P_def)
  have sub: "set (ready_nodes sp st) \<subseteq> set (filter P (w_nodes sp))"
    unfolding r by (rule set_take_subset)
  have "distinct (map n_id (filter P (w_nodes sp)))"
    using sp by (simp add: wf_spec_def filter_map_distinct)
  then have "distinct (map n_id (ready_nodes sp st))"
    unfolding r by (metis distinct_take take_map)
  moreover have "int (length (ws_flight st)) \<le> w_max_parallel sp" using inv by (simp add: wf_inv_def)
  then have "int (length (ws_flight st) + length (ready_nodes sp st)) \<le> w_max_parallel sp"
    by (simp add: r slots_def)
  ultimately have *: "wf_inv sp (fold (launch_one env) (ready_nodes sp st) st) \<and>
    length (ws_outcomes st) \<le> length (ws_outcomes (fold (launch_one env) (ready_nodes sp st) st)) \<and>
    ws_stop (fold (launch_one env) (ready_nodes sp st) st) = ws_stop st"
    using sub by (intro fold_launch_inv[OF sp inv]) (auto simp: P_def)
  show "wf_inv sp (launch env sp st)" "length (ws_outcomes st) \<le> length (ws_outcomes (launch env sp st))"
    "ws_stop (launch env sp st) = ws_stop st"
    using * by (simp_all add: launch_def)
qed

lemma complete_inv:
  assumes sp: "wf_spec sp" and inv: "wf_inv sp (st\<lparr>ws_flight := x # xs\<rparr>)"
  shows "wf_inv sp ((complete_one sp x st)\<lparr>ws_flight := xs\<rparr>)"
proof -
  obtain n o' where x: "x = (n, o')" by fastforce
  note d = inv_distinct[OF inv sp]
  have o: "n \<in> set (w_nodes sp)" "o_id o' = n_id n" "executed o'" "outcome_wf o'" "deps_ok (ws_outcomes st) n"
    using inv by (auto simp: wf_inv_def x)
  have fresh: "n_id n \<notin> fst ` set (ws_outcomes st)" using d by (auto simp: x)
  show ?thesis
    using inv o deps_ok_update[OF _ fresh]
    by (fastforce simp: wf_inv_def complete_one_def x set_outcome_def dict_set_fresh fresh)
qed

lemma complete_one_flight: "ws_flight (complete_one sp x st) = ws_flight st"
  "length (ws_outcomes st) \<le> length (ws_outcomes (complete_one sp x st))"
  by (cases x; simp add: complete_one_def set_outcome_def)+

lemma fold_complete_inv:
  assumes "wf_spec sp" "wf_inv sp (st\<lparr>ws_flight := xs @ ys\<rparr>)"
  shows "wf_inv sp ((fold (complete_one sp) xs st)\<lparr>ws_flight := ys\<rparr>) \<and>
     length (ws_outcomes (fold (complete_one sp) xs st)) = length (ws_outcomes st) + length xs"
  using assms
proof (induction xs arbitrary: st)
  case (Cons x xs)
  have inv: "wf_inv sp ((complete_one sp x st)\<lparr>ws_flight := xs @ ys\<rparr>)"
    using complete_inv[OF Cons.prems(1), where st = st and x = x and xs = "xs @ ys"] Cons.prems(2) by simp
  obtain n o' where x: "x = (n, o')" by fastforce
  have "o_id o' \<notin> fst ` set (ws_outcomes st)"
    using inv_distinct[OF Cons.prems(2) Cons.prems(1)] Cons.prems(2) by (auto simp: x wf_inv_def)
  then have "length (ws_outcomes (complete_one sp x st)) = Suc (length (ws_outcomes st))"
    by (simp add: x complete_one_def set_outcome_def dict_set_fresh)
  then show ?case using Cons.IH[OF Cons.prems(1) inv] by simp
qed simp


lemma resolve_one_inv:
  assumes "wf_spec sp" "wf_inv sp st" "n_id n \<in> n_id ` set (ws_pending st)"
  shows "wf_inv sp (resolve_one c n st)"
  using inv_set_outcome[OF assms(2,1), where n = n] assms(3)
  by (simp add: resolve_one_def Let_def blank_outcome_def outcome_wf_def executed_def)

lemma fold_resolve_inv:
  assumes "wf_spec sp" "wf_inv sp st" "ws_flight st = []" "distinct (map n_id ns)"
    "n_id ` set ns \<subseteq> n_id ` set (ws_pending st)"
  shows "wf_inv sp (fold (resolve_one c) ns st) \<and> ws_flight (fold (resolve_one c) ns st) = [] \<and>
     ws_pending (fold (resolve_one c) ns st) = filter (\<lambda>m. n_id m \<notin> n_id ` set ns) (ws_pending st)"
  using assms
proof (induction ns arbitrary: st)
  case (Cons n ns)
  have p: "ws_pending (resolve_one c n st) = filter (\<lambda>m. n_id m \<noteq> n_id n) (ws_pending st)"
    "ws_flight (resolve_one c n st) = []"
    using Cons.prems by (simp_all add: resolve_one_def Let_def set_outcome_def drop_pending_def)
  have inv: "wf_inv sp (resolve_one c n st)"
    using Cons.prems by (intro resolve_one_inv) auto
  have "n_id ` set ns \<subseteq> n_id ` set (ws_pending (resolve_one c n st))"
  proof
    fix i assume i: "i \<in> n_id ` set ns"
    have "n_id n \<notin> n_id ` set ns" using Cons.prems(4) by simp
    then have ne: "i \<noteq> n_id n" using i by metis
    have "i \<in> n_id ` set (n # ns)" using i by simp
    then have "i \<in> n_id ` set (ws_pending st)" by (rule subsetD[OF Cons.prems(5)])
    then show "i \<in> n_id ` set (ws_pending (resolve_one c n st))" using ne unfolding p by auto
  qed
  moreover have "distinct (map n_id ns)" using Cons.prems(4) by simp
  ultimately have IH: "wf_inv sp (fold (resolve_one c) ns (resolve_one c n st)) \<and>
     ws_flight (fold (resolve_one c) ns (resolve_one c n st)) = [] \<and>
     ws_pending (fold (resolve_one c) ns (resolve_one c n st)) =
       filter (\<lambda>m. n_id m \<notin> n_id ` set ns) (ws_pending (resolve_one c n st))"
    by (intro Cons.IH[OF Cons.prems(1) inv p(2)])
  have "filter (\<lambda>m. n_id m \<notin> n_id ` set ns) (filter (\<lambda>m. n_id m \<noteq> n_id n) ms) =
      filter (\<lambda>m. n_id m \<notin> n_id ` set (n # ns)) ms" for ms
    by (simp only: filter_filter) (rule filter_cong, auto)
  then show ?case using IH p(1) by simp
qed simp

lemma wf_pass_spec:
  assumes sp: "wf_spec sp" and inv: "wf_inv sp st"
  shows "case wf_pass env sp i st of
      Inl st' \<Rightarrow> wf_inv sp st' \<and> ws_pending st' = [] \<and> ws_flight st' = []
    | Inr st' \<Rightarrow> wf_inv sp st' \<and> length (ws_outcomes st) < length (ws_outcomes st')"
proof -
  define st1 where "st1 = (if \<not> ws_stop st \<and> \<not> w_cancelled env (2 * i) then launch env sp st else st)"
  have 1: "wf_inv sp st1" "length (ws_outcomes st) \<le> length (ws_outcomes st1)"
    using launch_inv[OF sp inv, of env] inv by (auto simp: st1_def)
  show ?thesis
  proof (cases "ws_flight st1 = []")
    case True
    have "distinct (map n_id (ws_pending st1))" using inv_distinct[OF 1(1) sp] by simp
    note * = fold_resolve_inv[OF sp 1(1) True this order_refl, of "w_cancelled env (2 * i + 1)"]
    then show ?thesis
      using True 1 by (auto simp: wf_pass_def Let_def st1_def[symmetric] resolve_rest_def)
  next
    case False
    obtain fin rest where w: "wait_done env i st1 = (fin, rest)" by fastforce
    define ids where "ids = (let ids = w_done env i (map (\<lambda>(n, o'). n_id n) (ws_flight st1)) in
        if list_ex (\<lambda>(n, o'). n_id n \<in> set ids) (ws_flight st1) then ids
                 else [n_id (fst (hd (ws_flight st1)))])"
    have fr: "fin = filter (\<lambda>(n, o'). n_id n \<in> set ids) (ws_flight st1)"
      "rest = filter (\<lambda>x. \<not> (case x of (n, o') \<Rightarrow> n_id n \<in> set ids)) (ws_flight st1)"
      using w by (auto simp: wait_done_def Let_def ids_def o_def)
    have "\<exists>x \<in> set (ws_flight st1). fid x \<in> set ids"
      using False by (auto simp: ids_def Let_def list_ex_iff case_prod_beta)
    then have ne: "0 < length fin" by (auto simp: fr filter_empty_conv case_prod_beta)
    have ms: "mset (ws_flight st1) = mset (fin @ rest)"
      by (simp add: fr)
    have len: "length (ws_flight st1) = length (fin @ rest)" using mset_eq_length[OF ms] .
    have set: "set (ws_flight st1) = set (fin @ rest)" using mset_eq_setD[OF ms] .
    have "mset (map fid (ws_flight st1)) = mset (map fid (fin @ rest))" using ms by (metis mset_map)
    then have "wf_inv sp (st1\<lparr>ws_flight := fin @ rest\<rparr>)"
      using 1(1) len set by (simp add: wf_inv_def)
    then have "wf_inv sp ((st1\<lparr>ws_flight := rest\<rparr>)\<lparr>ws_flight := fin @ rest\<rparr>)" by simp
    note * = fold_complete_inv[OF sp this]
    have fl: "ws_flight (fold (complete_one sp) xs s) = ws_flight s" for xs s
      by (induction xs arbitrary: s) (simp_all add: complete_one_flight)
    have "(fold (complete_one sp) fin (st1\<lparr>ws_flight := rest\<rparr>))\<lparr>ws_flight := rest\<rparr> =
       fold (complete_one sp) fin (st1\<lparr>ws_flight := rest\<rparr>)"
      using fl[of fin "st1\<lparr>ws_flight := rest\<rparr>"] by simp
    moreover have "length (ws_outcomes st) < length (ws_outcomes st1) + length fin"
      using ne 1(2) by linarith
    ultimately show ?thesis
      using * False w by (simp add: wf_pass_def Let_def st1_def[symmetric])
  qed
qed

lemma inv_length:
  "wf_inv sp st \<Longrightarrow> length (ws_outcomes st) + length (ws_pending st) + length (ws_flight st) = length (w_nodes sp)"
proof -
  assume "wf_inv sp st"
  then have "size (mset (map fst (ws_outcomes st)) + mset (map n_id (ws_pending st)) + mset (map fid (ws_flight st))) =
     size (mset (map n_id (w_nodes sp)))"
    by (simp only: wf_inv_def)
  then show ?thesis by simp
qed

lemma wf_loop_spec:
  assumes "wf_spec sp" "wf_inv sp st" "length (w_nodes sp) < k + length (ws_outcomes st)"
  shows "\<exists>st'. wf_loop k env sp i st = Some st' \<and> wf_inv sp st' \<and> ws_pending st' = [] \<and> ws_flight st' = []"
  using assms
proof (induction k arbitrary: i st)
  case 0
  then show ?case using inv_length[of sp st] by simp
next
  case (Suc k)
  show ?case
  proof (cases "wf_pass env sp i st")
    case (Inl st')
    then show ?thesis using wf_pass_spec[OF Suc.prems(1,2), of env i] by simp
  next
    case (Inr st')
    then have "wf_inv sp st'" "length (ws_outcomes st) < length (ws_outcomes st')"
      using wf_pass_spec[OF Suc.prems(1,2), of env i] by simp_all
    then show ?thesis using Suc.IH[OF Suc.prems(1), of st' "Suc i"] Suc.prems(3) Inr by simp
  qed
qed

lemma wf_start_inv: "wf_spec sp \<Longrightarrow> wf_inv sp (wf_start sp)"
  by (simp add: wf_inv_def wf_start_def wf_spec_def)

lemma map_of_in: "map_of xs k = Some v \<Longrightarrow> (k, v) \<in> set xs"
  by (rule map_of_SomeD)

lemma ordered_ids:
  assumes "wf_inv sp st" "ws_pending st = []" "ws_flight st = []"
  shows "map o_id (ordered sp st) = map n_id (w_nodes sp)"
proof -
  have dom: "map_of (ws_outcomes st) (n_id n) \<noteq> None" if "n \<in> set (w_nodes sp)" for n
  proof -
    have "mset (map fst (ws_outcomes st)) = mset (map n_id (w_nodes sp))"
      using assms by (simp add: wf_inv_def)
    then have "set (map fst (ws_outcomes st)) = set (map n_id (w_nodes sp))" by (rule mset_eq_setD)
    then have "n_id n \<in> fst ` set (ws_outcomes st)" using that by auto
    then show ?thesis by (simp add: map_of_eq_None_iff)
  qed
  have oid: "o_id o' = i" if "map_of (ws_outcomes st) i = Some o'" for i o'
    using assms(1) map_of_in[OF that] by (auto simp: wf_inv_def)
  have "map o_id (List.map_filter (\<lambda>n. map_of (ws_outcomes st) (n_id n)) ns) = map n_id ns"
    if "set ns \<subseteq> set (w_nodes sp)" for ns
    using that
  proof (induction ns)
    case (Cons n ns)
    then obtain o' where "map_of (ws_outcomes st) (n_id n) = Some o'" using dom by auto
    then show ?case using Cons oid by (simp add: map_filter_simps)
  qed (simp add: map_filter_simps)
  then show ?thesis by (simp add: ordered_def)
qed


subsection \<open>Kahn's algorithm\<close>

definition dep_sorted :: "node list \<Rightarrow> string list \<Rightarrow> bool" where
  "dep_sorted nodes order = (\<forall>k < length order. \<forall>n \<in> set nodes. n_id n = order ! k \<longrightarrow>
     set (n_depends_on n) \<subseteq> set (take k order))"

lemma dep_sorted_append:
  assumes "dep_sorted nodes order"
    "\<And>n. n \<in> set nodes \<Longrightarrow> n_id n \<in> set ready \<Longrightarrow> set (n_depends_on n) \<subseteq> set order"
  shows "dep_sorted nodes (order @ ready)"
  unfolding dep_sorted_def
proof (intro allI impI ballI)
  fix k n assume k: "k < length (order @ ready)" and n: "n \<in> set nodes" "n_id n = (order @ ready) ! k"
  show "set (n_depends_on n) \<subseteq> set (take k (order @ ready))"
  proof (cases "k < length order")
    case True
    then show ?thesis using assms(1) n by (auto simp: dep_sorted_def nth_append)
  next
    case False
    then have "n_id n \<in> set ready" using k n by (auto simp: nth_append)
    then show ?thesis using assms(2)[OF n(1)] False by auto
  qed
qed

text \<open>What holds at every call: the remaining map is the plan less the nodes already ordered, with
  the ordered ones struck from the dependency lists.\<close>

definition kahn_inv :: "node list \<Rightarrow> (string \<times> string list) list \<Rightarrow> string list \<Rightarrow> bool" where
  "kahn_inv nodes rem order =
     (rem = map (\<lambda>n. (n_id n, filter (\<lambda>d. d \<notin> set order) (n_depends_on n)))
              (filter (\<lambda>n. n_id n \<notin> set order) nodes) \<and>
      distinct order \<and> set order \<subseteq> n_id ` set nodes \<and> dep_sorted nodes order)"

lemma kahn_lookup:
  assumes "kahn_inv nodes rem order" "distinct (map n_id nodes)" "n \<in> set nodes"
  shows "map_of rem (n_id n) = (if n_id n \<in> set order then None
     else Some (filter (\<lambda>d. d \<notin> set order) (n_depends_on n)))"
proof (cases "n_id n \<in> set order")
  case True
  then have "n_id n \<notin> fst ` set rem" using assms(1) by (auto simp: kahn_inv_def)
  then show ?thesis using True by (simp add: map_of_eq_None_iff)
next
  case False
  have rem: "rem = map (\<lambda>n. (n_id n, filter (\<lambda>d. d \<notin> set order) (n_depends_on n)))
              (filter (\<lambda>n. n_id n \<notin> set order) nodes)" using assms(1) by (simp add: kahn_inv_def)
  have "distinct (map fst rem)"
    using assms(2) unfolding rem by (simp add: o_def filter_map_distinct)
  moreover have "(n_id n, filter (\<lambda>d. d \<notin> set order) (n_depends_on n)) \<in> set rem"
    using False assms(3) unfolding rem by auto
  ultimately show ?thesis using False by simp
qed

lemma kahn_correct:
  assumes "kahn_inv nodes rem order" "distinct (map n_id nodes)"
    "\<forall>n \<in> set nodes. set (n_depends_on n) \<subseteq> n_id ` set nodes"
  shows "case kahn nodes rem order of
      Inr res \<Rightarrow> distinct res \<and> set res = n_id ` set nodes \<and> dep_sorted nodes res
    | Inl e \<Rightarrow> \<not> (\<exists>res. set res = n_id ` set nodes \<and> dep_sorted nodes res)"
  using assms
proof (induction nodes rem order rule: kahn.induct)
  case (1 nodes rem order)
  define ready where "ready = map n_id (filter (\<lambda>n. map_of rem (n_id n) = Some []) nodes)"
  define rem' where "rem' = map (\<lambda>(k, ds). (k, filter (\<lambda>d. d \<notin> set ready) ds))
                   (filter (\<lambda>(k, ds). k \<notin> set ready) rem)"
  have rem: "rem = map (\<lambda>n. (n_id n, filter (\<lambda>d. d \<notin> set order) (n_depends_on n)))
              (filter (\<lambda>n. n_id n \<notin> set order) nodes)"
    and o: "distinct order" "set order \<subseteq> n_id ` set nodes" "dep_sorted nodes order"
    using 1(2) by (auto simp: kahn_inv_def)
  note lk = kahn_lookup[OF 1(2,3)]
  have rd: "n_id n \<in> set ready \<longleftrightarrow> n_id n \<notin> set order \<and> set (n_depends_on n) \<subseteq> set order"
    if "n \<in> set nodes" for n
  proof -
    have "n_id n \<in> set ready \<longleftrightarrow> map_of rem (n_id n) = Some []"
      using that by (auto simp: ready_def)
    then show ?thesis using lk[OF that] by (auto simp: filter_empty_conv)
  qed
  show ?case
  proof (cases "rem = []")
    case True
    then have "\<forall>n \<in> set nodes. n_id n \<in> set order" unfolding rem by (simp add: filter_empty_conv)
    then show ?thesis using True o by (subst kahn.simps) auto
  next
    case ne: False
    show ?thesis
    proof (cases "ready = []")
      case True
      have "\<not> (\<exists>res. set res = n_id ` set nodes \<and> dep_sorted nodes res)"
      proof
        assume "\<exists>res. set res = n_id ` set nodes \<and> dep_sorted nodes res"
        then obtain res where r: "set res = n_id ` set nodes" "dep_sorted nodes res" by blast
        have "i \<in> set order" if "k < length res" "i = res ! k" for k i
          using that
        proof (induction k arbitrary: i rule: less_induct)
          case (less k)
          then obtain n where n: "n \<in> set nodes" "n_id n = i" using r(1) by (metis imageE nth_mem)
          then have "set (n_depends_on n) \<subseteq> set (take k res)"
            using r(2) less.prems by (auto simp: dep_sorted_def)
          moreover have "set (take k res) \<subseteq> set order"
            using less by (fastforce simp: in_set_conv_nth)
          ultimately show ?case using rd[OF n(1)] n(2) True by auto
        qed
        then have "n_id ` set nodes \<subseteq> set order" using r(1) by (metis in_set_conv_nth subsetI)
        then show False using ne unfolding rem by (auto simp: filter_empty_conv)
      qed
      moreover have "kahn nodes rem order = Inl (Cycle (sort (map fst rem)))"
        using ne True by (subst kahn.simps) (simp add: ready_def)
      ultimately show ?thesis by simp
    next
      case False
      have step: "kahn nodes rem order = kahn nodes rem' (order @ ready)"
        using ne False by (subst kahn.simps) (simp add: ready_def rem'_def Let_def)
      have "kahn_inv nodes rem' (order @ ready)"
        unfolding kahn_inv_def
      proof (intro conjI)
        show "rem' = map (\<lambda>n. (n_id n, filter (\<lambda>d. d \<notin> set (order @ ready)) (n_depends_on n)))
              (filter (\<lambda>n. n_id n \<notin> set (order @ ready)) nodes)"
          unfolding rem'_def rem by (simp add: filter_map o_def)
        have "distinct ready" unfolding ready_def by (rule filter_map_distinct[OF 1(3)])
        moreover have "set ready \<subseteq> n_id ` set nodes" by (auto simp: ready_def)
        ultimately show "distinct (order @ ready)" "set (order @ ready) \<subseteq> n_id ` set nodes"
          using o rd by auto
        show "dep_sorted nodes (order @ ready)" using o(3) rd by (intro dep_sorted_append) auto
      qed
      from 1(1)[OF ne ready_def False this[unfolded rem'_def] 1(3,4)] show ?thesis
        unfolding step rem'_def .
    qed
  qed
qed


subsection \<open>Validated plans\<close>

lemma parse_node_fresh: "parse_node k seen r = Inr n \<Longrightarrow> n_id n \<notin> set seen"
  by (auto simp: parse_node_def Let_def split: pyval.splits if_splits option.splits)

lemma parse_nodes_distinct:
  "parse_nodes k seen rs = Inr ns \<Longrightarrow> distinct (map n_id ns) \<and> set seen \<inter> n_id ` set ns = {}"
proof (induction k seen rs arbitrary: ns rule: parse_nodes.induct)
  case (2 k seen r rs)
  obtain n ms where n: "parse_node k seen r = Inr n" "parse_nodes (Suc k) (n_id n # seen) rs = Inr ms" "ns = n # ms"
    using 2(2) by (auto split: sum.splits)
  then show ?case using 2(1)[OF n(1,2)] parse_node_fresh[OF n(1)] by auto
qed simp

lemma check_deps_sound:
  "check_deps ids i ds = None \<Longrightarrow> set ds \<subseteq> set ids - {i}"
  by (induction ds) (auto split: if_splits)

lemma check_refs_sound:
  "check_refs ids n rs = None \<Longrightarrow> \<forall>(i, f) \<in> set rs. i \<in> set (n_depends_on n) \<and> f \<in> referenceable"
  by (induction rs) (auto split: if_splits)

lemma check_nodes_sound:
  "check_nodes ids ns = None \<Longrightarrow> \<forall>n \<in> set ns. set (n_depends_on n) \<subseteq> set ids - {n_id n} \<and>
     (\<forall>(i, f) \<in> set (references (PDict (n_payload n))). i \<in> set (n_depends_on n) \<and> f \<in> referenceable)"
proof (induction ns)
  case (Cons n ns)
  then have *: "check_deps ids (n_id n) (n_depends_on n) = None"
    "check_refs ids n (references (PDict (n_payload n))) = None" "check_nodes ids ns = None"
    by (auto split: option.splits)
  show ?case
    using Cons.IH[OF *(3)] check_deps_sound[OF *(1)] check_refs_sound[OF *(2)]
    by (simp only: list.set ball_simps)
qed simp

lemma kahn_inv_start: "distinct (map n_id nodes) \<Longrightarrow>
  kahn_inv nodes (map (\<lambda>n. (n_id n, n_depends_on n)) nodes) []"
  by (simp add: kahn_inv_def dep_sorted_def)

lemma parse_workflow_parts:
  assumes "parse_workflow p = Inr sp"
  shows "wf_spec sp" "w_nodes sp \<noteq> []" "length (w_nodes sp) \<le> MAX_NODES"
    "check_nodes (map n_id (w_nodes sp)) (w_nodes sp) = None"
    "\<exists>order. topological_order (w_nodes sp) = Inr order"
proof -
  obtain raws where r: "raws \<noteq> []" "length raws \<le> MAX_NODES" "parse_nodes 0 [] raws = Inr (w_nodes sp)"
    "check_nodes (map n_id (w_nodes sp)) (w_nodes sp) = None" "1 \<le> w_max_parallel sp"
    "\<exists>order. topological_order (w_nodes sp) = Inr order"
    using assms by (auto simp: parse_workflow_def split: pyval.splits if_splits sum.splits option.splits)
  have len: "parse_nodes k seen rs = Inr ns \<Longrightarrow> length ns = length rs" for k seen rs ns
    by (induction k seen rs arbitrary: ns rule: parse_nodes.induct) (auto split: sum.splits)
  show "wf_spec sp" "w_nodes sp \<noteq> []" "length (w_nodes sp) \<le> MAX_NODES"
    "check_nodes (map n_id (w_nodes sp)) (w_nodes sp) = None"
    "\<exists>order. topological_order (w_nodes sp) = Inr order"
    using r parse_nodes_distinct[OF r(3)] len[OF r(3)] by (auto simp: wf_spec_def)
qed

text \<open>C7: a plan that passes validation has at most 100 nodes under distinct ids, depends only on
  its own other nodes, refers with \<open>${nodes.x.y}\<close> only to declared dependencies and to fields a result
  has, and is acyclic: \<open>topological_order\<close> lists every node once, each after its dependencies.\<close>

theorem parse_workflow_sound:
  assumes "parse_workflow p = Inr sp"
  shows "distinct (node_ids sp) \<and> node_ids sp \<noteq> [] \<and> length (node_ids sp) \<le> 100 \<and> 1 \<le> w_max_parallel sp \<and>
    (\<forall>n \<in> set (w_nodes sp). set (n_depends_on n) \<subseteq> set (node_ids sp) - {n_id n} \<and>
       (\<forall>(i, f) \<in> set (references (PDict (n_payload n))). i \<in> set (n_depends_on n) \<and> f \<in> referenceable)) \<and>
    (\<exists>order. topological_order (w_nodes sp) = Inr order \<and> distinct order \<and>
       set order = set (node_ids sp) \<and> dep_sorted (w_nodes sp) order)"
proof -
  note p = parse_workflow_parts[OF assms]
  note c = check_nodes_sound[OF p(4)]
  have d: "distinct (map n_id (w_nodes sp))" using p(1) by (simp add: wf_spec_def)
  have k: "\<forall>n \<in> set (w_nodes sp). set (n_depends_on n) \<subseteq> n_id ` set (w_nodes sp)" using c by auto
  obtain order where o: "topological_order (w_nodes sp) = Inr order" using p(5) by blast
  from kahn_correct[OF kahn_inv_start[OF d] d k]
  have ord: "distinct order \<and> set order = n_id ` set (w_nodes sp) \<and> dep_sorted (w_nodes sp) order"
    using o by (simp add: topological_order_def)
  have "\<exists>order. topological_order (w_nodes sp) = Inr order \<and> distinct order \<and>
       set order = set (node_ids sp) \<and> dep_sorted (w_nodes sp) order"
    using o ord by (simp add: node_ids_def)
  then show ?thesis
    using p(1-3) c d by (simp add: wf_spec_def node_ids_def MAX_NODES_def)
qed

text \<open>\<open>topological_order\<close> reports a cycle exactly when the nodes have no order in which each
  comes after its dependencies.\<close>

theorem topological_order_complete:
  assumes "distinct (map n_id nodes)" "\<forall>n \<in> set nodes. set (n_depends_on n) \<subseteq> n_id ` set nodes"
  shows "(\<exists>e. topological_order nodes = Inl e) =
    (\<nexists>order. set order = n_id ` set nodes \<and> dep_sorted nodes order)"
proof -
  note * = kahn_correct[OF kahn_inv_start[OF assms(1)] assms]
  show ?thesis
    using * by (cases "topological_order nodes") (auto simp: topological_order_def)
qed



subsection \<open>Examples\<close>

definition demo_node :: "string \<Rightarrow> string list \<Rightarrow> string \<Rightarrow> pyval" where
  "demo_node i deps cmd = PDict [(''id'', PStr i), (''kind'', PStr ''shell''),
     (''depends_on'', PList (map PStr deps)), (''payload'', PDict [(''command'', PStr cmd)])]"

definition demo_plan :: pyval where
  "demo_plan = PDict [(''nodes'', PList
     [demo_node ''b'' [''a''] ''echo ${nodes.a.stdout}'', demo_node ''a'' [] ''pwd''])]"

definition demo_spec :: spec where
  "demo_spec = (case parse_workflow demo_plan of Inr sp \<Rightarrow> sp
     | Inl _ \<Rightarrow> \<lparr>w_nodes = [], w_max_parallel = 1, w_fail_fast = True\<rparr>)"

definition demo_wenv :: wenv where
  "demo_wenv = \<lparr>w_execute = (\<lambda>t. if t_id t = ''x'' then Inr (mk_result ''x'' False ''auto'')
       else Inr (mk_result (t_id t) True ''auto'')),
     w_done = (\<lambda>i ids. ids), w_cancelled = (\<lambda>k. False), w_parent = None\<rparr>"

lemma demo_plan_valid: "parse_workflow demo_plan = Inr demo_spec" "node_ids demo_spec = [''b'', ''a'']"
proof -
  have "(case parse_workflow demo_plan of Inr sp \<Rightarrow> Some (node_ids sp) | Inl _ \<Rightarrow> None) = Some [''b'', ''a'']"
    by code_simp
  then show "parse_workflow demo_plan = Inr demo_spec" "node_ids demo_spec = [''b'', ''a'']"
    by (auto simp: demo_spec_def split: sum.splits)
qed

theorem parse_workflow_sound_witness:
  "\<exists>order. topological_order (w_nodes demo_spec) = Inr order \<and> set order = {''a'', ''b''}"
  using parse_workflow_sound[OF demo_plan_valid(1)] demo_plan_valid(2) by auto


definition cyclic_nodes :: "node list" where
  "cyclic_nodes = [\<lparr>n_id = ''a'', n_kind = ''shell'', n_payload = [], n_depends_on = [''b''], n_continue = False, n_timeout = 1\<rparr>,
     \<lparr>n_id = ''b'', n_kind = ''shell'', n_payload = [], n_depends_on = [''a''], n_continue = False, n_timeout = 1\<rparr>]"

theorem topological_order_complete_witness:
  "(\<exists>e. topological_order cyclic_nodes = Inl e) \<and>
   (\<nexists>order. set order = {''a'', ''b''} \<and> dep_sorted cyclic_nodes order)"
proof -
  have "(case topological_order cyclic_nodes of Inl e \<Rightarrow> True | Inr _ \<Rightarrow> False)" by code_simp
  then have "\<exists>e. topological_order cyclic_nodes = Inl e" by (cases "topological_order cyclic_nodes") auto
  moreover have "n_id ` set cyclic_nodes = {''a'', ''b''}" by (simp add: cyclic_nodes_def)
  moreover have "(\<exists>e. topological_order cyclic_nodes = Inl e) =
    (\<nexists>order. set order = n_id ` set cyclic_nodes \<and> dep_sorted cyclic_nodes order)"
    by (rule topological_order_complete) (simp_all add: cyclic_nodes_def)
  ultimately show ?thesis by simp
qed

text \<open>A plan that does not fail fast: \<open>x\<close> fails, \<open>y\<close> depends on it, \<open>z\<close> depends on nothing. With one
  slot the second pass picks \<open>y\<close>, which is skipped; nothing is in flight then, and \<open>z\<close> is resolved
  as skipped for an upstream failure it does not have.\<close>

definition bug_plan :: pyval where
  "bug_plan = PDict [(''nodes'', PList
     [demo_node ''x'' [] ''false'', demo_node ''y'' [''x''] ''pwd'', demo_node ''z'' [] ''pwd'']),
     (''max_parallel'', PInt 1), (''fail_fast'', PBool False)]"

definition bug_run :: "(nstate \<times> string) list option" where
  "bug_run = (case parse_workflow bug_plan of Inl _ \<Rightarrow> None
     | Inr sp \<Rightarrow> map_option (\<lambda>sm. map (\<lambda>o'. (o_state o', o_skipped o')) (sm_nodes sm)) (run_workflow demo_wenv sp False))"

theorem independent_node_skipped:
  "bug_run = Some [(NFailed, []), (NSkipped, ''dependency x failed''), (NSkipped, ''upstream failure'')]"
  by code_simp

end
