(* ===== verification/Templates.thy ===== *)
theory Templates
  imports Workflow Sandbox
begin

text \<open>
  \<open>agent/templates.py\<close>: named plans with parameters. The bundled templates are constants; the registry is a
  dictionary. A template renders to a payload for \<open>parse_workflow\<close>. Parameters are given as an object, or not at all.
\<close>

subsection \<open>Templates\<close>

definition MAX_RENDER_DEPTH :: nat where "MAX_RENDER_DEPTH = 20"

record tparam =
  tp_name :: string
  tp_description :: string
  tp_required :: bool
  tp_default :: pyval

record template =
  tm_name :: string
  tm_description :: string
  tm_params :: "tparam list"
  tm_nodes :: "pyval list"
  tm_max_parallel :: int
  tm_fail_fast :: bool
  tm_writes :: bool

definition tparam_dict :: "tparam \<Rightarrow> dict" where
  "tparam_dict p = [(''name'', PStr (tp_name p)), (''description'', PStr (tp_description p)), (''required'', PBool (tp_required p)),
     (''default'', tp_default p)]"

definition template_dict :: "bool \<Rightarrow> template \<Rightarrow> dict" where
  "template_dict include_nodes t =
     [(''name'', PStr (tm_name t)), (''description'', PStr (tm_description t)), (''params'', PList (map (PDict \<circ> tparam_dict) (tm_params t))),
      (''node_count'', PInt (int (length (tm_nodes t)))), (''max_parallel'', PInt (tm_max_parallel t)),
      (''fail_fast'', PBool (tm_fail_fast t)), (''writes'', PBool (tm_writes t))] @
     (if include_nodes then [(''nodes'', PList (tm_nodes t))] else [])"

definition param_required :: "string \<Rightarrow> string \<Rightarrow> tparam" where
  "param_required name description = \<lparr>tp_name = name, tp_description = description, tp_required = True, tp_default = PNone\<rparr>"

definition param_default :: "string \<Rightarrow> string \<Rightarrow> pyval \<Rightarrow> tparam" where
  "param_default name description dflt = \<lparr>tp_name = name, tp_description = description, tp_required = False, tp_default = dflt\<rparr>"

text \<open>A node: identifier, kind, dependencies and payload; \<open>shell_node\<close> takes the command, the path it names and
  further fields of the payload.\<close>

definition plan_node :: "string \<Rightarrow> string \<Rightarrow> string list \<Rightarrow> dict \<Rightarrow> pyval" where
  "plan_node i kind deps payload = PDict ([(''id'', PStr i), (''kind'', PStr kind)] @
     (if deps = [] then [] else [(''depends_on'', PList (map PStr deps))]) @ [(''payload'', PDict payload)])"

definition shell_node :: "string \<Rightarrow> string list \<Rightarrow> string \<Rightarrow> string \<Rightarrow> dict \<Rightarrow> pyval" where
  "shell_node i deps command path rest =
     plan_node i ''shell'' deps ([(''command'', PStr command), (''paths'', PList [PStr path])] @ rest)"

definition GIT_STATUS_REPORT :: template where
  "GIT_STATUS_REPORT = \<lparr>tm_name = ''git_status_report'',
     tm_description = ''Branch, working-tree status and recent history for a git checkout.'',
     tm_params = [param_required ''repo'' ''Path to the git checkout.'',
       param_default ''log_count'' ''How many recent commits to include.'' (PInt 10)],
     tm_nodes = [
       shell_node ''branch'' [] ''git -C '${repo}' rev-parse --abbrev-ref HEAD'' ''${repo}'' [],
       shell_node ''status'' [] ''git -C '${repo}' status --short --branch'' ''${repo}'' [],
       shell_node ''log'' [] ''git -C '${repo}' log --oneline -n ${log_count}'' ''${repo}'' []],
     tm_max_parallel = 3, tm_fail_fast = False, tm_writes = False\<rparr>"

definition PYTHON_TEST_RUN :: template where
  "PYTHON_TEST_RUN = \<lparr>tm_name = ''python_test_run'',
     tm_description = ''Report the interpreter, then run a project''  @ [char_of (39::nat)] @ ''s pytest suite.'',
     tm_params = [param_required ''repo'' ''Path to the project root.'',
       param_default ''test_path'' ''Directory or file to run.'' (PStr ''tests/''),
       param_default ''python'' ''Interpreter to use.'' (PStr ''python3''),
       param_default ''pytest_args'' ''Extra arguments passed to pytest.'' (PStr ''-q'')],
     tm_nodes = [
       shell_node ''interpreter'' [] ''${python} --version'' ''${repo}'' [],
       shell_node ''tests'' [''interpreter''] ''cd '${repo}' && ${python} -m pytest ${test_path} ${pytest_args}'' ''${repo}''
         [(''timeout_sec'', PInt 1800)]],
     tm_max_parallel = 1, tm_fail_fast = True, tm_writes = False\<rparr>"

definition DISK_SPACE_REPORT :: template where
  "DISK_SPACE_REPORT = \<lparr>tm_name = ''disk_space_report'',
     tm_description = ''Filesystem usage plus the largest directories under a path.'',
     tm_params = [param_default ''path'' ''Directory to measure.'' (PStr ''.''),
       param_default ''top'' ''How many large directories to list.'' (PInt 15)],
     tm_nodes = [
       shell_node ''filesystems'' [] ''df -h'' ''${path}'' [],
       shell_node ''largest'' [] ''du -h -d 2 '${path}' 2>/dev/null | sort -rh | head -n ${top}'' ''${path}''
         [(''timeout_sec'', PInt 300)]],
     tm_max_parallel = 2, tm_fail_fast = False, tm_writes = False\<rparr>"

definition LOG_ERROR_SCAN :: template where
  "LOG_ERROR_SCAN = \<lparr>tm_name = ''log_error_scan'',
     tm_description = ''Search a log tree for error-shaped lines, then tail the newest file.'',
     tm_params = [param_required ''path'' ''Directory holding the logs.'',
       param_default ''pattern'' ''Regex to search for.'' (PStr ''ERROR|CRITICAL|Traceback|FATAL''),
       param_default ''glob'' ''Which files count as logs.'' (PStr ''**/*.log''),
       param_default ''tail_lines'' ''Lines of the newest log to include.'' (PInt 100)],
     tm_nodes = [
       plan_node ''files'' ''glob'' [] [(''path'', PStr ''${path}''), (''pattern'', PStr ''${glob}'')],
       plan_node ''matches'' ''grep'' [] [(''path'', PStr ''${path}''), (''pattern'', PStr ''${pattern}''), (''context'', PInt 2)],
       shell_node ''tail'' [''files''] ''ls -1t '${path}'/*.log 2>/dev/null | head -1 | xargs -r tail -n ${tail_lines}'' ''${path}'' []],
     tm_max_parallel = 2, tm_fail_fast = False, tm_writes = False\<rparr>"

definition PROJECT_BOOTSTRAP :: template where
  "PROJECT_BOOTSTRAP = \<lparr>tm_name = ''project_bootstrap'',
     tm_description = ''Create a directory, initialise git, and write a starter README.'',
     tm_params = [param_required ''path'' ''Directory to create the project in.'',
       param_required ''name'' ''Project name, used in the README heading.'',
       param_default ''description'' ''One-line project description.'' (PStr ''TODO: describe this project.'')],
     tm_nodes = [
       shell_node ''mkdir'' [] (''mkdir -p '${path}'' @ [apostrophe]) ''${path}'' [],
       plan_node ''readme'' ''write_file'' [''mkdir''] [(''path'', PStr ''${path}/README.md''),
         (''content'', PStr (''# ${name}'' @ [CHR 0x0A, CHR 0x0A] @ ''${description}'' @ [CHR 0x0A]))],
       shell_node ''git_init'' [''readme''] ''git -C '${path}' init --quiet && git -C '${path}' status --short'' ''${path}'' []],
     tm_max_parallel = 1, tm_fail_fast = True, tm_writes = True\<rparr>"

definition BUNDLED_TEMPLATES :: "template list" where
  "BUNDLED_TEMPLATES = [GIT_STATUS_REPORT, PYTHON_TEST_RUN, DISK_SPACE_REPORT, LOG_ERROR_SCAN, PROJECT_BOOTSTRAP]"

subsection \<open>Parameters\<close>

text \<open>\<open>TemplateError\<close> with its message, or another exception.\<close>

datatype template_error = TemplateError string | ParamsNotObject 

text \<open>\<open>sorted(names)\<close> as it is printed.\<close>

definition show_names :: "string list \<Rightarrow> string" where
  "show_names xs = py_repr (PList (map PStr (sort xs)))"

definition given_dict :: "pyval \<Rightarrow> template_error + dict" where
  "given_dict v = (if \<not> truthy v then Inr [] else case v of PDict d \<Rightarrow> Inr d | _ \<Rightarrow> Inl ParamsNotObject)"

text \<open>The value of a parameter: what was given unless it is \<open>None\<close>, else the default; nothing when it is missing.\<close>

definition param_value :: "dict \<Rightarrow> tparam \<Rightarrow> pyval option" where
  "param_value given p = (if dget given (tp_name p) \<noteq> PNone then Some (dget given (tp_name p))
     else if tp_required p then None else Some (tp_default p))"

text \<open>\<open>{p.name: p for p in template.params}\<close>.\<close>

definition known_params :: "template \<Rightarrow> (string \<times> tparam) list" where
  "known_params t = fold (\<lambda>p d. dict_set d (tp_name p) p) (tm_params t) []"

definition resolve_params :: "template \<Rightarrow> pyval \<Rightarrow> template_error + dict" where
  "resolve_params t v = (case given_dict v of Inl e \<Rightarrow> Inl e | Inr given \<Rightarrow>
     (let params = known_params t; unknown = sort (remdups (filter (\<lambda>k. k \<notin> set (map fst params)) (map fst given))) in
      if unknown \<noteq> [] then Inl (TemplateError (''template '' @ tm_name t @ '' has no parameter(s): '' @ join '', '' unknown @
          ''; expected: '' @ show_names (map fst params)))
      else (let missing = map fst (filter (\<lambda>(n, p). param_value given p = None) params) in
        if missing \<noteq> [] then Inl (TemplateError (''template '' @ tm_name t @ '' requires parameter(s): '' @ join '', '' (sort missing)))
        else Inr (map (\<lambda>(n, p). (n, the (param_value given p))) params))))"

subsection \<open>Substitution\<close>

definition param_first :: "char \<Rightarrow> bool" where
  "param_first c = (let n = code c in (65 \<le> n \<and> n \<le> 90) \<or> (97 \<le> n \<and> n \<le> 122) \<or> n = 95)"

definition param_char :: "char \<Rightarrow> bool" where
  "param_char c = (param_first c \<or> is_digit c)"

text \<open>\<open>_PARAM_RE\<close> at the front of the text: the name and what follows.\<close>

definition match_param :: "string \<Rightarrow> (string \<times> string) option" where
  "match_param s = (case s of d # b # r \<Rightarrow>
       (if d \<noteq> CHR ''$'' \<or> b \<noteq> CHR ''{'' then None
        else (let n = takeWhile param_char r in
          case dropWhile param_char r of [] \<Rightarrow> None
          | e # q \<Rightarrow> if n = [] \<or> \<not> param_first (hd n) \<or> e \<noteq> CHR ''}'' then None else Some (n, q)))
     | _ \<Rightarrow> None)"

lemma match_param_length: "match_param s = Some (n, r) \<Longrightarrow> length r < length s"
proof -
  assume *: "match_param s = Some (n, r)"
  then obtain d b t where s: "s = d # b # t" by (auto simp: match_param_def split: list.splits)
  obtain e where 1: "dropWhile param_char t = e # r" using * s by (auto simp: match_param_def Let_def split: if_splits list.splits)
  have "length (e # r) \<le> length t" using 1 length_dropWhile_le[of param_char t] by simp
  then show ?thesis using s by simp
qed

text \<open>\<open>_PARAM_RE.sub\<close> with a function that may leave a match alone.\<close>

function sub_params :: "(string \<Rightarrow> string option) \<Rightarrow> string \<Rightarrow> string" where
  "sub_params g [] = []"
| "sub_params g (c # cs) = (case match_param (c # cs) of
       None \<Rightarrow> c # sub_params g cs
     | Some (n, r) \<Rightarrow> (case g n of None \<Rightarrow> take (length (c # cs) - length r) (c # cs) | Some x \<Rightarrow> x) @ sub_params g r)"
  by pat_completeness auto
termination
  by (relation "measure (\<lambda>(g, s). length s)") (auto dest: match_param_length)

definition subst_text :: "dict \<Rightarrow> string \<Rightarrow> pyval" where
  "subst_text params s = (case match_param (strip s) of
     Some (n, []) \<Rightarrow> (case map_of params n of Some v \<Rightarrow> v | None \<Rightarrow> PStr (sub_params (\<lambda>n. map_option py_str (map_of params n)) s))
   | _ \<Rightarrow> PStr (sub_params (\<lambda>n. map_option py_str (map_of params n)) s))"

function (sequential) subst_params :: "dict \<Rightarrow> nat \<Rightarrow> pyval \<Rightarrow> template_error + pyval"
  and subst_items :: "dict \<Rightarrow> nat \<Rightarrow> dict \<Rightarrow> template_error + dict"
  and subst_list :: "dict \<Rightarrow> nat \<Rightarrow> pyval list \<Rightarrow> template_error + pyval list" where
  "subst_params ps depth v =
     (if depth > MAX_RENDER_DEPTH then Inl (TemplateError ''template nesting is too deep to render'')
      else case v of
          PStr s \<Rightarrow> Inr (subst_text ps s)
        | PDict d \<Rightarrow> map_sum id PDict (subst_items ps (Suc depth) d)
        | PList xs \<Rightarrow> map_sum id PList (subst_list ps (Suc depth) xs)
        | _ \<Rightarrow> Inr v)"
| "subst_items ps depth [] = Inr []"
| "subst_items ps depth ((k, v) # d) = (case subst_params ps depth v of Inl e \<Rightarrow> Inl e
     | Inr w \<Rightarrow> map_sum id (\<lambda>d. (k, w) # d) (subst_items ps depth d))"
| "subst_list ps depth [] = Inr []"
| "subst_list ps depth (v # vs) = (case subst_params ps depth v of Inl e \<Rightarrow> Inl e
     | Inr w \<Rightarrow> map_sum id (\<lambda>ws. w # ws) (subst_list ps depth vs))"
  by pat_completeness auto
termination
  by (relation "measure (\<lambda>x. case x of
       Inl (ps, n, x) \<Rightarrow> size x
     | Inr (Inl (ps, n, d)) \<Rightarrow> size_list (size_prod (\<lambda>_. 0) size) d
     | Inr (Inr (ps, n, xs)) \<Rightarrow> size_list size xs)") auto

definition render :: "template \<Rightarrow> pyval \<Rightarrow> template_error + dict" where
  "render t v = (case resolve_params t v of Inl e \<Rightarrow> Inl e | Inr resolved \<Rightarrow>
     (case subst_params resolved 0 (PList (tm_nodes t)) of Inl e \<Rightarrow> Inl e
      | Inr nodes \<Rightarrow> Inr [(''nodes'', nodes), (''max_parallel'', PInt (tm_max_parallel t)), (''fail_fast'', PBool (tm_fail_fast t)),
          (''template'', PStr (tm_name t)), (''params'', PDict resolved)]))"

subsection \<open>The registry\<close>

type_synonym registry = "(string \<times> template) list"

definition register :: "template \<Rightarrow> registry \<Rightarrow> template_error + registry" where
  "register t reg = (if tm_name t = [] then Inl (TemplateError ''template needs a name'') else Inr (dict_set reg (tm_name t) t))"

fun register_all :: "template list \<Rightarrow> registry \<Rightarrow> template_error + registry" where
  "register_all [] reg = Inr reg"
| "register_all (t # ts) reg = (case register t reg of Inl e \<Rightarrow> Inl e | Inr reg' \<Rightarrow> register_all ts reg')"

definition new_registry :: "template list option \<Rightarrow> template_error + registry" where
  "new_registry ts = register_all (case ts of None \<Rightarrow> BUNDLED_TEMPLATES | Some ts \<Rightarrow> ts) []"

definition get_template :: "string \<Rightarrow> registry \<Rightarrow> template_error + template" where
  "get_template name reg = (case map_of reg (strip name) of Some t \<Rightarrow> Inr t
     | None \<Rightarrow> Inl (TemplateError (''unknown template: '' @ repr_str name @ ''; available: '' @ show_names (map fst reg))))"

definition template_names :: "registry \<Rightarrow> string list" where
  "template_names reg = sort (map fst reg)"

definition list_templates :: "bool \<Rightarrow> registry \<Rightarrow> dict list" where
  "list_templates include_nodes reg = map (\<lambda>n. template_dict include_nodes (the (map_of reg n))) (template_names reg)"

definition render_named :: "string \<Rightarrow> pyval \<Rightarrow> registry \<Rightarrow> template_error + dict" where
  "render_named name params reg = (case get_template name reg of Inl e \<Rightarrow> Inl e | Inr t \<Rightarrow> render t params)"

subsection \<open>A rendered plan has no references but its own\<close>

abbreviation dollar :: char where "dollar \<equiv> CHR ''$''"

lemma match_param_dollar: "match_param s = Some x \<Longrightarrow> \<exists>r. s = dollar # r"
  by (auto simp: match_param_def Let_def split: list.splits if_splits)

lemma sub_params_plain: "dollar \<notin> set s \<Longrightarrow> sub_params g s = s"
proof (induction s)
  case (Cons c s)
  then have "match_param (c # s) = None" using match_param_dollar by (cases "match_param (c # s)") fastforce+
  then show ?case using Cons by simp
qed simp

lemma strip_subset: "set (strip s) \<subseteq> set s"
  by (auto simp: strip_def rstrip_def lstrip_def dest!: set_dropWhileD)

lemma subst_text_plain [simp]: "dollar \<notin> set s \<Longrightarrow> subst_text ps s = PStr s"
proof -
  assume a: "dollar \<notin> set s"
  then have "dollar \<notin> set (strip s)" using strip_subset by blast
  then have "match_param (strip s) = None" using match_param_dollar by (cases "match_param (strip s)") fastforce+
  then show ?thesis using a by (simp add: subst_text_def sub_params_plain)
qed

text \<open>A text in which every dollar begins a reference to one of \<open>names\<close>.\<close>

definition closed_text :: "string list \<Rightarrow> string \<Rightarrow> bool" where
  "closed_text names s = (dollar \<notin> set (sub_params (\<lambda>n. if n \<in> set names then Some [] else None) s))"

lemma sub_params_closed:
  assumes "\<forall>n\<in>set names. \<exists>x. g n = Some x \<and> dollar \<notin> set x"
  shows "closed_text names s \<Longrightarrow> dollar \<notin> set (sub_params g s)"
proof (induction s rule: length_induct)
  case (1 s)
  show ?case
  proof (cases s)
    case (Cons c cs)
    show ?thesis
    proof (cases "match_param s")
      case None
      then have "c \<noteq> dollar" "closed_text names cs" using 1(2) Cons by (auto simp: closed_text_def)
      then show ?thesis using 1(1) None Cons by auto
    next
      case (Some nr)
      obtain n r where nr: "nr = (n, r)" by (cases nr)
      have d: "c = dollar" using match_param_dollar[OF Some] Cons by simp
      have l: "length r < length s" using match_param_length Some nr by simp
      have "n \<in> set names"
      proof (rule ccontr)
        assume "n \<notin> set names"
        then have "dollar \<notin> set (take (length s - length r) s)" using 1(2) Some nr Cons by (auto simp: closed_text_def)
        moreover have "dollar \<in> set (take (length s - length r) s)" using d l Cons by (cases "length s - length r") auto
        ultimately show False by blast
      qed
      moreover have "closed_text names r" using 1(2) Some nr Cons calculation by (auto simp: closed_text_def)
      ultimately show ?thesis using 1(1) l Some nr Cons assms by fastforce
    qed
  qed simp
qed

text \<open>Values that bring no reference with them: numbers, truth values and strings without a dollar.\<close>

definition tame :: "pyval \<Rightarrow> bool" where
  "tame v = (case v of PStr s \<Rightarrow> dollar \<notin> set s | PInt n \<Rightarrow> True | PBool b \<Rightarrow> True | _ \<Rightarrow> False)"

lemma int_str_no_dollar: "dollar \<notin> set (int_str n)"
proof -
  have "dollar \<notin> set (nat_str m)" for m using nat_str_digits[of m] by (auto simp: list_all_iff is_digit_def code_def)
  then show ?thesis by (auto simp: int_str_def)
qed

lemma tame_str: "tame v \<Longrightarrow> dollar \<notin> set (py_str v)"
  using int_str_no_dollar by (cases v) (auto simp: tame_def)

lemma match_ref_dollar: "match_ref s = Some x \<Longrightarrow> \<exists>r. s = dollar # r"
  by (auto simp: match_ref_def ref_open_def prefix_def split: if_splits)

lemma find_refs_none: "dollar \<notin> set s \<Longrightarrow> find_refs s = []"
proof (induction s)
  case (Cons c s)
  then have "match_ref (c # s) = None" using match_ref_dollar by (cases "match_ref (c # s)") fastforce+
  then show ?case using Cons by simp
qed simp

lemma tame_references: "tame v \<Longrightarrow> references v = []"
  by (cases v) (auto simp: tame_def find_refs_none)

definition tame_params :: "string list \<Rightarrow> dict \<Rightarrow> bool" where
  "tame_params names ps = (list_all (\<lambda>(n, v). tame v) ps \<and> set names \<subseteq> fst ` set ps)"

lemma tame_param: "tame_params names ps \<Longrightarrow> map_of ps n = Some v \<Longrightarrow> tame v"
  by (auto simp: tame_params_def list_all_iff dest: map_of_SomeD)

lemma tame_names: "tame_params names ps \<Longrightarrow> n \<in> set names \<Longrightarrow> \<exists>v. map_of ps n = Some v \<and> tame v"
  using tame_param by (metis (no_types, lifting) map_of_eq_None_iff not_None_eq subsetD tame_params_def)

lemma subst_text_refs [simp]:
  assumes "tame_params names ps" "closed_text names s"
  shows "references (subst_text ps s) = []"
proof -
  let ?g = "\<lambda>n. map_option py_str (map_of ps n)"
  have "\<forall>n\<in>set names. \<exists>x. ?g n = Some x \<and> dollar \<notin> set x" using tame_names[OF assms(1)] tame_str by fastforce
  then have r: "references (PStr (sub_params ?g s)) = []" using sub_params_closed[OF _ assms(2)] find_refs_none by simp
  show ?thesis
  proof (cases "\<exists>n. match_param (strip s) = Some (n, []) \<and> map_of ps n \<noteq> None")
    case True
    then obtain n v where n: "match_param (strip s) = Some (n, [])" "map_of ps n = Some v" by auto
    then show ?thesis using tame_param[OF assms(1)] by (simp add: subst_text_def tame_references)
  next
    case False
    then show ?thesis using r by (auto simp: subst_text_def split: option.splits list.splits prod.splits)
  qed
qed

subsection \<open>The bundled templates render to valid plans\<close>

fun closed_val :: "string list \<Rightarrow> pyval \<Rightarrow> bool" where
  "closed_val names (PStr s) = closed_text names s"
| "closed_val names (PList xs) = list_all (\<lambda>v. case v of PStr s \<Rightarrow> closed_text names s | _ \<Rightarrow> False) xs"
| "closed_val names (PDict d) = False"
| "closed_val names _ = True"

lemma subst_list_strs:
  assumes "tame_params names ps" "n \<le> MAX_RENDER_DEPTH" "list_all (\<lambda>v. case v of PStr s \<Rightarrow> closed_text names s | _ \<Rightarrow> False) xs"
  shows "\<exists>ys. subst_list ps n xs = Inr ys \<and> concat (map references ys) = []"
  using assms(3)
proof (induction xs)
  case (Cons x xs)
  then obtain s where s: "x = PStr s" "closed_text names s" by (cases x) auto
  obtain ys where "subst_list ps n xs = Inr ys" "concat (map references ys) = []" using Cons by auto
  then show ?case using s assms(1,2) by simp
qed simp

lemma subst_closed_val:
  assumes "tame_params names ps" "n < MAX_RENDER_DEPTH" "closed_val names v"
  shows "\<exists>w. subst_params ps n v = Inr w \<and> references w = []"
proof (cases v)
  case (PList xs)
  then obtain ys where "subst_list ps (Suc n) xs = Inr ys" "concat (map references ys) = []"
    using subst_list_strs[OF assms(1), of "Suc n" xs] assms(2,3) by auto
  then show ?thesis using PList assms(2) by simp
qed (use assms in auto)

lemma subst_payload:
  assumes "tame_params names ps" "n < MAX_RENDER_DEPTH" "list_all (\<lambda>(k, v). closed_val names v) d"
  shows "\<exists>e. subst_items ps n d = Inr e \<and> references (PDict e) = []"
  using assms(3)
proof (induction d)
  case (Cons kv d)
  obtain k v where kv: "kv = (k, v)" by (cases kv)
  obtain w where "subst_params ps n v = Inr w" "references w = []" using subst_closed_val[OF assms(1,2), of v] Cons.prems kv by auto
  then show ?case using Cons kv by auto
qed simp

lemma subst_names: "list_all (\<lambda>x. dollar \<notin> set x) ds \<Longrightarrow> n \<le> MAX_RENDER_DEPTH \<Longrightarrow> subst_list ps n (map PStr ds) = Inr (map PStr ds)"
  by (induction ds) auto

text \<open>A node of a template: nothing but the payload has parameters.\<close>

definition fixed_name :: "string \<Rightarrow> bool" where
  "fixed_name s = (s \<noteq> [] \<and> strip s = s \<and> dollar \<notin> set s)"

definition node_ok :: "string list \<Rightarrow> string list \<Rightarrow> string \<times> string \<times> string list \<times> dict \<Rightarrow> bool" where
  "node_ok names seen x = (case x of (i, k, ds, p) \<Rightarrow> fixed_name i \<and> i \<notin> set seen \<and> fixed_name k \<and>
     list_all (\<lambda>d. d \<in> set seen \<and> dollar \<notin> set d) ds \<and> list_all (\<lambda>(k, v). closed_val names v) p)"

fun nodes_ok :: "string list \<Rightarrow> string list \<Rightarrow> (string \<times> string \<times> string list \<times> dict) list \<Rightarrow> bool" where
  "nodes_ok names seen [] = True"
| "nodes_ok names seen (x # xs) = (node_ok names seen x \<and> nodes_ok names (fst x # seen) xs)"

abbreviation plan_of :: "string \<times> string \<times> string list \<times> dict \<Rightarrow> pyval" where
  "plan_of x \<equiv> (case x of (i, k, ds, p) \<Rightarrow> plan_node i k ds p)"

lemma subst_node:
  assumes "tame_params names ps" "node_ok names seen (i, k, ds, p)"
  shows "\<exists>q. subst_params ps 1 (plan_node i k ds p) = Inr (plan_node i k ds q) \<and> references (PDict q) = []"
proof -
  have d: "list_all (\<lambda>x. dollar \<notin> set x) ds" using assms(2) by (auto simp: node_ok_def list_all_iff)
  obtain q where q: "subst_items ps 3 p = Inr q" "references (PDict q) = []"
    using subst_payload[OF assms(1), of 3 p] assms(2) by (auto simp: node_ok_def MAX_RENDER_DEPTH_def)
  have "subst_params ps 2 (PDict p) = Inr (PDict q)" using q(1) by (simp add: MAX_RENDER_DEPTH_def eval_nat_numeral)
  moreover have "subst_params ps 2 (PList (map PStr ds)) = Inr (PList (map PStr ds))"
    using subst_names[OF d, of 3 ps] by (simp add: MAX_RENDER_DEPTH_def eval_nat_numeral)
  moreover have "subst_params ps 2 (PStr s) = Inr (PStr s)" if "dollar \<notin> set s" for s
    using that by (simp add: MAX_RENDER_DEPTH_def)
  ultimately have "subst_params ps 1 (plan_node i k ds p) = Inr (plan_node i k ds q)"
    using assms(2) unfolding plan_node_def subst_params.simps(1)[of ps 1]
    by (simp add: node_ok_def fixed_name_def MAX_RENDER_DEPTH_def numeral_2_eq_2[symmetric] del: subst_params.simps(1))
  then show ?thesis using q(2) by blast
qed

text \<open>How the validator reads such a node.\<close>

definition parsed_node :: "string \<Rightarrow> string \<Rightarrow> string list \<Rightarrow> dict \<Rightarrow> node" where
  "parsed_node i k ds p = \<lparr>n_id = i, n_kind = k, n_payload = p, n_depends_on = ds, n_continue = False, n_timeout = 600\<rparr>"

lemma parse_plan_node:
  assumes "fixed_name i" "fixed_name k" "i \<notin> set seen"
  shows "parse_node n seen (plan_node i k ds p) = Inr (parsed_node i k ds p)"
  using assms by (simp add: plan_node_def parse_node_def parsed_node_def fixed_name_def dget_def dget_or_def py_or_def str_or_empty_def comp_def)

lemma subst_nodes:
  assumes "tame_params names ps" "nodes_ok names seen xs"
  shows "\<exists>qs. subst_list ps 1 (map plan_of xs) = Inr (map plan_of qs) \<and>
    map (\<lambda>(i, k, ds, p). (i, k, ds)) qs = map (\<lambda>(i, k, ds, p). (i, k, ds)) xs \<and> list_all (\<lambda>(i, k, ds, q). references (PDict q) = []) qs"
  using assms(2)
proof (induction xs arbitrary: seen)
  case (Cons x xs)
  obtain i k ds p where x: "x = (i, k, ds, p)" by (cases x)
  obtain q where "subst_params ps 1 (plan_node i k ds p) = Inr (plan_node i k ds q)" "references (PDict q) = []"
    using subst_node[OF assms(1)] Cons.prems x by fastforce
  moreover obtain qs where "subst_list ps 1 (map plan_of xs) = Inr (map plan_of qs)"
      "map (\<lambda>(i, k, ds, p). (i, k, ds)) qs = map (\<lambda>(i, k, ds, p). (i, k, ds)) xs" "list_all (\<lambda>(i, k, ds, q). references (PDict q) = []) qs"
    using Cons by fastforce
  ultimately show ?case using x by (intro exI[of _ "(i, k, ds, q) # qs"]) (simp del: subst_params.simps(1))
qed simp

lemma parse_plan_nodes:
  assumes "nodes_ok names seen xs" "map (\<lambda>(i, k, ds, p). (i, k, ds)) qs = map (\<lambda>(i, k, ds, p). (i, k, ds)) xs"
  shows "parse_nodes n seen (map plan_of qs) = Inr (map (\<lambda>(i, k, ds, q). parsed_node i k ds q) qs)"
  using assms
proof (induction xs arbitrary: qs n seen)
  case (Cons x xs)
  obtain i k ds p where x: "x = (i, k, ds, p)" by (cases x)
  obtain q qs' where qs: "qs = (i, k, ds, q) # qs'" "map (\<lambda>(i, k, ds, p). (i, k, ds)) qs' = map (\<lambda>(i, k, ds, p). (i, k, ds)) xs"
    using Cons.prems(2) x by (auto simp: map_eq_Cons_conv)
  have "parse_node n seen (plan_node i k ds q) = Inr (parsed_node i k ds q)"
    by (rule parse_plan_node) (use Cons.prems(1) x in \<open>auto simp: node_ok_def\<close>)
  moreover have "parse_nodes (Suc n) (i # seen) (map plan_of qs') = Inr (map (\<lambda>(i, k, ds, q). parsed_node i k ds q) qs')"
    by (rule Cons.IH) (use Cons.prems(1) x qs(2) in auto)
  ultimately show ?case using qs(1) by (simp add: parsed_node_def)
qed simp

text \<open>Dependencies name earlier nodes only, so the declaration order is an order of the plan.\<close>

lemma nodes_ok_ids: "nodes_ok names seen xs \<Longrightarrow> distinct (map fst xs) \<and> set (map fst xs) \<inter> set seen = {}"
proof (induction xs arbitrary: seen)
  case (Cons x xs)
  have "distinct (map fst xs) \<and> set (map fst xs) \<inter> set (fst x # seen) = {}" by (rule Cons.IH) (use Cons.prems in simp)
  moreover have "fst x \<notin> set seen" using Cons.prems by (auto simp: node_ok_def split: prod.splits)
  ultimately show ?case by auto
qed simp

lemma nodes_ok_deps:
  "nodes_ok names seen xs \<Longrightarrow> j < length xs \<Longrightarrow> xs ! j = (i, k, ds, p) \<Longrightarrow> set ds \<subseteq> set seen \<union> fst ` set (take j xs)"
proof (induction xs arbitrary: seen j)
  case (Cons x xs)
  show ?case
  proof (cases j)
    case 0
    then show ?thesis using Cons.prems by (auto simp: node_ok_def list_all_iff)
  next
    case (Suc m)
    then show ?thesis using Cons.IH[of "fst x # seen" m] Cons.prems by auto
  qed
qed simp

lemma check_nodes_pass:
  assumes "\<forall>n\<in>set ns. set (n_depends_on n) \<subseteq> set ids - {n_id n} \<and> references (PDict (n_payload n)) = []"
  shows "check_nodes ids ns = None"
proof -
  have "check_deps ids i ds = None" if "set ds \<subseteq> set ids - {i}" for i ds using that by (induction ds) auto
  then show ?thesis using assms by (induction ns) (simp_all del: references.simps)
qed

lemma plan_parses:
  assumes "nodes_ok names [] xs" "xs \<noteq> []" "length xs \<le> MAX_NODES" "1 \<le> m" "tame_params names ps"
  shows "\<exists>nodes sp. subst_params ps 0 (PList (map plan_of xs)) = Inr nodes \<and>
    parse_workflow (PDict [(''nodes'', nodes), (''max_parallel'', PInt m), (''fail_fast'', PBool ff), (''template'', a), (''params'', b)]) = Inr sp"
proof -
  obtain qs where qs: "subst_list ps 1 (map plan_of xs) = Inr (map plan_of qs)"
      "map (\<lambda>(i, k, ds, p). (i, k, ds)) qs = map (\<lambda>(i, k, ds, p). (i, k, ds)) xs" "list_all (\<lambda>(i, k, ds, q). references (PDict q) = []) qs"
    using subst_nodes[OF assms(5,1)] by blast
  define ns where "ns = map (\<lambda>(i, k, ds, q). parsed_node i k ds q) qs"
  have s: "subst_params ps 0 (PList (map plan_of xs)) = Inr (PList (map plan_of qs))" using qs(1) by (simp add: MAX_RENDER_DEPTH_def)
  have len: "length qs = length xs" using qs(2) by (metis length_map)
  have p: "parse_nodes 0 [] (map plan_of qs) = Inr ns" unfolding ns_def by (rule parse_plan_nodes[OF assms(1) qs(2)])
  have ids: "map n_id ns = map fst xs"
  proof -
    have "map n_id ns = map (fst \<circ> (\<lambda>(i, k, ds, p). (i, k, ds))) qs" by (auto simp: ns_def parsed_node_def)
    also have "\<dots> = map (fst \<circ> (\<lambda>(i, k, ds, p). (i, k, ds))) xs" using qs(2) by (metis map_map)
    finally show ?thesis by (auto simp: comp_def case_prod_unfold)
  qed
  have node: "n_id (ns ! j) = fst (xs ! j) \<and> set (n_depends_on (ns ! j)) \<subseteq> fst ` set (take j xs) \<and> references (PDict (n_payload (ns ! j))) = []"
    if "j < length xs" for j
  proof -
    obtain i k ds q where q: "qs ! j = (i, k, ds, q)" by (cases "qs ! j")
    obtain i' k' ds' p where x: "xs ! j = (i', k', ds', p)" by (cases "xs ! j")
    have "map (\<lambda>(i, k, ds, p). (i, k, ds)) qs ! j = map (\<lambda>(i, k, ds, p). (i, k, ds)) xs ! j" using qs(2) by simp
    then have e: "i' = i" "k' = k" "ds' = ds" using q x that len by auto
    have "(\<lambda>(i, k, ds, q). references (PDict q) = []) (qs ! j)" using qs(3) that len unfolding list_all_length by metis
    then have "references (PDict q) = []" unfolding q by (simp only: prod.case)
    then show ?thesis using nodes_ok_deps[OF assms(1) that x] e q x that len by (simp add: ns_def parsed_node_def)
  qed
  have dist: "distinct (map n_id ns)" unfolding ids using nodes_ok_ids[OF assms(1)] by simp
  have lens: "length ns = length xs" by (simp add: ns_def len)
  have earlier: "set (n_depends_on (ns ! j)) \<subseteq> set (take j (map n_id ns))" if "j < length xs" for j
    using node[OF that] by (simp add: ids take_map)
  have check: "check_nodes (map n_id ns) ns = None"
  proof (rule check_nodes_pass, rule ballI)
    fix n
    assume "n \<in> set ns"
    then obtain j where j: "j < length xs" "ns ! j = n" using lens by (auto simp: in_set_conv_nth)
    have "n_id n \<notin> set (take j (map n_id ns))" 
    proof
      assume "n_id n \<in> set (take j (map n_id ns))"
      then obtain m where m: "m < j" "map n_id ns ! m = n_id n" by (auto simp: in_set_conv_nth)
      have "map n_id ns ! j = n_id n" using j lens by simp
      then show False using m dist j(1) lens nth_eq_iff_index_eq[of "map n_id ns" m j] by simp
    qed
    then show "set (n_depends_on n) \<subseteq> set (map n_id ns) - {n_id n} \<and> references (PDict (n_payload n)) = []"
      using earlier[OF j(1)] node[OF j(1)] j(2) set_take_subset[of j "map n_id ns"] by blast
  qed
  have "dep_sorted ns (map n_id ns)" unfolding dep_sorted_def
  proof (intro allI impI ballI)
    fix j n
    assume a: "j < length (map n_id ns)" "n \<in> set ns" "n_id n = map n_id ns ! j"
    then have "n = ns ! j" using dist by (metis distinct_map inj_onD length_map nth_map nth_mem)
    then show "set (n_depends_on n) \<subseteq> set (take j (map n_id ns))" using earlier a(1) lens by simp
  qed
  moreover have "\<forall>n\<in>set ns. set (n_depends_on n) \<subseteq> n_id ` set ns"
  proof
    fix n
    assume "n \<in> set ns"
    then obtain j where "j < length xs" "ns ! j = n" using lens by (auto simp: in_set_conv_nth)
    then show "set (n_depends_on n) \<subseteq> n_id ` set ns" using earlier set_take_subset[of j "map n_id ns"] by fastforce
  qed
  ultimately obtain order where "topological_order ns = Inr order"
    using kahn_correct[OF kahn_inv_start[OF dist] dist] unfolding topological_order_def
    by (cases "kahn ns (map (\<lambda>n. (n_id n, n_depends_on n)) ns) []") auto
  then show ?thesis using s p check assms(2,3,4) len
    by (intro exI[of _ "PList (map plan_of qs)"]) (auto simp: parse_workflow_def dget_def dget_or_def py_or_def)
qed

text \<open>The nodes of a template apart.\<close>

definition node_parts :: "pyval \<Rightarrow> string \<times> string \<times> string list \<times> dict" where
  "node_parts v = (case v of PDict raw \<Rightarrow> (str_or_empty (dget raw ''id''), str_or_empty (dget raw ''kind''),
     (case dget raw ''depends_on'' of PList ds \<Rightarrow> map py_str ds | _ \<Rightarrow> []), (case dget raw ''payload'' of PDict p \<Rightarrow> p | _ \<Rightarrow> []))
   | _ \<Rightarrow> ([], [], [], []))"

lemma node_parts_plan [simp]: "node_parts (plan_node i k ds p) = (i, k, ds, p)"
  by (simp add: node_parts_def plan_node_def dget_def str_or_empty_def comp_def)

definition param_names :: "template \<Rightarrow> string list" where
  "param_names t = map fst (known_params t)"

text \<open>What can be checked of a template once and for all: its nodes are plain but for the payload, its references name
  parameters, its dependencies earlier nodes, and its defaults are tame.\<close>

definition template_ok :: "template \<Rightarrow> bool" where
  "template_ok t = (map (plan_of \<circ> node_parts) (tm_nodes t) = tm_nodes t \<and> nodes_ok (param_names t) [] (map node_parts (tm_nodes t)) \<and>
     tm_nodes t \<noteq> [] \<and> length (tm_nodes t) \<le> MAX_NODES \<and> 1 \<le> tm_max_parallel t \<and>
     list_all (\<lambda>(n, p). tp_required p \<or> tame (tp_default p)) (known_params t))"

lemma bundled_ok: "list_all template_ok BUNDLED_TEMPLATES"
  by code_simp



subsection \<open>Which parameters are accepted\<close>

text \<open>Parameters are accepted exactly when every given name is known and every required one is given, and then
  every parameter gets the value given, or its default.\<close>

theorem resolve_params_exact:
  assumes "given_dict v = Inr g"
  shows "resolve_params t v = Inr ps \<longleftrightarrow> set (map fst g) \<subseteq> set (param_names t) \<and>
    (\<forall>(n, p)\<in>set (known_params t). tp_required p \<longrightarrow> dget g (tp_name p) \<noteq> PNone) \<and>
    ps = map (\<lambda>(n, p). (n, if dget g (tp_name p) \<noteq> PNone then dget g (tp_name p) else tp_default p)) (known_params t)"
proof -
  have "sort xs = [] \<longleftrightarrow> xs = []" for xs :: "string list" by (metis length_0_conv length_sort)
  then have 1: "sort (remdups (filter (\<lambda>k. k \<notin> set (map fst (known_params t))) (map fst g))) = [] \<longleftrightarrow> set (map fst g) \<subseteq> set (param_names t)"
    by (auto simp: filter_empty_conv param_names_def)
  have 2: "map fst (filter (\<lambda>(n, p). param_value g p = None) (known_params t)) = [] \<longleftrightarrow>
      (\<forall>(n, p)\<in>set (known_params t). tp_required p \<longrightarrow> dget g (tp_name p) \<noteq> PNone)"
    by (auto simp: filter_empty_conv param_value_def)
  have 3: "map (\<lambda>(n, p). (n, the (param_value g p))) (known_params t) =
      map (\<lambda>(n, p). (n, if dget g (tp_name p) \<noteq> PNone then dget g (tp_name p) else tp_default p)) (known_params t)"
    if "\<forall>(n, p)\<in>set (known_params t). tp_required p \<longrightarrow> dget g (tp_name p) \<noteq> PNone"
    using that by (auto simp: param_value_def)
  show ?thesis using assms 1 2 3 by (auto simp: resolve_params_def Let_def)
qed

theorem resolve_params_exact_witness:
  "resolve_params DISK_SPACE_REPORT PNone = Inr [(''path'', PStr ''.''), (''top'', PInt 15)]"
  using resolve_params_exact[of PNone "[]" DISK_SPACE_REPORT "[(''path'', PStr ''.''), (''top'', PInt 15)]"]
  by (simp add: given_dict_def known_params_def DISK_SPACE_REPORT_def param_default_def param_names_def dget_def)

text \<open>The quotes a template puts around a parameter do not hold it together: an apostrophe ends them, and the command has
  other words than the template meant.\<close>

lemma template_quotes_break:
  "(case subst_text [(''path'', PStr (''a'' @ [apostrophe] @ '' '' @ [apostrophe] @ ''b''))] (''mkdir -p '${path}'' @ [apostrophe]) of
     PStr c \<Rightarrow> sh_words Bare None c | _ \<Rightarrow> None) = Some [''mkdir'', ''-p'', ''a'', ''b'']"
  by code_simp

end
