(* ===== verification/Datetime.thy ===== *)
theory Datetime
  imports Prelude
begin

text \<open>
  The part of Python's \<open>datetime\<close> the sources use: \<open>datetime.fromisoformat\<close> with the grammar of
  Python 3.10 (the version \<open>pyproject.toml\<close> requires), \<open>isoformat\<close>, comparison of aware values,
  and the calendar behind them. Also \<open>parse_timestamp\<close> of \<open>agent/taskqueue.py\<close>, which the
  queue and the scheduler share.

  A \<open>datetime\<close> keeps its fields, as the Python object does; \<open>instant\<close> is the number of
  microseconds since 1970-01-01T00:00Z that comparisons and subtractions read.
\<close>

subsection \<open>The calendar\<close>

definition is_leap :: "int \<Rightarrow> bool" where
  "is_leap y = (y mod 4 = 0 \<and> (y mod 100 \<noteq> 0 \<or> y mod 400 = 0))"

definition days_in_month :: "int \<Rightarrow> int \<Rightarrow> int" where
  "days_in_month y m =
     (if m = 2 then (if is_leap y then 29 else 28)
      else if m = 4 \<or> m = 6 \<or> m = 9 \<or> m = 11 then 30 else 31)"

text \<open>Days before 1 January of a year, counted from 0001-01-01, and days before a month.\<close>

definition days_before_year :: "int \<Rightarrow> int" where
  "days_before_year y = (let k = y - 1 in 365 * k + k div 4 - k div 100 + k div 400)"

fun days_before_month_upto :: "int \<Rightarrow> nat \<Rightarrow> int" where
  "days_before_month_upto y 0 = 0"
| "days_before_month_upto y (Suc 0) = 0"
| "days_before_month_upto y (Suc (Suc n)) =
     days_before_month_upto y (Suc n) + days_in_month y (int (Suc n))"

definition days_before_month :: "int \<Rightarrow> int \<Rightarrow> int" where
  "days_before_month y m = days_before_month_upto y (nat m)"

definition ordinal :: "int \<Rightarrow> int \<Rightarrow> int \<Rightarrow> int" where
  "ordinal y m d = days_before_year y + days_before_month y m + d"

definition epoch_ordinal :: int where
  "epoch_ordinal = 719163"

subsection \<open>Datetime values\<close>

record datetime =
  dt_year :: int
  dt_month :: int
  dt_day :: int
  dt_hour :: int
  dt_minute :: int
  dt_second :: int
  dt_micro :: int
  dt_off :: "int option"

definition valid_date :: "int \<Rightarrow> int \<Rightarrow> int \<Rightarrow> bool" where
  "valid_date y m d = (1 \<le> y \<and> y \<le> 9999 \<and> 1 \<le> m \<and> m \<le> 12 \<and> 1 \<le> d \<and> d \<le> days_in_month y m)"

definition valid_time :: "int \<Rightarrow> int \<Rightarrow> int \<Rightarrow> int \<Rightarrow> bool" where
  "valid_time h m s u = (0 \<le> h \<and> h < 24 \<and> 0 \<le> m \<and> m < 60 \<and> 0 \<le> s \<and> s < 60 \<and> 0 \<le> u \<and> u < 1000000)"

definition day_us :: int where
  "day_us = 86400000000"

definition valid_off :: "int option \<Rightarrow> bool" where
  "valid_off z = (case z of None \<Rightarrow> True | Some o' \<Rightarrow> - day_us < o' \<and> o' < day_us)"

definition valid_dt :: "datetime \<Rightarrow> bool" where
  "valid_dt d = (valid_date (dt_year d) (dt_month d) (dt_day d) \<and>
     valid_time (dt_hour d) (dt_minute d) (dt_second d) (dt_micro d) \<and> valid_off (dt_off d))"

definition time_us :: "int \<Rightarrow> int \<Rightarrow> int \<Rightarrow> int \<Rightarrow> int" where
  "time_us h m s u = ((h * 60 + m) * 60 + s) * 1000000 + u"

definition wall :: "datetime \<Rightarrow> int" where
  "wall d = (ordinal (dt_year d) (dt_month d) (dt_day d) - epoch_ordinal) * day_us +
     time_us (dt_hour d) (dt_minute d) (dt_second d) (dt_micro d)"

definition instant :: "datetime \<Rightarrow> int" where
  "instant d = wall d - (case dt_off d of None \<Rightarrow> 0 | Some z \<Rightarrow> z)"

subsection \<open>fromisoformat\<close>

definition pad :: "nat \<Rightarrow> int \<Rightarrow> string" where
  "pad w n = (let s = nat_str (nat n) in replicate (w - List.length s) (CHR ''0'') @ s)"

text \<open>Exactly \<open>w\<close> digits at the front of the text.\<close>

definition take_num :: "nat \<Rightarrow> string \<Rightarrow> (int \<times> string) option" where
  "take_num w s = (if w \<le> List.length s \<and> list_all is_digit (take w s)
     then Some (int (digits_val (take w s)), drop w s) else None)"

definition expect :: "char \<Rightarrow> string \<Rightarrow> string option" where
  "expect c s = (case s of [] \<Rightarrow> None | x # xs \<Rightarrow> if x = c then Some xs else None)"

text \<open>\<open>HH[:MM[:SS[.fff[fff]]]]\<close>, the whole text.\<close>

definition parse_frac :: "string \<Rightarrow> int option" where
  "parse_frac s =
     (if List.length s = 6 then (case take_num 6 s of Some (u, []) \<Rightarrow> Some u | _ \<Rightarrow> None)
      else if List.length s = 3 then
        (case take_num 3 s of Some (u, []) \<Rightarrow> Some (u * 1000) | _ \<Rightarrow> None)
      else None)"

definition parse_hms :: "string \<Rightarrow> (int \<times> int \<times> int \<times> int) option" where
  "parse_hms s = (case take_num 2 s of
       None \<Rightarrow> None
     | Some (h, []) \<Rightarrow> Some (h, 0, 0, 0)
     | Some (h, c1 # r1) \<Rightarrow> if c1 \<noteq> CHR '':'' then None else
         (case take_num 2 r1 of
            None \<Rightarrow> None
          | Some (m, []) \<Rightarrow> Some (h, m, 0, 0)
          | Some (m, c2 # r2) \<Rightarrow> if c2 \<noteq> CHR '':'' then None else
              (case take_num 2 r2 of
                 None \<Rightarrow> None
               | Some (sc, []) \<Rightarrow> Some (h, m, sc, 0)
               | Some (sc, c3 # r3) \<Rightarrow> if c3 \<noteq> CHR ''.'' then None else
                   map_option (\<lambda>u. (h, m, sc, u)) (parse_frac r3))))"

definition is_sign :: "char \<Rightarrow> bool" where
  "is_sign c = (c = CHR ''+'' \<or> c = CHR ''-'')"

text \<open>The offset must have one of the lengths of \<open>HH:MM\<close>, \<open>HH:MM:SS\<close>, \<open>HH:MM:SS.ffffff\<close>
  and lie strictly inside one day.\<close>

definition parse_off :: "string \<Rightarrow> int option" where
  "parse_off s = (case s of [] \<Rightarrow> None
     | c # r \<Rightarrow>
        if List.length r \<notin> {5, 8, 15} then None else
        (case parse_hms r of None \<Rightarrow> None
         | Some (h, m, sc, u) \<Rightarrow>
            (let t = time_us h m sc u; z = (if c = CHR ''-'' then - t else t) in
              if - day_us < z \<and> z < day_us then Some z else None)))"

definition mk_dt :: "int \<Rightarrow> int \<Rightarrow> int \<Rightarrow> int \<times> int \<times> int \<times> int \<Rightarrow> int option \<Rightarrow> datetime option" where
  "mk_dt y mo d t z = (case t of (h, m, s, u) \<Rightarrow>
     if valid_date y mo d \<and> valid_time h m s u
     then Some \<lparr>dt_year = y, dt_month = mo, dt_day = d, dt_hour = h, dt_minute = m,
                dt_second = s, dt_micro = u, dt_off = z\<rparr>
     else None)"

definition parse_date :: "string \<Rightarrow> ((int \<times> int \<times> int) \<times> string) option" where
  "parse_date s = Option.bind (take_num 4 s) (\<lambda>(y, r).
     Option.bind (expect (CHR ''-'') r) (\<lambda>r.
     Option.bind (take_num 2 r) (\<lambda>(m, r).
     Option.bind (expect (CHR ''-'') r) (\<lambda>r.
     Option.bind (take_num 2 r) (\<lambda>(d, r). Some ((y, m, d), r))))))"

definition fromisoformat :: "string \<Rightarrow> datetime option" where
  "fromisoformat s = (case parse_date s of None \<Rightarrow> None
     | Some ((y, m, d), []) \<Rightarrow> mk_dt y m d (0, 0, 0, 0) None
     | Some ((y, m, d), _ # t) \<Rightarrow>
        (let hms = takeWhile (\<lambda>c. \<not> is_sign c) t; tz = dropWhile (\<lambda>c. \<not> is_sign c) t in
         case parse_hms hms of None \<Rightarrow> None
         | Some tm \<Rightarrow>
            (if tz = [] then mk_dt y m d tm None
             else case parse_off tz of None \<Rightarrow> None | Some z \<Rightarrow> mk_dt y m d tm (Some z))))"

subsection \<open>isoformat\<close>

definition iso_frac :: "int \<Rightarrow> string" where
  "iso_frac u = (if u = 0 then [] else ''.'' @ pad 6 u)"

definition iso_off :: "int \<Rightarrow> string" where
  "iso_off z = (let a = \<bar>z\<bar>; u = a mod 1000000; s = a div 1000000 in
     (if z < 0 then ''-'' else ''+'') @ pad 2 (s div 3600) @ '':'' @ pad 2 (s div 60 mod 60) @
     (if s mod 60 = 0 \<and> u = 0 then [] else '':'' @ pad 2 (s mod 60) @ iso_frac u))"

definition iso_date :: "datetime \<Rightarrow> string" where
  "iso_date d = pad 4 (dt_year d) @ ''-'' @ pad 2 (dt_month d) @ ''-'' @ pad 2 (dt_day d)"

definition iso_time :: "datetime \<Rightarrow> string" where
  "iso_time d = pad 2 (dt_hour d) @ '':'' @ pad 2 (dt_minute d) @ '':'' @ pad 2 (dt_second d) @
     iso_frac (dt_micro d)"

definition isoformat :: "datetime \<Rightarrow> string" where
  "isoformat d = iso_date d @ ''T'' @ iso_time d @
     (case dt_off d of None \<Rightarrow> [] | Some z \<Rightarrow> iso_off z)"

subsection \<open>parse_timestamp\<close>

definition assume_utc :: "datetime \<Rightarrow> datetime" where
  "assume_utc d = (if dt_off d = None then d\<lparr>dt_off := Some 0\<rparr> else d)"

text \<open>A packet value is never a \<open>datetime\<close> object, so the branch that passes one through is
  the separate \<open>assume_utc\<close>.\<close>

definition zulu :: "string \<Rightarrow> string" where
  "zulu s = (if s \<noteq> [] \<and> (last s = CHR ''Z'' \<or> last s = CHR ''z'') then butlast s @ ''+00:00'' else s)"

definition parse_timestamp :: "pyval \<Rightarrow> datetime option" where
  "parse_timestamp raw =
     (if raw = PNone \<or> raw = PStr [] then None
      else map_option assume_utc (fromisoformat (zulu (strip (py_str raw)))))"

subsection \<open>The text form round-trips\<close>

lemma pad_length: "0 \<le> n \<Longrightarrow> n < 10 ^ w \<Longrightarrow> 0 < w \<Longrightarrow> List.length (pad w n) = w"
  using nat_str_length[of "nat n" w] by (simp add: pad_def Let_def nat_less_iff)

lemma zero_is_digit: "is_digit (CHR ''0'')"
  by (simp add: is_digit_def code_def)

lemma pad_digits: "list_all is_digit (pad w n)"
  using nat_str_digits[of "nat n"] zero_is_digit
  by (auto simp: pad_def Let_def list_all_iff simp del: nat_str_digits)

lemma pad_val: "0 \<le> n \<Longrightarrow> int (digits_val (pad w n)) = n"
  by (simp add: pad_def Let_def)

lemma take_num_pad [simp]:
  "0 \<le> n \<Longrightarrow> n < 10 ^ w \<Longrightarrow> 0 < w \<Longrightarrow> take_num w (pad w n @ r) = Some (n, r)"
  by (simp add: take_num_def pad_length pad_digits pad_val)

lemma take_num_pad_nil [simp]:
  "0 \<le> n \<Longrightarrow> n < 10 ^ w \<Longrightarrow> 0 < w \<Longrightarrow> take_num w (pad w n) = Some (n, [])"
  using take_num_pad[of n w "[]"] by simp

lemma pad_not_sign: "c \<in> set (pad w n) \<Longrightarrow> \<not> is_sign c"
  using pad_digits[of w n] by (auto simp: list_all_iff is_digit_def is_sign_def code_def)

lemma valid_time_bounds:
  "valid_time h m s u \<Longrightarrow> 0 \<le> h \<and> h < 100 \<and> 0 \<le> m \<and> m < 100 \<and> 0 \<le> s \<and> s < 100 \<and> 0 \<le> u \<and> u < 1000000"
  by (auto simp: valid_time_def)

lemma parse_hms_time:
  assumes "valid_time h m s u"
  shows "parse_hms (pad 2 h @ '':'' @ pad 2 m @ '':'' @ pad 2 s @ iso_frac u) = Some (h, m, s, u)"
  using valid_time_bounds[OF assms]
  by (simp add: parse_hms_def iso_frac_def parse_frac_def pad_length)

lemma iso_frac_not_sign: "c \<in> set (iso_frac u) \<Longrightarrow> \<not> is_sign c"
  by (auto simp: iso_frac_def pad_not_sign is_sign_def split: if_splits dest: pad_not_sign)

lemma iso_time_not_sign: "c \<in> set (iso_time d) \<Longrightarrow> \<not> is_sign c"
  by (auto simp: iso_time_def is_sign_def dest: pad_not_sign iso_frac_not_sign)

lemma off_parts:
  fixes z :: int
  assumes "- day_us < z" "z < day_us"
  defines "a \<equiv> \<bar>z\<bar>"
  shows "valid_time (a div 1000000 div 3600) (a div 1000000 div 60 mod 60) (a div 1000000 mod 60)
      (a mod 1000000)"
    and "time_us (a div 1000000 div 3600) (a div 1000000 div 60 mod 60) (a div 1000000 mod 60)
      (a mod 1000000) = a"
proof -
  have a: "0 \<le> a" "a < day_us" using assms by auto
  define q where "q = a div 1000000"
  have qa: "q * 1000000 + a mod 1000000 = a" by (simp add: q_def)
  have q: "0 \<le> q" "q < 86400" using a by (auto simp: q_def day_us_def)
  have hq: "q div 3600 = q div 60 div 60" using zdiv_zmult2_eq[of 60 q 60] by simp
  have "((q div 3600 * 60 + q div 60 mod 60) * 60 + q mod 60) = q" unfolding hq by simp
  then show "time_us (a div 1000000 div 3600) (a div 1000000 div 60 mod 60) (a div 1000000 mod 60)
      (a mod 1000000) = a"
    using qa unfolding time_us_def q_def by simp
  show "valid_time (a div 1000000 div 3600) (a div 1000000 div 60 mod 60) (a div 1000000 mod 60)
      (a mod 1000000)"
    using q unfolding valid_time_def q_def[symmetric] by auto
qed

lemma parse_hms_off_short:
  assumes "0 \<le> h" "h < 100" "0 \<le> m" "m < 100"
  shows "parse_hms (pad 2 h @ '':'' @ pad 2 m) = Some (h, m, 0, 0)"
  using assms by (simp add: parse_hms_def)

lemma parse_off_iso:
  assumes "- day_us < z" "z < day_us"
  shows "parse_off (iso_off z) = Some z"
proof -
  define a where "a = \<bar>z\<bar>"
  define h m s u where "h = a div 1000000 div 3600" and "m = a div 1000000 div 60 mod 60"
    and "s = a div 1000000 mod 60" and "u = a mod 1000000"
  have v: "valid_time h m s u" and t: "time_us h m s u = a"
    using off_parts[OF assms] unfolding h_def m_def s_def u_def a_def by auto
  note b = valid_time_bounds[OF v]
  have iso: "iso_off z = (if z < 0 then CHR ''-'' else CHR ''+'') # pad 2 h @ '':'' @ pad 2 m @
     (if s = 0 \<and> u = 0 then [] else '':'' @ pad 2 s @ iso_frac u)"
    by (simp add: iso_off_def Let_def h_def m_def s_def u_def a_def)
  show ?thesis
    using assms b t parse_hms_time[OF v] parse_hms_off_short[of h m]
    by (auto simp: iso parse_off_def pad_length iso_frac_def Let_def a_def)
qed

lemma iso_off_sign: "\<exists>c r. iso_off z = c # r \<and> is_sign c"
  by (auto simp: iso_off_def Let_def is_sign_def)

lemma parse_date_iso:
  assumes "valid_date (dt_year d) (dt_month d) (dt_day d)"
  shows "parse_date (iso_date d @ r) = Some ((dt_year d, dt_month d, dt_day d), r)"
proof -
  have "dt_day d < 100" "dt_month d < 100" "dt_year d < 10000"
    using assms by (auto simp: valid_date_def days_in_month_def split: if_splits)
  with assms show ?thesis
    by (simp add: parse_date_def iso_date_def expect_def valid_date_def)
qed

lemma takeWhile_not_sign:
  "(\<And>c. c \<in> set t \<Longrightarrow> \<not> is_sign c) \<Longrightarrow> is_sign x \<Longrightarrow> takeWhile (\<lambda>c. \<not> is_sign c) (t @ x # r) = t"
  "(\<And>c. c \<in> set t \<Longrightarrow> \<not> is_sign c) \<Longrightarrow> is_sign x \<Longrightarrow> dropWhile (\<lambda>c. \<not> is_sign c) (t @ x # r) = x # r"
  "(\<And>c. c \<in> set t \<Longrightarrow> \<not> is_sign c) \<Longrightarrow> takeWhile (\<lambda>c. \<not> is_sign c) t = t"
  "(\<And>c. c \<in> set t \<Longrightarrow> \<not> is_sign c) \<Longrightarrow> dropWhile (\<lambda>c. \<not> is_sign c) t = []"
  by (induction t) auto

lemma fromisoformat_isoformat:
  assumes "valid_dt d"
  shows "fromisoformat (isoformat d) = Some d"
proof -
  have v: "valid_date (dt_year d) (dt_month d) (dt_day d)"
    "valid_time (dt_hour d) (dt_minute d) (dt_second d) (dt_micro d)" "valid_off (dt_off d)"
    using assms by (auto simp: valid_dt_def)
  have t: "parse_hms (iso_time d) = Some (dt_hour d, dt_minute d, dt_second d, dt_micro d)"
    unfolding iso_time_def by (rule parse_hms_time[OF v(2)])
  have ns: "\<And>c. c \<in> set (iso_time d) \<Longrightarrow> \<not> is_sign c" by (rule iso_time_not_sign)
  note w = takeWhile_not_sign(1,2)[of "iso_time d", OF ns]
    takeWhile_not_sign(3,4)[of "iso_time d", OF ns]
  show ?thesis
  proof (cases "dt_off d")
    case None
    then show ?thesis
      using v t by (simp add: w Let_def fromisoformat_def isoformat_def parse_date_iso mk_dt_def)
  next
    case (Some z)
    obtain c r where cr: "iso_off z = c # r" "is_sign c" using iso_off_sign by blast
    have "parse_off (c # r) = Some z"
      using parse_off_iso[of z] v(3) Some cr by (simp add: valid_off_def)
    then show ?thesis
      using v t cr Some by (simp add: w Let_def fromisoformat_def isoformat_def parse_date_iso mk_dt_def)
  qed
qed

subsection \<open>From instants back to dates\<close>

text \<open>From an ordinal back to a date, by 400-, 100-, 4- and 1-year cycles as \<open>datetime\<close> does it.\<close>

fun month_scan :: "int \<Rightarrow> int \<Rightarrow> nat \<Rightarrow> int \<Rightarrow> int \<times> int" where
  "month_scan y m 0 r = (m, r + 1)"
| "month_scan y m (Suc k) r =
     (if r < days_in_month y m then (m, r + 1) else month_scan y (m + 1) k (r - days_in_month y m))"

definition ord_to_ymd :: "int \<Rightarrow> int \<times> int \<times> int" where
  "ord_to_ymd n =
     (let n0 = n - 1; q400 = n0 div 146097; r = n0 mod 146097; q100 = r div 36524; r = r mod 36524;
          q4 = r div 1461; r = r mod 1461; q1 = r div 365; r = r mod 365;
          y = 400 * q400 + 100 * q100 + 4 * q4 + q1 + 1 in
      if q1 = 4 \<or> q100 = 4 then (y - 1, 12, 31)
      else (case month_scan y 1 11 r of (m, d) \<Rightarrow> (y, m, d)))"

definition of_instant :: "int \<Rightarrow> datetime" where
  "of_instant x = (let d = x div day_us; t = x mod day_us; s = t div 1000000 in
     case ord_to_ymd (d + epoch_ordinal) of (y, mo, da) \<Rightarrow>
       \<lparr>dt_year = y, dt_month = mo, dt_day = da, dt_hour = s div 3600, dt_minute = s div 60 mod 60,
        dt_second = s mod 60, dt_micro = t mod 1000000, dt_off = Some 0\<rparr>)"

lemma dbm: "days_before_month y 1 = 0" "days_before_month y 2 = 31"
  "days_before_month y 3 = 31 + days_in_month y 2" "days_before_month y 4 = 62 + days_in_month y 2"
  "days_before_month y 5 = 92 + days_in_month y 2" "days_before_month y 6 = 123 + days_in_month y 2"
  "days_before_month y 7 = 153 + days_in_month y 2" "days_before_month y 8 = 184 + days_in_month y 2"
  "days_before_month y 9 = 215 + days_in_month y 2" "days_before_month y 10 = 245 + days_in_month y 2"
  "days_before_month y 11 = 276 + days_in_month y 2" "days_before_month y 12 = 306 + days_in_month y 2"
  by (simp_all add: days_before_month_def eval_nat_numeral days_in_month_def)

lemma feb: "days_in_month y 2 = 28 \<or> days_in_month y 2 = 29"
  by (simp add: days_in_month_def)

lemma month_scan_spec:
  assumes "0 \<le> r" "r < 365"
  shows "case month_scan y 1 11 r of (m, d) \<Rightarrow> 1 \<le> m \<and> m \<le> 12 \<and> 1 \<le> d \<and> d \<le> days_in_month y m \<and>
    days_before_month y m + d = r + 1"
proof -
  have dim: "days_in_month y 1 = 31" "days_in_month y 3 = 31" "days_in_month y 4 = 30" "days_in_month y 5 = 31"
    "days_in_month y 6 = 30" "days_in_month y 7 = 31" "days_in_month y 8 = 31" "days_in_month y 9 = 30"
    "days_in_month y 10 = 31" "days_in_month y 11 = 30" "days_in_month y 12 = 31"
    by (simp_all add: days_in_month_def)
  show ?thesis
    using assms feb[of y] by (auto simp: eval_nat_numeral dim dbm)
qed

lemma days_before_year_parts:
  fixes q400 q100 q4 q1 :: int
  assumes "0 \<le> q100" "q100 < 4" "0 \<le> q4" "q4 < 25" "0 \<le> q1" "q1 < 4"
  shows "days_before_year (400 * q400 + 100 * q100 + 4 * q4 + q1 + 1) =
    146097 * q400 + 36524 * q100 + 1461 * q4 + 365 * q1"
proof -
  define k where "k = 400 * q400 + 100 * q100 + 4 * q4 + q1"
  have "k div 4 = 100 * q400 + 25 * q100 + q4" "k div 100 = 4 * q400 + q100" "k div 400 = q400"
    using assms by (simp_all add: k_def)
  then show ?thesis by (simp add: days_before_year_def Let_def k_def)
qed

lemma ordinal_ord_to_ymd:
  assumes "ord_to_ymd n = (y, m, d)"
  shows "ordinal y m d = n \<and> 1 \<le> m \<and> m \<le> 12 \<and> 1 \<le> d \<and> d \<le> days_in_month y m"
proof -
  define n0 q400 r1 q100 r2 q4 r3 q1 r4 where "n0 = n - 1" and "q400 = n0 div 146097" and "r1 = n0 mod 146097"
    and "q100 = r1 div 36524" and "r2 = r1 mod 36524" and "q4 = r2 div 1461" and "r3 = r2 mod 1461"
    and "q1 = r3 div 365" and "r4 = r3 mod 365"
  note defs = n0_def q400_def r1_def q100_def r2_def q4_def r3_def q1_def r4_def
  have b: "0 \<le> r1" "r1 < 146097" "0 \<le> r2" "r2 < 36524" "0 \<le> r3" "r3 < 1461" "0 \<le> r4" "r4 < 365"
    unfolding r1_def r2_def r3_def r4_def by (rule pos_mod_sign pos_mod_bound; simp)+
  have q: "0 \<le> q100" "q100 \<le> 4" "0 \<le> q4" "q4 < 25" "0 \<le> q1" "q1 \<le> 4"
    using b by (auto simp: q100_def q4_def q1_def)
  have e: "n0 = 146097 * q400 + r1" "r1 = 36524 * q100 + r2" "r2 = 1461 * q4 + r3" "r3 = 365 * q1 + r4"
    unfolding q400_def r1_def q100_def r2_def q4_def r3_def q1_def r4_def
    by (rule mult_div_mod_eq[symmetric])+
  define Y where "Y = 400 * q400 + 100 * q100 + 4 * q4 + q1 + 1"
  have o: "ord_to_ymd n = (if q1 = 4 \<or> q100 = 4 then (Y - 1, 12, 31)
      else (case month_scan Y 1 11 r4 of (m, d) \<Rightarrow> (Y, m, d)))"
    by (simp only: ord_to_ymd_def Let_def defs Y_def)
  consider (a) "q100 = 4" | (b) "q100 < 4" "q1 = 4" | (c) "q100 < 4" "q1 < 4" using q by linarith
  then show ?thesis
  proof cases
    case a
    have z: "r2 = 0" using a b e(2) by linarith
    then have z3: "q4 = 0" "r3 = 0" using b e(3) q by linarith+
    then have z4: "q1 = 0" "r4 = 0" using b e(4) q by linarith+
    have Y1: "Y - 1 = 400 * q400 + 100 * 3 + 4 * 24 + 3 + 1" using a z3 z4 by (simp add: Y_def)
    have "(400 * q400 + 100 * 3 + 4 * 24 + 3 + 1) = 400 * (q400 + 1)" by simp
    then have leap: "is_leap (Y - 1)" unfolding Y1 is_leap_def by simp
    have "days_before_year (Y - 1) = 146097 * q400 + 36524 * 3 + 1461 * 24 + 365 * 3"
      unfolding Y1 by (rule days_before_year_parts) auto
    then have "ordinal (Y - 1) 12 31 = n"
      using e(1,2) a z leap by (simp add: ordinal_def dbm days_in_month_def n0_def)
    then show ?thesis using assms o a by (simp add: days_in_month_def)
  next
    case b
    have z: "r4 = 0" using \<open>r3 < 1461\<close> e(4) b \<open>0 \<le> r4\<close> by simp
    have q4: "q4 < 24"
    proof (rule ccontr)
      assume "\<not> q4 < 24"
      then have "q4 = 24" using q by simp
      then have "r2 = 36524" using e b z by simp
      then show False using \<open>r2 < 36524\<close> by simp
    qed
    have Y1: "Y - 1 = 400 * q400 + 100 * q100 + 4 * q4 + 3 + 1" using b by (simp add: Y_def)
    have "Y - 1 = 4 * (100 * q400 + 25 * q100 + q4 + 1)" unfolding Y1 by simp
    then have "(Y - 1) mod 4 = 0" by simp
    moreover have "(Y - 1) mod 100 = 4 * (q4 + 1)"
    proof -
      have "(Y - 1) = 100 * (4 * q400 + q100) + 4 * (q4 + 1)" unfolding Y1 by simp
      then show ?thesis using q q4 by (simp only: mod_mult_self4) simp
    qed
    ultimately have leap: "is_leap (Y - 1)" using q by (simp add: is_leap_def)
    have "days_before_year (Y - 1) = 146097 * q400 + 36524 * q100 + 1461 * q4 + 365 * 3"
      unfolding Y1 by (rule days_before_year_parts) (use b q in auto)
    then have "ordinal (Y - 1) 12 31 = n"
      using e b z leap by (simp add: ordinal_def dbm days_in_month_def n0_def)
    then show ?thesis using assms o b by (simp add: days_in_month_def)
  next
    case c
    have dby: "days_before_year Y = 146097 * q400 + 36524 * q100 + 1461 * q4 + 365 * q1"
      unfolding Y_def by (rule days_before_year_parts) (use c q in auto)
    obtain m' d' where ms: "month_scan Y 1 11 r4 = (m', d')" by fastforce
    have "y = Y" "m = m'" "d = d'" using assms o c ms by auto
    then show ?thesis
      using month_scan_spec[of r4 Y] b ms dby e by (simp add: ordinal_def n0_def)
  qed
qed

lemma of_instant_parts:
  "\<exists>y mo da h m s u. of_instant x = \<lparr>dt_year = y, dt_month = mo, dt_day = da, dt_hour = h,
       dt_minute = m, dt_second = s, dt_micro = u, dt_off = Some 0\<rparr> \<and>
     1 \<le> mo \<and> mo \<le> 12 \<and> 1 \<le> da \<and> da \<le> days_in_month y mo \<and> valid_time h m s u \<and>
     (ordinal y mo da - epoch_ordinal) * day_us + time_us h m s u = x"
proof -
  define d t s where "d = x div day_us" and "t = x mod day_us" and "s = t div 1000000"
  obtain y mo da where o: "ord_to_ymd (d + epoch_ordinal) = (y, mo, da)" by (metis prod_cases3)
  have t: "0 \<le> t" "t < day_us" "x = d * day_us + t"
    unfolding t_def d_def by (simp_all add: day_us_def)
  have st: "s * 1000000 + t mod 1000000 = t" unfolding s_def by (rule div_mult_mod_eq)
  have s: "0 \<le> s" "s < 86400" using t by (auto simp: s_def day_us_def)
  have hq: "s div 3600 = s div 60 div 60" using zdiv_zmult2_eq[of 60 s 60] by simp
  have "((s div 3600 * 60 + s div 60 mod 60) * 60 + s mod 60) = s" unfolding hq by simp
  then have ts: "time_us (s div 3600) (s div 60 mod 60) (s mod 60) (t mod 1000000) = t"
    using st unfolding time_us_def by simp
  have oi: "of_instant x = \<lparr>dt_year = y, dt_month = mo, dt_day = da, dt_hour = s div 3600,
       dt_minute = s div 60 mod 60, dt_second = s mod 60, dt_micro = t mod 1000000, dt_off = Some 0\<rparr>"
    unfolding of_instant_def Let_def d_def[symmetric] t_def[symmetric] s_def[symmetric] o by simp
  have "valid_time (s div 3600) (s div 60 mod 60) (s mod 60) (t mod 1000000)"
    using s by (auto simp: valid_time_def)
  moreover have "(ordinal y mo da - epoch_ordinal) * day_us +
      time_us (s div 3600) (s div 60 mod 60) (s mod 60) (t mod 1000000) = x"
    unfolding ts using ordinal_ord_to_ymd[OF o] t(3) by simp
  ultimately show ?thesis
    unfolding oi using ordinal_ord_to_ymd[OF o] by (intro exI conjI) (rule refl, blast+)
qed

lemma instant_of_instant [simp]: "instant (of_instant x) = x"
  using of_instant_parts[of x] by (auto simp: instant_def wall_def)

lemma valid_of_instant:
  assumes "1 \<le> dt_year (of_instant x)" "dt_year (of_instant x) \<le> 9999"
  shows "valid_dt (of_instant x)"
  using of_instant_parts[of x] assms
  by (auto simp: valid_dt_def valid_date_def valid_off_def day_us_def)

end
