(* ===== verification/Scheduler.thy ===== *)
theory Scheduler
  imports Datetime
begin

text \<open>
  \<open>agent/scheduler.py\<close>: the five-field cron parser and its minute-by-minute search, the validation of
  a \<open>schedule_task\<close> payload, and the registry of schedules with firing and persistence. Instants are
  microseconds since the epoch; a \<open>timestamp()\<close> is the rational number of seconds. \<open>croniter\<close>, an
  optional package, is a parameter: the search it does when it is installed. What \<open>dispatch\<close> raises
  for a schedule is a parameter of \<open>run_due\<close>.
\<close>

datatype sched_error =
    EmptyElement string
  | BadStep string
  | BadValue string
  | InvertedRange string
  | OutOfRange string
  | FieldCount nat
  | NeverFires string
  | BadTimestamp pyval
  | PayloadNotObject
  | NoTask
  | NoTrigger
  | HasNoTrigger string
  | ManyTriggers
  | BadInterval
  | BadMaxRuns
  | TooManySchedules

definition MAX_SCHEDULES :: nat where
  "MAX_SCHEDULES = 200"

definition month_names :: "(string \<times> int) list" where
  "month_names = [(''jan'', 1), (''feb'', 2), (''mar'', 3), (''apr'', 4), (''may'', 5), (''jun'', 6),
     (''jul'', 7), (''aug'', 8), (''sep'', 9), (''oct'', 10), (''nov'', 11), (''dec'', 12)]"

definition dow_names :: "(string \<times> int) list" where
  "dow_names = [(''sun'', 0), (''mon'', 1), (''tue'', 2), (''wed'', 3), (''thu'', 4), (''fri'', 5), (''sat'', 6)]"

subsection \<open>Cron fields\<close>

text \<open>\<open>text.partition(sep)\<close> at the first separator.\<close>

definition partition_on :: "char \<Rightarrow> string \<Rightarrow> string \<times> string" where
  "partition_on c s = (takeWhile (\<lambda>x. x \<noteq> c) s, drop 1 (dropWhile (\<lambda>x. x \<noteq> c) s))"

definition cron_number :: "(string \<times> int) list \<Rightarrow> string \<Rightarrow> sched_error + int" where
  "cron_number names text =
     (let t = lower (strip text) in
      case map_of names (take 3 t) of
        Some n \<Rightarrow> Inr n
      | None \<Rightarrow> if all_digits t then Inr (int (digits_val t)) else Inl (BadValue t))"

text \<open>\<open>range(start, end + 1, step)\<close>.\<close>

definition step_range :: "int \<Rightarrow> int \<Rightarrow> int \<Rightarrow> int list" where
  "step_range a b step = map (\<lambda>k. a + int k * step) [0..<nat ((b - a) div step + 1)]"

definition cron_part :: "int \<Rightarrow> int \<Rightarrow> (string \<times> int) list \<Rightarrow> string \<Rightarrow> sched_error + int list" where
  "cron_part low high names raw =
     (let part0 = lower (strip raw) in
      if part0 = [] then Inl (EmptyElement raw)
      else
        (let slash = (CHR ''/'' \<in> set part0); (p1, step_text) = partition_on (CHR ''/'') part0 in
         if slash \<and> (\<not> all_digits step_text \<or> digits_val step_text < 1) then Inl (BadStep step_text)
         else
           (let step = (if slash then int (digits_val step_text) else 1);
                part = (if slash \<and> p1 = [] then ''*'' else p1);
                bounds =
                  (if part = ''*'' then Inr (low, high)
                   else if CHR ''-'' \<in> set (drop 1 part) then
                     (case partition_on (CHR ''-'') part of (a, b) \<Rightarrow>
                       (case cron_number names a of Inl e \<Rightarrow> Inl e
                        | Inr x \<Rightarrow> (case cron_number names b of Inl e \<Rightarrow> Inl e | Inr y \<Rightarrow> Inr (x, y))))
                   else (case cron_number names part of Inl e \<Rightarrow> Inl e | Inr x \<Rightarrow> Inr (x, x))) in
            case bounds of Inl e \<Rightarrow> Inl e
            | Inr (a, b) \<Rightarrow>
                if a > b then Inl (InvertedRange part)
                else if a < low \<or> b > high then Inl (OutOfRange part)
                else Inr (step_range a b step))))"

fun cron_parts :: "int \<Rightarrow> int \<Rightarrow> (string \<times> int) list \<Rightarrow> string list \<Rightarrow> sched_error + int list" where
  "cron_parts low high names [] = Inr []"
| "cron_parts low high names (p # ps) = (case cron_part low high names p of Inl e \<Rightarrow> Inl e
     | Inr xs \<Rightarrow> (case cron_parts low high names ps of Inl e \<Rightarrow> Inl e | Inr ys \<Rightarrow> Inr (xs @ ys)))"

definition parse_cron_field :: "int \<Rightarrow> int \<Rightarrow> (string \<times> int) list \<Rightarrow> string \<Rightarrow> sched_error + int list" where
  "parse_cron_field low high names text = cron_parts low high names (split_on (CHR '','') text)"

definition cron_fields :: "string list \<Rightarrow> (sched_error + int list) list" where
  "cron_fields fs = map2 (\<lambda>f (low, high, names). parse_cron_field low high names f) fs
     [(0, 59, []), (0, 23, []), (1, 31, []), (1, 12, month_names), (0, 6, dow_names)]"

fun first_error :: "('e + 'a) list \<Rightarrow> 'e option" where
  "first_error [] = None"
| "first_error (Inl e # xs) = Some e"
| "first_error (Inr x # xs) = first_error xs"

text \<open>\<open>str(expression or "")\<close> is the caller's. An empty expression splits into no field where
  \<open>" ".join([]).split(" ")\<close> gives one empty field: neither is five.\<close>

definition validate_cron :: "string \<Rightarrow> sched_error + string" where
  "validate_cron expression =
     (let text = join '' '' (words expression); fields = split_on (CHR '' '') text in
      if length fields \<noteq> 5 then Inl (FieldCount (length fields))
      else (case first_error (cron_fields fields) of Some e \<Rightarrow> Inl e | None \<Rightarrow> Inr text))"

subsection \<open>Matching a minute\<close>

text \<open>\<open>datetime.weekday()\<close> counts from Monday; 0001-01-01 was one.\<close>

definition weekday :: "datetime \<Rightarrow> int" where
  "weekday d = (ordinal (dt_year d) (dt_month d) (dt_day d) + 6) mod 7"

definition in_field :: "sched_error + int list \<Rightarrow> int \<Rightarrow> bool" where
  "in_field f x = (case f of Inl _ \<Rightarrow> False | Inr xs \<Rightarrow> x \<in> set xs)"

text \<open>The expression has been validated, so a field that does not parse does not occur.\<close>

definition cron_matches :: "string \<Rightarrow> datetime \<Rightarrow> bool" where
  "cron_matches expression m = (case split_on (CHR '' '') expression of
     [mi, ho, da, mo, dw] \<Rightarrow>
       (if \<not> in_field (parse_cron_field 0 59 [] mi) (dt_minute m) then False
        else if \<not> in_field (parse_cron_field 0 23 [] ho) (dt_hour m) then False
        else if \<not> in_field (parse_cron_field 1 12 month_names mo) (dt_month m) then False
        else
          (let dom_hit = in_field (parse_cron_field 1 31 [] da) (dt_day m);
               dow_hit = in_field (case parse_cron_field 0 6 dow_names dw of Inl e \<Rightarrow> Inl e
                   | Inr xs \<Rightarrow> Inr (map (\<lambda>d. if d = 7 then 0 else d) xs)) ((weekday m + 1) mod 7);
               dom_restricted = (strip da \<noteq> ''*''); dow_restricted = (strip dw \<noteq> ''*'') in
           if dom_restricted \<and> dow_restricted then dom_hit \<or> dow_hit
           else if dom_restricted then dom_hit
           else if dow_restricted then dow_hit
           else True))
   | _ \<Rightarrow> False)"

definition minute_us :: int where
  "minute_us = 60000000"

text \<open>The search: minute \<open>k\<close> counts from the epoch; \<open>n\<close> minutes are left to try.\<close>

fun cron_search :: "string \<Rightarrow> nat \<Rightarrow> int \<Rightarrow> int option" where
  "cron_search expression 0 k = None"
| "cron_search expression (Suc n) k =
     (if cron_matches expression (of_instant (k * minute_us)) then Some (k * minute_us)
      else cron_search expression n (k + 1))"

definition search_minutes :: nat where
  "search_minutes = 366 * 4 * 1440 + 1"

definition next_cron_time :: "(string \<Rightarrow> int \<Rightarrow> int) option \<Rightarrow> string \<Rightarrow> int \<Rightarrow> sched_error + int" where
  "next_cron_time croniter expression after = (case croniter of
       Some f \<Rightarrow> Inr (f expression after)
     | None \<Rightarrow> (case cron_search expression search_minutes (after div minute_us + 1) of
          Some t \<Rightarrow> Inr t | None \<Rightarrow> Inl (NeverFires expression)))"

subsection \<open>Schedules\<close>

record sched =
  sc_id :: string
  sc_task :: dict
  sc_cron :: "string option"
  sc_interval :: "rat option"
  sc_at :: "string option"
  sc_enabled :: bool
  sc_max_runs :: "int option"
  sc_run_count :: int
  sc_created_at :: rat
  sc_last_run_at :: "rat option"
  sc_next_run_at :: "rat option"
  sc_last_error :: string

definition exhausted :: "sched \<Rightarrow> bool" where
  "exhausted s = ((sc_at s \<noteq> None \<and> sc_run_count s \<ge> 1) \<or>
     (case sc_max_runs s of None \<Rightarrow> False | Some n \<Rightarrow> sc_run_count s \<ge> n))"

definition seconds :: "int \<Rightarrow> rat" where
  "seconds t = of_int t / 1000000"

text \<open>\<open>timedelta(seconds=x)\<close> rounds to the microsecond, ties to even.\<close>

definition round_even :: "rat \<Rightarrow> int" where
  "round_even x = (let f = \<lfloor>x\<rfloor>; r = x - of_int f in
     if r < 1 / 2 then f else if r > 1 / 2 then f + 1 else if even f then f else f + 1)"

text \<open>\<open>parse_timestamp\<close> of this module: an error where the queue's ignores the value, every \<open>Z\<close>
  replaced, and the result in UTC.\<close>

definition sched_timestamp :: "pyval \<Rightarrow> sched_error + datetime" where
  "sched_timestamp v = (case fromisoformat (replace_occ ''Z'' ''+00:00'' (strip (py_str v))) of
       None \<Rightarrow> Inl (BadTimestamp v)
     | Some d \<Rightarrow> (case dt_off d of None \<Rightarrow> Inr (d\<lparr>dt_off := Some 0\<rparr>) | Some _ \<Rightarrow> Inr (of_instant (instant d))))"

definition compute_next_run :: "(string \<Rightarrow> int \<Rightarrow> int) option \<Rightarrow> sched \<Rightarrow> int \<Rightarrow> sched_error + int" where
  "compute_next_run croniter s now =
     (if sc_cron s \<noteq> None \<and> sc_cron s \<noteq> Some [] then next_cron_time croniter (the (sc_cron s)) now
      else if sc_interval s \<noteq> None \<and> sc_interval s \<noteq> Some 0
        then Inr (now + round_even (the (sc_interval s) * 1000000))
      else if sc_at s \<noteq> None \<and> sc_at s \<noteq> Some []
        then (case sched_timestamp (PStr (the (sc_at s))) of Inl e \<Rightarrow> Inl e | Inr d \<Rightarrow> Inr (instant d))
      else Inl (HasNoTrigger (sc_id s)))"

definition is_trigger :: "pyval \<Rightarrow> bool" where
  "is_trigger v = (v \<noteq> PNone \<and> v \<noteq> PStr [])"

definition check_cron :: "pyval \<Rightarrow> sched_error + string option" where
  "check_cron v = (if truthy v then (case validate_cron (py_str v) of Inl e \<Rightarrow> Inl e
        | Inr c \<Rightarrow> Inr (if c = [] then None else Some c)) else Inr None)"

definition check_interval :: "pyval \<Rightarrow> sched_error + rat option" where
  "check_interval v = (if is_trigger v then (case py_float v of None \<Rightarrow> Inl BadInterval
        | Some r \<Rightarrow> if r < 1 then Inl BadInterval else Inr (Some r)) else Inr None)"

definition check_at :: "pyval \<Rightarrow> sched_error + string option" where
  "check_at v = (if truthy v then (case sched_timestamp v of Inl e \<Rightarrow> Inl e
        | Inr d \<Rightarrow> Inr (Some (isoformat d))) else Inr None)"

definition check_max_runs :: "pyval \<Rightarrow> sched_error + int option" where
  "check_max_runs v = (if v = PNone then Inr None else (case py_int v of None \<Rightarrow> Inl BadMaxRuns
        | Some n \<Rightarrow> if n < 1 then Inl BadMaxRuns else Inr (Some n)))"

text \<open>\<open>parse_schedule\<close>; \<open>fresh\<close> stands for ten hex digits of a new UUID and \<open>now\<close> is the instant.\<close>

definition parse_sched :: "(string \<Rightarrow> int \<Rightarrow> int) option \<Rightarrow> string \<Rightarrow> int \<Rightarrow> pyval \<Rightarrow> sched_error + sched" where
  "parse_sched croniter fresh now pv = (case pv of
     PDict payload \<Rightarrow>
       (case dget payload ''task'' of
          PDict task \<Rightarrow>
            (if strip (str_or_empty (dget task ''kind'')) = [] then Inl NoTask
             else
               (let cron = dget payload ''cron''; interval = dget payload ''interval_seconds''; at_v = dget payload ''at'';
                    triggers = filter is_trigger [cron, interval, at_v] in
                if triggers = [] then Inl NoTrigger
                else if length triggers > 1 then Inl ManyTriggers
                else case check_cron cron of Inl e \<Rightarrow> Inl e | Inr c \<Rightarrow>
                (case check_interval interval of Inl e \<Rightarrow> Inl e | Inr i \<Rightarrow>
                (case check_at at_v of Inl e \<Rightarrow> Inl e | Inr a \<Rightarrow>
                (case check_max_runs (dget payload ''max_runs'') of Inl e \<Rightarrow> Inl e | Inr m \<Rightarrow>
                  (let s = \<lparr>sc_id = py_str (py_or (dget payload ''id'') (PStr (''sched-'' @ fresh))), sc_task = task,
                            sc_cron = c, sc_interval = i, sc_at = a,
                            sc_enabled = truthy (dget_or payload ''enabled'' (PBool True)), sc_max_runs = m,
                            sc_run_count = 0, sc_created_at = seconds now, sc_last_run_at = None,
                            sc_next_run_at = None, sc_last_error = []\<rparr> in
                   case compute_next_run croniter s now of Inl e \<Rightarrow> Inl e
                   | Inr t \<Rightarrow> Inr (s\<lparr>sc_next_run_at := Some (seconds t)\<rparr>)))))))
        | _ \<Rightarrow> Inl NoTask)
   | _ \<Rightarrow> Inl PayloadNotObject)"

subsection \<open>The registry\<close>

text \<open>\<open>rg_file\<close> is the JSON document at \<open>path\<close>, when the registry has one.\<close>

record registry =
  rg_schedules :: "(string \<times> sched) list"
  rg_path :: bool
  rg_file :: "pyval option"

definition opt_rat :: "rat option \<Rightarrow> pyval" where
  "opt_rat x = (case x of None \<Rightarrow> PNone | Some r \<Rightarrow> PFloat r)"

definition opt_text :: "string option \<Rightarrow> pyval" where
  "opt_text x = (case x of None \<Rightarrow> PNone | Some s \<Rightarrow> PStr s)"

definition opt_num :: "int option \<Rightarrow> pyval" where
  "opt_num x = (case x of None \<Rightarrow> PNone | Some n \<Rightarrow> PInt n)"

definition sched_to_dict :: "sched \<Rightarrow> dict" where
  "sched_to_dict s =
     [(''id'', PStr (sc_id s)), (''task'', PDict (sc_task s)), (''cron'', opt_text (sc_cron s)),
      (''interval_seconds'', opt_rat (sc_interval s)), (''at'', opt_text (sc_at s)),
      (''enabled'', PBool (sc_enabled s)), (''max_runs'', opt_num (sc_max_runs s)),
      (''run_count'', PInt (sc_run_count s)), (''created_at'', PFloat (sc_created_at s)),
      (''last_run_at'', opt_rat (sc_last_run_at s)), (''next_run_at'', opt_rat (sc_next_run_at s)),
      (''last_error'', PStr (sc_last_error s)), (''exhausted'', PBool (exhausted s))]"

text \<open>\<open>from_dict\<close> passes the known keys to the dataclass and checks no types. A row whose fields have
  other types than the class declares, which \<open>to_dict\<close> never writes, is not modelled (\<open>None\<close>); so is
  a missing \<open>id\<close> or \<open>task\<close>, where the code raises \<open>TypeError\<close>.\<close>

definition get_text :: "pyval \<Rightarrow> string option option" where
  "get_text v = (case v of PNone \<Rightarrow> Some None | PStr s \<Rightarrow> Some (Some s) | _ \<Rightarrow> None)"

definition get_rat :: "pyval \<Rightarrow> rat option option" where
  "get_rat v = (case v of PNone \<Rightarrow> Some None | PFloat r \<Rightarrow> Some (Some r) | PInt n \<Rightarrow> Some (Some (of_int n)) | _ \<Rightarrow> None)"

definition get_num :: "pyval \<Rightarrow> int option option" where
  "get_num v = (case v of PNone \<Rightarrow> Some None | PInt n \<Rightarrow> Some (Some n) | _ \<Rightarrow> None)"

definition sched_from_dict :: "rat \<Rightarrow> dict \<Rightarrow> sched option" where
  "sched_from_dict now d =
     (case (dget d ''id'', dget d ''task'', get_text (dget d ''cron''), get_rat (dget d ''interval_seconds''),
            get_text (dget d ''at''), dget_or d ''enabled'' (PBool True), get_num (dget d ''max_runs''),
            get_num (dget_or d ''run_count'' (PInt 0)), get_rat (dget_or d ''created_at'' (PFloat now)),
            get_rat (dget d ''last_run_at''), get_rat (dget d ''next_run_at''), get_text (dget_or d ''last_error'' (PStr []))) of
        (PStr i, PDict t, Some c, Some iv, Some a, PBool en, Some m, Some (Some rc), Some (Some cr), Some lr, Some nr, Some (Some le)) \<Rightarrow>
          Some \<lparr>sc_id = i, sc_task = t, sc_cron = c, sc_interval = iv, sc_at = a, sc_enabled = en,
            sc_max_runs = m, sc_run_count = rc, sc_created_at = cr, sc_last_run_at = lr,
            sc_next_run_at = nr, sc_last_error = le\<rparr>
      | _ \<Rightarrow> None)"

definition save :: "registry \<Rightarrow> registry" where
  "save g = (if rg_path g then g\<lparr>rg_file := Some (PList (map (\<lambda>(i, s). PDict (sched_to_dict s)) (rg_schedules g)))\<rparr> else g)"

text \<open>One row of the file: an enabled, unexhausted schedule without a slot gets one.\<close>

definition load_row :: "(string \<Rightarrow> int \<Rightarrow> int) option \<Rightarrow> int \<Rightarrow> pyval \<Rightarrow> sched option" where
  "load_row croniter now v = (case v of PDict d \<Rightarrow>
       (case sched_from_dict (seconds now) d of None \<Rightarrow> None
        | Some s \<Rightarrow> Some
           (if sc_next_run_at s = None \<and> sc_enabled s \<and> \<not> exhausted s
            then (case compute_next_run croniter s now of
                Inr t \<Rightarrow> s\<lparr>sc_next_run_at := Some (seconds t)\<rparr> | Inl e \<Rightarrow> s\<lparr>sc_enabled := False\<rparr>)
            else s))
     | _ \<Rightarrow> None)"

definition load :: "(string \<Rightarrow> int \<Rightarrow> int) option \<Rightarrow> int \<Rightarrow> registry \<Rightarrow> nat \<times> registry" where
  "load croniter now g = (if \<not> rg_path g then (0, g) else
     (case rg_file g of None \<Rightarrow> (0, g)
      | Some doc \<Rightarrow>
         (let rows = (case doc of PList xs \<Rightarrow> xs | _ \<Rightarrow> []);
              restored = fold (\<lambda>s m. dict_set m (sc_id s) s) (List.map_filter (load_row croniter now) rows) [] in
          (length restored, g\<lparr>rg_schedules := restored\<rparr>))))"

definition add :: "sched \<Rightarrow> registry \<Rightarrow> sched_error + registry" where
  "add s g = (if map_of (rg_schedules g) (sc_id s) = None \<and> length (rg_schedules g) \<ge> MAX_SCHEDULES
     then Inl TooManySchedules
     else Inr (save (g\<lparr>rg_schedules := dict_set (rg_schedules g) (sc_id s) s\<rparr>)))"

definition remove :: "string \<Rightarrow> registry \<Rightarrow> bool \<times> registry" where
  "remove i g = (if map_of (rg_schedules g) i = None then (False, g)
     else (True, save (g\<lparr>rg_schedules := dict_del (rg_schedules g) i\<rparr>)))"

definition get :: "string \<Rightarrow> registry \<Rightarrow> sched option" where
  "get i g = map_of (rg_schedules g) i"

text \<open>\<open>(next_run_at or inf, id)\<close>: a slot of \<open>None\<close> or 0 sorts last.\<close>

definition list_key :: "sched \<Rightarrow> bool \<times> rat \<times> string" where
  "list_key s = (case sc_next_run_at s of None \<Rightarrow> (True, 0, sc_id s)
     | Some t \<Rightarrow> if t = 0 then (True, 0, sc_id s) else (False, t, sc_id s))"

definition list_schedules :: "bool \<Rightarrow> registry \<Rightarrow> sched list" where
  "list_schedules include_exhausted g =
     sort_key list_key (filter (\<lambda>s. include_exhausted \<or> \<not> exhausted s) (map snd (rg_schedules g)))"

text \<open>An error of the slot computation comes after the schedule was switched on, and before \<open>save\<close>.\<close>

definition set_enabled :: "(string \<Rightarrow> int \<Rightarrow> int) option \<Rightarrow> int \<Rightarrow> string \<Rightarrow> bool \<Rightarrow> registry \<Rightarrow> (sched_error + bool) \<times> registry" where
  "set_enabled croniter now i en g = (case map_of (rg_schedules g) i of
       None \<Rightarrow> (Inr False, g)
     | Some s \<Rightarrow>
        (let s1 = s\<lparr>sc_enabled := en\<rparr>; g1 = g\<lparr>rg_schedules := dict_set (rg_schedules g) i s1\<rparr> in
         if en \<and> sc_next_run_at s1 = None then
           (case compute_next_run croniter s1 now of Inl e \<Rightarrow> (Inl e, g1)
            | Inr t \<Rightarrow> (Inr True, save (g\<lparr>rg_schedules := dict_set (rg_schedules g) i (s1\<lparr>sc_next_run_at := Some (seconds t)\<rparr>)\<rparr>)))
         else (Inr True, save g1)))"

definition is_due :: "int \<Rightarrow> sched \<Rightarrow> bool" where
  "is_due now s = (sc_enabled s \<and> \<not> exhausted s \<and> (case sc_next_run_at s of None \<Rightarrow> False | Some t \<Rightarrow> t \<le> seconds now))"

definition due :: "int \<Rightarrow> registry \<Rightarrow> sched list" where
  "due now g = sort_key (\<lambda>s. case sc_next_run_at s of None \<Rightarrow> 0 | Some t \<Rightarrow> t)
     (filter (is_due now) (map snd (rg_schedules g)))"

text \<open>The text of the errors \<open>compute_next_run\<close> raises.\<close>

fun sched_error_str :: "sched_error \<Rightarrow> string" where
  "sched_error_str (NeverFires c) = ''cron expression never fires: '' @ repr_str c"
| "sched_error_str (BadTimestamp v) = ''unparseable timestamp: '' @ py_repr v"
| "sched_error_str (HasNoTrigger i) = ''schedule '' @ i @ '' has no trigger''"
| "sched_error_str _ = []"

definition fire :: "(string \<Rightarrow> int \<Rightarrow> int) option \<Rightarrow> int \<Rightarrow> string \<Rightarrow> sched \<Rightarrow> sched" where
  "fire croniter now err s =
     (let s1 = s\<lparr>sc_run_count := sc_run_count s + 1, sc_last_run_at := Some (seconds now), sc_last_error := err\<rparr> in
      if exhausted s1 then s1\<lparr>sc_next_run_at := None, sc_enabled := False\<rparr>
      else (case compute_next_run croniter s1 now of
          Inr t \<Rightarrow> s1\<lparr>sc_next_run_at := Some (seconds t)\<rparr>
        | Inl e \<Rightarrow> s1\<lparr>sc_next_run_at := None, sc_enabled := False, sc_last_error := sched_error_str e\<rparr>))"

text \<open>The schedule object is the registry's own, so the update shows there.\<close>

definition mark_fired :: "(string \<Rightarrow> int \<Rightarrow> int) option \<Rightarrow> int \<Rightarrow> string \<Rightarrow> sched \<Rightarrow> registry \<Rightarrow> registry" where
  "mark_fired croniter now err s g =
     save (g\<lparr>rg_schedules := map (\<lambda>(i, x). if i = sc_id s then (i, fire croniter now err x) else (i, x)) (rg_schedules g)\<rparr>)"

definition run_due :: "(string \<Rightarrow> int \<Rightarrow> int) option \<Rightarrow> int \<Rightarrow> (sched \<Rightarrow> string) \<Rightarrow> registry \<Rightarrow>
    (string \<times> string \<times> rat option) list \<times> registry" where
  "run_due croniter now dispatch g =
     (map (\<lambda>s. (sc_id s, dispatch s, sc_next_run_at (fire croniter now (dispatch s) s))) (due now g),
      fold (\<lambda>s. mark_fired croniter now (dispatch s) s) (due now g) g)"

subsection \<open>Cron\<close>

lemma step_range_bounds:
  assumes "1 \<le> step" "a \<le> b" "x \<in> set (step_range a b step)"
  shows "a \<le> x \<and> x \<le> b"
proof -
  obtain k where k: "x = a + int k * step" "k < nat ((b - a) div step + 1)"
    using assms(3) unfolding step_range_def by fastforce
  have "int k \<le> (b - a) div step" using k(2) by linarith
  then have "int k * step \<le> (b - a) div step * step" using assms(1) by (intro mult_right_mono) auto
  also have "\<dots> \<le> b - a" using div_mult_mod_eq[of "b - a" step] pos_mod_sign[of step "b - a"] assms(1) by linarith
  finally show ?thesis using k(1) assms(1) by simp
qed

lemma step_range_nonempty: "1 \<le> step \<Longrightarrow> a \<le> b \<Longrightarrow> step_range a b step \<noteq> []"
proof -
  assume "1 \<le> step" "a \<le> b"
  then have "0 \<le> (b - a) div step" by (simp add: pos_imp_zdiv_nonneg_iff)
  then have "0 < nat ((b - a) div step + 1)" by linarith
  then show ?thesis by (simp only: step_range_def map_is_Nil_conv upt_eq_Nil_conv) linarith
qed

lemma cron_part_bounds:
  assumes "cron_part low high names raw = Inr xs"
  shows "xs \<noteq> [] \<and> (\<forall>x \<in> set xs. low \<le> x \<and> x \<le> high)"
proof -
  obtain p1 st where pt: "partition_on (CHR ''/'') (lower (strip raw)) = (p1, st)" by fastforce
  define slash where "slash = (CHR ''/'' \<in> set (lower (strip raw)))"
  define step where "step = (if slash then int (digits_val st) else 1)"
  define bounds where "bounds =
     (let part = (if slash \<and> p1 = [] then ''*'' else p1) in
                  (if part = ''*'' then Inr (low, high)
                   else if CHR ''-'' \<in> set (drop 1 part) then
                     (case partition_on (CHR ''-'') part of (a, b) \<Rightarrow>
                       (case cron_number names a of Inl e \<Rightarrow> Inl e
                        | Inr x \<Rightarrow> (case cron_number names b of Inl e \<Rightarrow> Inl e | Inr y \<Rightarrow> Inr (x, y))))
                   else (case cron_number names part of Inl e \<Rightarrow> Inl e | Inr x \<Rightarrow> Inr (x, x))))"
  have step: "1 \<le> step"
    using assms pt by (auto simp: cron_part_def Let_def slash_def step_def split: if_splits)
  have "(case bounds of Inl e \<Rightarrow> Inl e | Inr (a, b) \<Rightarrow>
                if a > b then Inl (InvertedRange (if slash \<and> p1 = [] then ''*'' else p1))
                else if a < low \<or> b > high then Inl (OutOfRange (if slash \<and> p1 = [] then ''*'' else p1))
                else Inr (step_range a b step)) = Inr xs"
    using assms pt unfolding cron_part_def Let_def bounds_def slash_def step_def
    by (simp only: prod.case split: if_splits) simp_all
  then obtain a b where ab: "xs = step_range a b step" "a \<le> b" "low \<le> a" "b \<le> high"
    by (cases bounds; cases "case bounds of Inr p \<Rightarrow> p | Inl e \<Rightarrow> (0, 0)") (auto split: if_splits)
  have "low \<le> x \<and> x \<le> high" if "x \<in> set xs" for x
    using step_range_bounds[OF step ab(2), of x] that ab(1,3,4) by force
  then show ?thesis using step_range_nonempty[OF step ab(2)] ab(1) by simp
qed

text \<open>A cron field that parses lists at least one value, all inside the range of the field.\<close>

theorem cron_field_in_range:
  assumes "parse_cron_field low high names text = Inr xs"
  shows "xs \<noteq> [] \<and> (\<forall>x \<in> set xs. low \<le> x \<and> x \<le> high)"
proof -
  have *: "cron_parts low high names ps = Inr xs \<Longrightarrow> (ps \<noteq> [] \<longrightarrow> xs \<noteq> []) \<and> (\<forall>x \<in> set xs. low \<le> x \<and> x \<le> high)"
    for ps xs
  proof (induction ps arbitrary: xs)
    case (Cons p ps)
    obtain as bs where "cron_part low high names p = Inr as" "cron_parts low high names ps = Inr bs" "xs = as @ bs"
      using Cons.prems by (auto split: sum.splits)
    then show ?case using Cons.IH cron_part_bounds by fastforce
  qed simp
  show ?thesis using *[of "split_on (CHR '','') text" xs] assms by (simp add: parse_cron_field_def)
qed

theorem cron_field_in_range_witness:
  "\<exists>xs. parse_cron_field 0 59 [] ''*/20,5-7'' = Inr xs \<and> xs = [0, 20, 40, 5, 6, 7] \<and> (\<forall>x \<in> set xs. 0 \<le> x \<and> x \<le> 59)"
proof -
  have "(case parse_cron_field 0 59 [] ''*/20,5-7'' of Inr xs \<Rightarrow> xs = [0, 20, 40, 5, 6, 7] | Inl _ \<Rightarrow> False)"
    by code_simp
  then obtain xs where "parse_cron_field 0 59 [] ''*/20,5-7'' = Inr xs" "xs = [0, 20, 40, 5, 6, 7]"
    by (auto split: sum.splits)
  then show ?thesis using cron_field_in_range by blast
qed

lemma cron_search_spec:
  "case cron_search c n k of
     None \<Rightarrow> \<forall>j. k \<le> j \<and> j < k + int n \<longrightarrow> \<not> cron_matches c (of_instant (j * minute_us))
   | Some t \<Rightarrow> \<exists>j. t = j * minute_us \<and> k \<le> j \<and> cron_matches c (of_instant t) \<and>
       (\<forall>i. k \<le> i \<and> i < j \<longrightarrow> \<not> cron_matches c (of_instant (i * minute_us)))"
proof (induction n arbitrary: k)
  case (Suc n)
  show ?case
  proof (cases "cron_matches c (of_instant (k * minute_us))")
    case True
    then show ?thesis by auto
  next
    case False
    have split: "k \<le> i \<longleftrightarrow> i = k \<or> k + 1 \<le> i" for i :: int by auto
    show ?thesis
    proof (cases "cron_search c n (k + 1)")
      case None
      then show ?thesis using Suc[of "k + 1"] False by (auto simp: split[of _])
    next
      case (Some t)
      then obtain j where j: "t = j * minute_us" "k + 1 \<le> j" "cron_matches c (of_instant t)"
        "\<forall>i. k + 1 \<le> i \<and> i < j \<longrightarrow> \<not> cron_matches c (of_instant (i * minute_us))"
        using Suc[of "k + 1"] by auto
      have "\<not> cron_matches c (of_instant (i * minute_us))" if "k \<le> i" "i < j" for i
        using that j(4) False by (cases "i = k") auto
      then show ?thesis using Some False j by auto
    qed
  qed
next
  case (0 k)
  show ?case by auto
qed

lemma next_cron_spec:
  "case next_cron_time None c after of
     Inr t \<Rightarrow> after < t \<and> (\<exists>j. t = j * minute_us) \<and> cron_matches c (of_instant t) \<and>
       (\<nexists>j. after < j * minute_us \<and> j * minute_us < t \<and> cron_matches c (of_instant (j * minute_us)))
   | Inl e \<Rightarrow> (\<nexists>j. after < j * minute_us \<and> j * minute_us < after + int (366 * 4 * 1440) * minute_us \<and>
       cron_matches c (of_instant (j * minute_us)))"
proof -
  define k where "k = after div minute_us + 1"
  have gt: "after < j * minute_us \<longleftrightarrow> k \<le> j" for j
  proof -
    have "after < j * minute_us \<longleftrightarrow> after div minute_us < j"
      using div_mult_mod_eq[of after 60000000] pos_mod_sign[of 60000000 after] pos_mod_bound[of 60000000 after]
      unfolding minute_us_def by linarith
    then show ?thesis unfolding k_def by linarith
  qed
  note sp = cron_search_spec[where c = c and n = search_minutes and k = k]
  show ?thesis
  proof (cases "cron_search c search_minutes k")
    case None
    have "j < k + int search_minutes" if "j * minute_us < after + int (366 * 4 * 1440) * minute_us" for j
    proof -
      have "j * minute_us < (after div minute_us + 1 + int (366 * 4 * 1440)) * minute_us"
        using that by (simp add: minute_us_def)
      then show ?thesis by (simp add: minute_us_def k_def search_minutes_def)
    qed
    then show ?thesis using sp None gt by (auto simp: next_cron_time_def k_def[symmetric])
  next
    case (Some t)
    then obtain j where j: "t = j * minute_us" "k \<le> j" "cron_matches c (of_instant t)"
      "\<forall>i. k \<le> i \<and> i < j \<longrightarrow> \<not> cron_matches c (of_instant (i * minute_us))"
      using sp by auto
    have "0 < minute_us" by (simp add: minute_us_def)
    then have "i * minute_us < j * minute_us \<longleftrightarrow> i < j" for i by simp
    then show ?thesis using Some j gt by (auto simp: next_cron_time_def k_def[symmetric])
  qed
qed



subsection \<open>Firing\<close>

definition wf_sched :: "sched \<Rightarrow> bool" where
  "wf_sched s = (0 \<le> sc_run_count s \<and> (case sc_interval s of None \<Rightarrow> True | Some r \<Rightarrow> 1 \<le> r))"

definition wf_registry :: "registry \<Rightarrow> bool" where
  "wf_registry g = (distinct (map fst (rg_schedules g)) \<and>
     (\<forall>(i, s) \<in> set (rg_schedules g). sc_id s = i \<and> wf_sched s))"

definition croniter_later :: "(string \<Rightarrow> int \<Rightarrow> int) option \<Rightarrow> bool" where
  "croniter_later c = (case c of None \<Rightarrow> True | Some f \<Rightarrow> \<forall>e t. t < f e t)"

lemma seconds_less [simp]: "(seconds a \<le> seconds b) = (a \<le> b)"
  by (simp add: seconds_def divide_le_cancel)

lemma round_even_ge: "of_int n \<le> x \<Longrightarrow> n \<le> round_even x"
proof -
  assume "of_int n \<le> x"
  then have "n \<le> \<lfloor>x\<rfloor>" by (simp add: le_floor_iff)
  then show ?thesis by (auto simp: round_even_def Let_def)
qed

lemma next_cron_later: "croniter_later c \<Longrightarrow> next_cron_time c e now = Inr t \<Longrightarrow> now < t"
  using next_cron_spec[where c = e and after = now] by (cases c) (auto simp: croniter_later_def next_cron_time_def)


lemma compute_next_later:
  assumes "croniter_later c" "wf_sched s" "compute_next_run c s now = Inr t" "sc_at s = None \<or> sc_cron s \<noteq> None \<and> sc_cron s \<noteq> Some [] \<or> sc_interval s \<noteq> None"
  shows "now < t"
proof -
  consider (cron) "sc_cron s \<noteq> None \<and> sc_cron s \<noteq> Some []"
    | (iv) r where "\<not> (sc_cron s \<noteq> None \<and> sc_cron s \<noteq> Some [])" "sc_interval s = Some r"
    | (none) "\<not> (sc_cron s \<noteq> None \<and> sc_cron s \<noteq> Some [])" "sc_interval s = None" "sc_at s = None"
  proof (cases "sc_cron s \<noteq> None \<and> sc_cron s \<noteq> Some []")
    case False
    then have "sc_at s = None \<or> sc_interval s \<noteq> None" using assms(4) by blast
    then show ?thesis using that(2)[OF False] that(3)[OF False] by (cases "sc_interval s") simp_all
  qed (rule that(1))
  then show ?thesis
  proof cases
    case cron
    then show ?thesis using assms(3) next_cron_later[OF assms(1)] by (auto simp: compute_next_run_def)
  next
    case iv
    then have r: "1 \<le> r" using assms(2) by (simp add: wf_sched_def)
    then have "of_int 1000000 \<le> r * 1000000" by simp
    then have "1000000 \<le> round_even (r * 1000000)" by (rule round_even_ge)
    moreover have "t = now + round_even (r * 1000000)"
      using iv assms(3) r by (auto simp: compute_next_run_def split: if_splits)
    ultimately show ?thesis by simp
  next
    case none
    then show ?thesis using assms(3) by (auto simp: compute_next_run_def split: if_splits)
  qed
qed

text \<open>A schedule that has just been fired is not due again at that instant.\<close>

lemma fire_not_due:
  assumes "croniter_later c" "wf_sched s"
  shows "\<not> is_due now (fire c now err s)" "wf_sched (fire c now err s)" "sc_id (fire c now err s) = sc_id s"
proof -
  define s1 where "s1 = s\<lparr>sc_run_count := sc_run_count s + 1, sc_last_run_at := Some (seconds now), sc_last_error := err\<rparr>"
  have wf1: "wf_sched s1" using assms(2) by (auto simp: s1_def wf_sched_def split: option.splits)
  have f: "fire c now err s = (if exhausted s1 then s1\<lparr>sc_next_run_at := None, sc_enabled := False\<rparr>
      else (case compute_next_run c s1 now of
          Inr t \<Rightarrow> s1\<lparr>sc_next_run_at := Some (seconds t)\<rparr>
        | Inl e \<Rightarrow> s1\<lparr>sc_next_run_at := None, sc_enabled := False, sc_last_error := sched_error_str e\<rparr>))"
    unfolding fire_def Let_def s1_def[symmetric] by (rule refl)
  show "sc_id (fire c now err s) = sc_id s" "wf_sched (fire c now err s)"
    using wf1 unfolding f by (auto simp: s1_def wf_sched_def split: sum.splits option.splits)
  show "\<not> is_due now (fire c now err s)"
  proof (cases "exhausted s1")
    case True
    then show ?thesis unfolding f by (simp add: is_due_def)
  next
    case False
    have "0 \<le> sc_run_count s" using assms(2) by (simp add: wf_sched_def)
    then have at: "sc_at s1 = None" using False by (auto simp: exhausted_def s1_def)
    show ?thesis
    proof (cases "compute_next_run c s1 now")
      case (Inl e)
      then show ?thesis using False unfolding f by (simp add: is_due_def)
    next
      case (Inr t)
      then have "now < t" using compute_next_later[OF assms(1) wf1] at by simp
      then show ?thesis using False Inr unfolding f by (simp add: is_due_def)
    qed
  qed
qed

lemma save_schedules [simp]: "rg_schedules (save g) = rg_schedules g"
  by (simp add: save_def)

lemma mark_fired_schedules:
  "rg_schedules (mark_fired c now err s g) =
     map (\<lambda>(i, x). if i = sc_id s then (i, fire c now err x) else (i, x)) (rg_schedules g)"
  by (simp add: mark_fired_def)

lemma mark_fired_member:
  "(i, x) \<in> set (rg_schedules (mark_fired c now err s g)) \<Longrightarrow>
    \<exists>y. (i, y) \<in> set (rg_schedules g) \<and> x = (if i = sc_id s then fire c now err y else y)"
  by (force simp: mark_fired_schedules split: if_splits)

lemma wf_mark_fired:
  assumes "croniter_later c" "wf_registry g"
  shows "wf_registry (mark_fired c now err s g)"
proof -
  have d: "map fst (rg_schedules (mark_fired c now err s g)) = map fst (rg_schedules g)"
    by (simp add: mark_fired_schedules split: prod.splits)
  have "sc_id x = i \<and> wf_sched x" if "(i, x) \<in> set (rg_schedules (mark_fired c now err s g))" for i x
  proof -
    from mark_fired_member[OF that] obtain y where
      y: "(i, y) \<in> set (rg_schedules g)" "x = (if i = sc_id s then fire c now err y else y)" by blast
    have "sc_id y = i" "wf_sched y" using assms(2) y(1) by (auto simp: wf_registry_def)
    then show ?thesis using y(2) fire_not_due(2,3)[OF assms(1)] by simp
  qed
  then show ?thesis using assms(2) d by (auto simp: wf_registry_def)
qed

lemma fold_fired:
  assumes "croniter_later c" "wf_registry g"
    "\<And>i x. (i, x) \<in> set (rg_schedules g) \<Longrightarrow> is_due now x \<Longrightarrow> i \<in> sc_id ` set ds"
  shows "wf_registry (fold (\<lambda>s. mark_fired c now (d s) s) ds g) \<and>
    (\<forall>(i, x) \<in> set (rg_schedules (fold (\<lambda>s. mark_fired c now (d s) s) ds g)). \<not> is_due now x)"
  using assms(2,3)
proof (induction ds arbitrary: g)
  case Nil
  then show ?case by auto
next
  case (Cons s ds)
  have wf: "wf_registry (mark_fired c now (d s) s g)" by (rule wf_mark_fired[OF assms(1) Cons.prems(1)])
  have "i \<in> sc_id ` set ds" if "(i, x) \<in> set (rg_schedules (mark_fired c now (d s) s g))" "is_due now x" for i x
  proof -
    from mark_fired_member[OF that(1)] obtain y where
      y: "(i, y) \<in> set (rg_schedules g)" "x = (if i = sc_id s then fire c now (d s) y else y)" by blast
    have "wf_sched y" using Cons.prems(1) y(1) by (auto simp: wf_registry_def)
    then have "i \<noteq> sc_id s" "x = y" using y(2) that(2) fire_not_due(1)[OF assms(1)] by (auto split: if_splits)
    then show ?thesis using Cons.prems(2)[OF y(1)] that(2) by auto
  qed
  then show ?case using Cons.IH[OF wf] by simp
qed

text \<open>C27: \<open>run_due\<close> fires every due schedule once and leaves none due at the same instant: a harness
  that slept through many slots fires each schedule once on wake-up, whatever its trigger, and the
  next slot of each lies in the future (with \<open>croniter\<close> answering a later instant, as documented).\<close>

theorem run_due_catches_up_once:
  assumes "croniter_later c" "wf_registry g" "run_due c now d g = (fired, g')"
  shows "distinct (map fst fired) \<and>
    set (map fst fired) = {i. \<exists>s. (i, s) \<in> set (rg_schedules g) \<and> is_due now s} \<and>
    due now g' = [] \<and> wf_registry g'"
proof -
  have ids: "map sc_id (map snd xs) = map fst xs" if "\<forall>(i, s) \<in> set xs. sc_id s = i" for xs
    using that by (induction xs) auto
  have w: "\<forall>(i, s) \<in> set (rg_schedules g). sc_id s = i" "distinct (map fst (rg_schedules g))"
    using assms(2) by (auto simp: wf_registry_def)
  have f: "map fst fired = map sc_id (due now g)"
    using assms(3) by (auto simp: run_due_def)
  have "distinct (map sc_id (map snd (rg_schedules g)))" unfolding ids[OF w(1)] by (rule w(2))
  then have "distinct (map sc_id (filter (is_due now) (map snd (rg_schedules g))))" by (rule filter_map_distinct)
  moreover have "mset (map sc_id (due now g)) = mset (map sc_id (filter (is_due now) (map snd (rg_schedules g))))"
    by (simp add: due_def)
  ultimately have 1: "distinct (map fst fired)" unfolding f by (metis mset_eq_imp_distinct_iff)
  have 2: "set (map fst fired) = {i. \<exists>s. (i, s) \<in> set (rg_schedules g) \<and> is_due now s}"
    unfolding f using w(1) by (force simp: due_def)
  have "i \<in> sc_id ` set (due now g)" if "(i, x) \<in> set (rg_schedules g)" "is_due now x" for i x
    using that w(1) by (force simp: due_def)
  from fold_fired[OF assms(1,2) this, where d = d]
  have 3: "wf_registry g' \<and> (\<forall>(i, x) \<in> set (rg_schedules g'). \<not> is_due now x)"
    using assms(3) by (auto simp: run_due_def)
  then have "filter (is_due now) (map snd (rg_schedules g')) = []" by (auto simp: filter_empty_conv)
  then have "due now g' = []" by (simp add: due_def)
  then show ?thesis using 1 2 3 by blast
qed

definition demo_registry :: registry where
  "demo_registry = (case parse_sched None ''aa'' 0 (PDict [(''id'', PStr ''every''), (''interval_seconds'', PInt 60),
        (''task'', PDict [(''kind'', PStr ''shell'')])]) of
      Inl e \<Rightarrow> \<lparr>rg_schedules = [], rg_path = False, rg_file = None\<rparr>
    | Inr s \<Rightarrow> (case add s \<lparr>rg_schedules = [], rg_path = False, rg_file = None\<rparr> of
        Inl e \<Rightarrow> \<lparr>rg_schedules = [], rg_path = False, rg_file = None\<rparr> | Inr g \<Rightarrow> g))"

theorem run_due_catches_up_once_witness:
  "\<exists>fired g'. run_due None 3600000000 (\<lambda>s. []) demo_registry = (fired, g') \<and> map fst fired = [''every''] \<and>
     due 3600000000 g' = []"
proof -
  obtain fired g' where r: "run_due None 3600000000 (\<lambda>s. []) demo_registry = (fired, g')" by fastforce
  have wf: "wf_registry demo_registry" by code_simp
  have "map fst (fst (run_due None 3600000000 (\<lambda>s. []) demo_registry)) = [''every'']" by code_simp
  then show ?thesis
    using run_due_catches_up_once[OF _ wf r] r by (simp add: croniter_later_def)
qed

subsection \<open>Persistence\<close>

lemma sched_dict_roundtrip [simp]: "sched_from_dict now (sched_to_dict s) = Some s"
proof -
  have "get_text (opt_text x) = Some x" "get_rat (opt_rat r) = Some r" "get_num (opt_num n) = Some n" for x r n
    by (auto simp: get_text_def opt_text_def get_rat_def opt_rat_def get_num_def opt_num_def split: option.splits)
  moreover have "get_text (PStr y) = Some (Some y)" "get_rat (PFloat z) = Some (Some z)" "get_num (PInt k) = Some (Some k)" for y z k
    by (simp_all add: get_text_def get_rat_def get_num_def)
  ultimately show ?thesis
    by (simp add: sched_from_dict_def sched_to_dict_def dget_def dget_or_def)
qed

text \<open>A schedule that is enabled and not exhausted has its next slot.\<close>

definition has_slot :: "sched \<Rightarrow> bool" where
  "has_slot s = (sc_enabled s \<and> \<not> exhausted s \<longrightarrow> sc_next_run_at s \<noteq> None)"

lemma load_row_slot: "has_slot s \<Longrightarrow> load_row c now (PDict (sched_to_dict s)) = Some s"
  by (auto simp: load_row_def has_slot_def)

lemma fold_restore:
  assumes "distinct (map fst acc @ map fst xs)" "\<forall>(i, s) \<in> set xs. sc_id s = i \<and> has_slot s"
  shows "fold (\<lambda>s m. dict_set m (sc_id s) s) (List.map_filter (load_row c now) (map (\<lambda>(i, s). PDict (sched_to_dict s)) xs)) acc = acc @ xs"
  using assms
proof (induction xs arbitrary: acc)
  case (Cons x xs)
  obtain i s where x: "x = (i, s)" by fastforce
  have s: "sc_id s = i" "load_row c now (PDict (sched_to_dict s)) = Some s"
    using Cons.prems(2) x load_row_slot by auto
  have "dict_set acc i s = acc @ [x]" using Cons.prems(1) x by (simp add: dict_set_fresh)
  then show ?case using Cons.IH[of "acc @ [x]"] Cons.prems x s by (simp add: List.map_filter_simps)
qed (simp add: List.map_filter_simps)

text \<open>Every operation leaves the slots assigned.\<close>

lemma fire_has_slot: "has_slot (fire c now err s)"
  by (auto simp: fire_def Let_def has_slot_def exhausted_def split: sum.splits)

lemma parse_sched_slot:
  assumes "parse_sched c fresh now pv = Inr s"
  shows "has_slot s"
proof -
  have "\<exists>t. sc_next_run_at s = Some t"
    using assms by (auto simp: parse_sched_def Let_def split: pyval.splits if_splits sum.splits)
  then show ?thesis by (auto simp: has_slot_def)
qed

lemma mark_fired_has_slot:
  "\<forall>(i, s) \<in> set (rg_schedules g). has_slot s \<Longrightarrow> \<forall>(i, s) \<in> set (rg_schedules (mark_fired c now err x g)). has_slot s"
  using fire_has_slot by (fastforce dest: mark_fired_member)

text \<open>A registry written to disk is read back as it was, every schedule with all its fields and in
  order, at any later time and whether or not \<open>croniter\<close> is installed.\<close>

theorem save_load_roundtrip:
  assumes "wf_registry g" "rg_path g" "\<forall>(i, s) \<in> set (rg_schedules g). has_slot s"
  shows "load c now ((save g)\<lparr>rg_schedules := []\<rparr>) = (length (rg_schedules g), save g)"
proof -
  have "fold (\<lambda>s m. dict_set m (sc_id s) s) (List.map_filter (load_row c now) (map (\<lambda>(i, s). PDict (sched_to_dict s)) (rg_schedules g))) []
      = [] @ rg_schedules g"
    by (rule fold_restore) (use assms in \<open>auto simp: wf_registry_def\<close>)
  then show ?thesis using assms(2) by (simp add: load_def save_def Let_def)
qed

theorem save_load_roundtrip_witness:
  "load None 7000 ((save (demo_registry\<lparr>rg_path := True\<rparr>))\<lparr>rg_schedules := []\<rparr>)
     = (1, save (demo_registry\<lparr>rg_path := True\<rparr>))"
proof -
  have 1: "wf_registry (demo_registry\<lparr>rg_path := True\<rparr>)" by code_simp
  have 2: "rg_path (demo_registry\<lparr>rg_path := True\<rparr>)" by simp
  have 3: "\<forall>(i, s) \<in> set (rg_schedules (demo_registry\<lparr>rg_path := True\<rparr>)). has_slot s" by code_simp
  have "length (rg_schedules (demo_registry\<lparr>rg_path := True\<rparr>)) = 1" by code_simp
  then show ?thesis using save_load_roundtrip[OF 1 2 3] by simp
qed

text \<open>\<open>set_enabled\<close> switches a schedule on in memory and then raises, without saving, when the
  computation of its slot fails: here an interval schedule restored from a file with no trigger.\<close>

lemma set_enabled_half_done:
  "\<exists>e g' s. set_enabled None 0 ''x'' True \<lparr>rg_schedules = [(''x'', \<lparr>sc_id = ''x'', sc_task = [], sc_cron = None,
       sc_interval = None, sc_at = None, sc_enabled = False, sc_max_runs = None, sc_run_count = 0, sc_created_at = 0,
       sc_last_run_at = None, sc_next_run_at = None, sc_last_error = []\<rparr>)], rg_path = False, rg_file = None\<rparr> = (Inl e, g') \<and>
     map_of (rg_schedules g') ''x'' = Some s \<and> sc_enabled s"
  by (simp add: set_enabled_def compute_next_run_def Let_def)

end
