(* ===== verification/Executor3.thy ===== *)
theory Executor3
  imports Handshake Memory Templates Scheduler
begin

text \<open>
  \<open>agent/executor_v3.py\<close>: the fourteen agent-native kinds. What the executor keeps (the memory table, the schedules, the
  templates, the children and its chunk counters) is a record beside the state of the host; the parent executor, through
  which every child, node and tool call goes, is a field of the environment, and so is what happens to the whole state
  while a handler waits for children that run on other threads. The text of an exception the components raise is a field
  of the environment where the component's theory keeps its kind only.
\<close>

subsection \<open>Environment and state\<close>

record v3 =
  x_rows :: mtable
  x_schedules :: Scheduler.registry
  x_templates :: Templates.registry
  x_children :: manager
  x_seq :: "(string \<times> nat) list"

text \<open>\<open>xe_bind\<close> is how SQLite compares a value that is no string with a text column. \<open>xe_execute\<close> is the parent's \<open>run\<close>.
  For children on other threads, \<open>xe_answer\<close> is what the parent answers each of them, \<open>xe_done\<close> the order in which
  they end, \<open>xe_ends\<close> when, and \<open>xe_during\<close> what the state has become by the time the handler goes on.\<close>

record 'b v3env =
  xe_env :: "'b env"
  xe_policy :: bool
  xe_confirm :: bool
  xe_config :: "dict option"
  xe_wf_exn :: "wf_error \<Rightarrow> exn"
  xe_sched_exn :: "sched_error \<Rightarrow> exn"
  xe_params_exn :: "pyval \<Rightarrow> exn"
  xe_json_msg :: "string \<Rightarrow> string"
  xe_system_prompt :: string
  xe_bind :: "pyval \<Rightarrow> exn + string"
  xe_croniter :: "(string \<Rightarrow> int \<Rightarrow> int) option"
  xe_importable :: "string \<Rightarrow> bool"
  xe_host_info :: dict
  xe_uptime :: "nat \<Rightarrow> rat"
  xe_parent :: bool
  xe_execute :: "subtask \<Rightarrow> 'b host \<times> v3 \<Rightarrow> (exn + result) \<times> 'b host \<times> v3"
  xe_answer :: "subtask \<Rightarrow> subtask \<Rightarrow> string + result"
  xe_done :: "subtask \<Rightarrow> nat \<Rightarrow> string list \<Rightarrow> string list"
  xe_ends :: "subtask \<Rightarrow> ends"
  xe_during :: "subtask \<Rightarrow> 'b host \<times> v3 \<Rightarrow> 'b host \<times> v3"

type_synonym 'b w3 = "'b host \<times> v3"
type_synonym 'b handler3 = "'b v3env \<Rightarrow> string \<Rightarrow> subtask \<Rightarrow> 'b w3 \<Rightarrow> (exn + result) \<times> 'b w3"

definition V3_KINDS :: "string list" where
  "V3_KINDS = [''await_tasks'', ''handshake'', ''llm_task'', ''memory_delete'', ''memory_get'', ''memory_list'', ''memory_set'', ''run_template'',
     ''schedule_cancel'', ''schedule_list'', ''schedule_task'', ''spawn_task'', ''template_list'', ''workflow'']"

definition UNGATED_KINDS :: "string list" where
  "UNGATED_KINDS = [''memory_get'', ''memory_list'', ''handshake'', ''template_list'', ''schedule_list'', ''await_tasks'']"

definition COMPOSITE_KINDS :: "string list" where
  "COMPOSITE_KINDS = [''workflow'', ''spawn_task'', ''run_template'', ''llm_task'']"

definition DEFAULT_AWAIT_TIMEOUT :: rat where "DEFAULT_AWAIT_TIMEOUT = 300"

definition new_v3 :: "Scheduler.registry \<Rightarrow> Templates.registry \<Rightarrow> v3" where
  "new_v3 scheds temps = \<lparr>x_rows = [], x_schedules = scheds, x_templates = temps, x_children = new_manager 8 4, x_seq = []\<rparr>"

subsection \<open>Chunks and results\<close>

definition next_seq3 :: "string \<Rightarrow> v3 \<Rightarrow> nat \<times> v3" where
  "next_seq3 i x = (let n = (case map_of (x_seq x) i of None \<Rightarrow> 0 | Some n \<Rightarrow> n) in (n, x\<lparr>x_seq := dict_set (x_seq x) i (Suc n)\<rparr>))"

definition emit3 :: "'b v3env \<Rightarrow> subtask \<Rightarrow> dict \<Rightarrow> bool \<Rightarrow> 'b w3 \<Rightarrow> dict \<times> 'b w3" where
  "emit3 X t body fin w = (case w of (s, x) \<Rightarrow> (case next_seq3 (t_id t) x of (n, x1) \<Rightarrow>
     (let b = dict_merge [(''task_id'', PStr (t_id t)), (''seq'', PInt (int n)), (''is_final'', PBool fin)] body in
      (b, (if en_sink (xe_env X) then note_ev (EvChunk b n fin) s else s, x1)))))"

definition done3 :: "subtask \<Rightarrow> string \<Rightarrow> bool \<Rightarrow> string \<Rightarrow> dict \<Rightarrow> result" where
  "done3 t decision ok error body = (mk_result (t_id t) ok decision)\<lparr>r_error := (if error \<noteq> [] then error else if ok then []
     else py_str (dget_or body ''error'' (PStr []))), r_metadata := body\<rparr>"

definition finish :: "subtask \<Rightarrow> string \<Rightarrow> bool \<Rightarrow> string \<Rightarrow> dict \<Rightarrow> 'b w3 \<Rightarrow> (exn + result) \<times> 'b w3" where
  "finish t decision ok error body w = (Inr (done3 t decision ok error body), w)"

definition finish_streamed :: "'b v3env \<Rightarrow> subtask \<Rightarrow> string \<Rightarrow> bool \<Rightarrow> dict \<Rightarrow> 'b w3 \<Rightarrow> (exn + result) \<times> 'b w3" where
  "finish_streamed X t decision ok body w =
     (case emit3 X t (dict_merge [(''ok'', PBool ok), (''decision'', PStr decision)] body) True w of (chunk, w1) \<Rightarrow>
       (Inr ((done3 t decision ok [] body)\<lparr>r_metadata := dict_set body ''final_chunk'' (PDict chunk)\<rparr>), w1))"

text \<open>Going on with the value of a step that may raise.\<close>

definition with_val :: "exn + 'a \<Rightarrow> 'w \<Rightarrow> ('a \<Rightarrow> (exn + result) \<times> 'w) \<Rightarrow> (exn + result) \<times> 'w" where
  "with_val r w f = (case r of Inl e \<Rightarrow> (Inl e, w) | Inr a \<Rightarrow> f a)"

subsection \<open>Children\<close>

definition no_parent :: exn where
  "no_parent = (''SubtaskError'', ''no parent executor is wired up; child tasks cannot run'')"

definition execute_child :: "'b v3env \<Rightarrow> 'b w3 executor" where
  "execute_child X t w = (if xe_parent X then xe_execute X t w else (Inl no_parent, w))"

text \<open>What other threads have done by the time a handler that waits for children goes on.\<close>

definition waited :: "'b v3env \<Rightarrow> subtask \<Rightarrow> 'b w3 \<Rightarrow> 'b w3" where
  "waited X t w = (if xe_parent X then xe_during X t w else w)"

definition subtask_exn :: "manager \<Rightarrow> string \<Rightarrow> subtask_error \<Rightarrow> exn" where
  "subtask_exn m ty e = (''SubtaskError'', subtask_msg ty (max_depth m) (max_active m) e)"

definition dispatch_schedule :: "sched \<Rightarrow> subtask_error + subtask" where
  "dispatch_schedule sc = build_subtask [] (PDict (dict_set (sc_task sc) ''id'' (PStr (sc_id sc @ ''-run-'' @ int_str (sc_run_count sc + 1))))) None 0 0"

definition child_specs :: "dict \<Rightarrow> exn + pyval list" where
  "child_specs payload =
     (let specs = dget payload ''tasks''; single = dget payload ''task'';
          given = (if specs \<noteq> PNone then specs else if single \<noteq> PNone then PList [single] else PList []) in
      case given of PList (v # vs) \<Rightarrow> Inr (v # vs)
      | _ \<Rightarrow> Inl (''SubtaskError'', ''spawn_task needs a '' @ quoted ''tasks'' @ '' list (or a single '' @ quoted ''task'' @ '')''))"

fun build_children :: "manager \<Rightarrow> string \<Rightarrow> int \<Rightarrow> nat \<Rightarrow> pyval list \<Rightarrow> exn + subtask list" where
  "build_children m parent depth i [] = Inr []"
| "build_children m parent depth i (v # vs) = (case build_subtask [] v (Some parent) depth (int i) of
       Inl e \<Rightarrow> Inl (subtask_exn m (type_name v) e)
     | Inr c \<Rightarrow> and_then (build_children m parent depth (Suc i) vs) (\<lambda>cs. Inr (c # cs)))"

definition record_dicts :: "bool \<Rightarrow> manager \<Rightarrow> string list \<Rightarrow> pyval" where
  "record_dicts full m ids = PList (List.map_filter (\<lambda>i. map_option (\<lambda>r. PDict (rec_to_dict full r)) (rec_of m i)) ids)"

definition await_dict :: "manager \<Rightarrow> await_result \<Rightarrow> dict" where
  "await_dict m a = [(''ok'', PBool (aw_ok a)), (''completed'', record_dicts True m (aw_completed a)),
     (''pending'', record_dicts False m (aw_pending a)), (''unknown'', strs (aw_unknown a)), (''timed_out'', PBool (aw_timed_out a))]"

text \<open>Waiting for children: what they have become is read after the wait.\<close>

definition await_children :: "'b v3env \<Rightarrow> subtask \<Rightarrow> string list \<Rightarrow> rat \<Rightarrow> bool \<Rightarrow> 'b w3 \<Rightarrow> (bool \<times> dict) \<times> 'b w3" where
  "await_children X t ids timeout all w = (case w of (s, x) \<Rightarrow>
     (let a = await_tasks (\<lambda>i. rec_of (x_children x) i \<noteq> None) (xe_ends X t) ids timeout all (hs_clock s);
          w1 = (if ids = [] then w else waited X t w) in
      ((aw_ok a, await_dict (x_children (snd w1)) a), w1)))"

definition spawn_task :: "'b handler3" where
  "spawn_task X decision t w = (case w of (s, x) \<Rightarrow>
     with_val (child_specs (t_payload t)) w (\<lambda>specs.
     with_val (build_children (x_children x) (t_id t) (st_depth t + 1) 0 specs) w (\<lambda>children.
       (case spawn_many children (x_children x) of
          (Inl e, m) \<Rightarrow> (Inl (subtask_exn m [] e), (s, x\<lparr>x_children := m\<rparr>))
        | (Inr rs, m) \<Rightarrow>
           (let ids = map t_id children; w1 = (s, x\<lparr>x_children := m\<rparr>);
                spawned = PList (map (\<lambda>r. PDict (rec_to_dict False (m_store m ! r))) rs) in
            if truthy (py_or (dget (t_payload t) ''await'') (dget (t_payload t) ''wait''))
            then with_val (to_float (dget_or (t_payload t) ''timeout_sec'' (PFloat DEFAULT_AWAIT_TIMEOUT))) w1 (\<lambda>timeout.
              (case await_children X t ids timeout True w1 of ((ok, awaited), w2) \<Rightarrow>
                finish t decision ok [] [(''spawned'', spawned), (''awaited'', PDict awaited), (''task_ids'', strs ids)] w2))
            else finish t decision True [] [(''spawned'', spawned), (''task_ids'', strs ids)] w1)))))"

definition await_task :: "'b handler3" where
  "await_task X decision t w =
     (let given = py_or (dget (t_payload t) ''task_ids'') (py_or (dget (t_payload t) ''ids'') (PList [])) in
      case (case given of PStr i \<Rightarrow> PList [PStr i] | v \<Rightarrow> v) of
        PList ids \<Rightarrow> with_val (to_float (dget_or (t_payload t) ''timeout_sec'' (PFloat DEFAULT_AWAIT_TIMEOUT))) w (\<lambda>timeout.
          (case await_children X t (map py_str ids) timeout (truthy (dget_or (t_payload t) ''require_all'' (PBool True))) w of
             ((ok, body), w1) \<Rightarrow> finish t decision ok [] body w1))
      | _ \<Rightarrow> (Inl (''SubtaskError'', ''await_tasks needs a '' @ quoted ''task_ids'' @ '' list''), w))"

subsection \<open>Workflows and templates\<close>

definition summary_dict :: "spec \<Rightarrow> summary \<Rightarrow> dict" where
  "summary_dict sp sm = [(''ok'', PBool (sm_ok sm)), (''cancelled'', PBool (sm_cancelled sm)), (''nodes'', PList (map (PDict \<circ> outcome_to_dict) (sm_nodes sm))),
     (''order'', (case sm_order sm of Inr ids \<Rightarrow> strs ids | Inl _ \<Rightarrow> PNone)),
     (''counts'', PDict [(''total'', PInt (int (length (w_nodes sp)))), (''succeeded'', PInt (int (sm_count NSucceeded sm))),
        (''failed'', PInt (int (sm_count NFailed sm))), (''skipped'', PInt (int (sm_count NSkipped sm))),
        (''cancelled'', PInt (int (sm_count NCancelled sm)))])]"

text \<open>The runner's environment; nothing calls \<open>cancel\<close> on a runner the executor makes.\<close>

definition plan_env :: "'b v3env \<Rightarrow> subtask \<Rightarrow> wenv" where
  "plan_env X t = \<lparr>w_execute = (\<lambda>c. if xe_parent X then xe_answer X t c else Inl (exn_text no_parent)), w_done = xe_done X t,
     w_cancelled = (\<lambda>_. False), w_parent = Some (t_id t)\<rparr>"

text \<open>The outcomes in the order the nodes are reported.\<close>

definition reported :: "wenv \<Rightarrow> spec \<Rightarrow> outcome list" where
  "reported env sp = (case wf_loop (Suc (length (w_nodes sp))) env sp 0 (wf_start sp) of None \<Rightarrow> [] | Some st \<Rightarrow> map snd (ws_outcomes st))"

definition emit_nodes :: "'b v3env \<Rightarrow> subtask \<Rightarrow> outcome list \<Rightarrow> 'b w3 \<Rightarrow> 'b w3" where
  "emit_nodes X t os w = fold (\<lambda>o' w. snd (emit3 X t [(''node'', PDict (outcome_to_dict o'))] False w)) os w"

text \<open>A validated plan always has a summary (\<open>run_workflow_total\<close>), so the first branch is never taken.\<close>

definition run_plan :: "'b v3env \<Rightarrow> string \<Rightarrow> subtask \<Rightarrow> spec \<Rightarrow> dict \<Rightarrow> 'b w3 \<Rightarrow> (exn + result) \<times> 'b w3" where
  "run_plan X decision t sp extra w = (case run_workflow (plan_env X t) sp False of
       None \<Rightarrow> (Inl (''RuntimeError'', []), w)
     | Some sm \<Rightarrow> finish_streamed X t decision (sm_ok sm) (dict_merge (summary_dict sp sm) extra)
         (emit_nodes X t (reported (plan_env X t) sp) (waited X t w)))"

definition workflow_task :: "'b handler3" where
  "workflow_task X decision t w = (case parse_workflow (PDict (t_payload t)) of
       Inl e \<Rightarrow> (Inl (xe_wf_exn X e), w) | Inr sp \<Rightarrow> run_plan X decision t sp [] w)"

definition template_exn :: "'b v3env \<Rightarrow> pyval \<Rightarrow> template_error \<Rightarrow> exn" where
  "template_exn X params e = (case e of TemplateError m \<Rightarrow> (''TemplateError'', m) | ParamsNotObject \<Rightarrow> xe_params_exn X params)"

definition run_template :: "'b handler3" where
  "run_template X decision t w =
     (let name = py_str (py_or (dget (t_payload t) ''template'') (py_or (dget (t_payload t) ''name'') (PStr []))); params = dget (t_payload t) ''params'' in
      case render_named name params (x_templates (snd w)) of
        Inl e \<Rightarrow> (Inl (template_exn X params e), w)
      | Inr rendered \<Rightarrow>
         if truthy (dget (t_payload t) ''dry_run'')
         then finish t decision True [] [(''dry_run'', PBool True), (''workflow'', PDict rendered)] w
         else (case parse_workflow (PDict rendered) of
             Inl e \<Rightarrow> (Inl (xe_wf_exn X e), w)
           | Inr sp \<Rightarrow> run_plan X decision t sp [(''template'', dget rendered ''template''), (''params'', dget rendered ''params'')] w))"

definition template_list :: "'b handler3" where
  "template_list X decision t w = (let ls = list_templates (truthy (dget_or (t_payload t) ''include_nodes'' (PBool False))) (x_templates (snd w)) in
     finish t decision True [] [(''count'', PInt (int (length ls))), (''templates'', PList (map PDict ls))] w)"

subsection \<open>Memory\<close>

definition bind_text :: "'b v3env \<Rightarrow> pyval \<Rightarrow> exn + string option" where
  "bind_text X v = (case v of PNone \<Rightarrow> Inr None | PStr x \<Rightarrow> Inr (Some x) | _ \<Rightarrow> and_then (xe_bind X v) (\<lambda>x. Inr (Some x)))"

definition namespace_of :: "dict \<Rightarrow> pyval" where
  "namespace_of payload = dget_or payload ''namespace'' (PStr ''default'')"

definition set_rows :: "mtable \<Rightarrow> 'b w3 \<Rightarrow> 'b w3" where
  "set_rows t w = (fst w, (snd w)\<lparr>x_rows := t\<rparr>)"

definition memory_set_task :: "'b handler3" where
  "memory_set_task X decision t w = (let payload = t_payload t; now = hs_clock (fst w) in
     if \<not> has_key payload ''value'' then (Inl (memory_error (''memory_set needs a '' @ quoted ''value'')), w)
     else (case memory_set now (dget_or payload ''key'' (PStr [])) (dget payload ''value'') (namespace_of payload) (dget payload ''ttl_seconds'')
             (dget payload ''tags'') (x_rows (snd w)) of
         (Inl e, rows) \<Rightarrow> (Inl e, set_rows rows w)
       | (Inr r, rows) \<Rightarrow> finish t decision True [] [(''record'', PDict (mrecord_dict now True r))] (set_rows rows w)))"

definition memory_get_task :: "'b handler3" where
  "memory_get_task X decision t w = (let payload = t_payload t; key = dget_or payload ''key'' (PStr []); ns = namespace_of payload; now = hs_clock (fst w) in
     with_val (bind_text X ns) w (\<lambda>n. with_val (bind_text X key) w (\<lambda>k.
       (case (case (n, k) of (Some n, Some k) \<Rightarrow> get_record now k n (x_rows (snd w)) | _ \<Rightarrow> (Inr None, x_rows (snd w))) of
          (Inl e, rows) \<Rightarrow> (Inl e, set_rows rows w)
        | (Inr None, rows) \<Rightarrow> finish t decision True [] [(''found'', PBool False), (''key'', key), (''namespace'', ns), (''value'', PNone)] (set_rows rows w)
        | (Inr (Some r), rows) \<Rightarrow> finish t decision True [] ((''found'', PBool True) # mrecord_dict now True r) (set_rows rows w)))))"

text \<open>\<open>namespace=None\<close> lists every namespace; a prefix or a tag is used when it is true.\<close>

definition memory_list_task :: "'b handler3" where
  "memory_list_task X decision t w = (let payload = t_payload t; now = hs_clock (fst w); rows = x_rows (snd w);
      ns = (if namespace_of payload \<in> {PStr ''*'', PStr ''all''} then PNone else namespace_of payload); pre = dget payload ''prefix''; tag = dget payload ''tag'' in
     with_val (if truthy pre then need_attr ''replace'' pre else Inr []) w (\<lambda>p.
     with_val (bind_text X ns) w (\<lambda>n.
     with_val (memory_list now n p (case tag of PStr x \<Rightarrow> x | _ \<Rightarrow> []) None False rows) w (\<lambda>rs.
     with_val (if dget payload ''limit'' = PNone then Inr None else and_then (to_int (dget payload ''limit'')) (\<lambda>k. Inr (Some k))) w (\<lambda>bound.
       (let tagged = (if truthy tag \<and> \<not> is_pstr tag then [] else rs);
            shown = (case bound of None \<Rightarrow> tagged | Some k \<Rightarrow> take (nat k) tagged) in
        finish t decision True [] [(''count'', PInt (int (length shown))), (''namespaces'', strs (namespaces rows)),
          (''records'', PList (map (PDict \<circ> mrecord_dict now (truthy (dget_or payload ''include_values'' (PBool True)))) shown))] w))))))"

definition memory_delete_task :: "'b handler3" where
  "memory_delete_task X decision t w = (let payload = t_payload t; key = dget_or payload ''key'' (PStr []); ns = namespace_of payload; rows = x_rows (snd w) in
     with_val (if truthy (dget payload ''clear_namespace'') \<or> truthy key then bind_text X ns else Inr None) w (\<lambda>n.
       if truthy (dget payload ''clear_namespace'')
       then (case memory_clear n rows of (k, rows') \<Rightarrow>
         finish t decision True [] [(''cleared'', PInt (int k)), (''namespace'', ns)] (set_rows rows' w))
       else if \<not> truthy key then (Inl (memory_error (''memory_delete needs a '' @ quoted ''key'' @ '' (or clear_namespace: true)'')), w)
       else with_val (bind_text X key) w (\<lambda>k.
         (case (case (n, k) of (Some n, Some k) \<Rightarrow> memory_delete k n rows | _ \<Rightarrow> (False, rows)) of (ok, rows') \<Rightarrow>
           finish t decision True [] [(''deleted'', PBool ok), (''key'', key), (''namespace'', ns)] (set_rows rows' w)))))"

subsection \<open>Schedules\<close>

definition instant_of :: "'b host \<Rightarrow> int" where
  "instant_of s = \<lfloor>hs_clock s * 1000000\<rfloor>"

definition set_schedules :: "Scheduler.registry \<Rightarrow> 'b w3 \<Rightarrow> 'b w3" where
  "set_schedules g w = (fst w, (snd w)\<lparr>x_schedules := g\<rparr>)"

definition schedule_task :: "'b handler3" where
  "schedule_task X decision t w = (case parse_sched (xe_croniter X) (en_uuid (xe_env X) (hs_calls (fst w))) (instant_of (fst w)) (PDict (t_payload t)) of
       Inl e \<Rightarrow> (Inl (xe_sched_exn X e), w)
     | Inr sc \<Rightarrow> (case add sc (x_schedules (snd w)) of
          Inl e \<Rightarrow> (Inl (xe_sched_exn X e), w)
        | Inr g \<Rightarrow> finish t decision True [] [(''schedule'', PDict (sched_to_dict sc))] (set_schedules g w)))"

definition schedule_list :: "'b handler3" where
  "schedule_list X decision t w = (let ls = list_schedules (truthy (dget_or (t_payload t) ''include_exhausted'' (PBool True))) (x_schedules (snd w)) in
     finish t decision True [] [(''count'', PInt (int (length ls))), (''schedules'', PList (map (PDict \<circ> sched_to_dict) ls))] w)"

definition schedule_cancel :: "'b handler3" where
  "schedule_cancel X decision t w = (let given = py_or (dget (t_payload t) ''schedule_id'') (py_or (dget (t_payload t) ''id'') (PStr [])) in
     if \<not> truthy given then (Inl (''ScheduleError'', ''schedule_cancel needs a '' @ quoted ''schedule_id''), w)
     else (case remove (py_str given) (x_schedules (snd w)) of (removed, g) \<Rightarrow>
       finish t decision removed (if removed then [] else ''no such schedule: '' @ py_str given)
         [(''removed'', PBool removed), (''schedule_id'', given)] (set_schedules g w)))"

subsection \<open>The model loop and the handshake\<close>

definition llm_task :: "'b handler3" where
  "llm_task X decision t w = (let payload = t_payload t in
     with_val (build_provider (xe_json_msg X) payload) w (\<lambda>p.
     with_val (to_int (dget_or payload ''max_iterations'' (PInt 10))) w (\<lambda>n.
       (case llm_run mock_complete (execute_child X) (Some (t_id t)) DEFAULT_TOOL_KINDS (py_str (dget_or payload ''prompt'' (PStr [])))
              (py_str (py_or (dget payload ''system_prompt'') (PStr (xe_system_prompt X)))) n (dget payload ''tools'') p w of
          Inl e \<Rightarrow> (Inl e, w)
        | Inr (r, p', w') \<Rightarrow> finish t decision (lr_ok r) (if lr_stop r = ''final'' then [] else ''llm loop stopped: '' @ lr_stop r)
            (dict_set (llm_result_dict r) ''provider'' (PStr (provider_name p))) w'))))"

definition limits :: "'b w3 \<Rightarrow> dict" where
  "limits w = [(''max_workflow_nodes'', PInt (int MAX_NODES)), (''max_memory_value_bytes'', PInt (int MAX_VALUE_BYTES)),
     (''max_subtask_depth'', PInt (max_depth (x_children (snd w)))), (''max_active_subtasks'', PInt (max_active (x_children (snd w)))),
     (''templates'', strs (template_names (x_templates (snd w))))]"

definition handshake :: "'b handler3" where
  "handshake X decision t w =
     with_val (build_report (xe_importable X) (xe_host_info X) (xe_uptime X (hs_calls (fst w))) (xe_config X) V2_KINDS V3_KINDS (limits w)) w (\<lambda>r.
     with_val (negotiate r (t_payload t)) w (\<lambda>(ok, body). finish t decision ok [] body w))"

subsection \<open>The policy and the dispatch\<close>

definition policy_probe :: "subtask \<Rightarrow> exn + string" where
  "policy_probe t = (let payload = t_payload t in
     if starts_with ''memory_'' (t_kind t) then Inr (strip (t_kind t @ '' '' @ py_str (dget_or payload ''key'' (PStr []))))
     else if t_kind t = ''schedule_task'' then (case py_or (dget payload ''task'') (PDict []) of
         PDict inner \<Rightarrow> Inr (strip (''schedule '' @ py_str (dget_or inner ''kind'' (PStr []))))
       | v \<Rightarrow> Inl (''AttributeError'', quoted (type_name v) @ '' object has no attribute '' @ quoted ''get''))
     else if t_kind t = ''schedule_cancel'' then Inr (strip (''schedule_cancel '' @ py_str (dget_or payload ''schedule_id'' (PStr []))))
     else Inr (t_kind t))"

definition gate3 :: "'b v3env \<Rightarrow> subtask \<Rightarrow> 'b host \<Rightarrow> (exn + result option) \<times> 'b host" where
  "gate3 X t s =
     (if t_kind t \<in> set UNGATED_KINDS \<or> \<not> xe_policy X \<or> t_kind t \<in> set COMPOSITE_KINDS then (Inr None, s)
      else (case policy_probe t of Inl e \<Rightarrow> (Inl e, s) | Inr command \<Rightarrow>
        (case judge (xe_env X) (base t) command command [] s of ((d, reason), s1) \<Rightarrow>
          if d = BLOCK then (Inr (Some (fail (base t) ''block'' reason)), s1)
          else if d = CONFIRM \<and> xe_confirm X then (case park (base t) reason s1 of (r, s2) \<Rightarrow> (Inr (Some r), s2))
          else (Inr None, s1))))"

definition handlers3 :: "(string \<times> 'b handler3) list" where
  "handlers3 = [(''spawn_task'', spawn_task), (''await_tasks'', await_task), (''workflow'', workflow_task), (''memory_set'', memory_set_task),
     (''memory_get'', memory_get_task), (''memory_list'', memory_list_task), (''memory_delete'', memory_delete_task), (''schedule_task'', schedule_task),
     (''schedule_list'', schedule_list), (''schedule_cancel'', schedule_cancel), (''llm_task'', llm_task), (''handshake'', handshake),
     (''run_template'', run_template), (''template_list'', template_list)]"

definition BAD_REQUESTS :: "string list" where
  "BAD_REQUESTS = [''WorkflowError'', ''TemplateError'', ''ScheduleError'', ''SubtaskError'', ''LlmTaskError'', ''MemoryError'']"

definition invoke :: "subtask \<Rightarrow> (exn + result) \<times> 'b w3 \<Rightarrow> result \<times> 'b w3" where
  "invoke t rw = (case rw of (Inr r, w) \<Rightarrow> (r, w)
     | (Inl e, w) \<Rightarrow> (if fst e \<in> set BAD_REQUESTS then fail (base t) ''bad_request'' (snd e) else fail (base t) ''error'' (exn_text e), w))"

definition unknown3 :: "subtask \<Rightarrow> result" where
  "unknown3 t = fail (base t) ''unknown_kind'' (''unknown kind: '' @ t_kind t)"

definition run3 :: "'b v3env \<Rightarrow> subtask \<Rightarrow> 'b w3 \<Rightarrow> (exn + result) \<times> 'b w3" where
  "run3 X t w = (case map_of handlers3 (t_kind t) of None \<Rightarrow> (Inr (unknown3 t), w)
     | Some h \<Rightarrow> (case gate3 X t (fst w) of
          (Inl e, s1) \<Rightarrow> (Inl e, (s1, snd w))
        | (Inr (Some early), s1) \<Rightarrow> (Inr early, (s1, snd w))
        | (Inr None, s1) \<Rightarrow> total (invoke t (h X ''auto'' t (s1, snd w)))))"

definition resume3 :: "'b v3env \<Rightarrow> subtask \<Rightarrow> bool \<Rightarrow> 'b w3 \<Rightarrow> result \<times> 'b w3" where
  "resume3 X t approved w =
     (if \<not> approved then (fail (base t) ''denied'' ''confirmation denied by user'', w)
      else (case map_of handlers3 (t_kind t) of None \<Rightarrow> (unknown3 t, w)
        | Some h \<Rightarrow> invoke t (h X ''approved'' t w)))"

lemma handlers3_complete: "set (map fst handlers3) = set V3_KINDS"
  by (auto simp: handlers3_def V3_KINDS_def)

subsection \<open>What every handler keeps\<close>

lemma with_val_simps [simp]: "with_val (Inl e) w f = (Inl e, w)" "with_val (Inr a) w f = f a"
  by (simp_all add: with_val_def)

lemma finish_simps [simp]: "fst (finish t d ok e body w) = Inr (done3 t d ok e body)" "snd (finish t d ok e body w) = w"
  by (simp_all add: finish_def)

lemma set_rows_simps [simp]: "fst (set_rows r w) = fst w" "x_rows (snd (set_rows r w)) = r"
  "x_schedules (snd (set_rows r w)) = x_schedules (snd w)" "x_children (snd (set_rows r w)) = x_children (snd w)"
  by (simp_all add: set_rows_def)

lemma set_schedules_simps [simp]: "fst (set_schedules g w) = fst w" "x_rows (snd (set_schedules g w)) = x_rows (snd w)"
  "x_schedules (snd (set_schedules g w)) = g" "x_children (snd (set_schedules g w)) = x_children (snd w)"
  by (simp_all add: set_schedules_def)

definition set_children :: "manager \<Rightarrow> 'b w3 \<Rightarrow> 'b w3" where
  "set_children m w = (fst w, (snd w)\<lparr>x_children := m\<rparr>)"

lemma set_children_simps [simp]: "fst (set_children m w) = fst w" "x_rows (snd (set_children m w)) = x_rows (snd w)"
  "x_schedules (snd (set_children m w)) = x_schedules (snd w)" "x_children (snd (set_children m w)) = m"
  by (simp_all add: set_children_def)

text \<open>The steps the executor takes itself.\<close>

definition schedule_step :: "Scheduler.registry \<Rightarrow> Scheduler.registry \<Rightarrow> bool" where
  "schedule_step g g' = ((\<exists>c fresh now p sc. parse_sched c fresh now p = Inr sc \<and> add sc g = Inr g') \<or> (\<exists>i. g' = snd (remove i g)))"

locale v3_frame =
  fixes X :: "'b v3env" and Q :: "'b w3 \<Rightarrow> 'b w3 \<Rightarrow> bool"
  assumes refl: "Q w w" and trans: "Q u v \<Longrightarrow> Q v w \<Longrightarrow> Q u w"
    and during: "Q w (xe_during X t w)" and execute: "Q w (snd (xe_execute X t w))"
    and rows: "Q w (set_rows (mem_do op (x_rows (snd w))) w)"
    and schedules: "schedule_step (x_schedules (snd w)) g \<Longrightarrow> Q w (set_schedules g w)"
    and children: "Q w (set_children (snd (spawn_many cs (x_children (snd w)))) w)"
    and emit: "Q w (snd (emit3 X t body fin w))"
    and gated: "Q w (snd (gate3 X t (fst w)), snd w)"
begin

lemma valued: "(\<And>a. r = Inr a \<Longrightarrow> Q w (snd (f a))) \<Longrightarrow> Q w (snd (with_val r w f))"
  by (cases r) (simp_all add: refl)

lemma waited: "Q w (waited X t w)"
  by (simp add: waited_def refl during)

lemma child: "Q w (snd (execute_child X t w))"
  by (simp add: execute_child_def refl execute)

lemma nodes: "Q w (emit_nodes X t os w)"
  unfolding emit_nodes_def
proof (induction os arbitrary: w)
  case (Cons o' os)
  show ?case using trans[OF emit Cons.IH] by simp
qed (simp add: refl)

lemma streamed: "Q w (snd (finish_streamed X t d ok body w))"
  using emit by (simp add: finish_streamed_def split: prod.split) (metis snd_conv)

lemma plan: "Q w (snd (run_plan X d t sp extra w))"
proof (cases "run_workflow (plan_env X t) sp False")
  case (Some sm)
  then show ?thesis unfolding run_plan_def by (simp add: trans[OF waited trans[OF nodes streamed]])
qed (simp add: run_plan_def refl)

lemma awaiting: "Q w (snd (await_children X t ids timeout all w))"
  by (simp add: await_children_def Let_def refl waited split: prod.split)

lemma tool: "Q w (snd (run_tool (execute_child X) parent offered i c w))"
proof (cases "tool_task parent i c")
  case (Inr u)
  then show ?thesis using child[of w u] by (cases "execute_child X u w") (auto simp: run_tool_def refl split: sum.split)
qed (simp add: run_tool_def refl)

lemma tools: "Q w (snd (run_tools (execute_child X) parent offered i cs l w))"
proof (induction cs arbitrary: l w)
  case (Cons c cs)
  then show ?case using tool[of w parent offered i c] by (cases "run_tool (execute_child X) parent offered i c w") (auto intro: trans)
qed (simp add: refl)

lemma model_loop: "Q w (snd (snd (llm_loop turn (execute_child X) parent offered n i l p w)))"
proof (induction n arbitrary: i l p w)
  case (Suc n)
  obtain rr p' where t: "turn (lm_messages l) offered p = (rr, p')" by fastforce
  show ?case
  proof (cases rr)
    case (Inr r)
    define l1 where "l1 = l\<lparr>lm_messages := lm_messages l @ [assistant r]\<rparr>"
    obtain l2 w' where rt: "run_tools (execute_child X) parent offered (Suc i) (rs_calls r) l1 w = (l2, w')" by (meson surj_pair)
    have "Q w w'" using tools[of w parent offered "Suc i" "rs_calls r" l1] rt by simp
    then show ?thesis using t Inr rt Suc.IH trans
      by (auto simp: l1_def[symmetric] refl split: option.split)
  qed (simp add: t refl)
qed (simp add: refl)

lemma model_run:
  assumes "llm_run turn (execute_child X) parent allowed prompt sys n tools p w = Inr (r, p', w')"
  shows "Q w w'"
proof -
  obtain offered l where "llm_loop turn (execute_child X) parent offered (nat (max 1 (min n MAX_ALLOWED_ITERATIONS))) 0 l p w = (r, p', w')"
    using assms by (rule llm_runE)
  then show ?thesis using model_loop[of w turn parent offered "nat (max 1 (min n MAX_ALLOWED_ITERATIONS))" 0 l p] by simp
qed

lemma spawning: "Q w (snd (spawn_task X d t w))"
proof -
  obtain s x where w: "w = (s, x)" by (cases w)
  show ?thesis
  proof (cases "child_specs (t_payload t)")
    case (Inr specs)
    show ?thesis
    proof (cases "build_children (x_children x) (t_id t) (st_depth t + 1) 0 specs")
      case (Inr cs)
      obtain rr m where m: "spawn_many cs (x_children x) = (rr, m)" by (cases "spawn_many cs (x_children x)")
      let ?w = "(s, x\<lparr>x_children := m\<rparr>)"
      have c: "Q w ?w" using children[of w cs] m by (simp add: w set_children_def)
      have f: "Q w w2" if "await_children X t ids timeout al ?w = (r, w2)" for ids timeout al r w2
        using trans[OF c awaiting[of ?w t ids timeout al]] that by simp
      show ?thesis
        unfolding w spawn_task_def using \<open>child_specs _ = _\<close> Inr m c[unfolded w] f[unfolded w]
        by (cases rr; cases "to_float (dget_or (t_payload t) ''timeout_sec'' (PFloat DEFAULT_AWAIT_TIMEOUT))")
          (auto simp: Let_def split: prod.split)
    qed (use Inr in \<open>simp add: w spawn_task_def refl\<close>)
  qed (simp add: w spawn_task_def refl)
qed

lemma awaits: "Q w (snd (await_task X d t w))"
proof -
  have f: "Q w w2" if "await_children X t ids timeout al w = (r, w2)" for ids timeout al r w2
    using awaiting[of w t ids timeout al] that by simp
  have g: "Q w (snd (with_val (to_float v) w (\<lambda>timeout. case await_children X t ids timeout al w of
      ((ok, body), w1) \<Rightarrow> finish t d ok [] body w1)))" for v ids al
    by (cases "to_float v") (auto simp: refl f split: prod.split)
  show ?thesis unfolding await_task_def Let_def by (auto simp: refl g split: pyval.split)
qed

lemma plans: "Q w (snd (workflow_task X d t w))" "Q w (snd (run_template X d t w))"
  by (auto simp: workflow_task_def run_template_def Let_def refl plan split: sum.split)

lemma rows_kept: "Q w (set_rows (x_rows (snd w)) w)"
  by (cases w) (simp add: set_rows_def refl)

lemma memory_writes: "Q w (snd (memory_set_task X d t w))" "Q w (snd (memory_delete_task X d t w))"
proof -
  show "Q w (snd (memory_set_task X d t w))"
  proof (cases "memory_set (hs_clock (fst w)) (dget_or (t_payload t) ''key'' (PStr [])) (dget (t_payload t) ''value'')
      (namespace_of (t_payload t)) (dget (t_payload t) ''ttl_seconds'') (dget (t_payload t) ''tags'') (x_rows (snd w))")
    case (Pair r rs)
    then have "Q w (set_rows rs w)"
      using rows[of w "(hs_clock (fst w), MSet (dget_or (t_payload t) ''key'' (PStr [])) (dget (t_payload t) ''value'')
        (namespace_of (t_payload t)) (dget (t_payload t) ''ttl_seconds'') (dget (t_payload t) ''tags''))"] by simp
    then show ?thesis using Pair by (cases r) (simp_all add: memory_set_task_def Let_def refl)
  qed
  have c: "Q w (set_rows (snd (memory_clear n (x_rows (snd w)))) w)" for n
    using rows[of w "(0, MClear n)"] by simp
  have e: "Q w (set_rows (snd (memory_delete k n (x_rows (snd w)))) w)" for k n
    using rows[of w "(0, MDelete k n)"] by simp
  show "Q w (snd (memory_delete_task X d t w))"
    by (cases "bind_text X (namespace_of (t_payload t))"; cases "bind_text X (dget_or (t_payload t) ''key'' (PStr []))")
      (simp_all add: memory_delete_task_def Let_def refl rows_kept c e case_prod_beta split: option.split)
qed

lemma memory_reads: "Q w (snd (memory_get_task X d t w))" "Q w (snd (memory_list_task X d t w))"
proof -
  have g: "Q w (set_rows (snd (get_record now k n (x_rows (snd w)))) w)" for now k n
    using rows[of w "(now, MGet k n)"] by simp
  have m: "Q w (snd (case r of (Inl e, rows) \<Rightarrow> (Inl e, set_rows rows w) | (Inr None, rows) \<Rightarrow> finish t d True [] b (set_rows rows w)
      | (Inr (Some x), rows) \<Rightarrow> finish t d True [] (f x) (set_rows rows w)))" if "Q w (set_rows (snd r) w)" for r :: "(exn + mrecord option) \<times> mtable" and b f
    using that by (cases r) (auto split: sum.split option.split)
  show "Q w (snd (memory_get_task X d t w))"
    unfolding memory_get_task_def Let_def
    by (rule valued, rule valued, rule m) (simp add: rows_kept g split: option.split)
  show "Q w (snd (memory_list_task X d t w))"
    unfolding memory_list_task_def Let_def by (rule valued)+ (simp add: refl)
qed

lemma schedule_writes: "Q w (snd (schedule_task X d t w))" "Q w (snd (schedule_cancel X d t w))" "Q w (snd (schedule_list X d t w))"
proof -
  have a: "Q w (set_schedules g w)" if "parse_sched c fresh now p = Inr sc" "add sc (x_schedules (snd w)) = Inr g" for c fresh now p sc g
    by (rule schedules) (use that in \<open>auto simp: schedule_step_def\<close>)
  have r: "Q w (set_schedules (snd (remove i (x_schedules (snd w)))) w)" for i
    by (rule schedules) (auto simp: schedule_step_def)
  show "Q w (snd (schedule_task X d t w))" by (auto simp: schedule_task_def refl a split: sum.split)
  show "Q w (snd (schedule_cancel X d t w))" by (simp add: schedule_cancel_def Let_def refl r case_prod_beta)
  show "Q w (snd (schedule_list X d t w))" by (simp add: schedule_list_def Let_def refl)
qed

lemma others: "Q w (snd (llm_task X d t w))" "Q w (snd (handshake X d t w))" "Q w (snd (template_list X d t w))"
proof -
  show "Q w (snd (llm_task X d t w))"
    by (auto simp: llm_task_def Let_def with_val_def refl dest: model_run split: sum.split)
  show "Q w (snd (handshake X d t w))"
    by (auto simp: handshake_def Let_def with_val_def refl split: sum.split)
  show "Q w (snd (template_list X d t w))" by (simp add: template_list_def Let_def refl)
qed

lemmas keeps = spawning awaits plans memory_writes memory_reads schedule_writes others

lemma handler_keeps: "(k, h) \<in> set handlers3 \<Longrightarrow> Q w (snd (h X d t w))"
  unfolding handlers3_def by (auto intro: keeps)

lemma invoked: "snd (invoke t rw) = snd rw"
  by (auto simp: invoke_def split: prod.split sum.split)

lemma run_keeps: "Q w (snd (run3 X t w))"
proof (cases "map_of (handlers3 :: (string \<times> 'b handler3) list) (t_kind t)")
  case (Some h)
  obtain e s1 where g: "gate3 X t (fst w) = (e, s1)" by (cases "gate3 X t (fst w)")
  have "Q w (s1, snd w)" using gated[of w t] g by simp
  then show ?thesis using g Some trans handler_keeps[OF map_of_SomeD[OF Some]]
    by (auto simp: run3_def invoked refl split: sum.split option.split)
qed (simp add: run3_def refl)

lemma resume_keeps: "Q w (snd (resume3 X t ok w))"
proof (cases "map_of (handlers3 :: (string \<times> 'b handler3) list) (t_kind t)")
  case (Some h)
  then show ?thesis using handler_keeps[OF map_of_SomeD[OF Some]] by (simp add: resume3_def invoked refl)
qed (simp add: resume3_def refl)

end

subsection \<open>Nothing happens but through the children\<close>

text \<open>What a child can do to the outside: whatever the parent executor does with it.\<close>

definition child_effect :: "'b v3env \<Rightarrow> event list \<times> tree \<Rightarrow> event list \<times> tree \<Rightarrow> bool" where
  "child_effect X p q = (\<exists>t w. p = outside (fst w) \<and> (q = outside (fst (xe_during X t w)) \<or> q = outside (fst (snd (xe_execute X t w)))))"

lemma emit3_outside: "outside (fst (snd (emit3 X t body fin w))) = outside (fst w)"
  by (simp add: emit3_def Let_def split: prod.split)

lemma gate3_outside: "outside (snd (gate3 X t s)) = outside s"
  by (auto simp: gate3_def judge_def park_def Let_def split: sum.split prod.split)

interpretation doing: v3_frame X "\<lambda>w w'. (child_effect X)\<^sup>*\<^sup>* (outside (fst w)) (outside (fst w'))" for X
proof
  fix t and w :: "'a w3"
  have "child_effect X (outside (fst w)) (outside (fst (xe_during X t w)))"
    "child_effect X (outside (fst w)) (outside (fst (snd (xe_execute X t w))))"
    unfolding child_effect_def by blast+
  then show "(child_effect X)\<^sup>*\<^sup>* (outside (fst w)) (outside (fst (xe_during X t w)))"
    "(child_effect X)\<^sup>*\<^sup>* (outside (fst w)) (outside (fst (snd (xe_execute X t w))))"
    by (auto intro: r_into_rtranclp)
qed (simp_all add: emit3_outside gate3_outside)


subsection \<open>The state of the executor\<close>

definition inv3 :: "v3 \<Rightarrow> bool" where
  "inv3 x = (sub_inv (x_children x) \<and> keyed (x_rows x) \<and> wf_registry (x_schedules x) \<and> length (rg_schedules (x_schedules x)) \<le> MAX_SCHEDULES)"

lemma spawn_many_inv: "sub_inv m \<Longrightarrow> sub_inv (snd (spawn_many cs m))"
proof (induction cs m rule: spawn_many.induct)
  case (2 t ts m)
  show ?case
  proof (cases "spawn t m")
    case (Inr y)
    obtain r m' where y: "y = (r, m')" by (cases y)
    then have "sub_inv m'" using sub_inv_step[OF s_spawn] Inr 2(2) by blast
    then have "sub_inv (snd (spawn_many ts m'))" using 2(1)[OF Inr y[symmetric]] y by auto
    then show ?thesis using Inr y by (auto split: prod.split sum.split)
  qed (use 2 in simp)
qed simp

lemma mem_do_keyed: "keyed t \<Longrightarrow> keyed (mem_do op t)"
proof -
  assume k: "keyed t"
  show ?thesis
  proof (cases op)
    case (Pair now x)
    then show ?thesis using k rows.valid_put rows.valid_del keyed_filter
      by (cases x) (auto simp: memory_set_def memory_delete_def memory_clear_def purge_expired_def get_record_def Let_def
          split: sum.split option.split, auto simp: keyed_def)
  qed
qed

lemma check_interval_bound: "check_interval v = Inr i \<Longrightarrow> (case i of None \<Rightarrow> True | Some r \<Rightarrow> 1 \<le> r)"
  by (auto simp: check_interval_def split: if_splits option.splits)

lemma parse_sched_wf:
  assumes "parse_sched c fresh now p = Inr sc"
  shows "wf_sched sc"
proof -
  obtain iv where "check_interval iv = Inr (sc_interval sc)" "sc_run_count sc = 0"
    using assms by (auto simp: parse_sched_def Let_def split: pyval.splits if_splits sum.splits)
  then show ?thesis using check_interval_bound by (auto simp: wf_sched_def)
qed

lemma schedule_step_wf:
  assumes "schedule_step g g'" "wf_registry g" "length (rg_schedules g) \<le> MAX_SCHEDULES"
  shows "wf_registry g' \<and> length (rg_schedules g') \<le> MAX_SCHEDULES"
proof -
  consider c fresh now p sc where "parse_sched c fresh now p = Inr sc" "add sc g = Inr g'" | i where "g' = snd (remove i g)"
    using assms(1) by (auto simp: schedule_step_def)
  then show ?thesis
  proof cases
    case 1
    let ?d = "dict_set (rg_schedules g) (sc_id sc) sc"
    have g': "rg_schedules g' = ?d" and room: "map_of (rg_schedules g) (sc_id sc) \<noteq> None \<or> length (rg_schedules g) < MAX_SCHEDULES"
      using 1(2) by (auto simp: add_def save_def split: if_splits)
    have "length ?d \<le> MAX_SCHEDULES"
    proof (cases "map_of (rg_schedules g) (sc_id sc)")
      case None
      then have "?d = rg_schedules g @ [(sc_id sc, sc)]" by (simp add: dict_set_fresh map_of_eq_None_iff)
      then show ?thesis using room None by simp
    next
      case (Some x)
      then have "sc_id sc \<in> fst ` set (rg_schedules g)" by (metis domI dom_map_of_conv_image_fst)
      then have "map fst ?d = map fst (rg_schedules g)" by (simp add: update_keys)
      then show ?thesis using assms(3) by (metis length_map)
    qed
    moreover have "sc_id x = i \<and> wf_sched x" if "(i, x) \<in> set ?d" for i x
    proof -
      have "(i, x) \<in> set (rg_schedules g) \<or> i = sc_id sc \<and> x = sc"
        using that update_new_or_old[of "rg_schedules g" "sc_id sc" sc] assms(2) by (auto simp: wf_registry_def)
      then show ?thesis using assms(2) parse_sched_wf[OF 1(1)] by (auto simp: wf_registry_def)
    qed
    moreover have "distinct (map fst ?d)" using assms(2) by (simp add: wf_registry_def distinct_update)
    ultimately show ?thesis by (auto simp: wf_registry_def g')
  next
    case 2
    then have g': "rg_schedules g' = rg_schedules g \<or> rg_schedules g' = dict_del (rg_schedules g) i"
      by (auto simp: remove_def save_def)
    have "distinct (map fst (dict_del (rg_schedules g) i))" using assms(2) by (simp add: wf_registry_def distinct_delete)
    moreover have "length (dict_del (rg_schedules g) i) \<le> length (rg_schedules g)" by (simp add: length_delete_le)
    moreover have "set (dict_del (rg_schedules g) i) \<subseteq> set (rg_schedules g)" by (auto simp: AList.delete_eq)
    ultimately show ?thesis using assms(2,3) g' by (auto simp: wf_registry_def)
  qed
qed

text \<open>What the children must do for the invariant to hold: keep it themselves.\<close>

definition polite :: "'b v3env \<Rightarrow> bool" where
  "polite X = (\<forall>t w. inv3 (snd w) \<longrightarrow> inv3 (snd (xe_during X t w)) \<and> inv3 (snd (snd (xe_execute X t w))))"

lemma polite_children:
  "polite X \<Longrightarrow> inv3 (snd w) \<Longrightarrow> inv3 (snd (xe_during X t w))"
  "polite X \<Longrightarrow> inv3 (snd w) \<Longrightarrow> inv3 (snd (snd (xe_execute X t w)))"
  unfolding polite_def by blast+

lemma emit3_inv: "inv3 (snd (snd (emit3 X t body fin w))) = inv3 (snd w)"
  by (simp add: emit3_def next_seq3_def inv3_def Let_def split: prod.split)

interpretation inv: v3_frame X "\<lambda>w w'. polite X \<longrightarrow> inv3 (snd w) \<longrightarrow> inv3 (snd w')" for X
proof
  fix w :: "'a w3" and op cs g
  show "polite X \<longrightarrow> inv3 (snd w) \<longrightarrow> inv3 (snd (set_rows (mem_do op (x_rows (snd w))) w))"
    by (simp add: inv3_def mem_do_keyed)
  show "polite X \<longrightarrow> inv3 (snd w) \<longrightarrow> inv3 (snd (set_children (snd (spawn_many cs (x_children (snd w)))) w))"
    by (simp add: inv3_def spawn_many_inv)
  show "polite X \<longrightarrow> inv3 (snd w) \<longrightarrow> inv3 (snd (set_schedules g w))" if "schedule_step (x_schedules (snd w)) g"
    using schedule_step_wf[OF that] by (simp add: inv3_def)
qed (simp_all add: emit3_inv polite_children)


subsection \<open>What the executor answers\<close>

definition says :: "subtask \<Rightarrow> string \<Rightarrow> (exn + result) \<times> 'w \<Rightarrow> bool" where
  "says t d rw = (case fst rw of Inl e \<Rightarrow> True | Inr r \<Rightarrow> r_task_id r = t_id t \<and> r_decision r = d)"

lemma done3_sel [simp]: "r_task_id (done3 t d ok e b) = t_id t" "r_decision (done3 t d ok e b) = d" "r_ok (done3 t d ok e b) = ok"
    "r_metadata (done3 t d ok e b) = b"
  by (simp_all add: done3_def mk_result_def)

lemma says_error [simp]: "says t d (Inl e, w)"
  by (simp add: says_def)

lemma says_finish [simp]: "says t d (finish t d ok err body w)"
  by (simp add: says_def)

lemma says_val: "(\<And>a. r = Inr a \<Longrightarrow> says t d (f a)) \<Longrightarrow> says t d (with_val r w f)"
  by (cases r) simp_all

lemma says_streamed: "says t d (finish_streamed X t d ok body w)"
  by (simp add: says_def finish_streamed_def split: prod.split)

lemma says_plan: "says t d (run_plan X d t sp extra w)"
  by (simp add: run_plan_def says_streamed split: option.split)

lemma says_children: "says t d (spawn_task X d t w)" "says t d (await_task X d t w)"
proof -
  show "says t d (spawn_task X d t w)"
    unfolding spawn_task_def Let_def by (auto intro!: says_val split: prod.split sum.split)
  show "says t d (await_task X d t w)"
    unfolding await_task_def Let_def by (auto intro!: says_val split: prod.split pyval.split)
qed

lemma says_plans: "says t d (workflow_task X d t w)" "says t d (run_template X d t w)" "says t d (template_list X d t w)"
  by (auto simp: workflow_task_def run_template_def template_list_def Let_def says_plan split: sum.split)

lemma says_memory: "says t d (memory_set_task X d t w)" "says t d (memory_get_task X d t w)" "says t d (memory_list_task X d t w)"
    "says t d (memory_delete_task X d t w)"
proof -
  show "says t d (memory_set_task X d t w)" by (auto simp: memory_set_task_def Let_def split: prod.split sum.split)
  show "says t d (memory_get_task X d t w)"
    unfolding memory_get_task_def Let_def by (rule says_val, rule says_val) (auto split: prod.split sum.split option.split)
  show "says t d (memory_list_task X d t w)" unfolding memory_list_task_def Let_def by (rule says_val)+ simp
  show "says t d (memory_delete_task X d t w)"
    unfolding memory_delete_task_def Let_def by (rule says_val) (auto intro!: says_val split: prod.split)
qed

lemma says_schedules: "says t d (schedule_task X d t w)" "says t d (schedule_list X d t w)" "says t d (schedule_cancel X d t w)"
  by (auto simp: schedule_task_def schedule_list_def schedule_cancel_def Let_def split: sum.split prod.split)

lemma says_others: "says t d (llm_task X d t w)" "says t d (handshake X d t w)"
proof -
  show "says t d (llm_task X d t w)"
    unfolding llm_task_def Let_def by (rule says_val, rule says_val) (auto split: sum.split)
  show "says t d (handshake X d t w)"
    unfolding handshake_def by (rule says_val, rule says_val) auto
qed

lemmas handlers_say = says_children says_plans says_memory says_schedules says_others

lemma handler3_says: "(k, h) \<in> set (handlers3 :: (string \<times> 'b handler3) list) \<Longrightarrow> says t d (h X d t w)"
  unfolding handlers3_def by (auto intro: handlers_say)

lemma invoke_answers:
  assumes "says t d rw"
  shows "r_task_id (fst (invoke t rw)) = t_id t \<and> r_decision (fst (invoke t rw)) \<in> {d, ''bad_request'', ''error''}"
  using assms by (cases rw) (auto simp: says_def invoke_def split: sum.splits)

lemma gate3_answers: "fst (gate3 X t s) = Inr (Some r) \<Longrightarrow> r_task_id r = t_id t \<and> r_decision r \<in> {''block'', ''confirm_required''}"
  by (auto simp: gate3_def park_def Let_def split: if_splits sum.splits prod.splits)

lemma refusals3 [simp]: "''bad_request'' \<notin> set REFUSALS"
  by (simp add: REFUSALS_def)

definition seen3 :: "'b w3 \<Rightarrow> (event list \<times> tree) \<times> v3" where
  "seen3 w = (outside (fst w), snd w)"

lemma run3_answers: "answers (t_id t) (fst (run3 X t w))" "refusal (fst (run3 X t w)) \<Longrightarrow> seen3 (snd (run3 X t w)) = seen3 w"
proof -
  have *: "answers (t_id t) (fst (run3 X t w)) \<and> (refusal (fst (run3 X t w)) \<longrightarrow> seen3 (snd (run3 X t w)) = seen3 w)"
  proof (cases "map_of (handlers3 :: (string \<times> 'a handler3) list) (t_kind t)")
    case (Some h)
    note say = handler3_says[OF map_of_SomeD[OF Some]]
    obtain e s1 where g: "gate3 X t (fst w) = (e, s1)" by (cases "gate3 X t (fst w)")
    have s1: "outside s1 = outside (fst w)" using gate3_outside[of X t "fst w"] g by simp
    show ?thesis
    proof (cases e)
      case (Inr early)
      show ?thesis
      proof (cases early)
        case None
        have "fst (run3 X t w) = Inr (fst (invoke t (h X ''auto'' t (s1, snd w))))"
          using Some g Inr None by (simp add: run3_def)
        then show ?thesis using invoke_answers[OF say[of t "''auto''" X "(s1, snd w)"]] by auto
      next
        case (Some r)
        then show ?thesis using \<open>map_of _ _ = Some h\<close> g Inr gate3_answers[of X t "fst w" r] s1
          by (simp add: run3_def seen3_def)
      qed
    qed (use Some g in \<open>simp add: run3_def\<close>)
  qed (simp add: run3_def unknown3_def)
  then show "answers (t_id t) (fst (run3 X t w))" "refusal (fst (run3 X t w)) \<Longrightarrow> seen3 (snd (run3 X t w)) = seen3 w" by blast+
qed

lemma resume3_answers: "r_task_id (fst (resume3 X t ok w)) = t_id t"
proof (cases "map_of (handlers3 :: (string \<times> 'a handler3) list) (t_kind t)")
  case (Some h)
  then show ?thesis using invoke_answers[OF handler3_says[OF map_of_SomeD[OF Some], of t "''approved''" X w]] by (simp add: resume3_def)
qed (simp add: resume3_def unknown3_def)

lemma resume3_denied: "resume3 X t False w = (denial (t_id t), w)"
  by (simp add: resume3_def denial_def fail_def)

interpretation v3: task_executor t_id "run3 X" "resume3 X" seen3 for X
  by unfold_locales (simp_all add: run3_answers resume3_answers resume3_denied)

subsection \<open>Consent\<close>

definition CONSENT_KINDS :: "string list" where
  "CONSENT_KINDS = [''memory_set'', ''memory_delete'', ''schedule_task'', ''schedule_cancel'']"

definition verdict3 :: "'b v3env \<Rightarrow> subtask \<Rightarrow> 'b host \<Rightarrow> decision option" where
  "verdict3 X t s = (case policy_probe t of Inl e \<Rightarrow> None
     | Inr c \<Rightarrow> Some (fst (decide (penv_of (xe_env X) s) (en_policy (xe_env X)) c [])))"


subsection \<open>The chunks of a plan\<close>

definition seq3 :: "v3 \<Rightarrow> string \<Rightarrow> nat" where
  "seq3 x i = (case map_of (x_seq x) i of None \<Rightarrow> 0 | Some n \<Rightarrow> n)"

lemma emit3_chunk:
  assumes "en_sink (xe_env X)" "emit3 X t body fin w = (b, w')"
  shows "chunks (fst w') = chunks (fst w) @ [(b, seq3 (snd w) (t_id t), fin)]" "seq3 (snd w') (t_id t) = Suc (seq3 (snd w) (t_id t))"
    "b = dict_merge [(''task_id'', PStr (t_id t)), (''seq'', PInt (int (seq3 (snd w) (t_id t)))), (''is_final'', PBool fin)] body"
  using assms by (auto simp: emit3_def next_seq3_def seq3_def update_conv Let_def split: prod.splits)

definition node_id_of :: "dict \<Rightarrow> pyval" where
  "node_id_of b = dget (pdict_items (dget b ''node'')) ''id''"

lemma node_chunk: "node_id_of (dict_merge d [(''node'', PDict (outcome_to_dict o'))]) = PStr (o_id o')"
  by (simp add: node_id_of_def dict_merge_def dget_update) (simp add: outcome_to_dict_def dget_def)

lemma emit_nodes_chunks:
  assumes "en_sink (xe_env X)"
  shows "\<exists>new. chunks (fst (emit_nodes X t os w)) = chunks (fst w) @ new \<and>
    map snd new = map (\<lambda>k. (seq3 (snd w) (t_id t) + k, False)) [0..<length os] \<and>
    map (node_id_of \<circ> fst) new = map (PStr \<circ> o_id) os \<and> seq3 (snd (emit_nodes X t os w)) (t_id t) = seq3 (snd w) (t_id t) + length os"
proof (induction os arbitrary: w)
  case (Cons o' os)
  obtain b w' where e: "emit3 X t [(''node'', PDict (outcome_to_dict o'))] False w = (b, w')" by (meson surj_pair)
  note c = emit3_chunk[OF assms e]
  obtain new where new: "chunks (fst (emit_nodes X t os w')) = chunks (fst w') @ new"
    "map snd new = map (\<lambda>k. (seq3 (snd w') (t_id t) + k, False)) [0..<length os]"
    "map (node_id_of \<circ> fst) new = map (PStr \<circ> o_id) os" "seq3 (snd (emit_nodes X t os w')) (t_id t) = seq3 (snd w') (t_id t) + length os"
    using Cons.IH[of w'] by blast
  have "[0..<Suc (length os)] = 0 # map Suc [0..<length os]" by (simp add: upt_conv_Cons map_Suc_upt del: upt_Suc)
  then show ?case using c new e
    by (intro exI[of _ "(b, seq3 (snd w) (t_id t), False) # new"]) (simp add: emit_nodes_def o_def node_chunk del: upt_Suc)
qed (simp add: emit_nodes_def)

lemma plan_runs: "parse_workflow p = Inr sp \<Longrightarrow> \<exists>sm. run_workflow env sp c = Some sm"
proof -
  assume "parse_workflow p = Inr sp"
  then have sp: "wf_spec sp" by (rule parse_workflow_parts)
  show ?thesis using wf_loop_spec[OF sp wf_start_inv[OF sp], of "Suc (length (w_nodes sp))" env 0]
    by (auto simp: wf_start_def run_workflow_def)
qed

lemma reported_all:
  assumes "parse_workflow p = Inr sp"
  shows "mset (map o_id (reported env sp)) = mset (node_ids sp)"
proof -
  have sp: "wf_spec sp" using parse_workflow_parts[OF assms] by simp
  obtain st where st: "wf_loop (Suc (length (w_nodes sp))) env sp 0 (wf_start sp) = Some st"
    "wf_inv sp st" "ws_pending st = []" "ws_flight st = []"
    using wf_loop_spec[OF sp wf_start_inv[OF sp], of "Suc (length (w_nodes sp))" env 0] by (auto simp: wf_start_def)
  have eq: "map o_id (map snd (ws_outcomes st)) = map fst (ws_outcomes st)"
    using st(2) by (auto simp: wf_inv_def)
  have "mset (map fst (ws_outcomes st)) = mset (map n_id (w_nodes sp))"
    using st(2-4) by (simp add: wf_inv_def)
  then show ?thesis by (simp only: reported_def st(1) option.case eq node_ids_def)
qed


subsection \<open>A small executor for examples\<close>

definition demo_x :: "nat v3env" where
  "demo_x = \<lparr>xe_env = demo_env, xe_policy = True, xe_confirm = True, xe_config = None, xe_wf_exn = \<lambda>_. (''WorkflowError'', []),
     xe_sched_exn = \<lambda>_. (''ScheduleError'', []), xe_params_exn = \<lambda>_. (''TypeError'', []), xe_json_msg = id, xe_system_prompt = [],
     xe_bind = \<lambda>v. Inr (py_str v), xe_croniter = None, xe_importable = \<lambda>_. False, xe_host_info = [], xe_uptime = \<lambda>_. 0,
     xe_parent = True, xe_execute = \<lambda>t w. (Inr (mk_result (t_id t) True ''auto''), w), xe_answer = \<lambda>_ t. Inr (mk_result (t_id t) True ''auto''),
     xe_done = \<lambda>_ _ ids. ids, xe_ends = \<lambda>_ _. None, xe_during = \<lambda>_ w. w\<rparr>"

definition demo_v3 :: v3 where
  "demo_v3 = new_v3 \<lparr>rg_schedules = [], rg_path = False, rg_file = None\<rparr> []"

definition packet :: "string \<Rightarrow> dict \<Rightarrow> subtask" where
  "packet kind payload = \<lparr>t_id = ''t1'', t_kind = kind, t_payload = payload, t_priority = PStr ''normal'', st_parent_id = None, st_depth = 0\<rparr>"

lemma demo_polite: "polite demo_x"
  by (simp add: polite_def demo_x_def)

lemma demo_inv: "inv3 demo_v3"
  by (simp add: inv3_def demo_v3_def new_v3_def sub_inv_new keyed_def wf_registry_def)

definition two_children :: subtask where
  "two_children = packet ''spawn_task'' [(''tasks'', PList [PDict [(''kind'', PStr ''shell'')], PDict [(''kind'', PStr ''grep'')]])]"

lemma demo_spawns: "active_count (x_children (snd (snd (run3 demo_x two_children (demo_host, demo_v3))))) = 2"
  by code_simp


definition remember :: subtask where
  "remember = packet ''memory_set'' [(''key'', PStr ''k''), (''value'', PInt 1)]"

lemma remember_verdict: "verdict3 demo_x remember demo_host = Some CONFIRM"
  by code_simp


definition two_nodes :: dict where
  "two_nodes = [(''nodes'', PList [PDict [(''id'', PStr ''a''), (''kind'', PStr ''shell'')],
     PDict [(''id'', PStr ''b''), (''kind'', PStr ''shell''), (''depends_on'', PList [PStr ''a''])]])]"

definition two_spec :: "wf_error + spec" where
  "two_spec = parse_workflow (PDict two_nodes)"

lemma two_spec_ok: obtains sp where "two_spec = Inr sp" "node_ids sp = [''a'', ''b'']"
proof -
  have v: "case two_spec of Inl e \<Rightarrow> False | Inr sp \<Rightarrow> node_ids sp = [''a'', ''b'']" by code_simp
  show ?thesis
  proof (cases two_spec)
    case (Inr sp)
    have "node_ids sp = [''a'', ''b'']" using v unfolding Inr by simp
    then show ?thesis using that Inr by blast
  next
    case (Inl e)
    have False using v unfolding Inl by simp
    then show ?thesis ..
  qed
qed


subsection \<open>What the gate does not see\<close>

text \<open>A request to clear a whole namespace looks to the policy like the deletion of one key, and with a null namespace it
  clears every namespace.\<close>

lemma clear_looks_like_delete:
  "policy_probe (packet ''memory_delete'' [(''key'', PStr k), (''clear_namespace'', PBool True), (''namespace'', PNone)]) =
   policy_probe (packet ''memory_delete'' [(''key'', PStr k)])"
  "x_rows (snd (snd (memory_delete_task X d (packet ''memory_delete'' [(''key'', PStr k), (''clear_namespace'', PBool True), (''namespace'', PNone)]) w))) = []"
  by (simp_all add: policy_probe_def packet_def dget_or_def memory_delete_task_def namespace_of_def dget_def bind_text_def memory_clear_def Let_def)

text \<open>The id of a schedule may be given as \<open>id\<close>, which the policy is not shown.\<close>

lemma cancel_unseen:
  "policy_probe (packet ''schedule_cancel'' [(''id'', PStr i)]) = Inr ''schedule_cancel''"
  "i \<noteq> [] \<Longrightarrow> x_schedules (snd (snd (schedule_cancel X d (packet ''schedule_cancel'' [(''id'', PStr i)]) w))) = snd (remove i (x_schedules (snd w)))"
  by (simp_all add: policy_probe_def packet_def dget_or_def dget_def schedule_cancel_def py_or_def Let_def case_prod_beta)
    (simp_all add: strip_def lstrip_def rstrip_def is_space_def code_def starts_with_def)

text \<open>A packet whose inner task is no object raises out of the gate, past the clause that turns exceptions into results.\<close>

lemma gate_raises:
  assumes "xe_policy X"
  shows "fst (run3 X (packet ''schedule_task'' [(''task'', PStr (c # cs))]) w) =
    Inl (''AttributeError'', quoted ''str'' @ '' object has no attribute '' @ quoted ''get'')"
  using assms by (simp add: run3_def handlers3_def gate3_def packet_def UNGATED_KINDS_def COMPOSITE_KINDS_def policy_probe_def
      dget_def py_or_def starts_with_def split: prod.split)

text \<open>A node of a plan starts at depth 0 whatever the depth of the task that runs the plan, so what it spawns is again at
  depth 1: the depth limit does not stop a plan that spawns itself.\<close>

lemma plan_forgets_depth:
  assumes "run_node env n os = r" "build_subtask [] (PDict [(''id'', PStr (node_task_id (w_parent env) n)), (''kind'', PStr (n_kind n)),
      (''payload'', substitute os (PDict (n_payload n)))]) (w_parent env) 0 0 = Inr c"
  shows "st_depth c = 0" "build_children m (t_id c) (st_depth c + 1) 0 specs = Inr cs \<Longrightarrow> \<forall>x \<in> set cs. st_depth x = 1"
proof -
  have d: "build_subtask f v p dp i = Inr c' \<Longrightarrow> st_depth c' = dp" for f v p dp i c'
    by (auto simp: build_subtask_def Let_def split: pyval.splits if_splits)
  then show z: "st_depth c = 0" using assms(2) by blast
  have "build_children m par 1 k specs = Inr cs \<Longrightarrow> \<forall>x \<in> set cs. st_depth x = 1" for par k
  proof (induction specs arbitrary: k cs)
    case (Cons v vs)
    then show ?case using d by (auto simp: and_then_def split: sum.splits)
  qed simp
  then show "build_children m (t_id c) (st_depth c + 1) 0 specs = Inr cs \<Longrightarrow> \<forall>x \<in> set cs. st_depth x = 1" using z by simp
qed

end
