(* ===== verification/Harness.thy ===== *)
theory Harness
  imports Executor3
begin

text \<open>
  The executor as the rest of the harness sees it: the router of \<open>agent/executor.py\<close> with the v2 executor and the
  agent-native executor behind it. It meets the contract of the theory Contract as its parts do, and the handshake
  tells the truth about it.
\<close>

definition full_router :: "'b v3env \<Rightarrow> (nat \<Rightarrow> string \<Rightarrow> pyval \<Rightarrow> run_reply) \<Rightarrow> ('b, v3) router" where
  "full_router X reply = \<lparr>ro_env = xe_env X, ro_run = reply, ro_v3_kinds = V3_KINDS, ro_v3 = run3 X, ro_v3_resume = resume3 X\<rparr>"

lemma full_router_sel [simp]:
  "ro_env (full_router X reply) = xe_env X" "ro_v3 (full_router X reply) = run3 X" "ro_v3_resume (full_router X reply) = resume3 X"
  "is_v3_kind (full_router X reply) k = (k \<in> set V3_KINDS)"
  by (simp_all add: full_router_def is_v3_kind_def)

subsection \<open>The first four kinds\<close>

lemma v1_replies:
  "replies t [''auto''] (exec_shell R t s)" "replies t [''auto''] (exec_write_file R t s)"
  by (auto simp: exec_shell_def exec_write_file_def Let_def split: sum.split option.split prod.split run_reply.split pyval.split tree.split)

lemma v1_reads: "answers (t_id t) (fst (read_file R t s))" "answers (t_id t) (fst (list_dir R t s))"
  by (auto simp: read_file_def list_dir_def Let_def split: sum.split option.split prod.split tree.split)

lemma v1_guarded: "guarded t [''auto''] s (run_shell R t s)" "guarded t [''auto''] s (write_file_task R t s)"
    "guarded t [''auto''] s (read_file R t s)" "guarded t [''auto''] s (list_dir R t s)"
proof -
  show "guarded t [''auto''] s (run_shell R t s)"
    unfolding run_shell_def by (auto intro: guarded_error guarded_gate v1_replies split: sum.split)
  show "guarded t [''auto''] s (write_file_task R t s)"
    unfolding write_file_task_def by (rule guarded_path) (rule v1_replies)
  show "guarded t [''auto''] s (read_file R t s)" "guarded t [''auto''] s (list_dir R t s)"
    using read_only[of R t s] v1_reads[of t R s] by (simp_all add: guarded_def answers_def split: sum.splits)
qed

lemma guarded_answers:
  assumes "guarded t [''auto''] s rs"
  shows "answers (t_id t) (fst rs) \<and> (refusal (fst rs) \<longrightarrow> outside (snd rs) = outside s)"
  using assms by (auto simp: guarded_def replies_def answers_def refusal_def split: sum.splits)

subsection \<open>The contract\<close>

lemma router_answers:
  "answers (t_id t) (fst (router_run (full_router X reply) t w)) \<and>
   (refusal (fst (router_run (full_router X reply) t w)) \<longrightarrow> seen3 (snd (router_run (full_router X reply) t w)) = seen3 w)"
proof -
  let ?R = "full_router X reply"
  obtain s x where w: "w = (s, x)" by (cases w)
  note g = guarded_answers[OF v1_guarded(1)[where R = ?R and t = "base t" and s = s]] guarded_answers[OF v1_guarded(2)[where R = ?R and t = "base t" and s = s]]
    guarded_answers[OF v1_guarded(3)[where R = ?R and t = "base t" and s = s]] guarded_answers[OF v1_guarded(4)[where R = ?R and t = "base t" and s = s]]
  show ?thesis
  proof (cases "t_kind t \<in> set V3_KINDS")
    case True
    then show ?thesis using run3_answers[where t = t and X = X and w = w] by (simp add: router_run_def w)
  next
    case v3: False
    show ?thesis
    proof (cases "is_v2_kind (t_kind t)")
      case True
      have "router_run ?R t w = (Inr (fst (run (xe_env X) (base t) s)), (snd (run (xe_env X) (base t) s), x))"
        using True v3 by (simp add: router_run_def w case_prod_beta Let_def)
      then show ?thesis using run_answers[of "xe_env X" "base t" s] by (simp add: seen3_def w)
    next
      case False
      then show ?thesis using v3 g by (auto simp: router_run_def w Let_def on_host_def seen3_def)
    qed
  qed
qed

lemma message_only_answers: "answers (t_id t) (fst rw) \<Longrightarrow> r_task_id (fst (message_only t rw)) = t_id t"
  by (cases rw) (auto simp: message_only_def answers_def split: sum.splits)

lemma router_resume_answers: "r_task_id (fst (router_resume (full_router X reply) t ok w)) = t_id t"
proof -
  let ?R = "full_router X reply"
  obtain s x where w: "w = (s, x)" by (cases w)
  have e: "answers (t_id t) (fst (on_host (exec_shell ?R (base t) s) x))" "answers (t_id t) (fst (on_host (exec_write_file ?R (base t) s) x))"
    "answers (t_id t) (fst (on_host (read_file ?R (base t) s) x))" "answers (t_id t) (fst (on_host (list_dir ?R (base t) s) x))"
    using v1_replies[of "base t" ?R s] v1_reads[of "base t" ?R s]
    by (auto simp: on_host_def replies_def answers_def split: sum.splits)
  note m = e[THEN message_only_answers[of "base t", simplified]]
  have v2: "r_task_id (fst (case resume_after_confirm (xe_env X) (base t) ok s of (r, s') \<Rightarrow> (r, (s', x)))) = t_id t"
    using resume_answers[of "xe_env X" "base t" ok s] by (simp add: case_prod_beta)
  show ?thesis using m v2 resume3_answers[of X t ok w] by (auto simp: router_resume_def w Let_def)
qed

lemma router_denied: "router_resume (full_router X reply) t False w = (denial (t_id t), w)"
  by (cases w) (simp add: router_resume_def denial_def fail_def Let_def)

interpretation harness: task_executor t_id "router_run (full_router X reply)" "router_resume (full_router X reply)" seen3 for X reply
  by unfold_locales (use router_answers router_resume_answers router_denied in blast)+

text \<open>C14: whatever list of tasks the harness is given, and whichever executor serves them, if every answer is a refusal
  (blocked, waiting for confirmation, unknown or denied) then nothing has happened outside and nothing the harness
  remembers has changed.\<close>

theorem refusals_are_inert:
  assumes "list_all refusal (fst (exec_all (router_run (full_router X reply)) ts w))"
  shows "seen3 (snd (exec_all (router_run (full_router X reply)) ts w)) = seen3 w"
  using assms by (rule harness.all_refused)

text \<open>Every task of a list is answered under its own id, in order, unless its execution raises.\<close>

theorem answers_in_order:
  "list_all2 (\<lambda>t. answers (t_id t)) ts (fst (exec_all (router_run (full_router X reply)) ts w))"
  by (rule harness.all_ids)

subsection \<open>The handshake tells the truth\<close>

definition recognised :: "(exn + result) \<times> 'w \<Rightarrow> bool" where
  "recognised rs = (case fst rs of Inl e \<Rightarrow> True | Inr r \<Rightarrow> r_decision r \<noteq> ''unknown_kind'')"

lemma recognised_error [simp]: "recognised (Inl e, w)"
  by (simp add: recognised_def)

lemma recognised_fail [simp]: "recognised (Inr (fail t d e), w) = (d \<noteq> ''unknown_kind'')"
  by (simp add: recognised_def)

lemma recognised_replies: "replies t ds rs \<Longrightarrow> ''unknown_kind'' \<notin> set ds \<Longrightarrow> recognised rs"
  by (auto simp: recognised_def replies_def split: sum.splits)

lemma recognised_gate:
  assumes "\<And>s1. recognised (ex s1)"
  shows "recognised (case gate env t c ps s of (Some early, s1) \<Rightarrow> (Inr early, s1) | (None, s1) \<Rightarrow> ex s1)"
  using assms by (auto simp: gate_def judge_def park_def recognised_def Let_def split: decision.split prod.split)

lemma recognised_path: "(\<And>s1. recognised (ex t ''auto'' s1)) \<Longrightarrow> recognised (gate_path env t verb dflt ex s)"
  unfolding gate_path_def by (cases "path_arg env t dflt") (simp_all add: recognised_gate)

lemma v2_exec_recognised:
  "recognised (exec_shell_stream env t ''auto'' s)" "recognised (exec_session_open env t ''auto'' s)" "recognised (exec_session_write env t ''auto'' s)"
  "recognised (session_close env t s)" "recognised (exec_grep env t ''auto'' s)" "recognised (exec_glob env t ''auto'' s)"
  "recognised (exec_patch_file env t ''auto'' s)" "recognised (exec_read_chunked env t ''auto'' s)" "recognised (exec_watch_start env t ''auto'' s)"
  "recognised (watch_poll t s)" "recognised (watch_stop t s)" "recognised (exec_process_list env t ''auto'' s)"
  "recognised (exec_process_kill env t ''auto'' s)" "recognised (exec_http_local env t ''auto'' s)"
  by (rule recognised_replies, rule r_stream r_open r_write r_close r_grep r_glob r_patch r_read r_watch r_poll(1) r_poll(2) r_list r_kill r_http, simp)+

lemma v2_recognised:
  assumes "(k, h) \<in> set (gated_handlers env)"
  shows "recognised (h t s)"
proof -
  have "recognised (gate_session_write env t s)"
    unfolding gate_session_write_def by (auto intro: v2_exec_recognised split: sum.split prod.split)
  moreover have "recognised (gate_shell_stream env t s)" "recognised (gate_session_open env t s)"
    unfolding gate_shell_stream_def gate_session_open_def by (auto intro: recognised_gate v2_exec_recognised split: sum.split)
  moreover have "recognised (gate_process_list env t s)" "recognised (gate_process_kill env t s)" "recognised (gate_http_local env t s)"
    unfolding gate_process_list_def gate_process_kill_def gate_http_local_def
    by (auto intro: recognised_gate v2_exec_recognised split: sum.split)
  moreover have "recognised (gate_grep env t s)" "recognised (gate_glob env t s)" "recognised (gate_patch_file env t s)"
    "recognised (gate_read_chunked env t s)" "recognised (gate_watch_start env t s)"
    unfolding gate_grep_def gate_glob_def gate_patch_file_def gate_read_chunked_def gate_watch_start_def
    by (rule recognised_path, rule v2_exec_recognised)+
  ultimately show ?thesis using assms v2_exec_recognised unfolding gated_handlers_def by auto
qed

lemma run_recognised: "t_kind t \<in> set V2_KINDS \<Longrightarrow> r_decision (fst (run env t s)) \<noteq> ''unknown_kind''"
proof -
  assume "t_kind t \<in> set V2_KINDS"
  then have "t_kind t \<in> set (map fst (gated_handlers env))" by (simp add: handlers_complete)
  then obtain h where h: "map_of (gated_handlers env) (t_kind t) = Some h"
    by (metis domD dom_map_of_conv_image_fst list.set_map)
  have "recognised (h t s)" by (rule v2_recognised[OF map_of_SomeD[OF h]])
  then show ?thesis using h by (cases "h t s") (auto simp: run_def caught_def recognised_def split: sum.splits)
qed

lemma run3_recognised: "t_kind t \<in> set V3_KINDS \<Longrightarrow> recognised (run3 X t w)"
proof -
  assume "t_kind t \<in> set V3_KINDS"
  then have "t_kind t \<in> set (map fst (handlers3 :: (string \<times> 'a handler3) list))" by (simp only: handlers3_complete)
  then obtain h where h: "map_of (handlers3 :: (string \<times> 'a handler3) list) (t_kind t) = Some h"
    by (metis domD dom_map_of_conv_image_fst list.set_map)
  have "r_decision (fst (invoke t (h X ''auto'' t w'))) \<noteq> ''unknown_kind''" for w'
    using invoke_answers[OF handler3_says[OF map_of_SomeD[OF h], of t "''auto''" X w']] by auto
  then show ?thesis using h gate3_answers[of X t "fst w"]
    by (cases "gate3 X t (fst w)") (auto simp: run3_def recognised_def split: sum.split option.split)
qed

lemma v1_exec_recognised: "recognised (exec_shell R t s)" "recognised (exec_write_file R t s)"
  by (rule recognised_replies, rule v1_replies, simp)+

lemma v1_recognised: "recognised (run_shell R t s)" "recognised (write_file_task R t s)" "recognised (read_file R t s)" "recognised (list_dir R t s)"
proof -
  show "recognised (run_shell R t s)"
    unfolding run_shell_def by (auto intro: recognised_gate v1_exec_recognised split: sum.split)
  show "recognised (write_file_task R t s)"
    unfolding write_file_task_def by (rule recognised_path) (rule v1_exec_recognised)
  have d: "decision_str d \<noteq> ''unknown_kind''" for d by (cases d) simp_all
  show "recognised (read_file R t s)" "recognised (list_dir R t s)"
    by (auto simp: read_file_def list_dir_def recognised_def d Let_def split: sum.split option.split prod.split tree.split)
qed

text \<open>C13: the kinds a handshake lists are exactly those the router knows: a task is answered \<open>unknown_kind\<close> if and only if its
  kind is not in the report.\<close>

theorem handshake_agrees_with_router:
  assumes "build_report imp host up pol V2_KINDS V3_KINDS bounds = Inr rep"
  shows "recognised (router_run (full_router X reply) t w) = (t_kind t \<in> set (all_kinds rep))"
proof -
  obtain s x where w: "w = (s, x)" by (cases w)
  have kinds: "set (all_kinds rep) = set V1_KINDS \<union> set V2_KINDS \<union> set V3_KINDS"
    using assms by (cases "policy_summary pol") (auto simp: build_report_def all_kinds_def)
  consider "t_kind t \<in> set V3_KINDS" | "t_kind t \<notin> set V3_KINDS" "is_v2_kind (t_kind t)"
    | "t_kind t \<notin> set V3_KINDS" "\<not> is_v2_kind (t_kind t)" by blast
  then show ?thesis
  proof cases
    case 1
    then show ?thesis using run3_recognised[of t X w] by (simp add: router_run_def w kinds)
  next
    case 2
    then have "recognised (router_run (full_router X reply) t w)"
      using run_recognised[of "base t" "xe_env X" s] by (simp add: router_run_def w is_v2_kind_def recognised_def case_prod_beta Let_def)
    then show ?thesis using 2 kinds by (simp add: is_v2_kind_def)
  next
    case 3
    have "(t_kind t \<in> set (all_kinds rep)) = (t_kind t \<in> {''shell'', ''read_file'', ''write_file'', ''list_dir''})"
      using 3 kinds by (auto simp: is_v2_kind_def V1_KINDS_def)
    moreover have "recognised (on_host rs x) = recognised rs" for rs :: "(exn + result) \<times> 'a host"
      by (simp add: recognised_def on_host_def)
    ultimately show ?thesis using 3 v1_recognised[of "full_router X reply" "base t" s]
      by (auto simp: router_run_def w Let_def)
  qed
qed

subsection \<open>Examples\<close>

definition demo_reply :: "nat \<Rightarrow> string \<Rightarrow> pyval \<Rightarrow> run_reply" where
  "demo_reply _ _ _ = RunDone 0 ''ok'' []"

definition refused_tasks :: "subtask list" where
  "refused_tasks = [packet ''shell'' [(''command'', PStr ''rm -rf /'')], remember, packet ''teleport'' []]"

lemma demo_refused: "list_all refusal (fst (exec_all (router_run (full_router demo_x demo_reply)) refused_tasks (demo_host, demo_v3)))"
  by code_simp

theorem refusals_are_inert_witness:
  "seen3 (snd (exec_all (router_run (full_router demo_x demo_reply)) refused_tasks (demo_host, demo_v3))) = (outside demo_host, demo_v3)"
  using refusals_are_inert[OF demo_refused] by (simp add: seen3_def)

theorem handshake_agrees_with_router_witness:
  "\<exists>rep. build_report (\<lambda>_. False) [] 0 None V2_KINDS V3_KINDS [] = Inr rep \<and>
     recognised (router_run (full_router demo_x demo_reply) remember (demo_host, demo_v3)) = (''memory_set'' \<in> set (all_kinds rep))"
proof -
  obtain rep where rep: "build_report (\<lambda>_. False) [] 0 None V2_KINDS V3_KINDS [] = Inr rep"
    by (simp add: build_report_def policy_summary_def)
  have "t_kind remember = ''memory_set''" by (simp add: remember_def packet_def)
  then show ?thesis using handshake_agrees_with_router[OF rep, of demo_x demo_reply remember "(demo_host, demo_v3)"] rep by auto
qed

end
