(* ===== verification/Hashchain.thy ===== *)
theory Hashchain
  imports Prelude
begin

text \<open>
  The contract of a hash chain: every message is made of the tag before it and a body, and its own tag is a hash
  of the message. Audit's files are one; what the chain guarantees is proved here once, from the two laws below.
\<close>

subsection \<open>Chains\<close>

text \<open>The messages of the bodies \<open>cs\<close> chained from the tag \<open>p\<close>, and the bodies with their tags.\<close>

fun chain_messages :: "('m \<Rightarrow> 't) \<Rightarrow> ('t \<Rightarrow> 'c \<Rightarrow> 'm) \<Rightarrow> 't \<Rightarrow> 'c list \<Rightarrow> 'm list" where
  "chain_messages mac msg p [] = []"
| "chain_messages mac msg p (c # cs) = msg p c # chain_messages mac msg (mac (msg p c)) cs"

fun chain_seal :: "('m \<Rightarrow> 't) \<Rightarrow> ('t \<Rightarrow> 'c \<Rightarrow> 'm) \<Rightarrow> 't \<Rightarrow> 'c list \<Rightarrow> ('c \<times> 't) list" where
  "chain_seal mac msg p [] = []"
| "chain_seal mac msg p (c # cs) = (c, mac (msg p c)) # chain_seal mac msg (mac (msg p c)) cs"

text \<open>A message of \<open>ms\<close> and another one of \<open>ns\<close> with the same tag, or one whose tag is the one every chain starts from.\<close>

definition collides :: "('m \<Rightarrow> 't) \<Rightarrow> 't \<Rightarrow> 'm list \<Rightarrow> 'm list \<Rightarrow> bool" where
  "collides mac start ms ns = ((\<exists>m\<in>set ms. \<exists>m'\<in>set ns. m \<noteq> m' \<and> mac m = mac m') \<or> (\<exists>m\<in>set ms \<union> set ns. mac m = start))"

lemma length_chain_messages [simp]: "length (chain_messages mac msg p cs) = length cs"
  by (induction cs arbitrary: p) auto

lemma chain_messages_Nil: "chain_messages mac msg p cs = [] \<longleftrightarrow> cs = []"
  by (cases cs) auto

lemma chain_messages_nth:
  "i < length cs \<Longrightarrow> chain_messages mac msg p cs ! i =
     msg (case i of 0 \<Rightarrow> p | Suc k \<Rightarrow> mac (chain_messages mac msg p cs ! k)) (cs ! i)"
proof (induction cs arbitrary: p i)
  case (Cons c cs)
  show ?case
  proof (cases i)
    case (Suc k)
    then have "k < length cs" using Cons.prems by simp
    then show ?thesis using Cons.IH[of k "mac (msg p c)"] Suc by (cases k) auto
  qed simp
qed simp

lemma chain_messages_append:
  "chain_messages mac msg p (cs @ ds) =
     chain_messages mac msg p cs @ chain_messages mac msg (if cs = [] then p else mac (last (chain_messages mac msg p cs))) ds"
proof (induction cs arbitrary: p)
  case (Cons c cs)
  then show ?case by (cases cs) simp_all
qed simp

lemma map_fst_chain_seal [simp]: "map fst (chain_seal mac msg p cs) = cs"
  by (induction cs arbitrary: p) auto

lemma chain_seal_append:
  "chain_seal mac msg p (cs @ ds) =
     chain_seal mac msg p cs @ chain_seal mac msg (if cs = [] then p else snd (last (chain_seal mac msg p cs))) ds"
proof (induction cs arbitrary: p)
  case (Cons c cs)
  then show ?case by (cases cs) simp_all
qed simp

text \<open>A sealed chain cut short is still sealed: the chain itself does not show that its end is missing.\<close>

lemma chain_seal_take: "take n (chain_seal mac msg p cs) = chain_seal mac msg p (take n cs)"
proof (induction cs arbitrary: p n)
  case (Cons c cs)
  then show ?case by (cases n) simp_all
qed simp

subsection \<open>What a chain guarantees\<close>

locale hash_chain =
  fixes mac :: "'m \<Rightarrow> 't" and msg :: "'t \<Rightarrow> 'c \<Rightarrow> 'm" and start :: 't
    and is_tag :: "'t \<Rightarrow> bool" and is_body :: "'c \<Rightarrow> bool"
  assumes start_tag: "is_tag start"
    and mac_tag: "is_tag (mac m)"
    and msg_inj: "is_tag p \<Longrightarrow> is_tag q \<Longrightarrow> is_body c \<Longrightarrow> is_body d \<Longrightarrow> msg p c = msg q d \<Longrightarrow> p = q \<and> c = d"
begin

text \<open>Without collisions a message fixes its place and everything before it.\<close>

lemma same_past:
  assumes n: "\<not> collides mac start (chain_messages mac msg start cs) (chain_messages mac msg start ds)"
    and "list_all is_body cs" "list_all is_body ds"
  shows "i < length cs \<Longrightarrow> j < length ds \<Longrightarrow> chain_messages mac msg start cs ! i = chain_messages mac msg start ds ! j
    \<Longrightarrow> i = j \<and> take (Suc i) cs = take (Suc j) ds"
proof (induction i arbitrary: j)
  case 0
  have b: "is_body (cs ! 0)" "is_body (ds ! j)" using assms(2,3) 0(1,2) by (simp_all add: list_all_length)
  have e: "msg start (cs ! 0) = msg (case j of 0 \<Rightarrow> start | Suc k \<Rightarrow> mac (chain_messages mac msg start ds ! k)) (ds ! j)"
    using 0 by (simp add: chain_messages_nth)
  show ?case
  proof (cases j)
    case 0
    then have "cs ! 0 = ds ! 0" using msg_inj[OF start_tag start_tag b] e by simp
    then show ?thesis using \<open>0 < length cs\<close> \<open>j < length ds\<close> 0 by (simp add: take_Suc_conv_app_nth)
  next
    case (Suc k)
    then have "start = mac (chain_messages mac msg start ds ! k)" using msg_inj[OF start_tag mac_tag b] e by simp
    then have "mac (chain_messages mac msg start ds ! k) = start" by (rule sym)
    moreover have "chain_messages mac msg start ds ! k \<in> set (chain_messages mac msg start ds)" using \<open>j < length ds\<close> Suc by simp
    ultimately show ?thesis using n unfolding collides_def by blast
  qed
next
  case (Suc i)
  have b: "is_body (cs ! Suc i)" "is_body (ds ! j)" using assms(2,3) Suc.prems(1,2) by (simp_all add: list_all_length)
  have e: "msg (mac (chain_messages mac msg start cs ! i)) (cs ! Suc i) =
      msg (case j of 0 \<Rightarrow> start | Suc k \<Rightarrow> mac (chain_messages mac msg start ds ! k)) (ds ! j)"
    using Suc.prems by (simp add: chain_messages_nth)
  have i: "chain_messages mac msg start cs ! i \<in> set (chain_messages mac msg start cs)" using Suc.prems(1) by simp
  show ?case
  proof (cases j)
    case 0
    then have "mac (chain_messages mac msg start cs ! i) = start" using msg_inj[OF mac_tag start_tag b] e by simp
    then show ?thesis using n i unfolding collides_def by blast
  next
    case (Suc k)
    then have m: "mac (chain_messages mac msg start cs ! i) = mac (chain_messages mac msg start ds ! k)" "cs ! Suc i = ds ! j"
      using msg_inj[OF mac_tag mac_tag b] e by simp_all
    moreover have "chain_messages mac msg start ds ! k \<in> set (chain_messages mac msg start ds)" using Suc.prems(2) Suc by simp
    ultimately have "chain_messages mac msg start cs ! i = chain_messages mac msg start ds ! k" using n i unfolding collides_def by blast
    then have "i = k \<and> take (Suc i) cs = take (Suc k) ds"
      by (intro Suc.IH) (use Suc.prems(1,2) Suc in simp_all)
    then have ik: "i = k" "take (Suc i) cs = take (Suc k) ds" by blast+
    have "take (Suc (Suc i)) cs = take (Suc i) cs @ [cs ! Suc i]" using Suc.prems(1) by (rule take_Suc_conv_app_nth)
    also have "\<dots> = take (Suc k) ds @ [ds ! Suc k]" using ik m(2) Suc by simp
    also have "\<dots> = take (Suc (Suc k)) ds" using Suc.prems(2) Suc by (simp add: take_Suc_conv_app_nth)
    finally show ?thesis using ik Suc by simp
  qed
qed

text \<open>A chain whose last message occurs in another chain is the beginning of that chain.\<close>

lemma prefix_or_collision:
  assumes "list_all is_body cs" "list_all is_body ds" "cs \<noteq> []"
    "last (chain_messages mac msg start cs) \<in> set (chain_messages mac msg start ds)"
  shows "prefix cs ds \<or> collides mac start (chain_messages mac msg start cs) (chain_messages mac msg start ds)"
proof -
  let ?i = "length cs - 1"
  have l: "last (chain_messages mac msg start cs) = chain_messages mac msg start cs ! ?i"
    by (subst last_conv_nth) (use assms(3) in \<open>auto simp flip: length_greater_0_conv\<close>)
  obtain j where j: "j < length ds" "chain_messages mac msg start cs ! ?i = chain_messages mac msg start ds ! j"
    using assms(4) unfolding l in_set_conv_nth by auto
  have "prefix cs ds" if n: "\<not> collides mac start (chain_messages mac msg start cs) (chain_messages mac msg start ds)"
  proof -
    have "take (Suc ?i) cs = take (Suc j) ds" using same_past[OF n assms(1,2) _ j] assms(3) by (metis diff_less length_greater_0_conv zero_less_one)
    moreover have "take (Suc ?i) cs = cs" using assms(3) by simp
    ultimately have "cs = take (Suc j) ds" by metis
    then show ?thesis by (metis take_is_prefix)
  qed
  then show ?thesis by blast
qed

end

end
