(* ===== verification/Auditlog.thy ===== *)
theory Auditlog
  imports Hashchain Json Textlines Signing Vault Datetime Host
begin

text \<open>
  \<open>agent/audit.py\<close>: the audit log, a file of JSON lines chained by a keyed hash, with its daily rotation,
  its verifier and its readers. The hash function is a parameter that returns the bytes of the digest; the file is
  its decoded text; the clock and the random key are arguments. \<open>None\<close> is a file that does not exist.
\<close>

subsection \<open>Records and their hash\<close>

definition HASHED_FIELDS :: "string list" where
  "HASHED_FIELDS = [''ts'', ''actor'', ''action'', ''resource'', ''outcome'', ''meta'', ''prev'']"

definition VALID_OUTCOMES :: "string list" where
  "VALID_OUTCOMES = [''ok'', ''deny'', ''error'']"

definition now_iso :: "int \<Rightarrow> string" where
  "now_iso t = (let d = of_instant t in iso_date d @ ''T'' @ iso_time (d\<lparr>dt_micro := 0\<rparr>) @ ''Z'')"

definition hashed :: "dict \<Rightarrow> dict" where
  "hashed r = List.map_filter (\<lambda>k. map_option (Pair k) (map_of r k)) HASHED_FIELDS"

definition canonical :: "dict \<Rightarrow> string" where
  "canonical r = utf8 (json_print json_compact (sort_keys (PDict (hashed r))))"

fun mask :: "string list \<Rightarrow> pyval \<Rightarrow> pyval" where
  "mask vals (PStr s) = PStr (mask_text vals s)"
| "mask vals (PDict d) = PDict (map (\<lambda>(k, v). (k, mask vals v)) d)"
| "mask vals (PList xs) = PList (map (mask vals) xs)"
| "mask vals v = v"

definition hexdigest :: "string \<Rightarrow> string" where
  "hexdigest bs = concat (map (\<lambda>c. hex2 (code c)) bs)"

definition is_ascii :: "string \<Rightarrow> bool" where
  "is_ascii s = list_all (\<lambda>c. code c < 128) s"

text \<open>\<open>hm\<close> is HMAC-SHA256: the digest of a message under a key.\<close>

definition line_mac :: "('k \<Rightarrow> string \<Rightarrow> string) \<Rightarrow> 'k \<Rightarrow> string \<Rightarrow> string" where
  "line_mac hm key m = hexdigest (hm key m)"

text \<open>\<open>s.encode("ascii")\<close> and \<open>_hmac\<close> with the key at hand.\<close>

definition ascii_of :: "pyval \<Rightarrow> exn + string" where
  "ascii_of v = and_then (need_attr ''encode'' v) (\<lambda>s. if is_ascii s then Inr s
     else Inl (''UnicodeEncodeError'', ''ordinal not in range(128)''))"

definition audit_hmac :: "('k \<Rightarrow> string \<Rightarrow> string) \<Rightarrow> 'k \<Rightarrow> dict \<Rightarrow> exn + string" where
  "audit_hmac hm key r = and_then (ascii_of (dget_or r ''prev'' (PStr []))) (\<lambda>p. Inr (line_mac hm key (p @ canonical r)))"

subsection \<open>The file\<close>

text \<open>\<open>for line in fh\<close> on a text file: the lines with their ends.\<close>

fun file_lines_acc :: "string \<Rightarrow> string \<Rightarrow> string list" where
  "file_lines_acc cur [] = (if cur = [] then [] else [rev cur])"
| "file_lines_acc cur (c # cs) = (if c = newline then rev (c # cur) # file_lines_acc [] cs else file_lines_acc (c # cur) cs)"

definition file_lines :: "string \<Rightarrow> string list" where
  "file_lines s = file_lines_acc [] (universal_newlines s)"

definition blank :: "string \<Rightarrow> bool" where
  "blank line = (strip line = [])"

definition solid_lines :: "string \<Rightarrow> string list" where
  "solid_lines s = filter (\<lambda>line. \<not> blank line) (file_lines s)"

text \<open>The log: its file and the day it was last written, the rotated files by day, the key file, the key in memory,
  and whether it rotates.\<close>

record 'k alog =
  al_file :: "string option"
  al_day :: int
  al_gz :: "(int \<times> string) list"
  al_keyfile :: "'k option"
  al_key :: "'k option"
  al_rotate :: bool

definition new_log :: "string option \<Rightarrow> int \<Rightarrow> 'k option \<Rightarrow> bool \<Rightarrow> 'k alog" where
  "new_log file day keyfile daily = \<lparr>al_file = file, al_day = day, al_gz = [], al_keyfile = keyfile, al_key = None, al_rotate = daily\<rparr>"

text \<open>\<open>from_config\<close>: the path, the key path and the rotation flag of the \<open>security.audit\<close> block.\<close>

definition audit_config :: "pyval \<Rightarrow> exn + (pyval \<times> pyval \<times> bool)" where
  "audit_config security = (case py_or security (PDict []) of
     PDict sec \<Rightarrow> (case py_or (dget sec ''audit'') (PDict []) of
         PDict a \<Rightarrow> Inr (dget a ''path'', dget a ''key_path'', truthy (dget_or a ''rotate_daily'' (PBool True)))
       | v \<Rightarrow> Inl (''AttributeError'', quoted (type_name v) @ '' object has no attribute '' @ quoted ''get''))
   | _ \<Rightarrow> Inr (PNone, PNone, True))"

definition audit_key :: "'k \<Rightarrow> 'k alog \<Rightarrow> 'k \<times> 'k alog" where
  "audit_key fresh a = (case al_key a of Some k \<Rightarrow> (k, a)
     | None \<Rightarrow> (case al_keyfile a of Some k \<Rightarrow> (k, a\<lparr>al_key := Some k\<rparr>)
         | None \<Rightarrow> (fresh, a\<lparr>al_key := Some fresh, al_keyfile := Some fresh\<rparr>)))"

definition last_hmac :: "'k alog \<Rightarrow> exn + pyval" where
  "last_hmac a = (case al_file a of None \<Rightarrow> Inr (PStr [])
     | Some s \<Rightarrow> (if solid_lines s = [] then Inr (PStr [])
         else (case json_loads (last (solid_lines s)) of
             None \<Rightarrow> Inr (PStr [])
           | Some (PDict d) \<Rightarrow> Inr (dget_or d ''hmac'' (PStr []))
           | Some v \<Rightarrow> Inl (''AttributeError'', quoted (type_name v) @ '' object has no attribute '' @ quoted ''get''))))"

text \<open>\<open>gz\<close>: whether the file could be copied and removed.\<close>

definition maybe_rotate :: "bool \<Rightarrow> int \<Rightarrow> 'k alog \<Rightarrow> 'k alog" where
  "maybe_rotate gz today a = (case al_file a of None \<Rightarrow> a
     | Some s \<Rightarrow> if \<not> al_rotate a \<or> al_day a \<ge> today \<or> \<not> gz then a
         else a\<lparr>al_file := None, al_gz := dict_set (al_gz a) (al_day a) s\<rparr>)"

text \<open>What \<open>record\<close> is given: the instant and the local day, the values to mask, and its arguments.\<close>

record audit_event =
  ae_now :: int
  ae_today :: int
  ae_gz :: bool
  ae_known :: "string list"
  ae_actor :: string
  ae_action :: string
  ae_resource :: string
  ae_outcome :: string
  ae_meta :: dict

definition audit_fields :: "audit_event \<Rightarrow> dict" where
  "audit_fields e = [(''ts'', PStr (now_iso (ae_now e))), (''actor'', PStr (mask_text (ae_known e) (ae_actor e))),
     (''action'', PStr (mask_text (ae_known e) (ae_action e))), (''resource'', PStr (mask_text (ae_known e) (ae_resource e))),
     (''outcome'', PStr (if ae_outcome e \<in> set VALID_OUTCOMES then ae_outcome e else ''error'')),
     (''meta'', mask (ae_known e) (PDict (ae_meta e)))]"

definition record_line :: "dict \<Rightarrow> string" where
  "record_line r = json_print json_plain (sort_keys (PDict r)) @ [newline]"

definition append_text :: "int \<Rightarrow> string \<Rightarrow> 'k alog \<Rightarrow> 'k alog" where
  "append_text day s a = a\<lparr>al_file := Some ((case al_file a of None \<Rightarrow> [] | Some t \<Rightarrow> t) @ s), al_day := day\<rparr>"

text \<open>\<open>record\<close>: an exception on the way is logged and the record returned as far as it got.\<close>

definition audit_record :: "('k \<Rightarrow> string \<Rightarrow> string) \<Rightarrow> 'k \<Rightarrow> audit_event \<Rightarrow> 'k alog \<Rightarrow> dict \<times> 'k alog" where
  "audit_record hm fresh e a =
     (let r = audit_fields e; a1 = maybe_rotate (ae_gz e) (ae_today e) a in
      case last_hmac a1 of Inl x \<Rightarrow> (r, a1)
      | Inr prev \<Rightarrow> (let r1 = dict_set r ''prev'' prev in
         case audit_key fresh a1 of (key, a2) \<Rightarrow>
         (case audit_hmac hm key r1 of Inl x \<Rightarrow> (r1, a2)
          | Inr h \<Rightarrow> (let r2 = dict_set r1 ''hmac'' (PStr h) in (r2, append_text (ae_today e) (record_line r2) a2)))))"

subsection \<open>Readers\<close>

text \<open>The last \<open>n\<close> records: \<open>lines[-max(0, n):]\<close>, which for \<open>n\<close> at most 0 is all of them.\<close>

definition audit_tail :: "int \<Rightarrow> 'k alog \<Rightarrow> pyval list" where
  "audit_tail n a = (case al_file a of None \<Rightarrow> []
     | Some s \<Rightarrow> (let lines = filter (\<lambda>l. \<not> blank l) (splitlines False (universal_newlines s));
          m = nat (max 0 n) in
        List.map_filter json_loads (if m = 0 then lines else drop (length lines - m) lines)))"

definition iter_records :: "string option \<Rightarrow> pyval list" where
  "iter_records file = (case file of None \<Rightarrow> [] | Some s \<Rightarrow> List.map_filter json_loads (solid_lines s))"

definition rotated_name :: "int \<Rightarrow> string" where
  "rotated_name day = ''audit-'' @ iso_date (of_instant (day * day_us)) @ ''.jsonl.gz''"

definition rotated_files :: "'k alog \<Rightarrow> string list" where
  "rotated_files a = sort (map (\<lambda>(d, _). rotated_name d) (al_gz a))"

text \<open>\<open>hmac.compare_digest\<close> on strings: both must be ASCII.\<close>

definition compare_digest :: "string \<Rightarrow> pyval \<Rightarrow> exn + bool" where
  "compare_digest h v = (case v of
     PStr s \<Rightarrow> if is_ascii s then Inr (h = s) else Inl (''TypeError'', ''comparing strings with non-ASCII characters is not supported'')
   | _ \<Rightarrow> Inl (''TypeError'', ''unsupported operand types(s) or combination of types: '' @ quoted ''str'' @ '' and '' @ quoted (type_name v)))"

text \<open>The loop of \<open>verify_chain\<close>. \<open>jerr\<close> is the message of the JSON parser.\<close>

fun check_lines :: "('k \<Rightarrow> string \<Rightarrow> string) \<Rightarrow> (string \<Rightarrow> string) \<Rightarrow> 'k \<Rightarrow> nat \<Rightarrow> string \<Rightarrow> string list \<Rightarrow> exn + (bool \<times> nat option \<times> string)" where
  "check_lines hm jerr key i prev [] = Inr (True, None, [])"
| "check_lines hm jerr key i prev (line # lines) = (case json_loads line of
     None \<Rightarrow> Inr (False, Some i, ''line '' @ nat_str i @ '' is not valid JSON: '' @ jerr line)
   | Some (PDict d) \<Rightarrow>
       if dget_or d ''prev'' (PStr []) \<noteq> PStr prev
       then Inr (False, Some i, ''line '' @ nat_str i @ '' does not chain onto line '' @ nat_str (i - 1))
       else and_then (compare_digest (line_mac hm key (prev @ canonical d)) (dget_or d ''hmac'' (PStr []))) (\<lambda>same.
         if \<not> same then Inr (False, Some i, ''line '' @ nat_str i @ '' has a bad HMAC - content was altered'')
         else check_lines hm jerr key (Suc i) (line_mac hm key (prev @ canonical d)) lines)
   | Some v \<Rightarrow> Inl (''AttributeError'', quoted (type_name v) @ '' object has no attribute '' @ quoted ''get''))"

definition verify_chain :: "('k \<Rightarrow> string \<Rightarrow> string) \<Rightarrow> (string \<Rightarrow> string) \<Rightarrow> string option \<Rightarrow> 'k \<Rightarrow> exn + (bool \<times> nat option \<times> string)" where
  "verify_chain hm jerr file key = (case file of None \<Rightarrow> Inr (True, None, [])
     | Some s \<Rightarrow> check_lines hm jerr key 1 [] (solid_lines s))"

definition log_verify :: "('k \<Rightarrow> string \<Rightarrow> string) \<Rightarrow> (string \<Rightarrow> string) \<Rightarrow> 'k \<Rightarrow> 'k alog \<Rightarrow> (exn + (bool \<times> nat option \<times> string)) \<times> 'k alog" where
  "log_verify hm jerr fresh a = (case audit_key fresh a of (key, a1) \<Rightarrow> (verify_chain hm jerr (al_file a1) key, a1))"

text \<open>The process-wide log: built on first use and shared.\<close>

definition get_audit_log :: "'k alog \<Rightarrow> 'k alog option \<Rightarrow> 'k alog \<times> 'k alog option" where
  "get_audit_log fresh_log dflt = (case dflt of None \<Rightarrow> (fresh_log, Some fresh_log) | Some a \<Rightarrow> (a, Some a))"

definition shared_record :: "('k \<Rightarrow> string \<Rightarrow> string) \<Rightarrow> 'k \<Rightarrow> 'k alog \<Rightarrow> audit_event \<Rightarrow> 'k alog option \<Rightarrow> dict \<times> 'k alog option" where
  "shared_record hm fresh fresh_log e dflt = (case get_audit_log fresh_log dflt of (a, _) \<Rightarrow>
     (case audit_record hm fresh e a of (r, a') \<Rightarrow> (r, Some a')))"

subsection \<open>Texts of records\<close>

lemma set_join: "set (join sep xs) \<subseteq> set sep \<union> (\<Union>x\<in>set xs. set x)"
  by (induction sep xs rule: join.induct) auto

lemma int_str_printable: "c \<in> set (int_str n) \<Longrightarrow> 32 \<le> code c"
proof -
  have "32 \<le> code d" if "d \<in> set (nat_str m)" for d m
    using that nat_str_digits[of m] by (auto simp: list_all_iff is_digit_def)
  then show "c \<in> set (int_str n) \<Longrightarrow> 32 \<le> code c" by (auto simp: int_str_def code_def split: if_splits)
qed

lemma json_char_printable: "c \<in> set (json_char False d) \<Longrightarrow> 32 \<le> code c"
  by (auto simp: json_char_def Let_def hex2_def hex_digit_def code_def split: if_splits)

lemma json_text_printable: "c \<in> set (json_text False s) \<Longrightarrow> 32 \<le> code c"
  using json_char_printable by (auto simp: json_text_def) (simp_all add: code_def)

text \<open>The text of a value has no control characters: no line ends.\<close>

lemma json_printable: "Json.plain v \<Longrightarrow> c \<in> set (json_print json_plain v) \<Longrightarrow> 32 \<le> code c"
proof (induction v arbitrary: c)
  case (PList xs)
  then show ?case using set_join[of "'', ''" "map (json_print json_plain) xs"]
    by (auto simp: json_plain_def list_all_iff code_def)
next
  case (PDict d)
  let ?m = "\<lambda>(k, v). json_text False k @ '': '' @ json_print json_plain v"
  have "32 \<le> code e" if "(k, v) \<in> set d" "e \<in> set (?m (k, v))" for e k v
  proof -
    have "Json.plain v" using PDict.prems(1) that(1) by (auto simp: list_all_iff)
    then have "32 \<le> code e" if "e \<in> set (json_print json_plain v)" using PDict.IH[of "(k, v)" v e] that \<open>(k, v) \<in> set d\<close> by (simp add: snds.simps)
    then show ?thesis using that(2) json_text_printable[of e k] by (auto simp: code_def)
  qed
  then have e: "32 \<le> code e" if "x \<in> set (map ?m d)" "e \<in> set x" for e x using that by auto
  have "32 \<le> code e" if "e \<in> set (join '', '' (map ?m d))" for e
  proof -
    have "e \<in> set '', '' \<or> (\<exists>x\<in>set (map ?m d). e \<in> set x)" using that set_join by blast
    then show ?thesis
    proof
      assume "e \<in> set '', ''"
      then show ?thesis by (auto simp: code_def)
    qed (use e in blast)
  qed
  then show ?case using PDict.prems(2) by (auto simp: json_plain_def code_def)
qed (auto simp: int_str_printable[unfolded code_def] json_text_printable[unfolded code_def] json_plain_def code_def split: if_splits)

lemma plain_line_ends: "Json.plain v \<Longrightarrow> newline \<notin> set (json_print json_plain v) \<and> CHR 0x0D \<notin> set (json_print json_plain v)"
  using json_printable[of v newline] json_printable[of v "CHR 0x0D"] by (auto simp: newline_def code_def)

lemma file_lines_acc_line: "newline \<notin> set l \<Longrightarrow> file_lines_acc cur (l @ newline # s) = (rev cur @ l @ [newline]) # file_lines_acc [] s"
  by (induction l arbitrary: cur) auto

lemma plain_sorted: "Json.plain v \<Longrightarrow> Json.plain (sort_keys v)"
  by (rule plain_sort_keys)

lemma record_line_cr: "Json.plain (PDict r) \<Longrightarrow> CHR 0x0D \<notin> set (record_line r)"
  using plain_line_ends[OF plain_sorted] by (auto simp: record_line_def newline_def simp del: sort_keys.simps)

lemma record_line_solid: "\<not> blank (record_line r)"
proof -
  have "CHR ''{'' \<in> set (record_line r)" by (simp add: record_line_def)
  moreover have "\<not> is_space (CHR ''{'')" by (simp add: is_space_def code_def)
  moreover have "\<exists>x\<in>set (dropWhile is_space s). \<not> is_space x" if "\<exists>x\<in>set s. \<not> is_space x" for s
    using that by (induction s) auto
  ultimately have "\<exists>x\<in>set (lstrip (record_line r)). \<not> is_space x" unfolding lstrip_def by blast
  then have "dropWhile is_space (rev (lstrip (record_line r))) \<noteq> []" by auto
  then show ?thesis by (simp add: blank_def strip_def rstrip_def)
qed

text \<open>The lines of a text made of records.\<close>

definition text_of :: "dict list \<Rightarrow> string" where
  "text_of rs = concat (map record_line rs)"

lemma solid_lines_text [simp]:
  assumes "list_all (\<lambda>r. Json.plain (PDict r)) rs"
  shows "solid_lines (text_of rs) = map record_line rs"
proof -
  have "CHR 0x0D \<notin> set (text_of rs)" using assms record_line_cr by (induction rs) (auto simp: text_of_def)
  moreover have "file_lines_acc [] (text_of rs) = map record_line rs"
    using assms
  proof (induction rs)
    case (Cons r rs)
    have "newline \<notin> set (json_print json_plain (sort_keys (PDict r)))" using Cons.prems plain_line_ends[OF plain_sorted] by (simp del: sort_keys.simps)
    then show ?case using Cons file_lines_acc_line[of "json_print json_plain (sort_keys (PDict r))" "[]" "text_of rs"]
      by (simp add: text_of_def record_line_def del: sort_keys.simps)
  qed (simp add: text_of_def)
  ultimately show ?thesis by (simp add: solid_lines_def file_lines_def universal_newlines_id record_line_solid filter_id_conv)
qed

lemma loads_line [simp]: "Json.plain (PDict r) \<Longrightarrow> json_loads (record_line r) = Some (sort_keys (PDict r))"
proof -
  assume p: "Json.plain (PDict r)"
  let ?v = "sort_keys (PDict r)"
  let ?s = "json_print json_plain ?v"
  have v: "Json.plain ?v" by (rule plain_sorted[OF p])
  obtain c cs where c: "?s = c # cs" "\<not> is_ws c" using json_print_head[OF v] by blast
  have "json_value n (?s @ [newline]) = Some (?v, [newline])" if "fuel_of ?v \<le> n" for n
    by (rule reads_backD[OF json_reads_back[OF _ v]]) (use that in \<open>simp_all add: newline_def ends_number_def is_digit_def is_exp_def code_def\<close>)
  moreover have "fuel_of ?v \<le> 2 * length (?s @ [newline]) + 2" using fuel_enough[OF white_seps_opts(2) v] by simp
  ultimately have "json_value (2 * length (?s @ [newline]) + 2) (?s @ [newline]) = Some (?v, [newline])" by blast
  moreover have "skip_ws [newline] = []" "skip_ws (?s @ [newline]) = ?s @ [newline]"
    using c by (simp_all add: skip_ws_def newline_def is_ws_def code_def)
  ultimately show ?thesis by (simp add: json_loads_def record_line_def del: json_value.simps sort_keys.simps)
qed

subsection \<open>Sorting the keys changes nothing\<close>

definition sorted_dict :: "dict \<Rightarrow> dict" where
  "sorted_dict d = sort_key fst (map (\<lambda>(k, v). (k, sort_keys v)) d)"

lemma sort_keys_dict: "sort_keys (PDict d) = PDict (sorted_dict d)"
  by (simp add: sorted_dict_def)

lemma map_of_sorted_dict [simp]: "map_of (sorted_dict d) k = map_option sort_keys (map_of d k)"
  unfolding sorted_dict_def map_of_sorted by (induction d) auto

lemma sort_keys_idem [simp]: "sort_keys (sort_keys v) = sort_keys v"
proof (induction v)
  case (PDict d)
  let ?f = "\<lambda>(k, v). (k :: string, sort_keys v)"
  let ?s = "sort_key fst (map ?f d)"
  have "?f x = x" if "x \<in> set ?s" for x using that PDict by (auto simp: snds.simps)
  then have "map ?f ?s = ?s" by (rule map_idI)
  then show ?case by (simp add: sort_key_id_if_sorted)
qed auto

lemma hashed_sorted: "hashed (sorted_dict r) = map (\<lambda>(k, v). (k, sort_keys v)) (hashed r)"
proof -
  have "List.map_filter (\<lambda>k. map_option (Pair k) (map_option sort_keys (map_of r k))) ks =
      map (\<lambda>(k, v). (k, sort_keys v)) (List.map_filter (\<lambda>k. map_option (Pair k) (map_of r k)) ks)" for ks
    by (induction ks) (auto simp: split: option.splits)
  then show ?thesis by (simp add: hashed_def)
qed

lemma canonical_sorted [simp]: "canonical (sorted_dict r) = canonical r"
  by (simp add: canonical_def hashed_sorted comp_def case_prod_unfold)

lemma canonical_brace: "\<exists>cs. canonical r = CHR ''{'' # cs"
  by (simp add: canonical_def utf8_def utf8_char_def code_def)

lemma hashed_cong: "(\<And>k. k \<in> set HASHED_FIELDS \<Longrightarrow> map_of r k = map_of q k) \<Longrightarrow> canonical r = canonical q"
proof -
  assume a: "\<And>k. k \<in> set HASHED_FIELDS \<Longrightarrow> map_of r k = map_of q k"
  have "List.map_filter (\<lambda>k. map_option (Pair k) (map_of r k)) ks = List.map_filter (\<lambda>k. map_option (Pair k) (map_of q k)) ks"
    if "set ks \<subseteq> set HASHED_FIELDS" for ks using that a by (induction ks) (auto split: option.splits)
  then show ?thesis by (simp add: canonical_def hashed_def)
qed

lemma canonical_hmac [simp]: "canonical (dict_set r ''hmac'' v) = canonical r"
  by (rule hashed_cong) (auto simp: HASHED_FIELDS_def update_Some_unfold update_conv')

subsection \<open>The chain of a log\<close>

lemma hex2_no_brace: "n < 256 \<Longrightarrow> CHR ''{'' \<notin> set (hex2 n)"
proof -
  assume n: "n < 256"
  have h: "code (hex_digit k) < 103" if "k < 16" for k using that by (auto simp: hex_digit_def code_def)
  have "code c < 103" if "c \<in> set (hex2 n)" for c using that n h[of "n div 16"] h[of "n mod 16"] by (auto simp: hex2_def)
  moreover have "code (CHR ''{'') = 123" by (simp add: code_def)
  ultimately show ?thesis by fastforce
qed

lemma hexdigest_no_brace: "CHR ''{'' \<notin> set (hexdigest bs)"
  using hex2_no_brace by (auto simp: hexdigest_def)

lemma hexdigest_ascii [simp]: "is_ascii (hexdigest bs)"
proof -
  have "list_all (\<lambda>c. code c < 128) (hex2 n)" if "n < 256" for n using that by (auto simp: hex2_def hex_digit_def code_def)
  then show ?thesis unfolding is_ascii_def hexdigest_def by (induction bs) auto
qed

lemma brace_split: "CHR ''{'' \<notin> set p \<Longrightarrow> CHR ''{'' \<notin> set q \<Longrightarrow> p @ CHR ''{'' # c = q @ CHR ''{'' # d \<Longrightarrow> p = q \<and> c = d"
proof (induction p arbitrary: q)
  case Nil
  then show ?case by (cases q) auto
next
  case (Cons x p)
  then show ?case by (cases q) auto
qed

interpretation audit: hash_chain "line_mac hm key" "(@)" "[]" "\<lambda>t. CHR ''{'' \<notin> set t" "\<lambda>c. \<exists>cs. c = CHR ''{'' # cs" for hm key
proof
  fix m
  show "CHR ''{'' \<notin> set (line_mac hm key m)" by (simp add: line_mac_def hexdigest_no_brace)
next
  fix p q c d :: string
  assume a: "CHR ''{'' \<notin> set p" "CHR ''{'' \<notin> set q" "p @ c = q @ d" and "\<exists>cs. c = CHR ''{'' # cs" "\<exists>cs. d = CHR ''{'' # cs"
  then obtain x y where "c = CHR ''{'' # x" "d = CHR ''{'' # y" by blast
  then show "p = q \<and> c = d" using brace_split[OF a(1,2)] a(3) by simp
qed simp

text \<open>The bodies the verifier hashes, and the messages.\<close>

definition line_body :: "string \<Rightarrow> string option" where
  "line_body l = (case json_loads l of Some (PDict d) \<Rightarrow> Some (canonical d) | _ \<Rightarrow> None)"

definition line_bodies :: "string \<Rightarrow> string list" where
  "line_bodies s = List.map_filter line_body (solid_lines s)"

definition signed_messages :: "('k \<Rightarrow> string \<Rightarrow> string) \<Rightarrow> 'k \<Rightarrow> string \<Rightarrow> string list" where
  "signed_messages hm key s = chain_messages (line_mac hm key) (@) [] (line_bodies s)"

text \<open>The tag on the last line.\<close>

definition last_tag :: "string \<Rightarrow> pyval" where
  "last_tag s = (case json_loads (last (solid_lines s)) of Some (PDict d) \<Rightarrow> dget_or d ''hmac'' (PStr []) | _ \<Rightarrow> PNone)"

text \<open>The last line carries a valid tag for a message no log in \<open>logs\<close> ever hashed.\<close>

definition forged :: "('k \<Rightarrow> string \<Rightarrow> string) \<Rightarrow> 'k \<Rightarrow> string list \<Rightarrow> string \<Rightarrow> bool" where
  "forged hm key logs s = (let m = last (signed_messages hm key s) in
     last_tag s = PStr (line_mac hm key m) \<and> (\<forall>t\<in>set logs. m \<notin> set (signed_messages hm key t)))"

lemma bodies_brace: "list_all (\<lambda>c. \<exists>cs. c = CHR ''{'' # cs) (line_bodies s)"
proof -
  have "line_body l = Some c \<Longrightarrow> \<exists>cs. c = CHR ''{'' # cs" for l c
    using canonical_brace by (auto simp: line_body_def split: option.splits pyval.splits)
  then have "list_all (\<lambda>c. \<exists>cs. c = CHR ''{'' # cs) (List.map_filter line_body ls)" for ls
    by (induction ls) (auto simp: split: option.splits)
  then show ?thesis by (simp add: line_bodies_def)
qed

lemma check_lines_accepts:
  assumes "check_lines hm jerr key i p ls = Inr (True, n, r)" "ls \<noteq> []"
  shows "\<exists>d. json_loads (last ls) = Some (PDict d) \<and> List.map_filter line_body ls \<noteq> [] \<and>
    dget_or d ''hmac'' (PStr []) = PStr (line_mac hm key (last (chain_messages (line_mac hm key) (@) p (List.map_filter line_body ls))))"
  using assms
proof (induction ls arbitrary: i p)
  case (Cons l ls)
  obtain d where d: "json_loads l = Some (PDict d)" using Cons.prems(1) by (auto split: option.splits pyval.splits)
  let ?t = "line_mac hm key (p @ canonical d)"
  have b: "line_body l = Some (canonical d)" by (simp add: line_body_def d)
  have c: "dget_or d ''hmac'' (PStr []) = PStr ?t" "check_lines hm jerr key (Suc i) ?t ls = Inr (True, n, r)"
    using Cons.prems(1) d by (auto simp: and_then_def compare_digest_def split: if_splits pyval.splits sum.splits)
  show ?case
  proof (cases "ls = []")
    case True
    then show ?thesis using d b c(1) by simp
  next
    case False
    then show ?thesis using Cons.IH[OF c(2) False] b by (auto simp: chain_messages_Nil)
  qed
qed simp

lemma audit_prefix:
  assumes "verify_chain hm jerr (Some t) key = Inr (True, n, r)" "solid_lines t \<noteq> []" "\<not> forged hm key logs t"
  shows "\<exists>s\<in>set logs. prefix (line_bodies t) (line_bodies s) \<or>
    collides (line_mac hm key) [] (signed_messages hm key t) (signed_messages hm key s)"
proof -
  obtain d where d: "json_loads (last (solid_lines t)) = Some (PDict d)" "line_bodies t \<noteq> []"
      "dget_or d ''hmac'' (PStr []) = PStr (line_mac hm key (last (signed_messages hm key t)))"
    using check_lines_accepts[of hm jerr key 1 "[]" "solid_lines t" n r] assms(1,2)
    by (auto simp: verify_chain_def signed_messages_def line_bodies_def)
  then have "last_tag t = PStr (line_mac hm key (last (signed_messages hm key t)))" by (simp add: last_tag_def)
  then obtain s where s: "s \<in> set logs" "last (signed_messages hm key t) \<in> set (signed_messages hm key s)"
    using assms(3) by (auto simp: forged_def Let_def)
  then have "prefix (line_bodies t) (line_bodies s) \<or> collides (line_mac hm key) [] (signed_messages hm key t) (signed_messages hm key s)"
    unfolding signed_messages_def by (intro audit.prefix_or_collision bodies_brace d(2))
  then show ?thesis using s(1) by blast
qed

text \<open>C10: a file the verifier accepts is one the harness wrote, or the beginning of one: line for line the same hashed
  content, in the same order. Otherwise its last line carries a valid hash of a message the harness never hashed, or
  a message of the file and one of the harness are a collision of the hash function.\<close>

theorem audit_tamper_evident:
  assumes "verify_chain hm jerr (Some t) key = Inr (True, n, r)"
  shows "solid_lines t = [] \<or> forged hm key logs t \<or> (\<exists>s\<in>set logs. prefix (line_bodies t) (line_bodies s) \<or>
    collides (line_mac hm key) [] (signed_messages hm key t) (signed_messages hm key s))"
  using audit_prefix[OF assms] by blast

subsection \<open>The log the harness writes verifies\<close>

fun linked :: "('k \<Rightarrow> string \<Rightarrow> string) \<Rightarrow> 'k \<Rightarrow> string \<Rightarrow> dict list \<Rightarrow> bool" where
  "linked hm key p [] = True"
| "linked hm key p (r # rs) = (Json.plain (PDict r) \<and> map_of r ''prev'' = Some (PStr p) \<and>
     map_of r ''hmac'' = Some (PStr (line_mac hm key (p @ canonical r))) \<and> linked hm key (line_mac hm key (p @ canonical r)) rs)"

definition end_tag :: "('k \<Rightarrow> string \<Rightarrow> string) \<Rightarrow> 'k \<Rightarrow> string \<Rightarrow> dict list \<Rightarrow> string" where
  "end_tag hm key p rs = fold (\<lambda>r p. line_mac hm key (p @ canonical r)) rs p"

lemma linked_append: "linked hm key p (rs @ qs) = (linked hm key p rs \<and> linked hm key (end_tag hm key p rs) qs)"
  by (induction rs arbitrary: p) (auto simp: end_tag_def)

lemma linked_plain: "linked hm key p rs \<Longrightarrow> list_all (\<lambda>r. Json.plain (PDict r)) rs"
  by (induction rs arbitrary: p) auto

lemma linked_last: "linked hm key p rs \<Longrightarrow> rs \<noteq> [] \<Longrightarrow> map_of (last rs) ''hmac'' = Some (PStr (end_tag hm key p rs))"
  by (induction rs arbitrary: p) (auto simp: end_tag_def)

lemma check_linked: "linked hm key p rs \<Longrightarrow> check_lines hm jerr key i p (map record_line rs) = Inr (True, None, [])"
proof (induction rs arbitrary: i p)
  case (Cons r rs)
  then have "Json.plain (PDict r)" by simp
  then have "json_loads (record_line r) = Some (PDict (sorted_dict r))" by (simp only: loads_line sort_keys_dict)
  then show ?case using Cons by (simp add: dget_or_def and_then_def compare_digest_def line_mac_def)
qed simp

lemma verify_linked:
  assumes "linked hm key [] rs"
  shows "verify_chain hm jerr (Some (text_of rs)) key = Inr (True, None, [])"
  using check_linked[OF assms] solid_lines_text[OF linked_plain[OF assms]] by (simp add: verify_chain_def)

lemma bodies_text: "list_all (\<lambda>r. Json.plain (PDict r)) rs \<Longrightarrow> line_bodies (text_of rs) = map canonical rs"
proof -
  assume a: "list_all (\<lambda>r. Json.plain (PDict r)) rs"
  have b: "line_body (record_line r) = Some (canonical r)" if "Json.plain (PDict r)" for r
    using that by (simp add: line_body_def loads_line sort_keys_dict del: sort_keys.simps)
  have "List.map_filter line_body (map record_line rs) = map canonical rs" using a by (induction rs) (simp_all add: b)
  then show ?thesis using a by (simp add: line_bodies_def)
qed

text \<open>What a log that nothing else wrote to looks like: texts of linked records, under one key.\<close>

definition day_logs :: "'k alog \<Rightarrow> string list" where
  "day_logs a = (case al_file a of None \<Rightarrow> [] | Some s \<Rightarrow> [s]) @ map snd (al_gz a)"

definition log_inv :: "('k \<Rightarrow> string \<Rightarrow> string) \<Rightarrow> 'k \<Rightarrow> 'k \<Rightarrow> 'k alog \<Rightarrow> bool" where
  "log_inv hm fresh key a = (fst (audit_key fresh a) = key \<and> (\<forall>s\<in>set (day_logs a). \<exists>rs. s = text_of rs \<and> linked hm key [] rs))"

lemma mask_plain: "Json.plain v \<Longrightarrow> Json.plain (mask vals v)"
proof (induction v)
  case (PDict d)
  have "map fst (map (\<lambda>(k, v). (k, mask vals v)) d) = map fst d" by (induction d) auto
  then have "distinct (map fst (map (\<lambda>(k, v). (k, mask vals v)) d))" using PDict.prems by (simp only: plain.simps)
  moreover have "list_all (\<lambda>(k, v). Json.plain v) (map (\<lambda>(k, v). (k, mask vals v)) d)"
    using PDict by (fastforce simp: list_all_iff)
  ultimately show ?case by (simp only: mask.simps plain.simps)
qed (auto simp: list_all_iff)

lemma audit_key_stable [simp]: "fst (audit_key fresh (snd (audit_key fresh a))) = fst (audit_key fresh a)"
  by (auto simp: audit_key_def split: option.splits)

lemma audit_key_file [simp]: "al_file (snd (audit_key fresh a)) = al_file a" "al_gz (snd (audit_key fresh a)) = al_gz a"
  by (auto simp: audit_key_def split: option.splits)

lemma audit_key_frame [simp]: "fst (audit_key fresh (append_text day s a)) = fst (audit_key fresh a)"
  "fst (audit_key fresh (maybe_rotate gz today a)) = fst (audit_key fresh a)"
  by (auto simp: audit_key_def append_text_def maybe_rotate_def split: option.splits)

lemma audit_fields_plain: "Json.plain (PDict (ae_meta e)) \<Longrightarrow> Json.plain (PDict (audit_fields e))"
  using mask_plain[of "PDict (ae_meta e)" "ae_known e"] by (simp add: audit_fields_def del: mask.simps)

lemma is_ascii_tag [simp]: "is_ascii (line_mac hm key m)"
  by (simp add: line_mac_def)

lemma end_tag_ascii: "is_ascii (end_tag hm key [] rs)"
proof (induction rs rule: rev_induct)
  case Nil
  show ?case by (simp add: end_tag_def is_ascii_def)
qed (simp add: end_tag_def)

text \<open>The text the next record goes after.\<close>

definition text_now :: "'k alog \<Rightarrow> string" where
  "text_now a = (case al_file a of None \<Rightarrow> [] | Some s \<Rightarrow> s)"

lemma last_hmac_linked:
  assumes "al_file a = None \<and> rs = [] \<or> al_file a = Some (text_of rs)" "linked hm key [] rs"
  shows "last_hmac a = Inr (PStr (end_tag hm key [] rs))"
proof (cases "rs = []")
  case True
  then show ?thesis using assms(1) by (auto simp: last_hmac_def end_tag_def text_of_def solid_lines_def file_lines_def)
next
  case False
  have p: "Json.plain (PDict (last rs))" using linked_plain[OF assms(2)] False by (auto simp: list_all_iff)
  have "solid_lines (text_of rs) = map record_line rs" by (rule solid_lines_text[OF linked_plain[OF assms(2)]])
  moreover have "json_loads (record_line (last rs)) = Some (PDict (sorted_dict (last rs)))" using p by (simp only: loads_line sort_keys_dict)
  ultimately show ?thesis using assms(1) False linked_last[OF assms(2) False] by (simp add: last_hmac_def last_map dget_or_def)
qed

text \<open>One record: it extends the text by one linked line.\<close>

lemma audit_record_step:
  assumes "maybe_rotate (ae_gz e) (ae_today e) a = a1" "fst (audit_key fresh a) = key" "Json.plain (PDict (ae_meta e))"
    "al_file a1 = None \<and> rs = [] \<or> al_file a1 = Some (text_of rs)" "linked hm key [] rs"
  shows "\<exists>r. audit_record hm fresh e a = (r, append_text (ae_today e) (record_line r) (snd (audit_key fresh a1))) \<and>
    linked hm key [] (rs @ [r]) \<and> (\<forall>k \<in> set (map fst (audit_fields e)). map_of r k = map_of (audit_fields e) k)"
proof -
  let ?p = "end_tag hm key [] rs"
  let ?r1 = "dict_set (audit_fields e) ''prev'' (PStr ?p)"
  let ?r = "dict_set ?r1 ''hmac'' (PStr (line_mac hm key (?p @ canonical ?r1)))"
  obtain a2 where a2: "audit_key fresh a1 = (key, a2)" using assms(1,2) by (metis audit_key_frame(2) prod.collapse)
  have m: "map_of ?r1 ''prev'' = Some (PStr ?p)" by (simp add: update_conv')
  have "audit_hmac hm key ?r1 = Inr (line_mac hm key (?p @ canonical ?r1))"
    using m end_tag_ascii[of hm key rs] by (simp add: audit_hmac_def dget_or_def ascii_of_def need_attr_def and_then_def)
  then have 1: "audit_record hm fresh e a = (?r, append_text (ae_today e) (record_line ?r) a2)"
    using assms(1) last_hmac_linked[OF assms(4,5)] a2 by (simp add: audit_record_def Let_def)
  have "Json.plain (PDict ?r)" using audit_fields_plain[OF assms(3)]
    by (simp add: audit_fields_def)
  then have 2: "linked hm key [] (rs @ [?r])" using assms(5) m by (simp add: linked_append update_conv')
  have 3: "\<forall>k \<in> set (map fst (audit_fields e)). map_of ?r k = map_of (audit_fields e) k"
    by (auto simp: audit_fields_def update_conv')
  show ?thesis using 1 2 3 a2 by auto
qed

lemma append_logs: "day_logs (append_text d t a) = (text_now a @ t) # map snd (al_gz a)"
  by (simp add: day_logs_def append_text_def text_now_def)

lemma update_values: "(k, x) \<in> set (dict_set g d s) \<Longrightarrow> x = s \<or> (\<exists>k. (k, x) \<in> set g)"
  by (induction g) (auto split: if_splits)

lemma rotate_logs: "set (day_logs (maybe_rotate gz today a)) \<subseteq> set (day_logs a)"
proof
  fix x
  assume x: "x \<in> set (day_logs (maybe_rotate gz today a))"
  show "x \<in> set (day_logs a)"
  proof (cases "maybe_rotate gz today a = a")
    case False
    then obtain s where s: "al_file a = Some s" "maybe_rotate gz today a = a\<lparr>al_file := None, al_gz := dict_set (al_gz a) (al_day a) s\<rparr>"
      by (auto simp: maybe_rotate_def split: option.splits if_splits)
    then obtain k where "(k, x) \<in> set (dict_set (al_gz a) (al_day a) s)" using x by (auto simp: day_logs_def)
    then show ?thesis using update_values[of k x "al_day a"] s(1) by (force simp: day_logs_def)
  qed (use x in simp)
qed

lemma log_inv_step:
  assumes "log_inv hm fresh key a" "Json.plain (PDict (ae_meta e))"
  shows "log_inv hm fresh key (snd (audit_record hm fresh e a))"
proof -
  define a1 where "a1 = maybe_rotate (ae_gz e) (ae_today e) a"
  have k: "fst (audit_key fresh a) = key" using assms(1) by (simp add: log_inv_def)
  have logs: "\<exists>rs. s = text_of rs \<and> linked hm key [] rs" if "s \<in> set (day_logs a1)" for s
    using that assms(1) rotate_logs a1_def unfolding log_inv_def by blast
  obtain rs where rs: "al_file a1 = None \<and> rs = [] \<or> al_file a1 = Some (text_of rs)" "linked hm key [] rs"
  proof (cases "al_file a1")
    case None
    then show ?thesis using that[of "[]"] by simp
  next
    case (Some s)
    then have "s \<in> set (day_logs a1)" by (simp add: day_logs_def)
    then show ?thesis using logs that Some by blast
  qed
  obtain r where r: "audit_record hm fresh e a = (r, append_text (ae_today e) (record_line r) (snd (audit_key fresh a1)))"
      "linked hm key [] (rs @ [r])"
    using audit_record_step[where hm = hm and a = a and e = e and fresh = fresh and key = key and rs = rs and ?a1.0 = a1] a1_def k assms(2) rs by auto
  have t: "text_now (snd (audit_key fresh a1)) @ record_line r = text_of (rs @ [r])"
    using rs(1) by (auto simp: text_now_def text_of_def)
  have g: "\<exists>rs. s = text_of rs \<and> linked hm key [] rs" if "s \<in> snd ` set (al_gz a1)" for s
    using logs that by (simp add: day_logs_def)
  have "\<exists>rs. s = text_of rs \<and> linked hm key [] rs" if "s \<in> set (day_logs (snd (audit_record hm fresh e a)))" for s
  proof -
    have "s = text_of (rs @ [r]) \<or> s \<in> snd ` set (al_gz a1)" using that by (simp add: r(1) append_logs t)
    then show ?thesis using g r(2) by blast
  qed
  moreover have "fst (audit_key fresh (snd (audit_record hm fresh e a))) = key" using k by (simp add: r(1) a1_def)
  ultimately show ?thesis unfolding log_inv_def by blast
qed

definition audit_run :: "('k \<Rightarrow> string \<Rightarrow> string) \<Rightarrow> 'k \<Rightarrow> audit_event list \<Rightarrow> 'k alog \<Rightarrow> 'k alog" where
  "audit_run hm fresh es a = fold (\<lambda>e a. snd (audit_record hm fresh e a)) es a"

lemma log_inv_run:
  assumes "\<forall>e\<in>set es. Json.plain (PDict (ae_meta e))"
  shows "log_inv hm fresh key a \<Longrightarrow> log_inv hm fresh key (audit_run hm fresh es a)"
  using assms
proof (induction es arbitrary: a)
  case (Cons e es)
  then show ?case using log_inv_step[of hm fresh key a e] by (simp add: audit_run_def)
qed (simp add: audit_run_def)

lemma log_inv_new: "log_inv hm fresh (case kf of None \<Rightarrow> fresh | Some k \<Rightarrow> k) (new_log None day kf daily)"
  by (simp add: log_inv_def new_log_def day_logs_def audit_key_def split: option.splits)


subsection \<open>Nothing recorded is lost\<close>

text \<open>The record \<open>v\<close> of a log tells the event \<open>e\<close>.\<close>

definition tells :: "audit_event \<Rightarrow> pyval \<Rightarrow> bool" where
  "tells e v = (\<exists>d. v = PDict d \<and> (\<forall>k \<in> set (map fst (audit_fields e)). map_of d k = map_option sort_keys (map_of (audit_fields e) k)))"

lemma iter_text:
  assumes "list_all (\<lambda>r. Json.plain (PDict r)) rs"
  shows "iter_records (Some (text_of rs)) = map (\<lambda>r. PDict (sorted_dict r)) rs"
proof -
  have "json_loads (record_line r) = Some (PDict (sorted_dict r))" if "Json.plain (PDict r)" for r
    using that by (simp only: loads_line sort_keys_dict)
  then have "List.map_filter json_loads (map record_line rs) = map (\<lambda>r. PDict (sorted_dict r)) rs"
    using assms by (induction rs) simp_all
  then show ?thesis using solid_lines_text[OF assms] by (simp add: iter_records_def)
qed

lemma run_undated:
  assumes "\<forall>e\<in>set es. Json.plain (PDict (ae_meta e))" "fst (audit_key fresh a) = key" "\<not> al_rotate a"
    "al_file a = None \<and> rs = [] \<or> al_file a = Some (text_of rs)" "linked hm key [] rs"
  shows "\<exists>qs. (al_file (audit_run hm fresh es a) = None \<and> rs @ qs = [] \<or> al_file (audit_run hm fresh es a) = Some (text_of (rs @ qs))) \<and>
    linked hm key [] (rs @ qs) \<and> list_all2 (\<lambda>e r. \<forall>k \<in> set (map fst (audit_fields e)). map_of r k = map_of (audit_fields e) k) es qs"
  using assms
proof (induction es arbitrary: a rs)
  case Nil
  then show ?case by (intro exI[of _ "[]"]) (simp add: audit_run_def)
next
  case (Cons e es)
  have n: "maybe_rotate (ae_gz e) (ae_today e) a = a" using Cons.prems(3) by (simp add: maybe_rotate_def split: option.splits)
  obtain r where r: "audit_record hm fresh e a = (r, append_text (ae_today e) (record_line r) (snd (audit_key fresh a)))"
      "linked hm key [] (rs @ [r])" "\<forall>k \<in> set (map fst (audit_fields e)). map_of r k = map_of (audit_fields e) k"
    using audit_record_step[OF n Cons.prems(2) _ Cons.prems(4,5)] Cons.prems(1) by auto
  let ?b = "append_text (ae_today e) (record_line r) (snd (audit_key fresh a))"
  have "al_file ?b = Some (text_of (rs @ [r]))" using Cons.prems(4) by (auto simp: append_text_def text_of_def)
  moreover have "\<not> al_rotate ?b" using Cons.prems(3) by (simp add: append_text_def audit_key_def split: option.splits)
  ultimately obtain qs where qs: "al_file (audit_run hm fresh es ?b) = Some (text_of ((rs @ [r]) @ qs))" "linked hm key [] ((rs @ [r]) @ qs)"
      "list_all2 (\<lambda>e r. \<forall>k \<in> set (map fst (audit_fields e)). map_of r k = map_of (audit_fields e) k) es qs"
    using Cons.IH[of ?b "rs @ [r]"] Cons.prems(1,2) r(2) by auto
  then show ?case using r by (intro exI[of _ "r # qs"]) (simp add: audit_run_def)
qed

text \<open>Without rotation the log lists exactly the events recorded, in order, each with its masked fields.\<close>

theorem audit_lists_events:
  assumes "\<forall>e\<in>set es. Json.plain (PDict (ae_meta e))"
  shows "list_all2 tells es (iter_records (al_file (audit_run hm fresh es (new_log None day kf False))))"
proof -
  let ?a = "new_log None day kf False" and ?key = "case kf of None \<Rightarrow> fresh | Some k \<Rightarrow> k"
  have "fst (audit_key fresh ?a) = ?key" "\<not> al_rotate ?a" "al_file ?a = None"
    by (simp_all add: new_log_def audit_key_def split: option.splits)
  then obtain qs where qs: "al_file (audit_run hm fresh es ?a) = None \<and> qs = [] \<or> al_file (audit_run hm fresh es ?a) = Some (text_of qs)"
      "linked hm ?key [] qs" "list_all2 (\<lambda>e r. \<forall>k \<in> set (map fst (audit_fields e)). map_of r k = map_of (audit_fields e) k) es qs"
    using run_undated[OF assms, of fresh ?a ?key "[]" hm] by auto
  have "list_all2 tells es (map (\<lambda>r. PDict (sorted_dict r)) qs)"
    using qs(3) by (auto simp: list_all2_map2 tells_def elim!: list_all2_mono)
  moreover have "iter_records (al_file (audit_run hm fresh es ?a)) = map (\<lambda>r. PDict (sorted_dict r)) qs"
    using qs(1) iter_text[OF linked_plain[OF qs(2)]] by (auto simp: iter_records_def)
  ultimately show ?thesis by simp
qed

subsection \<open>What the log does not show\<close>

text \<open>Cutting lines off the end goes unnoticed.\<close>

lemma truncation_undetected: "linked hm key [] (rs @ qs) \<Longrightarrow> verify_chain hm jerr (Some (text_of rs)) key = Inr (True, None, [])"
  using verify_linked[of hm key rs] by (simp add: linked_append)

text \<open>Fields outside \<open>HASHED_FIELDS\<close> can be added to any line.\<close>

lemma extra_field_undetected:
  assumes "linked hm key p (r # rs)" "k \<notin> set HASHED_FIELDS" "k \<noteq> ''hmac''" "Json.plain v"
  shows "linked hm key p (dict_set r k v # rs)"
proof -
  have c: "canonical (dict_set r k v) = canonical r"
    by (rule hashed_cong) (use assms(2) in \<open>auto simp: update_conv'\<close>)
  have "k \<noteq> ''prev''" using assms(2) by (auto simp: HASHED_FIELDS_def)
  moreover have "Json.plain (PDict (dict_set r k v))"
  proof -
    have "(j, x) \<in> set (dict_set r k v) \<Longrightarrow> x = v \<or> (j, x) \<in> set r" for j x by (induction r) (auto split: if_splits)
    then show ?thesis using assms(1,4) by (fastforce simp: list_all_iff distinct_update)
  qed
  ultimately show ?thesis using assms(1,3) by (simp add: c update_conv')
qed

text \<open>\<open>tail(0)\<close> is everything, not nothing.\<close>

lemma tail_zero_is_everything:
  "al_file a = Some s \<Longrightarrow> audit_tail 0 a = List.map_filter json_loads (filter (\<lambda>l. \<not> blank l) (splitlines False (universal_newlines s)))"
  by (simp add: audit_tail_def)

text \<open>A record that follows a line cut off in the middle of a write is glued to it, and lost with it.\<close>

lemma torn_tail_glues:
  assumes "al_file a = Some t" "\<not> al_rotate a" "last_hmac a = Inr (PStr [])"
  shows "\<exists>r. al_file (snd (audit_record hm fresh e a)) = Some (t @ record_line r)"
proof -
  have n: "maybe_rotate (ae_gz e) (ae_today e) a = a" using assms(2) by (simp add: maybe_rotate_def split: option.splits)
  obtain key a2 where k: "audit_key fresh a = (key, a2)" by fastforce
  have "al_file a2 = Some t" using k assms(1) audit_key_file(1)[of fresh a] by simp
  then show ?thesis using n assms(3) k
    by (auto simp: audit_record_def Let_def audit_hmac_def dget_or_def ascii_of_def need_attr_def and_then_def is_ascii_def update_conv' append_text_def)
qed

text \<open>A last line that is JSON but no object silences the log: nothing is recorded any more.\<close>

lemma foreign_tail_silences:
  assumes "al_file a = Some t" "\<not> al_rotate a" "solid_lines t \<noteq> []" "json_loads (last (solid_lines t)) = Some (PList xs)"
  shows "snd (audit_record hm fresh e a) = a"
  using assms by (simp add: audit_record_def maybe_rotate_def last_hmac_def Let_def)

subsection \<open>Witnesses\<close>

definition demo_hm :: "nat \<Rightarrow> string \<Rightarrow> string" where
  "demo_hm k m = char_of k # m"

definition demo_event :: "string \<Rightarrow> audit_event" where
  "demo_event action = \<lparr>ae_now = 1735689600000000, ae_today = 20089, ae_gz = True, ae_known = [''hunter2!''], ae_actor = ''task-1'',
     ae_action = action, ae_resource = ''pw=hunter2!'', ae_outcome = ''ok'', ae_meta = [(''pid'', PInt 7)]\<rparr>"


theorem audit_lists_events_witness:
  "list_all2 tells [demo_event ''kill'', demo_event ''stop'']
     (iter_records (al_file (audit_run demo_hm 66 [demo_event ''kill'', demo_event ''stop''] (new_log None 20089 (Some 65) False))))"
  using audit_lists_events[of "[demo_event ''kill'', demo_event ''stop'']" demo_hm 66 20089 "Some 65"] by (simp add: demo_event_def)

text \<open>A log of one linked record, and the log of two it was cut from.\<close>

definition demo_record :: "string \<Rightarrow> string \<Rightarrow> dict" where
  "demo_record prev action = (let r = [(''action'', PStr action), (''prev'', PStr prev)] in
     r @ [(''hmac'', PStr (line_mac demo_hm 65 (prev @ canonical r)))])"

lemma demo_linked: "linked demo_hm 65 p [demo_record p x]"
proof -
  have "canonical (demo_record p x) = canonical [(''action'', PStr x), (''prev'', PStr p)]"
    by (rule hashed_cong) (auto simp: demo_record_def Let_def HASHED_FIELDS_def)
  then show ?thesis by (simp add: demo_record_def Let_def)
qed

definition demo_log :: string where
  "demo_log = text_of [demo_record [] ''a'', demo_record (end_tag demo_hm 65 [] [demo_record [] ''a'']) ''b'']"

theorem audit_tamper_evident_witness:
  "verify_chain demo_hm (\<lambda>_. []) (Some (text_of [demo_record [] ''a''])) 65 = Inr (True, None, []) \<and>
    (solid_lines (text_of [demo_record [] ''a'']) = [] \<or> forged demo_hm 65 [demo_log] (text_of [demo_record [] ''a'']) \<or>
     prefix (line_bodies (text_of [demo_record [] ''a''])) (line_bodies demo_log) \<or>
     collides (line_mac demo_hm 65) [] (signed_messages demo_hm 65 (text_of [demo_record [] ''a''])) (signed_messages demo_hm 65 demo_log))"
  using verify_linked[OF demo_linked, of "\<lambda>_. []" "''a''"]
    audit_tamper_evident[of demo_hm "\<lambda>_. []" "text_of [demo_record [] ''a'']" 65 None "[]" "[demo_log]"]
  by simp

end
