(* ===== verification/Metrics.thy ===== *)
theory Metrics
  imports Host
begin

text \<open>
  \<open>agent/metrics.py\<close>: the collector of counters and latencies, its snapshot, its rendering for Prometheus, and how the
  metrics server answers a request. The clock is an argument of each operation; a gauge is pulled when a snapshot is
  taken, \<open>None\<close> where the provider raises or gives no number. What \<open>urlparse\<close> and \<open>parse_qs\<close> make of a request is
  given to the server's answer.
\<close>

subsection \<open>The collector\<close>

definition LATENCY_WINDOW :: nat where "LATENCY_WINDOW = 1024"

definition LATENCY_FAMILIES :: "string list" where "LATENCY_FAMILIES = [''poll_to_start'', ''start_to_complete'']"

definition NAMED_COUNTERS :: "string list" where
  "NAMED_COUNTERS = [''tasks_total'', ''shell_bytes_streamed'', ''chunks_pushed'', ''retries_total'']"

definition GAUGE_NAMES :: "string list" where
  "GAUGE_NAMES = [''queue_depth'', ''active_sessions'', ''active_watches'', ''active_tasks'']"

definition percentile :: "rat list \<Rightarrow> rat \<Rightarrow> rat" where
  "percentile samples fraction = (case sort samples of [] \<Rightarrow> 0 | [x] \<Rightarrow> x
     | xs \<Rightarrow> xs ! nat (max 0 (min (int (length xs) - 1) \<lfloor>py_round 0 (fraction * (of_nat (length xs) - 1))\<rfloor>)))"

record timer =
  tm_observed :: rat
  tm_started :: "rat option"

record metrics =
  m_enabled :: bool
  m_counters :: "(string \<times> int) list"
  m_by_kind :: "(string \<times> int) list"
  m_by_status :: "(string \<times> int) list"
  m_waits :: "rat list"
  m_runs :: "rat list"
  m_timers :: "(string \<times> timer) list"
  m_gauges :: "string list"
  m_static :: "(string \<times> int) list"

definition new_metrics :: "bool \<Rightarrow> metrics" where
  "new_metrics enabled = \<lparr>m_enabled = enabled, m_counters = [], m_by_kind = [], m_by_status = [], m_waits = [], m_runs = [],
     m_timers = [], m_gauges = [], m_static = []\<rparr>"

definition tally :: "(string \<times> int) list \<Rightarrow> string \<Rightarrow> int" where
  "tally d k = (case map_of d k of None \<Rightarrow> 0 | Some n \<Rightarrow> n)"

definition bump :: "string \<Rightarrow> int \<Rightarrow> (string \<times> int) list \<Rightarrow> (string \<times> int) list" where
  "bump k n d = dict_set d k (tally d k + n)"

text \<open>\<open>append\<close> to a \<open>deque\<close> with a maximal length.\<close>

definition push_sample :: "rat \<Rightarrow> rat list \<Rightarrow> rat list" where
  "push_sample x xs = (let ys = xs @ [x] in drop (length ys - LATENCY_WINDOW) ys)"

definition given_kind :: "string option \<Rightarrow> (string \<times> int) list \<Rightarrow> (string \<times> int) list" where
  "given_kind kind d = (case kind of None \<Rightarrow> d | Some k \<Rightarrow> if k = [] then d else bump k 1 d)"

definition task_observed :: "rat \<Rightarrow> string \<Rightarrow> metrics \<Rightarrow> metrics" where
  "task_observed now i m = (if \<not> m_enabled m then m
     else m\<lparr>m_timers := dict_set (m_timers m) i \<lparr>tm_observed = now, tm_started = None\<rparr>\<rparr>)"

definition task_started :: "rat \<Rightarrow> string \<Rightarrow> string option \<Rightarrow> metrics \<Rightarrow> metrics" where
  "task_started now i kind m = (if \<not> m_enabled m then m
     else (let seen = (case map_of (m_timers m) i of None \<Rightarrow> now | Some t \<Rightarrow> tm_observed t) in
       m\<lparr>m_timers := dict_set (m_timers m) i \<lparr>tm_observed = seen, tm_started = Some now\<rparr>,
         m_waits := push_sample (max 0 (now - seen)) (m_waits m), m_by_kind := given_kind kind (m_by_kind m)\<rparr>))"

definition task_completed :: "rat \<Rightarrow> string \<Rightarrow> string \<Rightarrow> string option \<Rightarrow> metrics \<Rightarrow> metrics" where
  "task_completed now i status kind m = (if \<not> m_enabled m then m
     else (let timer = map_of (m_timers m) i in
       m\<lparr>m_timers := dict_del (m_timers m) i,
         m_runs := (case Option.bind timer tm_started of None \<Rightarrow> m_runs m | Some t \<Rightarrow> push_sample (max 0 (now - t)) (m_runs m)),
         m_counters := bump ''tasks_total'' 1 (m_counters m), m_by_status := bump status 1 (m_by_status m),
         m_by_kind := (if timer = None then given_kind kind (m_by_kind m) else m_by_kind m)\<rparr>))"

definition incr :: "string \<Rightarrow> int \<Rightarrow> metrics \<Rightarrow> metrics" where
  "incr name n m = (if \<not> m_enabled m then m else m\<lparr>m_counters := bump name n (m_counters m)\<rparr>)"

definition chunk_pushed :: "int \<Rightarrow> metrics \<Rightarrow> metrics" where
  "chunk_pushed n m = (if \<not> m_enabled m then m
     else m\<lparr>m_counters := (let d = bump ''chunks_pushed'' 1 (m_counters m) in if n = 0 then d else bump ''shell_bytes_streamed'' n d)\<rparr>)"

definition retry_attempted :: "metrics \<Rightarrow> metrics" where
  "retry_attempted m = incr ''retries_total'' 1 m"

definition register_gauge :: "string \<Rightarrow> metrics \<Rightarrow> metrics" where
  "register_gauge name m = m\<lparr>m_gauges := (if name \<in> set (m_gauges m) then m_gauges m else m_gauges m @ [name])\<rparr>"

definition set_gauge :: "string \<Rightarrow> int \<Rightarrow> metrics \<Rightarrow> metrics" where
  "set_gauge name v m = (if \<not> m_enabled m then m else m\<lparr>m_static := dict_set (m_static m) name v\<rparr>)"

definition reset :: "metrics \<Rightarrow> metrics" where
  "reset m = m\<lparr>m_counters := [], m_by_kind := [], m_by_status := [], m_static := [], m_timers := [], m_waits := [], m_runs := []\<rparr>"

subsection \<open>Reports\<close>

definition int_dict :: "(string \<times> int) list \<Rightarrow> pyval" where
  "int_dict d = PDict (map (\<lambda>(k, n). (k, PInt n)) d)"

definition latency_dict :: "rat list \<Rightarrow> dict" where
  "latency_dict xs = [(''count'', PInt (int (length xs))), (''p50'', PFloat (py_round 6 (percentile xs (1/2)))),
     (''p95'', PFloat (py_round 6 (percentile xs (19/20)))), (''p99'', PFloat (py_round 6 (percentile xs (99/100))))]"

definition pulled :: "(string \<Rightarrow> int option) \<Rightarrow> metrics \<Rightarrow> (string \<times> int) list" where
  "pulled provide m = fold (\<lambda>name d. dict_set d name (case provide name of None \<Rightarrow> -1 | Some n \<Rightarrow> n)) (m_gauges m) (m_static m)"

definition set_default :: "string \<Rightarrow> pyval \<Rightarrow> dict \<Rightarrow> dict" where
  "set_default k v d = (if has_key d k then d else dict_set d k v)"

definition snapshot :: "(string \<Rightarrow> int option) \<Rightarrow> metrics \<Rightarrow> dict" where
  "snapshot provide m =
     (let gauges = pulled provide m; c = m_counters m;
          doc0 = [(''enabled'', PBool (m_enabled m)), (''tasks_total'', PInt (tally c ''tasks_total'')), (''tasks_by_kind'', int_dict (m_by_kind m)),
            (''tasks_by_status'', int_dict (m_by_status m)), (''shell_bytes_streamed'', PInt (tally c ''shell_bytes_streamed'')),
            (''chunks_pushed'', PInt (tally c ''chunks_pushed'')), (''retries_total'', PInt (tally c ''retries_total''))];
          doc1 = fold (\<lambda>(name, v) d. if name \<in> set NAMED_COUNTERS then d else dict_set d name (PInt v)) c doc0;
          doc2 = fold (\<lambda>name d. dict_set d name (PInt (tally gauges name))) GAUGE_NAMES doc1;
          doc3 = fold (\<lambda>(name, v) d. set_default name (PInt v) d) gauges doc2 in
      dict_set (dict_set doc3 ''latency_poll_to_start'' (PDict (latency_dict (m_waits m))))
        ''latency_start_to_complete'' (PDict (latency_dict (m_runs m))))"

definition emit_metric :: "string \<Rightarrow> string \<Rightarrow> string \<Rightarrow> pyval \<Rightarrow> string list" where
  "emit_metric name kind help v = [''# HELP '' @ name @ '' '' @ help, ''# TYPE '' @ name @ '' '' @ kind, name @ '' '' @ py_str v]"

definition spaced :: "string \<Rightarrow> string" where
  "spaced = map (\<lambda>c. if c = CHR ''_'' then CHR '' '' else c)"

definition labelled :: "string \<Rightarrow> string \<Rightarrow> string \<times> pyval \<Rightarrow> string" where
  "labelled name label = (\<lambda>(k, v). name @ ''{'' @ label @ ''='' @ [CHR 0x22] @ k @ [CHR 0x22] @ ''} '' @ py_str v)"

definition label_block :: "string \<Rightarrow> string \<Rightarrow> string \<Rightarrow> pyval \<Rightarrow> exn + string list" where
  "label_block name label help v = (if \<not> truthy v then Inr [] else case v of
       PDict d \<Rightarrow> Inr ([''# HELP '' @ name @ '' '' @ help, ''# TYPE '' @ name @ '' counter''] @ map (labelled name label) (sort_key fst d))
     | _ \<Rightarrow> Inl (''AttributeError'', quoted (type_name v) @ '' object has no attribute '' @ quoted ''items''))"

definition latency_block :: "dict \<Rightarrow> string \<Rightarrow> string list" where
  "latency_block doc family =
     (let bucket = pdict_items (dget doc (''latency_'' @ family)); name = ''iddo_harness_latency_'' @ family @ ''_seconds'' in
      [''# HELP '' @ name @ '' Task '' @ spaced family @ '' latency.'', ''# TYPE '' @ name @ '' summary''] @
      map (\<lambda>q. name @ ''{quantile='' @ [CHR 0x22] @ ''0.'' @ q @ [CHR 0x22] @ ''} '' @ py_str (dget bucket (''p'' @ q))) [''50'', ''95'', ''99''] @
      [name @ ''_count '' @ py_str (dget bucket ''count'')])"

definition prometheus :: "(string \<Rightarrow> int option) \<Rightarrow> metrics \<Rightarrow> exn + string" where
  "prometheus provide m = (let doc = snapshot provide m in
     and_then (label_block ''iddo_harness_tasks_by_kind'' ''kind'' ''Tasks seen, by kind.'' (dget doc ''tasks_by_kind'')) (\<lambda>kinds.
     and_then (label_block ''iddo_harness_tasks_by_status'' ''status'' ''Tasks by terminal status.'' (dget doc ''tasks_by_status'')) (\<lambda>statuses.
       Inr (join [newline]
         (emit_metric ''iddo_harness_tasks_total'' ''counter'' ''Tasks that reached a terminal state.'' (dget doc ''tasks_total'') @ kinds @ statuses @
          emit_metric ''iddo_harness_shell_bytes_streamed'' ''counter'' ''Bytes of shell output streamed to consumers.'' (dget doc ''shell_bytes_streamed'') @
          emit_metric ''iddo_harness_chunks_pushed'' ''counter'' ''Result chunks written to a transport.'' (dget doc ''chunks_pushed'') @
          emit_metric ''iddo_harness_retries_total'' ''counter'' ''Task attempts beyond the first.'' (dget doc ''retries_total'') @
          concat (map (\<lambda>name. emit_metric (''iddo_harness_'' @ name) ''gauge'' (''Current '' @ spaced name @ ''.'') (dget_or doc name (PInt 0))) GAUGE_NAMES) @
          concat (map (latency_block doc) LATENCY_FAMILIES)) @ [newline]))))"

subsection \<open>The server\<close>

datatype metrics_body = LocalOnly | NotFound | HealthBody rat string | TextBody "exn + string" | JsonBody dict

text \<open>\<open>path.rstrip("/") or "/"\<close>.\<close>

definition route_of :: "string \<Rightarrow> string" where
  "route_of path = (let r = rstrip_char (CHR ''/'') path in if r = [] then ''/'' else r)"

definition metrics_reply :: "(string \<Rightarrow> int option) \<Rightarrow> rat \<Rightarrow> string \<Rightarrow> metrics \<Rightarrow> string \<Rightarrow> string \<Rightarrow> string list \<Rightarrow> nat \<times> metrics_body" where
  "metrics_reply provide uptime version m peer path formats =
     (if peer \<notin> {''127.0.0.1'', ''::1''} then (403, LocalOnly)
      else if route_of path = ''/health'' then (200, HealthBody (py_round 3 uptime) version)
      else if route_of path \<noteq> ''/metrics'' then (404, NotFound)
      else if (case formats of [] \<Rightarrow> ''json'' | f # _ \<Rightarrow> f) \<in> {''prom'', ''prometheus'', ''text''} then (200, TextBody (prometheus provide m))
      else (200, JsonBody (snapshot provide m)))"

subsection \<open>Percentiles\<close>

lemma py_round_mono:
  assumes "x \<le> y" shows "py_round n x \<le> py_round n y"
proof -
  define r where "r = (\<lambda>z :: rat. let f = \<lfloor>z\<rfloor>; d = z - of_int f in if d < 1/2 \<or> (d = 1/2 \<and> even f) then f else f + 1)"
  have r: "r a \<le> r b" if "a \<le> b" for a b
  proof (cases "\<lfloor>a\<rfloor> = \<lfloor>b\<rfloor>")
    case True
    then show ?thesis using that by (auto simp: r_def Let_def)
  next
    case False
    then have "\<lfloor>a\<rfloor> + 1 \<le> \<lfloor>b\<rfloor>"
      using floor_mono[OF that] by linarith
    then show ?thesis by (auto simp: r_def Let_def)
  qed
  have "py_round n z = of_int (r (z * 10 ^ n)) / 10 ^ n" for z
    by (simp add: py_round_def r_def Let_def)
  moreover have "r (x * 10 ^ n) \<le> r (y * 10 ^ n)"
    using assms by (intro r mult_right_mono) simp_all
  ultimately show ?thesis by (simp add: divide_right_mono)
qed

lemma percentile_nth:
  assumes "xs \<noteq> []"
  shows "percentile xs f = sort xs ! nat (max 0 (min (int (length xs) - 1) \<lfloor>py_round 0 (f * (of_nat (length xs) - 1))\<rfloor>))"
proof -
  obtain y ys where s: "sort xs = y # ys" "length xs = length (y # ys)"
    using assms by (metis length_sort list.exhaust set_empty set_sort)
  show ?thesis
    by (cases ys) (simp_all add: percentile_def s(1), simp_all add: s(2))
qed

lemma percentile_mem: "xs \<noteq> [] \<Longrightarrow> percentile xs f \<in> set xs"
proof -
  assume "xs \<noteq> []"
  moreover from this have "nat (max 0 (min (int (length xs) - 1) n)) < length (sort xs)" for n
    by (cases xs) (auto simp: min_def max_def)
  ultimately show ?thesis
    unfolding percentile_nth[OF \<open>xs \<noteq> []\<close>] by (metis nth_mem set_sort)
qed

lemma percentile_mono:
  assumes "f \<le> g" shows "percentile xs f \<le> percentile xs g"
proof (cases "xs = []")
  case False
  define n where "n = length xs"
  have n: "0 < n" using False by (simp add: n_def)
  have "f * (of_nat n - 1) \<le> g * (of_nat n - 1)"
    using assms n by (intro mult_right_mono) simp_all
  then have "\<lfloor>py_round 0 (f * (of_nat n - 1))\<rfloor> \<le> \<lfloor>py_round 0 (g * (of_nat n - 1))\<rfloor>"
    by (intro floor_mono py_round_mono)
  then have "nat (max 0 (min (int n - 1) \<lfloor>py_round 0 (f * (of_nat n - 1))\<rfloor>)) \<le> nat (max 0 (min (int n - 1) \<lfloor>py_round 0 (g * (of_nat n - 1))\<rfloor>))"
    by (intro nat_mono max.mono min.mono order_refl)
  moreover have "nat (max 0 (min (int n - 1) k)) < length (sort xs)" for k
    using n by (auto simp: n_def[symmetric] min_def max_def)
  ultimately show ?thesis
    unfolding percentile_nth[OF False] n_def[symmetric] by (intro sorted_nth_mono) simp_all
qed (simp add: percentile_def)


subsection \<open>What a run of the harness leaves in the collector\<close>

datatype metric_op = Observed rat string | Started rat string "string option" | Completed rat string string "string option"
  | Incr string int | Chunk int | Retried | Gauge string | SetGauge string int

fun metric_do :: "metric_op \<Rightarrow> metrics \<Rightarrow> metrics" where
  "metric_do (Observed now i) = task_observed now i"
| "metric_do (Started now i kind) = task_started now i kind"
| "metric_do (Completed now i status kind) = task_completed now i status kind"
| "metric_do (Incr name n) = incr name n"
| "metric_do (Chunk n) = chunk_pushed n"
| "metric_do Retried = retry_attempted"
| "metric_do (Gauge name) = register_gauge name"
| "metric_do (SetGauge name v) = set_gauge name v"

definition metrics_run :: "bool \<Rightarrow> metric_op list \<Rightarrow> metrics" where
  "metrics_run enabled ops = fold metric_do ops (new_metrics enabled)"

lemma metrics_run_snoc: "metrics_run b (ops @ [p]) = metric_do p (metrics_run b ops)"
  by (simp add: metrics_run_def)

lemmas metric_defs = task_observed_def task_started_def task_completed_def incr_def chunk_pushed_def retry_attempted_def register_gauge_def set_gauge_def

lemma tally_bump [simp]: "tally (bump k n d) k' = (if k' = k then tally d k + n else tally d k')"
  by (simp add: tally_def bump_def update_conv)

lemma metric_do_enabled [simp]: "m_enabled (metric_do p m) = m_enabled m"
  by (cases p) (simp_all add: metric_defs Let_def)

lemma run_enabled [simp]: "m_enabled (metrics_run b ops) = b"
  by (induction ops rule: rev_induct) (simp_all add: metrics_run_snoc, simp add: metrics_run_def new_metrics_def)

lemma push_sample_length: "length (push_sample x xs) \<le> LATENCY_WINDOW"
  by (simp add: push_sample_def Let_def)

lemma windows_bounded: "length (m_waits (metrics_run b ops)) \<le> LATENCY_WINDOW \<and> length (m_runs (metrics_run b ops)) \<le> LATENCY_WINDOW"
proof (induction ops rule: rev_induct)
  case Nil
  then show ?case by (simp add: metrics_run_def new_metrics_def)
next
  case (snoc p ops)
  then show ?case
    unfolding metrics_run_snoc by (cases p) (auto simp: metric_defs Let_def push_sample_length split: option.split)
qed

definition samples_of :: "string \<Rightarrow> metrics \<Rightarrow> rat list" where
  "samples_of family m = (if family = ''poll_to_start'' then m_waits m else m_runs m)"

lemma snapshot_latency:
  "family \<in> set LATENCY_FAMILIES \<Longrightarrow> dget (snapshot provide m) (''latency_'' @ family) = PDict (latency_dict (samples_of family m))"
  by (auto simp: LATENCY_FAMILIES_def snapshot_def Let_def dget_update samples_of_def)

text \<open>Whatever has happened, a snapshot describes each latency family by at most 1024 samples and three quantiles in
  order, each the rounding of a sample that is there.\<close>

theorem snapshot_quantiles:
  assumes "family \<in> set LATENCY_FAMILIES"
  shows "\<exists>xs p50 p95 p99. xs = samples_of family (metrics_run b ops) \<and> length xs \<le> 1024 \<and>
    dget (snapshot provide (metrics_run b ops)) (''latency_'' @ family) =
      PDict [(''count'', PInt (int (length xs))), (''p50'', PFloat p50), (''p95'', PFloat p95), (''p99'', PFloat p99)] \<and>
    p50 \<le> p95 \<and> p95 \<le> p99 \<and> (xs \<noteq> [] \<longrightarrow> {p50, p95, p99} \<subseteq> py_round 6 ` set xs)"
proof -
  define xs where "xs = samples_of family (metrics_run b ops)"
  have "length xs \<le> 1024"
    using windows_bounded[of b ops] by (simp add: xs_def samples_of_def LATENCY_WINDOW_def)
  moreover have "dget (snapshot provide (metrics_run b ops)) (''latency_'' @ family) = PDict (latency_dict xs)"
    unfolding xs_def by (rule snapshot_latency[OF assms])
  moreover have "py_round 6 (percentile xs (1/2)) \<le> py_round 6 (percentile xs (19/20))" "py_round 6 (percentile xs (19/20)) \<le> py_round 6 (percentile xs (99/100))"
    by (intro py_round_mono percentile_mono; simp)+
  ultimately show ?thesis
    unfolding xs_def[symmetric] latency_dict_def by (auto intro: percentile_mem)
qed

definition completions :: "string \<Rightarrow> metric_op list \<Rightarrow> nat" where
  "completions status ops = length (filter (\<lambda>p. case p of Completed _ _ s _ \<Rightarrow> s = status | _ \<Rightarrow> False) ops)"

fun is_completion :: "metric_op \<Rightarrow> bool" where
  "is_completion (Completed _ _ _ _) = True" | "is_completion _ = False"

fun counts_tasks :: "metric_op \<Rightarrow> bool" where
  "counts_tasks (Incr name n) = (name = ''tasks_total'')" | "counts_tasks _ = False"

text \<open>C38: the tallies are exact: an enabled collector's count for a status is the number of tasks that ended with it, and
  its total the number of tasks that ended, as long as nobody adds to that counter by hand; a disabled one counts
  nothing.\<close>

theorem tallies_exact:
  assumes "\<not> list_ex counts_tasks ops"
  shows "tally (m_by_status (metrics_run b ops)) status = (if b then int (completions status ops) else 0) \<and>
    tally (m_counters (metrics_run b ops)) ''tasks_total'' = (if b then int (length (filter is_completion ops)) else 0)"
  using assms
proof (induction ops rule: rev_induct)
  case Nil
  then show ?case by (simp add: metrics_run_def new_metrics_def tally_def completions_def)
next
  case (snoc p ops)
  show ?case
  proof (cases b)
    case True
    then show ?thesis
      using snoc unfolding metrics_run_snoc by (cases p) (auto simp: metric_defs Let_def completions_def)
  next
    case False
    then show ?thesis
      using snoc unfolding metrics_run_snoc by (cases p) (auto simp: metric_defs Let_def)
  qed
qed

definition demo_metrics :: "metric_op list" where
  "demo_metrics = [Observed 0 ''t1'', Started 2 ''t1'' (Some ''shell''), Chunk 10, Completed 5 ''t1'' ''ok'' (Some ''shell''),
     Observed 6 ''t2'', Completed 6 ''t2'' ''error'' (Some ''grep''), Incr ''ws_connections'' 1]"

theorem tallies_exact_witness:
  "tally (m_by_status (metrics_run True demo_metrics)) ''ok'' = 1 \<and> tally (m_counters (metrics_run True demo_metrics)) ''tasks_total'' = 2"
proof -
  have "\<not> list_ex counts_tasks demo_metrics"
    by code_simp
  from tallies_exact[OF this, of True "''ok''"] show ?thesis
    by (simp add: demo_metrics_def completions_def)
qed

theorem snapshot_quantiles_witness:
  "\<exists>p50 p95 p99. dget (snapshot (\<lambda>_. None) (metrics_run True demo_metrics)) ''latency_poll_to_start'' =
     PDict [(''count'', PInt 1), (''p50'', PFloat p50), (''p95'', PFloat p95), (''p99'', PFloat p99)] \<and> p50 \<le> p95"
proof -
  have "''poll_to_start'' \<in> set LATENCY_FAMILIES" "samples_of ''poll_to_start'' (metrics_run True demo_metrics) = [2]"
    by code_simp+
  then show ?thesis
    using snapshot_quantiles[of "''poll_to_start''" True demo_metrics "\<lambda>_. None"] by auto
qed

text \<open>A task that was observed and then refused is counted under no kind: the comment on that branch names this case, but
  the timer is there from \<open>task_observed\<close>.\<close>

lemma refused_task_uncounted:
  "m_by_kind (metrics_run True [Observed 0 ''t'', Completed 1 ''t'' ''block'' (Some ''shell'')]) = [] \<and>
   m_by_kind (metrics_run True [Completed 1 ''t'' ''block'' (Some ''shell'')]) = [(''shell'', 1)]"
  by code_simp

text \<open>A kind comes from the packet and goes into a label as it is: it can write lines of its own.\<close>

definition forged_kind :: string where
  "forged_kind = ''x'' @ [CHR 0x22] @ ''} 0'' @ [newline] @ ''iddo_harness_tasks_total 999'' @ [newline] @ ''y{z='' @ [CHR 0x22]"

lemma label_forges_line:
  "(case label_block ''iddo_harness_tasks_by_kind'' ''kind'' [] (int_dict [(forged_kind, 1)]) of
     Inr lines \<Rightarrow> contains ([newline] @ ''iddo_harness_tasks_total 999'' @ [newline]) (last lines) | Inl _ \<Rightarrow> False)"
  by code_simp

text \<open>A counter added under the name of a field replaces the field.\<close>

lemma counter_hides_field: "dget (snapshot (\<lambda>_. None) (metrics_run True [Incr ''enabled'' 5])) ''enabled'' = PInt 5"
  by code_simp

lemma only_local_peers: "peer \<notin> {''127.0.0.1'', ''::1''} \<Longrightarrow> metrics_reply provide uptime version m peer path formats = (403, LocalOnly)"
  by (simp add: metrics_reply_def)

end
