(* ===== verification/Healthserver.thy ===== *)
theory Healthserver
  imports Auditlog Metrics
begin

text \<open>
  \<open>agent/health_server.py\<close>: what the health endpoint answers. The clock, the providers of status and metrics, the files
  of the policy and what \<open>urlparse\<close> and \<open>parse_qs\<close> make of a request are arguments; a provider's answer is an exception
  or a dict. The socket is not modelled.
\<close>

subsection \<open>Peers\<close>

definition LOCALHOST_ADDRESSES :: "string list" where
  "LOCALHOST_ADDRESSES = [''127.0.0.1'', ''::1'', ''::ffff:127.0.0.1'']"

definition is_localhost :: "string \<Rightarrow> bool" where
  "is_localhost address = (address \<in> set LOCALHOST_ADDRESSES \<or> starts_with ''127.'' address)"

subsection \<open>The server\<close>

definition VERSION :: string where "VERSION = ''3.0.0-track-b''"
definition MAX_TAIL :: int where "MAX_TAIL = 1000"
definition DEFAULT_HEALTH_PORT :: int where "DEFAULT_HEALTH_PORT = 8478"

record 'k health_server =
  hv_host :: pyval
  hv_port :: int
  hv_audit :: "'k alog option"
  hv_policy_path :: "string option"
  hv_metrics :: "(exn + dict) option"
  hv_status :: "(exn + dict) option"

definition health_block :: "pyval \<Rightarrow> dict" where
  "health_block cfg_health = (case py_or cfg_health (PDict []) of PDict d \<Rightarrow> d | _ \<Rightarrow> [])"

definition enabled_in :: "pyval \<Rightarrow> bool" where
  "enabled_in cfg_health = truthy (dget (health_block cfg_health) ''enabled'')"

text \<open>\<open>None\<close> where \<open>int\<close> raises.\<close>

definition from_config :: "pyval \<Rightarrow> 'k alog option \<Rightarrow> 'k health_server option" where
  "from_config cfg_health audit = (let d = health_block cfg_health in
     map_option (\<lambda>port. \<lparr>hv_host = dget_or d ''host'' (PStr ''127.0.0.1''), hv_port = port, hv_audit = audit, hv_policy_path = None,
       hv_metrics = None, hv_status = None\<rparr>) (py_int (dget_or d ''port'' (PInt DEFAULT_HEALTH_PORT))))"

subsection \<open>Payloads\<close>

definition health_payload :: "rat \<Rightarrow> 'k health_server \<Rightarrow> dict" where
  "health_payload uptime h =
     (let payload = [(''status'', PStr ''ok''), (''uptime_sec'', PFloat (py_round 3 uptime)), (''version'', PStr VERSION)] in
      case hv_status h of None \<Rightarrow> payload
      | Some (Inl e) \<Rightarrow> dict_set (dict_set payload ''status'' (PStr ''degraded'')) ''error'' (PStr (snd e))
      | Some (Inr extra) \<Rightarrow> (let p = dict_merge payload extra in
          if truthy (dget extra ''degraded'') then dict_set p ''status'' (PStr ''degraded'') else p))"

definition metrics_payload :: "rat \<Rightarrow> 'k health_server \<Rightarrow> dict" where
  "metrics_payload uptime h = (case hv_metrics h of
       Some (Inr d) \<Rightarrow> d
     | Some (Inl e) \<Rightarrow> [(''error'', PStr (snd e))]
     | None \<Rightarrow> [(''uptime_sec'', PFloat (py_round 3 uptime)),
         (''audit_records_recent'', PInt (case hv_audit h of None \<Rightarrow> 0 | Some a \<Rightarrow> int (length (audit_tail MAX_TAIL a))))])"

definition health_tail :: "int \<Rightarrow> 'k health_server \<Rightarrow> pyval list" where
  "health_tail n h = (case hv_audit h of None \<Rightarrow> [] | Some a \<Rightarrow> audit_tail (max 1 (min n MAX_TAIL)) a)"

text \<open>The first file that is there: the one named, then the places by default.\<close>

definition policy_text :: "(string \<Rightarrow> string option) \<Rightarrow> string list \<Rightarrow> 'k health_server \<Rightarrow> string" where
  "policy_text files places h =
     (case List.map_filter files ((case hv_policy_path h of None \<Rightarrow> [] | Some p \<Rightarrow> if p = [] then [] else [p]) @ places) of
        [] \<Rightarrow> [] | x # _ \<Rightarrow> x)"

definition number_text :: "pyval \<Rightarrow> string option" where
  "number_text v = (case v of PInt n \<Rightarrow> Some (py_str v) | PFloat r \<Rightarrow> Some (py_str v) | _ \<Rightarrow> None)"

definition prom_lines :: "string \<times> pyval \<Rightarrow> string list" where
  "prom_lines = (\<lambda>(key, v). let name = ''iddo_harness_'' @ key in
     case (case v of PBool b \<Rightarrow> PInt (if b then 1 else 0) | _ \<Rightarrow> v) of
       PDict d \<Rightarrow> List.map_filter (\<lambda>(label, inner). map_option (\<lambda>x. name @ ''{name='' @ [CHR 0x22] @ label @ [CHR 0x22] @ ''} '' @ x) (number_text inner))
         (sort_key fst d)
     | u \<Rightarrow> (case number_text u of None \<Rightarrow> [] | Some x \<Rightarrow> [name @ '' '' @ x]))"

definition to_prometheus :: "dict \<Rightarrow> string" where
  "to_prometheus d = join [newline] (concat (map prom_lines (sort_key fst d))) @ [newline]"

subsection \<open>Routes\<close>

datatype health_body = HealthJson pyval | HealthText string string

definition health_error :: "string \<Rightarrow> health_body" where
  "health_error m = HealthJson (PDict [(''error'', PStr m)])"

definition health_reply :: "rat \<Rightarrow> (string \<Rightarrow> string option) \<Rightarrow> string list \<Rightarrow> 'k health_server \<Rightarrow> string \<Rightarrow> string \<Rightarrow> (string \<Rightarrow> string list) \<Rightarrow>
    nat \<times> health_body" where
  "health_reply uptime files places h peer path query =
     (if \<not> is_localhost peer then (403, health_error ''forbidden: localhost only'')
      else (let r = route_of path in
        if r = ''/health'' \<or> r = ''/'' then (200, HealthJson (PDict (health_payload uptime h)))
        else if r = ''/metrics'' then
          (if (case query ''format'' of [] \<Rightarrow> [] | f # _ \<Rightarrow> f) = ''prom''
           then (200, HealthText ''text/plain; version=0.0.4'' (to_prometheus (metrics_payload uptime h)))
           else (200, HealthJson (PDict (metrics_payload uptime h))))
        else if r = ''/audit/tail'' then
          (case py_int (PStr (case query ''n'' of [] \<Rightarrow> ''100'' | n # _ \<Rightarrow> n)) of
             None \<Rightarrow> (400, health_error ''n must be an integer'')
           | Some n \<Rightarrow> (let records = health_tail n h in
               (200, HealthJson (PDict [(''count'', PInt (int (length records))), (''records'', PList records)]))))
        else if r = ''/policy'' then
          (let text = policy_text files places h in
           if text = [] then (404, health_error ''no policy.yaml found'') else (200, HealthText ''text/yaml; charset=utf-8'' text))
        else (404, health_error (''no such route: '' @ r))))"

subsection \<open>Bounds\<close>

lemma length_map_filter_le: "length (List.map_filter f xs) \<le> length xs"
  by (induction xs) (auto simp: List.map_filter_simps split: option.splits)

lemma audit_tail_length: "1 \<le> n \<Longrightarrow> length (audit_tail n a) \<le> nat n"
  by (auto simp: audit_tail_def Let_def split: option.splits intro: order_trans[OF length_map_filter_le])

lemma health_tail_length: "length (health_tail n h) \<le> 1000"
proof (cases "hv_audit h")
  case (Some a)
  then show ?thesis using audit_tail_length[of "max 1 (min n MAX_TAIL)" a] by (simp add: health_tail_def MAX_TAIL_def)
qed (simp add: health_tail_def)

lemma route_audit: "route_of ''/audit/tail'' = ''/audit/tail''"
  by code_simp

text \<open>Whatever number a request names, the audit endpoint gives at most 1000 records and says how many it gives.\<close>

theorem audit_reply_bounded:
  assumes "health_reply uptime files places h peer ''/audit/tail'' query = (200, body)"
  shows "\<exists>rs. body = HealthJson (PDict [(''count'', PInt (int (length rs))), (''records'', PList rs)]) \<and> length rs \<le> 1000"
proof -
  have "\<exists>n. body = HealthJson (PDict [(''count'', PInt (int (length (health_tail n h)))), (''records'', PList (health_tail n h))])"
    using assms by (auto simp: health_reply_def route_audit Let_def split: if_splits option.splits)
  then show ?thesis using health_tail_length by blast
qed

definition demo_health :: "nat health_server" where
  "demo_health = \<lparr>hv_host = PStr ''127.0.0.1'', hv_port = 8478, hv_audit = None, hv_policy_path = None, hv_metrics = None, hv_status = None\<rparr>"

theorem audit_reply_bounded_witness:
  "\<exists>rs. snd (health_reply 1 (\<lambda>_. None) [] demo_health ''127.0.0.1'' ''/audit/tail'' (\<lambda>_. [''-5''])) =
     HealthJson (PDict [(''count'', PInt (int (length rs))), (''records'', PList rs)]) \<and> length rs \<le> 1000"
proof -
  let ?r = "health_reply 1 (\<lambda>_. None) [] demo_health ''127.0.0.1'' ''/audit/tail'' (\<lambda>_. [''-5''])"
  have "fst ?r = 200" by code_simp
  moreover obtain n b where r: "?r = (n, b)" by (meson surj_pair)
  ultimately have e: "?r = (200, b)" by simp
  show ?thesis using audit_reply_bounded[OF e] by (simp only: r snd_conv)
qed

text \<open>A peer that is not this machine gets the same refusal whatever it asks for.\<close>

lemma remote_refused: "\<not> is_localhost peer \<Longrightarrow> health_reply uptime files places h peer path query = (403, health_error ''forbidden: localhost only'')"
  by (simp add: health_reply_def)

text \<open>A finding: by default both servers are bound to one port.\<close>

lemma default_port: "from_config PNone a = Some h \<Longrightarrow> hv_port h = 8478"
  by (auto simp: from_config_def health_block_def py_or_def dget_or_def DEFAULT_HEALTH_PORT_def Let_def)

end
