(* ===== verification/Amp.thy ===== *)
theory Amp
  imports Prelude
begin

text \<open>
  \<open>agent/amp.py\<close>: the AMP v1.0 envelope the harness reads its tasks from and writes its results in.
  Each parser checks the fields in the order of the code and stops at the first error; an optional
  field that is absent or \<open>None\<close> is the value \<open>PNone\<close>. \<open>v\<close> keeps its JSON value, since Python takes
  \<open>true\<close> for the integer 1.
\<close>

subsection \<open>Patterns\<close>

text \<open>The end of a Python pattern: \<open>$\<close> also matches before a final newline.\<close>

definition newline :: char where
  "newline = char_of (10::nat)"

definition at_end :: "string \<Rightarrow> bool" where
  "at_end s = (s = [] \<or> s = [newline])"

text \<open>A sequence of character classes, then the end.\<close>

fun classes :: "(char \<Rightarrow> bool) list \<Rightarrow> string \<Rightarrow> bool" where
  "classes [] s = at_end s"
| "classes (f # fs) [] = False"
| "classes (f # fs) (c # s) = (f c \<and> classes fs s)"

definition is_char :: "char \<Rightarrow> char \<Rightarrow> bool" where
  "is_char x c = (c = x)"

definition is_lower :: "char \<Rightarrow> bool" where
  "is_lower c = (97 \<le> code c \<and> code c \<le> 122)"

definition is_upper :: "char \<Rightarrow> bool" where
  "is_upper c = (65 \<le> code c \<and> code c \<le> 90)"

definition ts_classes :: "(char \<Rightarrow> bool) list" where
  "ts_classes = replicate 4 is_digit @ [is_char (CHR ''-'')] @ replicate 2 is_digit @ [is_char (CHR ''-'')]
     @ replicate 2 is_digit @ [is_char (CHR ''T'')] @ replicate 2 is_digit @ [is_char (CHR '':'')]
     @ replicate 2 is_digit @ [is_char (CHR '':'')] @ replicate 2 is_digit @ [is_char (CHR ''.'')]
     @ replicate 3 is_digit @ [is_char (CHR ''Z'')]"

definition ulid_class :: "char \<Rightarrow> bool" where
  "ulid_class c = (is_digit c \<or> (is_upper c \<and> c \<notin> {CHR ''I'', CHR ''L'', CHR ''O'', CHR ''U''}))"

definition hex_class :: "char \<Rightarrow> bool" where
  "hex_class c = (is_digit c \<or> (97 \<le> code c \<and> code c \<le> 102))"

definition uuid_classes :: "(char \<Rightarrow> bool) list" where
  "uuid_classes = replicate 8 hex_class @ [is_char (CHR ''-'')] @ replicate 4 hex_class
     @ [is_char (CHR ''-''), is_char (CHR ''4'')] @ replicate 3 hex_class
     @ [is_char (CHR ''-''), (\<lambda>c. c \<in> {CHR ''8'', CHR ''9'', CHR ''a'', CHR ''b''})] @ replicate 3 hex_class
     @ [is_char (CHR ''-'')] @ replicate 12 hex_class"

definition is_ulid :: "string \<Rightarrow> bool" where
  "is_ulid s = classes (replicate 26 ulid_class) s"

definition is_uuid4 :: "string \<Rightarrow> bool" where
  "is_uuid4 s = classes uuid_classes s"

definition is_ts :: "string \<Rightarrow> bool" where
  "is_ts s = classes ts_classes s"

definition prefix_class :: "char \<Rightarrow> bool" where
  "prefix_class c = (is_lower c \<or> is_digit c \<or> c = CHR ''_'')"

text \<open>\<open>_CANONICAL_RE\<close>: the prefix of \<open><prefix>:<address>\<close>.\<close>

definition canonical_prefix :: "string \<Rightarrow> string option" where
  "canonical_prefix s =
     (let p = takeWhile prefix_class s; r = dropWhile prefix_class s in
      if p = [] \<or> r = [] \<or> hd r \<noteq> CHR '':'' then None
      else (let addr = takeWhile (\<lambda>c. c \<noteq> newline) (tl r) in
        if addr \<noteq> [] \<and> at_end (drop (length addr) (tl r)) then Some p else None))"

definition VALID_PREFIXES :: "string set" where
  "VALID_PREFIXES = {''user'', ''wa'', ''mqtt'', ''brick'', ''session''}"

definition VALID_DIRECTIONS :: "string set" where
  "VALID_DIRECTIONS = {''inbound'', ''outbound''}"

definition VALID_TYPES :: "string set" where
  "VALID_TYPES = {''harness_task'', ''harness_result''}"

subsection \<open>The envelope\<close>

record amp_source =
  src_brick :: string
  src_instance :: string

record amp_identity =
  idn_self :: bool
  idn_canonical :: string
  idn_display :: "string option"
  idn_provisional :: bool
  idn_raw :: "dict option"

record amp_payload =
  pl_type :: string
  pl_body :: dict

record amp_reply =
  rp_channel :: string
  rp_address :: string
  rp_id :: "string option"

record amp_rate =
  rl_per_hour :: pyval
  rl_interval :: pyval

record amp_audit =
  aa_decision :: "string option"
  aa_reason :: "string option"

record envelope =
  env_v :: pyval
  env_id :: string
  env_ts :: string
  env_direction :: string
  env_source :: amp_source
  env_channel :: string
  env_identity :: amp_identity
  env_payload :: amp_payload
  env_reply :: amp_reply
  env_rate :: "amp_rate option"
  env_audit :: "amp_audit option"

datatype amp_error =
    NotObject string
  | MissingField string string
  | WrongType string string
  | BadCanonical string string
  | UnknownPrefix string string
  | UnknownPayload string
  | BadVersion
  | BadId
  | BadTs
  | BadDirection
  | EmptyChannel
  | Incoherent string

text \<open>Fields that are left out of the dictionary when absent.\<close>

definition opt_field :: "string \<Rightarrow> pyval option \<Rightarrow> dict" where
  "opt_field k v = (case v of None \<Rightarrow> [] | Some x \<Rightarrow> [(k, x)])"

definition source_dict :: "amp_source \<Rightarrow> dict" where
  "source_dict s = [(''brick'', PStr (src_brick s)), (''instance'', PStr (src_instance s))]"

definition identity_dict :: "amp_identity \<Rightarrow> dict" where
  "identity_dict i = [(''self'', PBool (idn_self i)), (''canonical'', PStr (idn_canonical i))]
     @ opt_field ''display_name'' (map_option PStr (idn_display i))
     @ (if idn_provisional i then [(''provisional'', PBool True)] else [])
     @ opt_field ''raw'' (map_option PDict (idn_raw i))"

definition payload_dict :: "amp_payload \<Rightarrow> dict" where
  "payload_dict p = [(''type'', PStr (pl_type p)), (''body'', PDict (pl_body p))]"

definition reply_dict :: "amp_reply \<Rightarrow> dict" where
  "reply_dict r = [(''to_channel'', PStr (rp_channel r)), (''to_address'', PStr (rp_address r))]
     @ opt_field ''reply_to_id'' (map_option PStr (rp_id r))"

definition rate_dict :: "amp_rate \<Rightarrow> dict" where
  "rate_dict r = (if rl_per_hour r = PNone then [] else [(''max_per_hour'', rl_per_hour r)])
     @ (if rl_interval r = PNone then [] else [(''min_interval_s'', rl_interval r)])"

definition audit_dict :: "amp_audit \<Rightarrow> dict" where
  "audit_dict a = opt_field ''decision'' (map_option PStr (aa_decision a)) @ opt_field ''reason'' (map_option PStr (aa_reason a))"

definition env_dict :: "envelope \<Rightarrow> dict" where
  "env_dict e =
     [(''v'', env_v e), (''id'', PStr (env_id e)), (''ts'', PStr (env_ts e)), (''direction'', PStr (env_direction e)),
      (''source'', PDict (source_dict (env_source e))), (''channel'', PStr (env_channel e)),
      (''identity'', PDict (identity_dict (env_identity e))), (''payload'', PDict (payload_dict (env_payload e))),
      (''reply'', PDict (reply_dict (env_reply e)))]
     @ opt_field ''rate_limit'' (map_option (\<lambda>r. PDict (rate_dict r)) (env_rate e))
     @ opt_field ''audit'' (map_option (\<lambda>a. PDict (audit_dict a)) (env_audit e))"

subsection \<open>Validation\<close>

definition require_key :: "dict \<Rightarrow> string \<Rightarrow> string \<Rightarrow> amp_error + pyval" where
  "require_key d k ctx = (case map_of d k of None \<Rightarrow> Inl (MissingField ctx k) | Some v \<Rightarrow> Inr v)"

definition need_str :: "pyval \<Rightarrow> string \<Rightarrow> string \<Rightarrow> amp_error + string" where
  "need_str v ctx field = (case v of PStr s \<Rightarrow> Inr s | _ \<Rightarrow> Inl (WrongType ctx field))"

definition need_bool :: "pyval \<Rightarrow> string \<Rightarrow> string \<Rightarrow> amp_error + bool" where
  "need_bool v ctx field = (case v of PBool b \<Rightarrow> Inr b | _ \<Rightarrow> Inl (WrongType ctx field))"

definition need_dict :: "pyval \<Rightarrow> string \<Rightarrow> string \<Rightarrow> amp_error + dict" where
  "need_dict v ctx field = (case v of PDict d \<Rightarrow> Inr d | _ \<Rightarrow> Inl (WrongType ctx field))"

definition need_int :: "pyval \<Rightarrow> string \<Rightarrow> string \<Rightarrow> amp_error + pyval" where
  "need_int v ctx field = (if as_int v = None then Inl (WrongType ctx field) else Inr v)"

text \<open>\<open>if x is not None: check(x)\<close>.\<close>

definition optional :: "(pyval \<Rightarrow> amp_error + 'a) \<Rightarrow> pyval \<Rightarrow> amp_error + 'a option" where
  "optional check v = (if v = PNone then Inr None else map_sum id Some (check v))"

text \<open>Continue unless an error was raised.\<close>

definition and_then :: "'e + 'a \<Rightarrow> ('a \<Rightarrow> 'e + 'b) \<Rightarrow> 'e + 'b" where
  "and_then x f = (case x of Inl e \<Rightarrow> Inl e | Inr a \<Rightarrow> f a)"

definition guard :: "bool \<Rightarrow> 'e \<Rightarrow> 'e + unit" where
  "guard b e = (if b then Inr () else Inl e)"

definition validate_canonical :: "pyval \<Rightarrow> string \<Rightarrow> string \<Rightarrow> amp_error + string" where
  "validate_canonical v ctx field =
     and_then (need_str v ctx field) (\<lambda>s.
     (case canonical_prefix s of None \<Rightarrow> Inl (BadCanonical ctx field)
      | Some p \<Rightarrow> if p \<in> VALID_PREFIXES then Inr s else Inl (UnknownPrefix ctx field)))"

definition parse_source :: "pyval \<Rightarrow> string \<Rightarrow> amp_error + amp_source" where
  "parse_source data ctx =
     and_then (need_dict data ctx ''source'') (\<lambda>d.
     and_then (require_key d ''brick'' (ctx @ ''.source'')) (\<lambda>b.
     and_then (require_key d ''instance'' (ctx @ ''.source'')) (\<lambda>i.
     and_then (need_str b (ctx @ ''.source'') ''brick'') (\<lambda>brick.
     and_then (need_str i (ctx @ ''.source'') ''instance'') (\<lambda>inst.
       Inr \<lparr>src_brick = brick, src_instance = inst\<rparr>)))))"

definition parse_identity :: "pyval \<Rightarrow> string \<Rightarrow> amp_error + amp_identity" where
  "parse_identity data ctx0 =
     and_then (need_dict data ctx0 ''identity'') (\<lambda>d. let ctx = ctx0 @ ''.identity'' in
     and_then (require_key d ''self'' ctx) (\<lambda>sv.
     and_then (need_bool sv ctx ''self'') (\<lambda>self_v.
     and_then (require_key d ''canonical'' ctx) (\<lambda>cv.
     and_then (validate_canonical cv ctx ''canonical'') (\<lambda>canonical.
     and_then (optional (\<lambda>x. need_str x ctx ''display_name'') (dget d ''display_name'')) (\<lambda>dn.
     and_then (need_bool (dget_or d ''provisional'' (PBool False)) ctx ''provisional'') (\<lambda>prov.
     and_then (optional (\<lambda>x. need_dict x ctx ''raw'') (dget d ''raw'')) (\<lambda>raw.
       Inr \<lparr>idn_self = self_v, idn_canonical = canonical, idn_display = dn, idn_provisional = prov, idn_raw = raw\<rparr>))))))))"

definition parse_payload :: "pyval \<Rightarrow> string \<Rightarrow> amp_error + amp_payload" where
  "parse_payload data ctx0 =
     and_then (need_dict data ctx0 ''payload'') (\<lambda>d. let ctx = ctx0 @ ''.payload'' in
     and_then (require_key d ''type'' ctx) (\<lambda>tv.
     and_then (need_str tv ctx ''type'') (\<lambda>ptype.
     and_then (guard (ptype \<in> VALID_TYPES) (UnknownPayload ptype)) (\<lambda>_.
     and_then (require_key d ''body'' ctx) (\<lambda>bv.
     and_then (need_dict bv ctx ''body'') (\<lambda>body.
     and_then (if ptype = ''harness_task'' then
         and_then (require_key body ''kind'' (ctx @ ''.body'')) (\<lambda>k.
         and_then (need_str k (ctx @ ''.body'') ''kind'') (\<lambda>_. Inr ()))
       else if ptype = ''harness_result'' then
         and_then (require_key body ''task_id'' (ctx @ ''.body'')) (\<lambda>_.
         and_then (require_key body ''ok'' (ctx @ ''.body'')) (\<lambda>okv.
         and_then (need_bool okv (ctx @ ''.body'') ''ok'') (\<lambda>_. Inr ())))
       else Inr ()) (\<lambda>_.
       Inr \<lparr>pl_type = ptype, pl_body = body\<rparr>)))))))"

definition parse_reply :: "pyval \<Rightarrow> string \<Rightarrow> amp_error + amp_reply" where
  "parse_reply data ctx0 =
     and_then (need_dict data ctx0 ''reply'') (\<lambda>d. let ctx = ctx0 @ ''.reply'' in
     and_then (require_key d ''to_channel'' ctx) (\<lambda>cv.
     and_then (need_str cv ctx ''to_channel'') (\<lambda>ch.
     and_then (require_key d ''to_address'' ctx) (\<lambda>av.
     and_then (validate_canonical av ctx ''to_address'') (\<lambda>addr.
     and_then (optional (\<lambda>x. need_str x ctx ''reply_to_id'') (dget d ''reply_to_id'')) (\<lambda>rid.
       Inr \<lparr>rp_channel = ch, rp_address = addr, rp_id = rid\<rparr>))))))"

definition check_int :: "pyval \<Rightarrow> string \<Rightarrow> string \<Rightarrow> amp_error + unit" where
  "check_int v ctx field = (if v = PNone then Inr () else and_then (need_int v ctx field) (\<lambda>_. Inr ()))"

definition parse_rate :: "pyval \<Rightarrow> string \<Rightarrow> amp_error + amp_rate option" where
  "parse_rate data ctx =
     (if data = PNone then Inr None
      else and_then (need_dict data ctx ''rate_limit'') (\<lambda>d.
        and_then (check_int (dget d ''max_per_hour'') (ctx @ ''.rate_limit'') ''max_per_hour'') (\<lambda>_.
        and_then (check_int (dget d ''min_interval_s'') (ctx @ ''.rate_limit'') ''min_interval_s'') (\<lambda>_.
          Inr (Some \<lparr>rl_per_hour = dget d ''max_per_hour'', rl_interval = dget d ''min_interval_s''\<rparr>)))))"

definition parse_audit :: "pyval \<Rightarrow> string \<Rightarrow> amp_error + amp_audit option" where
  "parse_audit data ctx =
     (if data = PNone then Inr None
      else and_then (need_dict data ctx ''audit'') (\<lambda>d.
        and_then (optional (\<lambda>x. need_str x (ctx @ ''.audit'') ''decision'') (dget d ''decision'')) (\<lambda>dec.
        and_then (optional (\<lambda>x. need_str x (ctx @ ''.audit'') ''reason'') (dget d ''reason'')) (\<lambda>rea.
          Inr (Some \<lparr>aa_decision = dec, aa_reason = rea\<rparr>)))))"

definition validate_id :: "pyval \<Rightarrow> string \<Rightarrow> amp_error + string" where
  "validate_id v ctx = and_then (need_str v ctx ''id'') (\<lambda>s.
     if is_ulid s \<or> is_uuid4 (lower s) then Inr s else Inl BadId)"

definition validate_ts :: "pyval \<Rightarrow> string \<Rightarrow> amp_error + string" where
  "validate_ts v ctx = and_then (need_str v ctx ''ts'') (\<lambda>s. if is_ts s then Inr s else Inl BadTs)"

definition parse_envelope :: "bool \<Rightarrow> pyval \<Rightarrow> amp_error + envelope" where
  "parse_envelope id_strict data0 = (let ctx = ''envelope'' in (case data0 of PDict data \<Rightarrow>
     and_then (require_key data ''v'' ctx) (\<lambda>v.
     and_then (need_int v ctx ''v'') (\<lambda>_.
     and_then (guard (as_int v = Some 1) BadVersion) (\<lambda>_.
     and_then (require_key data ''id'' ctx) (\<lambda>iv.
     and_then (if id_strict then validate_id iv ctx else need_str iv ctx ''id'') (\<lambda>eid.
     and_then (require_key data ''ts'' ctx) (\<lambda>tv.
     and_then (validate_ts tv ctx) (\<lambda>ts.
     and_then (require_key data ''direction'' ctx) (\<lambda>dv.
     and_then (need_str dv ctx ''direction'') (\<lambda>dir.
     and_then (guard (dir \<in> VALID_DIRECTIONS) BadDirection) (\<lambda>_.
     and_then (require_key data ''source'' ctx) (\<lambda>sv.
     and_then (parse_source sv ctx) (\<lambda>src.
     and_then (require_key data ''channel'' ctx) (\<lambda>cv.
     and_then (need_str cv ctx ''channel'') (\<lambda>channel.
     and_then (guard (channel \<noteq> []) EmptyChannel) (\<lambda>_.
     and_then (require_key data ''identity'' ctx) (\<lambda>idv.
     and_then (parse_identity idv ctx) (\<lambda>identity.
     and_then (require_key data ''payload'' ctx) (\<lambda>pv.
     and_then (parse_payload pv ctx) (\<lambda>payload.
     and_then (require_key data ''reply'' ctx) (\<lambda>rv.
     and_then (parse_reply rv ctx) (\<lambda>reply.
     and_then (guard (\<not> (dir = ''inbound'' \<and> pl_type payload \<noteq> ''harness_task'')) (Incoherent dir)) (\<lambda>_.
     and_then (guard (\<not> (dir = ''outbound'' \<and> pl_type payload \<noteq> ''harness_result'')) (Incoherent dir)) (\<lambda>_.
     and_then (parse_rate (dget data ''rate_limit'') ctx) (\<lambda>rate.
     and_then (parse_audit (dget data ''audit'') ctx) (\<lambda>audit.
       Inr \<lparr>env_v = v, env_id = eid, env_ts = ts, env_direction = dir, env_source = src, env_channel = channel,
         env_identity = identity, env_payload = payload, env_reply = reply, env_rate = rate, env_audit = audit\<rparr>)))))))))))))))))))))))))
   | _ \<Rightarrow> Inl (NotObject ctx)))"

text \<open>\<open>build_envelope\<close>: the caller's fields, with the fresh id and timestamp the code takes when none is
  given.\<close>

record amp_request =
  rq_direction :: string
  rq_brick :: string
  rq_instance :: string
  rq_channel :: string
  rq_canonical :: string
  rq_type :: string
  rq_body :: dict
  rq_to_channel :: string
  rq_to_address :: string
  rq_self :: bool
  rq_display :: "string option"
  rq_env_id :: "string option"
  rq_ts :: "string option"
  rq_reply_to :: "string option"
  rq_rate :: "amp_rate option"
  rq_audit :: "amp_audit option"

definition text_or :: "string option \<Rightarrow> string \<Rightarrow> string" where
  "text_or x d = (case x of None \<Rightarrow> d | Some s \<Rightarrow> if s = [] then d else s)"

definition truthy_field :: "string \<Rightarrow> string option \<Rightarrow> dict" where
  "truthy_field k x = (case x of None \<Rightarrow> [] | Some s \<Rightarrow> if s = [] then [] else [(k, PStr s)])"

definition build_envelope :: "string \<Rightarrow> string \<Rightarrow> amp_request \<Rightarrow> amp_error + envelope" where
  "build_envelope fresh now rq =
     (if rq_direction rq \<notin> VALID_DIRECTIONS then Inl BadDirection
      else if rq_type rq \<notin> VALID_TYPES then Inl (UnknownPayload (rq_type rq))
      else parse_envelope True (PDict (
        [(''v'', PInt 1), (''id'', PStr (text_or (rq_env_id rq) fresh)), (''ts'', PStr (text_or (rq_ts rq) now)),
         (''direction'', PStr (rq_direction rq)),
         (''source'', PDict [(''brick'', PStr (rq_brick rq)), (''instance'', PStr (rq_instance rq))]),
         (''channel'', PStr (rq_channel rq)),
         (''identity'', PDict ([(''self'', PBool (rq_self rq)), (''canonical'', PStr (rq_canonical rq))]
             @ truthy_field ''display_name'' (rq_display rq))),
         (''payload'', PDict [(''type'', PStr (rq_type rq)), (''body'', PDict (rq_body rq))]),
         (''reply'', PDict ([(''to_channel'', PStr (rq_to_channel rq)), (''to_address'', PStr (rq_to_address rq))]
             @ truthy_field ''reply_to_id'' (rq_reply_to rq)))]
        @ opt_field ''rate_limit'' (map_option (\<lambda>r. PDict (rate_dict r)) (rq_rate rq))
        @ opt_field ''audit'' (map_option (\<lambda>a. PDict (audit_dict a)) (rq_audit rq)))))"

definition is_amp_shaped :: "pyval \<Rightarrow> bool" where
  "is_amp_shaped data = (case data of PDict d \<Rightarrow> has_key d ''v'' \<and> has_key d ''payload'' \<and> \<not> has_key d ''kind''
     | _ \<Rightarrow> False)"

subsection \<open>What a validated envelope satisfies\<close>

named_theorems amp_simps \<open>the checks in sequence\<close>

lemma and_then_Inr [amp_simps]: "(and_then x f = Inr b) = (\<exists>a. x = Inr a \<and> f a = Inr b)"
  by (cases x) (auto simp: and_then_def)

lemma and_then_ok [simp]: "and_then (Inr a) f = f a"
  by (simp add: and_then_def)

lemma require_key_Inr [amp_simps]: "(require_key d k c = Inr v) = (map_of d k = Some v)"
  by (auto simp: require_key_def split: option.splits)

lemma need_Inr [amp_simps]:
  "(need_str v c f = Inr s) = (v = PStr s)" "(need_bool v c f = Inr b) = (v = PBool b)"
  "(need_dict v c f = Inr d) = (v = PDict d)" "(need_int v c f = Inr w) = (w = v \<and> as_int v \<noteq> None)"
  by (auto simp: need_str_def need_bool_def need_dict_def need_int_def split: pyval.splits)

lemma guard_Inr [amp_simps]: "(guard b e = Inr u) = b"
  by (simp add: guard_def)

lemma optional_Inr [amp_simps]: "(optional f v = Inr r) = (case r of None \<Rightarrow> v = PNone | Some x \<Rightarrow> v \<noteq> PNone \<and> f v = Inr x)"
  by (cases "f v"; cases r) (auto simp: optional_def)

definition canonical_ok :: "string \<Rightarrow> bool" where
  "canonical_ok s = (case canonical_prefix s of None \<Rightarrow> False | Some p \<Rightarrow> p \<in> VALID_PREFIXES)"

lemma validate_canonical_Inr [amp_simps]: "(validate_canonical v c f = Inr s) = (v = PStr s \<and> canonical_ok s)"
  by (auto simp: validate_canonical_def canonical_ok_def amp_simps split: option.splits if_splits)

definition body_ok :: "amp_payload \<Rightarrow> bool" where
  "body_ok p = (pl_type p \<in> VALID_TYPES \<and>
     (pl_type p = ''harness_task'' \<longrightarrow> (\<exists>k. map_of (pl_body p) ''kind'' = Some (PStr k))) \<and>
     (pl_type p = ''harness_result'' \<longrightarrow> has_key (pl_body p) ''task_id'' \<and> (\<exists>b. map_of (pl_body p) ''ok'' = Some (PBool b))))"

definition int_or_none :: "pyval \<Rightarrow> bool" where
  "int_or_none v = (v = PNone \<or> as_int v \<noteq> None)"

definition valid_envelope :: "bool \<Rightarrow> envelope \<Rightarrow> bool" where
  "valid_envelope strict e = (as_int (env_v e) = Some 1 \<and>
     (strict \<longrightarrow> is_ulid (env_id e) \<or> is_uuid4 (lower (env_id e))) \<and> is_ts (env_ts e) \<and>
     env_direction e \<in> VALID_DIRECTIONS \<and> env_channel e \<noteq> [] \<and>
     canonical_ok (idn_canonical (env_identity e)) \<and> canonical_ok (rp_address (env_reply e)) \<and> body_ok (env_payload e) \<and>
     (env_direction e = ''inbound'' \<longleftrightarrow> pl_type (env_payload e) = ''harness_task'') \<and>
     (case env_rate e of None \<Rightarrow> True | Some r \<Rightarrow> int_or_none (rl_per_hour r) \<and> int_or_none (rl_interval r)))"

lemma parse_source_Inr [amp_simps]: "(parse_source v c = Inr s) =
   (\<exists>d. v = PDict d \<and> map_of d ''brick'' = Some (PStr (src_brick s)) \<and> map_of d ''instance'' = Some (PStr (src_instance s)))"
  by (cases s) (auto simp: parse_source_def amp_simps)

lemma parse_payload_Inr [amp_simps]: "(parse_payload v c = Inr p) =
   (\<exists>d. v = PDict d \<and> map_of d ''type'' = Some (PStr (pl_type p)) \<and> map_of d ''body'' = Some (PDict (pl_body p)) \<and> body_ok p)"
  by (cases p) (auto simp: parse_payload_def amp_simps Let_def body_ok_def has_key_def)

lemma parse_identity_Inr [amp_simps]: "(parse_identity v c = Inr i) =
   (\<exists>d. v = PDict d \<and> map_of d ''self'' = Some (PBool (idn_self i)) \<and> map_of d ''canonical'' = Some (PStr (idn_canonical i)) \<and>
     canonical_ok (idn_canonical i) \<and> dget d ''display_name'' = (case idn_display i of None \<Rightarrow> PNone | Some s \<Rightarrow> PStr s) \<and>
     dget_or d ''provisional'' (PBool False) = PBool (idn_provisional i) \<and>
     dget d ''raw'' = (case idn_raw i of None \<Rightarrow> PNone | Some r \<Rightarrow> PDict r))"
  by (cases i) (auto simp: parse_identity_def amp_simps Let_def split: option.splits if_splits)

lemma parse_reply_Inr [amp_simps]: "(parse_reply v c = Inr r) =
   (\<exists>d. v = PDict d \<and> map_of d ''to_channel'' = Some (PStr (rp_channel r)) \<and> map_of d ''to_address'' = Some (PStr (rp_address r)) \<and>
     canonical_ok (rp_address r) \<and> dget d ''reply_to_id'' = (case rp_id r of None \<Rightarrow> PNone | Some s \<Rightarrow> PStr s))"
  by (cases r) (auto simp: parse_reply_def amp_simps Let_def split: option.splits if_splits)

lemma check_int_Inr [amp_simps]: "(check_int v c f = Inr u) = int_or_none v"
  by (auto simp: check_int_def int_or_none_def amp_simps)

lemma parse_rate_Inr [amp_simps]: "(parse_rate v c = Inr r) = (case r of None \<Rightarrow> v = PNone
   | Some x \<Rightarrow> (\<exists>d. v = PDict d \<and> rl_per_hour x = dget d ''max_per_hour'' \<and> rl_interval x = dget d ''min_interval_s'' \<and>
       int_or_none (rl_per_hour x) \<and> int_or_none (rl_interval x)))"
  by (cases r; cases "the r") (auto simp: parse_rate_def amp_simps)

lemma parse_audit_Inr [amp_simps]: "(parse_audit v c = Inr r) = (case r of None \<Rightarrow> v = PNone
   | Some x \<Rightarrow> (\<exists>d. v = PDict d \<and> dget d ''decision'' = (case aa_decision x of None \<Rightarrow> PNone | Some s \<Rightarrow> PStr s) \<and>
       dget d ''reason'' = (case aa_reason x of None \<Rightarrow> PNone | Some s \<Rightarrow> PStr s)))"
  by (cases r; cases "the r") (auto simp: parse_audit_def amp_simps split: option.splits if_splits)

lemma validate_id_Inr [amp_simps]: "(validate_id v c = Inr s) = (v = PStr s \<and> (is_ulid s \<or> is_uuid4 (lower s)))"
  by (auto simp: validate_id_def amp_simps split: if_splits)

lemma validate_ts_Inr [amp_simps]: "(validate_ts v c = Inr s) = (v = PStr s \<and> is_ts s)"
  by (auto simp: validate_ts_def amp_simps split: if_splits)

text \<open>The fields a dictionary must hold for the envelope to be read from it.\<close>

definition reads_as :: "bool \<Rightarrow> dict \<Rightarrow> envelope \<Rightarrow> bool" where
  "reads_as strict data e = (valid_envelope strict e \<and> map_of data ''v'' = Some (env_v e) \<and>
     map_of data ''id'' = Some (PStr (env_id e)) \<and> map_of data ''ts'' = Some (PStr (env_ts e)) \<and>
     map_of data ''direction'' = Some (PStr (env_direction e)) \<and> map_of data ''channel'' = Some (PStr (env_channel e)) \<and>
     (\<exists>v. map_of data ''source'' = Some v \<and> parse_source v ''envelope'' = Inr (env_source e)) \<and>
     (\<exists>v. map_of data ''identity'' = Some v \<and> parse_identity v ''envelope'' = Inr (env_identity e)) \<and>
     (\<exists>v. map_of data ''payload'' = Some v \<and> parse_payload v ''envelope'' = Inr (env_payload e)) \<and>
     (\<exists>v. map_of data ''reply'' = Some v \<and> parse_reply v ''envelope'' = Inr (env_reply e)) \<and>
     parse_rate (dget data ''rate_limit'') ''envelope'' = Inr (env_rate e) \<and>
     parse_audit (dget data ''audit'') ''envelope'' = Inr (env_audit e))"

lemma parse_envelope_Inr: "(parse_envelope strict (PDict data) = Inr e) = reads_as strict data e"
proof
  assume "parse_envelope strict (PDict data) = Inr e"
  then obtain v eid iv ts dir src sv channel ident idv pl pv rep rv rate audit where
    m: "map_of data ''v'' = Some v" "map_of data ''ts'' = Some (PStr ts)" "map_of data ''id'' = Some iv"
      "map_of data ''direction'' = Some (PStr dir)" "map_of data ''channel'' = Some (PStr channel)"
      "map_of data ''source'' = Some sv" "map_of data ''identity'' = Some idv" "map_of data ''payload'' = Some pv"
      "map_of data ''reply'' = Some rv"
    and p: "parse_source sv ''envelope'' = Inr src" "parse_identity idv ''envelope'' = Inr ident"
      "parse_payload pv ''envelope'' = Inr pl" "parse_reply rv ''envelope'' = Inr rep"
      "parse_rate (dget data ''rate_limit'') ''envelope'' = Inr rate" "parse_audit (dget data ''audit'') ''envelope'' = Inr audit"
    and c: "as_int v = Some 1" "is_ts ts" "dir \<in> VALID_DIRECTIONS" "channel \<noteq> []"
      "\<not> (dir = ''inbound'' \<and> pl_type pl \<noteq> ''harness_task'')" "\<not> (dir = ''outbound'' \<and> pl_type pl \<noteq> ''harness_result'')"
      "(if strict then validate_id iv ''envelope'' else need_str iv ''envelope'' ''id'') = Inr eid"
    and e: "e = \<lparr>env_v = v, env_id = eid, env_ts = ts, env_direction = dir, env_source = src, env_channel = channel,
         env_identity = ident, env_payload = pl, env_reply = rep, env_rate = rate, env_audit = audit\<rparr>"
    unfolding parse_envelope_def Let_def pyval.case and_then_Inr require_key_Inr need_Inr guard_Inr validate_ts_Inr
    by blast
  have i: "iv = PStr eid" "strict \<longrightarrow> is_ulid eid \<or> is_uuid4 (lower eid)"
    using c(7) by (auto simp: need_Inr validate_id_Inr split: if_splits)
  have "canonical_ok (idn_canonical ident)" "canonical_ok (rp_address rep)" "body_ok pl"
    using p(2-4) by (auto simp only: parse_identity_Inr parse_reply_Inr parse_payload_Inr)
  moreover have "(dir = ''inbound'') = (pl_type pl = ''harness_task'')"
    using c(3,5,6) by (auto simp: VALID_DIRECTIONS_def)
  moreover have "case rate of None \<Rightarrow> True | Some r \<Rightarrow> int_or_none (rl_per_hour r) \<and> int_or_none (rl_interval r)"
    using p(5) by (auto simp only: parse_rate_Inr split: option.splits)
  ultimately have "valid_envelope strict e" using c i by (simp add: valid_envelope_def e)
  then show "reads_as strict data e" using m p i by (simp add: reads_as_def e)
next
  assume r: "reads_as strict data e"
  then have v: "valid_envelope strict e" by (simp add: reads_as_def)
  obtain sv idv pv rv where
    m: "map_of data ''source'' = Some sv" "map_of data ''identity'' = Some idv" "map_of data ''payload'' = Some pv"
      "map_of data ''reply'' = Some rv"
    and p: "parse_source sv ''envelope'' = Inr (env_source e)" "parse_identity idv ''envelope'' = Inr (env_identity e)"
      "parse_payload pv ''envelope'' = Inr (env_payload e)" "parse_reply rv ''envelope'' = Inr (env_reply e)"
      "parse_rate (dget data ''rate_limit'') ''envelope'' = Inr (env_rate e)" "parse_audit (dget data ''audit'') ''envelope'' = Inr (env_audit e)"
    and k: "map_of data ''v'' = Some (env_v e)" "map_of data ''id'' = Some (PStr (env_id e))" "map_of data ''ts'' = Some (PStr (env_ts e))"
      "map_of data ''direction'' = Some (PStr (env_direction e))" "map_of data ''channel'' = Some (PStr (env_channel e))"
    using r unfolding reads_as_def by blast
  have str: "need_str (PStr x) c f = Inr x" for x c f by (simp add: need_str_def)
  have rk: "map_of data x = Some y \<Longrightarrow> require_key data x c = Inr y" for x y c by (simp add: require_key_def)
  have g: "b \<Longrightarrow> guard b x = Inr ()" for b and x :: amp_error by (simp add: guard_def)
  have vi: "need_int (env_v e) c f = Inr (env_v e)" for c f using v by (simp add: need_int_def valid_envelope_def)
  have vid: "strict \<Longrightarrow> validate_id (PStr (env_id e)) c = Inr (env_id e)" for c
    using v by (auto simp: valid_envelope_def validate_id_def str)
  have ts: "validate_ts (PStr (env_ts e)) c = Inr (env_ts e)" for c using v by (simp add: valid_envelope_def validate_ts_def str)
  have one: "as_int (env_v e) = Some 1" "env_direction e \<in> VALID_DIRECTIONS" "env_channel e \<noteq> []"
    "\<not> (env_direction e = ''inbound'' \<and> pl_type (env_payload e) \<noteq> ''harness_task'')"
    "\<not> (env_direction e = ''outbound'' \<and> pl_type (env_payload e) \<noteq> ''harness_result'')"
    using v by (auto simp: valid_envelope_def body_ok_def VALID_TYPES_def)
  show "parse_envelope strict (PDict data) = Inr e"
    unfolding parse_envelope_def Let_def pyval.case rk[OF k(1)] rk[OF k(2)] rk[OF k(3)] rk[OF k(4)] rk[OF k(5)]
      rk[OF m(1)] rk[OF m(2)] rk[OF m(3)] rk[OF m(4)] and_then_ok vi ts str p
      g[OF one(1)] g[OF one(2)] g[OF one(3)] g[OF one(4)] g[OF one(5)]
    by (simp add: vid)
qed

lemma identity_back: "canonical_ok (idn_canonical i) \<Longrightarrow> parse_identity (PDict (identity_dict i)) c = Inr i"
  by (auto simp: amp_simps identity_dict_def dget_def dget_or_def opt_field_def split: option.splits)

lemma reply_back: "canonical_ok (rp_address r) \<Longrightarrow> parse_reply (PDict (reply_dict r)) c = Inr r"
  by (auto simp: amp_simps reply_dict_def dget_def opt_field_def split: option.splits)

lemma rate_back: "int_or_none (rl_per_hour r) \<Longrightarrow> int_or_none (rl_interval r) \<Longrightarrow> parse_rate (PDict (rate_dict r)) c = Inr (Some r)"
  by (auto simp: amp_simps rate_dict_def dget_def)

lemma audit_back: "parse_audit (PDict (audit_dict a)) c = Inr (Some a)"
  by (auto simp: amp_simps audit_dict_def dget_def opt_field_def split: option.splits)

lemma env_dict_reads:
  assumes "valid_envelope strict e"
  shows "reads_as strict (env_dict e) e"
proof -
  have k: "map_of (env_dict e) ''v'' = Some (env_v e)" "map_of (env_dict e) ''id'' = Some (PStr (env_id e))"
    "map_of (env_dict e) ''ts'' = Some (PStr (env_ts e))" "map_of (env_dict e) ''direction'' = Some (PStr (env_direction e))"
    "map_of (env_dict e) ''source'' = Some (PDict (source_dict (env_source e)))" "map_of (env_dict e) ''channel'' = Some (PStr (env_channel e))"
    "map_of (env_dict e) ''identity'' = Some (PDict (identity_dict (env_identity e)))"
    "map_of (env_dict e) ''payload'' = Some (PDict (payload_dict (env_payload e)))"
    "map_of (env_dict e) ''reply'' = Some (PDict (reply_dict (env_reply e)))"
    by (simp_all add: env_dict_def)
  have "dget (env_dict e) ''rate_limit'' = (case env_rate e of None \<Rightarrow> PNone | Some r \<Rightarrow> PDict (rate_dict r))"
    "dget (env_dict e) ''audit'' = (case env_audit e of None \<Rightarrow> PNone | Some a \<Rightarrow> PDict (audit_dict a))"
    by (auto simp: env_dict_def dget_def opt_field_def split: option.splits)
  moreover have "parse_rate (case env_rate e of None \<Rightarrow> PNone | Some r \<Rightarrow> PDict (rate_dict r)) c = Inr (env_rate e)" for c
    using assms rate_back by (cases "env_rate e") (auto simp: valid_envelope_def parse_rate_def)
  moreover have "parse_audit (case env_audit e of None \<Rightarrow> PNone | Some a \<Rightarrow> PDict (audit_dict a)) c = Inr (env_audit e)" for c
    using audit_back by (cases "env_audit e") (auto simp: parse_audit_def)
  moreover have "parse_source (PDict (source_dict (env_source e))) c = Inr (env_source e)" for c
    by (auto simp: amp_simps source_dict_def)
  moreover have "parse_payload (PDict (payload_dict (env_payload e))) c = Inr (env_payload e)" for c
    using assms by (auto simp: amp_simps payload_dict_def valid_envelope_def)
  moreover have "parse_identity (PDict (identity_dict (env_identity e))) c = Inr (env_identity e)"
    "parse_reply (PDict (reply_dict (env_reply e))) c = Inr (env_reply e)" for c
    using assms by (auto simp: valid_envelope_def intro: identity_back reply_back)
  ultimately show ?thesis using assms k by (simp add: reads_as_def)
qed

text \<open>C31: an accepted envelope survives the wire: what \<open>to_dict\<close> writes for it is accepted again, under the
  same strictness, and gives the same envelope with every optional field.\<close>

theorem envelope_roundtrip:
  assumes "parse_envelope strict data = Inr e"
  shows "parse_envelope strict (PDict (env_dict e)) = Inr e"
proof -
  obtain d where "data = PDict d" using assms by (cases data) (auto simp: parse_envelope_def)
  then have "valid_envelope strict e" using assms by (simp add: parse_envelope_Inr reads_as_def)
  then show ?thesis unfolding parse_envelope_Inr by (rule env_dict_reads)
qed

definition demo_packet :: dict where
  "demo_packet =
     [(''v'', PInt 1), (''id'', PStr ''12345678-1234-4234-8234-123456789abc''), (''ts'', PStr ''2026-07-23T07:45:00.000Z''),
      (''direction'', PStr ''inbound''), (''source'', PDict [(''brick'', PStr ''claude''), (''instance'', PStr ''a'')]),
      (''channel'', PStr ''harness''),
      (''identity'', PDict [(''self'', PBool True), (''canonical'', PStr ''session:claude''), (''provisional'', PBool True)]),
      (''payload'', PDict [(''type'', PStr ''harness_task''), (''body'', PDict [(''kind'', PStr ''shell'')])]),
      (''reply'', PDict [(''to_channel'', PStr ''harness''), (''to_address'', PStr ''session:claude'')]),
      (''audit'', PDict [(''reason'', PStr ''r'')])]"

lemma demo_packet_ok: "case parse_envelope True (PDict demo_packet) of Inr e \<Rightarrow> env_id e = ''12345678-1234-4234-8234-123456789abc'' | Inl _ \<Rightarrow> False"
  by code_simp

theorem envelope_roundtrip_witness:
  "\<exists>e. parse_envelope True (PDict demo_packet) = Inr e \<and> parse_envelope True (PDict (env_dict e)) = Inr e"
proof -
  obtain e where "parse_envelope True (PDict demo_packet) = Inr e"
    using demo_packet_ok by (auto split: sum.splits)
  then show ?thesis using envelope_roundtrip by blast
qed

text \<open>An accepted packet has version 1, an id of the right form (in strict mode), a well-formed timestamp,
  identity and reply address, a channel, and a payload whose type fits its direction and whose body holds the
  field the consumers read.\<close>

theorem parse_envelope_sound:
  assumes "parse_envelope strict (PDict d) = Inr e"
  shows "as_int (dget d ''v'') = Some 1 \<and> (strict \<longrightarrow> is_ulid (env_id e) \<or> is_uuid4 (lower (env_id e))) \<and> is_ts (env_ts e) \<and>
    canonical_ok (idn_canonical (env_identity e)) \<and> canonical_ok (rp_address (env_reply e)) \<and> env_channel e \<noteq> [] \<and>
    (env_direction e = ''inbound'' \<and> pl_type (env_payload e) = ''harness_task'' \<and> is_pstr (dget (pl_body (env_payload e)) ''kind'') \<or>
     env_direction e = ''outbound'' \<and> pl_type (env_payload e) = ''harness_result'' \<and> is_pbool (dget (pl_body (env_payload e)) ''ok''))"
  using assms unfolding parse_envelope_Inr reads_as_def valid_envelope_def body_ok_def
  by (auto simp: dget_def VALID_DIRECTIONS_def VALID_TYPES_def)

theorem parse_envelope_sound_witness:
  "\<exists>e. parse_envelope True (PDict demo_packet) = Inr e \<and> is_ts (env_ts e) \<and> canonical_ok (rp_address (env_reply e))"
proof -
  obtain e where "parse_envelope True (PDict demo_packet) = Inr e"
    using demo_packet_ok by (auto split: sum.splits)
  then show ?thesis using parse_envelope_sound by blast
qed

text \<open>Python takes \<open>true\<close> for the version 1, and \<open>$\<close> lets a timestamp end in a newline.\<close>

lemma version_true_accepted:
  "case parse_envelope True (PDict (dict_set demo_packet ''v'' (PBool True))) of Inr e \<Rightarrow> env_v e = PBool True | Inl _ \<Rightarrow> False"
  by code_simp

lemma timestamp_newline_accepted: "is_ts (''2026-07-23T07:45:00.000Z'' @ [newline])"
  by code_simp

end
