(* ===== verification/Llmrouter.thy ===== *)
theory Llmrouter
  imports Host
begin

text \<open>
  \<open>agent/llm_router.py\<close>: the configured model backends, their last known health, and the choice of one for a role.
  Clients are their addresses; a health check asks the network, an argument. The thread that repeats the check is a
  sequence of \<open>check_all_once\<close>.
\<close>

subsection \<open>Configuration\<close>

record backend =
  b_name :: string
  b_base_url :: pyval
  b_model :: pyval
  b_api_key :: pyval

record role_config =
  rc_role :: string
  rc_primary :: backend
  rc_secondary :: "backend option"
  rc_interval :: pyval

definition DEFAULT_HEALTH_CHECK_INTERVAL :: int where "DEFAULT_HEALTH_CHECK_INTERVAL = 60"

definition key_error :: "string \<Rightarrow> exn" where
  "key_error k = (''KeyError'', repr_str k)"

text \<open>\<open>d[k]\<close>; subscripting what is no dictionary raises \<open>TypeError\<close>.\<close>

definition subscript :: "pyval \<Rightarrow> string \<Rightarrow> exn + pyval" where
  "subscript v k = (case v of PDict d \<Rightarrow> (case map_of d k of None \<Rightarrow> Inl (key_error k) | Some x \<Rightarrow> Inr x)
     | _ \<Rightarrow> Inl (''TypeError'', quoted (type_name v) @ '' object is not subscriptable by '' @ repr_str k))"

definition backend_from_dict :: "string \<Rightarrow> pyval \<Rightarrow> exn + backend" where
  "backend_from_dict name v =
     and_then (subscript v ''base_url'') (\<lambda>url. and_then (subscript v ''model'') (\<lambda>model.
       Inr \<lparr>b_name = name, b_base_url = url, b_model = model, b_api_key = dget_or (pdict_items v) ''api_key'' (PStr [])\<rparr>))"

text \<open>\<open>"primary" in spec\<close>.\<close>

definition has_primary :: "pyval \<Rightarrow> exn + bool" where
  "has_primary v = (case v of PDict d \<Rightarrow> Inr (has_key d ''primary'')
     | PStr s \<Rightarrow> Inr (contains ''primary'' s)
     | PList xs \<Rightarrow> Inr (PStr ''primary'' \<in> set xs)
     | _ \<Rightarrow> Inl (''TypeError'', ''argument of type '' @ quoted (type_name v) @ '' is not iterable''))"

definition parse_role :: "string \<Rightarrow> pyval \<Rightarrow> exn + role_config" where
  "parse_role role spec =
     and_then (has_primary spec) (\<lambda>p.
     if \<not> p then Inl (''ValueError'', ''llm_backends.'' @ role @ '' is missing a '' @ quoted ''primary'' @ '' backend'')
     else and_then (subscript spec ''primary'') (\<lambda>pv.
     and_then (backend_from_dict ''primary'' pv) (\<lambda>primary.
     and_then (let sv = dget (pdict_items spec) ''secondary'' in
         if truthy sv then map_sum id Some (backend_from_dict ''secondary'' sv) else Inr None) (\<lambda>secondary.
       Inr \<lparr>rc_role = role, rc_primary = primary, rc_secondary = secondary,
             rc_interval = dget_or (pdict_items spec) ''health_check_interval'' (PInt DEFAULT_HEALTH_CHECK_INTERVAL)\<rparr>))))"

fun parse_roles :: "dict \<Rightarrow> exn + (string \<times> role_config) list" where
  "parse_roles [] = Inr []"
| "parse_roles ((role, spec) # d) = and_then (parse_role role spec) (\<lambda>rc.
     and_then (parse_roles d) (\<lambda>rs. Inr ((role, rc) # rs)))"

definition parse_llm_backends :: "pyval \<Rightarrow> exn + (string \<times> role_config) list" where
  "parse_llm_backends cfg = (case py_or cfg (PDict []) of PDict d \<Rightarrow> parse_roles d
     | v \<Rightarrow> Inl (''AttributeError'', quoted (type_name v) @ '' object has no attribute '' @ quoted ''items''))"

subsection \<open>The router\<close>

type_synonym slot = "string \<times> string"

record client =
  cl_base_url :: string
  cl_model :: pyval
  cl_api_key :: pyval

record health =
  h_healthy :: bool
  h_last_checked :: rat
  h_last_error :: string

definition fresh_health :: health where
  "fresh_health = \<lparr>h_healthy = True, h_last_checked = 0, h_last_error = []\<rparr>"

record llm_router =
  lr_roles :: "(string \<times> role_config) list"
  lr_clients :: "(slot \<times> client) list"
  lr_health :: "(slot \<times> health) list"

definition new_client :: "backend \<Rightarrow> exn + client" where
  "new_client b = and_then (need_attr ''rstrip'' (b_base_url b)) (\<lambda>url.
     Inr \<lparr>cl_base_url = rstrip_char (CHR ''/'') url, cl_model = b_model b, cl_api_key = b_api_key b\<rparr>)"

definition role_clients :: "string \<Rightarrow> role_config \<Rightarrow> exn + (slot \<times> client) list" where
  "role_clients role rc = and_then (new_client (rc_primary rc)) (\<lambda>c.
     (case rc_secondary rc of None \<Rightarrow> Inr [((role, ''primary''), c)]
      | Some b \<Rightarrow> and_then (new_client b) (\<lambda>c2. Inr [((role, ''primary''), c), ((role, ''secondary''), c2)])))"

fun all_clients :: "(string \<times> role_config) list \<Rightarrow> exn + (slot \<times> client) list" where
  "all_clients [] = Inr []"
| "all_clients ((role, rc) # rs) = and_then (role_clients role rc) (\<lambda>cs. and_then (all_clients rs) (\<lambda>ds. Inr (cs @ ds)))"

definition new_router :: "pyval \<Rightarrow> exn + llm_router" where
  "new_router cfg = and_then (parse_llm_backends cfg) (\<lambda>roles. and_then (all_clients roles) (\<lambda>cs.
     Inr \<lparr>lr_roles = roles, lr_clients = cs, lr_health = map (\<lambda>(k, _). (k, fresh_health)) cs\<rparr>))"

definition checked :: "(client \<Rightarrow> bool) \<Rightarrow> rat \<Rightarrow> client \<Rightarrow> health" where
  "checked probe now c = \<lparr>h_healthy = probe c, h_last_checked = now,
     h_last_error = (if probe c then [] else ''GET /v1/models failed or timed out'')\<rparr>"

definition check_all_once :: "(client \<Rightarrow> bool) \<Rightarrow> rat \<Rightarrow> llm_router \<Rightarrow> llm_router" where
  "check_all_once probe now r = r\<lparr>lr_health := fold (\<lambda>(k, c) hs. dict_set hs k (checked probe now c)) (lr_clients r) (lr_health r)\<rparr>"

definition seems_up :: "llm_router \<Rightarrow> slot \<Rightarrow> bool" where
  "seems_up r k = (case map_of (lr_health r) k of None \<Rightarrow> True | Some h \<Rightarrow> h_healthy h)"

definition client_at :: "llm_router \<Rightarrow> slot \<Rightarrow> exn + client" where
  "client_at r k = (case map_of (lr_clients r) k of Some c \<Rightarrow> Inr c
     | None \<Rightarrow> Inl (''KeyError'', ''('' @ repr_str (fst k) @ '', '' @ repr_str (snd k) @ '')''))"

definition route :: "llm_router \<Rightarrow> string \<Rightarrow> exn + client" where
  "route r role = (case map_of (lr_roles r) role of
     None \<Rightarrow> Inl (''KeyError'', repr_str (''No llm_backends entry for role '' @ quoted role @ ''. Configured roles: '' @
       py_repr (PList (map (PStr \<circ> fst) (lr_roles r)))))
   | Some rc \<Rightarrow>
       if seems_up r (role, ''primary'') then client_at r (role, ''primary'')
       else if rc_secondary rc \<noteq> None \<and> seems_up r (role, ''secondary'') then client_at r (role, ''secondary'')
       else Inl (''NoHealthyBackendError'', ''No healthy backend for role '' @ quoted role @ '' (primary_error='' @
         (case map_of (lr_health r) (role, ''primary'') of None \<Rightarrow> ''unknown'' | Some h \<Rightarrow> h_last_error h) @ '')''))"

definition status_row :: "llm_router \<Rightarrow> slot \<times> client \<Rightarrow> dict" where
  "status_row r = (\<lambda>((role, sl), c). let h = (case map_of (lr_health r) (role, sl) of None \<Rightarrow> fresh_health | Some h \<Rightarrow> h) in
     [(''role'', PStr role), (''slot'', PStr sl), (''base_url'', PStr (cl_base_url c)), (''model'', cl_model c),
      (''healthy'', PBool (h_healthy h)), (''last_checked'', PFloat (h_last_checked h)), (''last_error'', PStr (h_last_error h))])"

definition router_status :: "llm_router \<Rightarrow> dict list" where
  "router_status r = map (status_row r) (sort_key (fst \<circ> fst) (sort_key (snd \<circ> fst) (lr_clients r)))"


subsection \<open>The choice\<close>

text \<open>What a role may be served by, in the order of preference.\<close>

definition clients_for :: "role_config \<Rightarrow> client list" where
  "clients_for rc = List.map_filter (\<lambda>b. case new_client b of Inr c \<Rightarrow> Some c | Inl _ \<Rightarrow> None)
     (rc_primary rc # (case rc_secondary rc of None \<Rightarrow> [] | Some b \<Rightarrow> [b]))"

definition checks :: "((client \<Rightarrow> bool) \<times> rat) list \<Rightarrow> llm_router \<Rightarrow> llm_router" where
  "checks ps r = fold (\<lambda>(probe, now). check_all_once probe now) ps r"

lemma router_then_Inr: "and_then x f = Inr b \<longleftrightarrow> (\<exists>a. x = Inr a \<and> f a = Inr b)"
  by (cases x) auto

lemma role_clients_keys: "role_clients role rc = Inr cs \<Longrightarrow> distinct (map fst cs) \<and> fst ` fst ` set cs \<subseteq> {role}"
  by (cases "rc_secondary rc") (auto simp: role_clients_def router_then_Inr)

lemma all_clients_keys: "all_clients rs = Inr cs \<Longrightarrow> fst ` fst ` set cs \<subseteq> fst ` set rs"
proof (induction rs arbitrary: cs)
  case (Cons x rs)
  obtain a ra where x: "x = (a, ra)" by (cases x)
  obtain ds es where d: "role_clients a ra = Inr ds" "all_clients rs = Inr es" "cs = ds @ es"
    using Cons.prems(1) by (auto simp: x router_then_Inr)
  then show ?case
    using Cons.IH[OF d(2)] role_clients_keys[OF d(1)] by (simp add: x d(3) image_Un) blast
qed simp

lemma role_clients_at:
  assumes "role_clients role rc = Inr cs"
  shows "\<exists>c. new_client (rc_primary rc) = Inr c \<and> map_of cs (role, ''primary'') = Some c \<and>
     (case rc_secondary rc of None \<Rightarrow> map_of cs (role, ''secondary'') = None
      | Some b \<Rightarrow> \<exists>c2. new_client b = Inr c2 \<and> map_of cs (role, ''secondary'') = Some c2)"
  using assms by (auto simp: role_clients_def router_then_Inr split: option.splits)

lemma all_clients_at:
  assumes "all_clients rs = Inr cs" "map_of rs role = Some rc" "distinct (map fst rs)"
  shows "\<exists>c. new_client (rc_primary rc) = Inr c \<and> map_of cs (role, ''primary'') = Some c \<and>
     (case rc_secondary rc of None \<Rightarrow> map_of cs (role, ''secondary'') = None
      | Some b \<Rightarrow> \<exists>c2. new_client b = Inr c2 \<and> map_of cs (role, ''secondary'') = Some c2)"
  using assms
proof (induction rs arbitrary: cs)
  case (Cons x rs)
  obtain a ra where x: "x = (a, ra)" by (cases x)
  obtain ds es where d: "role_clients a ra = Inr ds" "all_clients rs = Inr es" "cs = ds @ es"
    using Cons.prems(1) by (auto simp: x router_then_Inr)
  have da: "fst (fst k) = a" if "k \<in> set ds" for k
    using role_clients_keys[OF d(1)] that by blast
  show ?case
  proof (cases "a = role")
    case True
    have "map_of es (role, s) = None" for s
      using all_clients_keys[OF d(2)] Cons.prems(3) True by (force simp: x map_of_eq_None_iff)
    then have "map_of cs (role, s) = map_of ds (role, s)" for s
      by (cases "map_of ds (role, s)") (simp_all add: d(3) map_add_def)
    note eq = this
    have "ra = rc"
      using Cons.prems(2) True by (simp add: x)
    then show ?thesis
      unfolding eq using role_clients_at[of role rc ds] d(1) True by simp
  next
    case False
    have "map_of ds (role, s) = None" for s
      using da False by (force simp: map_of_eq_None_iff)
    then have eq: "map_of cs (role, s) = map_of es (role, s)" for s
      by (simp add: d(3) map_add_def split: option.split)
    have "map_of rs role = Some rc" "distinct (map fst rs)"
      using Cons.prems(2,3) False by (simp_all add: x)
    then show ?thesis
      unfolding eq by (rule Cons.IH[OF d(2)])
  qed
qed simp

lemma all_clients_distinct:
  "all_clients rs = Inr cs \<Longrightarrow> distinct (map fst rs) \<Longrightarrow> distinct (map fst cs)"
proof (induction rs arbitrary: cs)
  case (Cons x rs)
  obtain a ra where x: "x = (a, ra)" by (cases x)
  obtain ds es where d: "role_clients a ra = Inr ds" "all_clients rs = Inr es" "cs = ds @ es"
    using Cons.prems(1) by (auto simp: x router_then_Inr)
  have a: "a \<notin> fst ` fst ` set es"
    using all_clients_keys[OF d(2)] Cons.prems(2) by (auto simp: x)
  have "fst ` set ds \<inter> fst ` set es = {}"
  proof (rule ccontr)
    assume "fst ` set ds \<inter> fst ` set es \<noteq> {}"
    then obtain k where "k \<in> fst ` set ds" "k \<in> fst ` set es" by blast
    moreover from this(1) have "fst k = a"
      using role_clients_keys[OF d(1)] by blast
    ultimately show False using a by blast
  qed
  then show ?case
    using Cons.IH[OF d(2)] Cons.prems(2) role_clients_keys[OF d(1)] by (simp add: x d(3))
qed simp

lemma map_of_checked:
  "distinct (map fst cs) \<Longrightarrow> map_of (fold (\<lambda>(k, c) hs. dict_set hs k (f c)) cs hs) k =
     (case map_of cs k of Some c \<Rightarrow> Some (f c) | None \<Rightarrow> map_of hs k)"
proof (induction cs arbitrary: hs)
  case (Cons x cs)
  obtain a c where x: "x = (a, c)" by (cases x)
  have "map_of cs a = None" "distinct (map fst cs)"
    using Cons.prems by (auto simp: x map_of_eq_None_iff)
  then show ?case
    using Cons.IH[of "dict_set hs a (f c)"] by (cases "k = a") (simp_all add: x update_conv' split: option.split)
qed simp

lemma check_sel [simp]: "lr_clients (check_all_once probe now r) = lr_clients r" "lr_roles (check_all_once probe now r) = lr_roles r"
  by (simp_all add: check_all_once_def)

lemma checks_sel [simp]: "lr_clients (checks ps r) = lr_clients r" "lr_roles (checks ps r) = lr_roles r"
  by (induction ps arbitrary: r) (auto simp: checks_def)

lemma parse_roles_names: "parse_roles d = Inr rs \<Longrightarrow> map fst rs = map fst d"
  by (induction d arbitrary: rs rule: parse_roles.induct) (auto simp: router_then_Inr)

text \<open>After any number of health checks, a configured role is routed to the first of its backends, primary before
  secondary, that answered the last one; when none did, routing raises. A backend that did not answer is never chosen.\<close>

theorem route_first_healthy:
  assumes "new_router (PDict d) = Inr r" "distinct (map fst d)" "map_of (lr_roles r) role = Some rc"
  shows "(case route (checks (ps @ [(probe, now)]) r) role of Inr c \<Rightarrow> Some c | Inl _ \<Rightarrow> None) = find probe (clients_for rc)"
proof -
  have roles: "parse_llm_backends (PDict d) = Inr (lr_roles r)" "all_clients (lr_roles r) = Inr (lr_clients r)"
    using assms(1) by (auto simp: new_router_def router_then_Inr)
  then have "parse_roles d = Inr (lr_roles r)"
    by (cases d) (auto simp: parse_llm_backends_def py_or_def)
  then have dist: "distinct (map fst (lr_roles r))"
    using assms(2) parse_roles_names by metis
  define r1 where "r1 = checks ps r"
  have step: "checks (ps @ [(probe, now)]) r = check_all_once probe now r1"
    by (simp add: checks_def r1_def)
  have up: "seems_up (check_all_once probe now r1) k = probe c" if "map_of (lr_clients r) k = Some c" for k c
    using map_of_checked[OF all_clients_distinct[OF roles(2) dist], of "checked probe now" "lr_health r1" k] that
    by (simp add: seems_up_def check_all_once_def r1_def checked_def)
  obtain c where c: "new_client (rc_primary rc) = Inr c" "map_of (lr_clients r) (role, ''primary'') = Some c"
      "case rc_secondary rc of None \<Rightarrow> map_of (lr_clients r) (role, ''secondary'') = None
       | Some b \<Rightarrow> \<exists>c2. new_client b = Inr c2 \<and> map_of (lr_clients r) (role, ''secondary'') = Some c2"
    using all_clients_at[OF roles(2) assms(3) dist] by blast
  show ?thesis
  proof (cases "rc_secondary rc")
    case None
    then show ?thesis
      using c up[OF c(2)] assms(3) unfolding step by (simp add: route_def client_at_def r1_def clients_for_def List.map_filter_simps)
  next
    case (Some b)
    then obtain c2 where c2: "new_client b = Inr c2" "map_of (lr_clients r) (role, ''secondary'') = Some c2"
      using c(3) by auto
    then show ?thesis
      using Some c up[OF c(2)] up[OF c2(2)] assms(3) unfolding step
      by (simp add: route_def client_at_def r1_def clients_for_def List.map_filter_simps)
  qed
qed

definition demo_backends :: dict where
  "demo_backends = [(''coder'', PDict [(''primary'', PDict [(''base_url'', PStr ''http://a/v1/''), (''model'', PStr ''m'')]),
     (''secondary'', PDict [(''base_url'', PStr ''http://b/v1''), (''model'', PStr ''m'')])])]"

definition demo_router :: llm_router where
  "demo_router = (case new_router (PDict demo_backends) of Inr r \<Rightarrow> r | Inl _ \<Rightarrow> \<lparr>lr_roles = [], lr_clients = [], lr_health = []\<rparr>)"

definition demo_role :: role_config where
  "demo_role = the (map_of (lr_roles demo_router) ''coder'')"

definition only_b :: "client \<Rightarrow> bool" where
  "only_b c = (cl_base_url c = ''http://b/v1'')"

theorem route_first_healthy_witness:
  "(case route (checks ([(\<lambda>_. False, 1)] @ [(only_b, 2)]) demo_router) ''coder'' of Inr c \<Rightarrow> Some c | Inl _ \<Rightarrow> None) =
     find only_b (clients_for demo_role) \<and> map_option cl_base_url (find only_b (clients_for demo_role)) = Some ''http://b/v1''"
proof
  have "new_router (PDict demo_backends) = Inr demo_router"
    by code_simp
  moreover have "distinct (map fst demo_backends)"
    by code_simp
  moreover have "map_of (lr_roles demo_router) ''coder'' = Some demo_role"
    by code_simp
  ultimately show "(case route (checks ([(\<lambda>_. False, 1)] @ [(only_b, 2)]) demo_router) ''coder'' of Inr c \<Rightarrow> Some c | Inl _ \<Rightarrow> None) =
     find only_b (clients_for demo_role)"
    by (rule route_first_healthy)
  show "map_option cl_base_url (find only_b (clients_for demo_role)) = Some ''http://b/v1''"
    by code_simp
qed

end
