(* ===== verification/Llmloop.thy ===== *)
theory Llmloop
  imports Amp Llmtask Llmrouter
begin

text \<open>
  \<open>agent/llm_tools.py\<close> and \<open>agent/llm_loop.py\<close>: the loop in which a local model drives the executor directly. Its tool
  calls become AMP task envelopes, the envelopes become tasks, the results become messages for the model. The model,
  the executor and the fresh ids and times are fields of the environment. The callback for a confirmation does nothing
  unless a caller passes one, and the schemas of the tools only name what the model is told.
\<close>

subsection \<open>Tool calls as envelopes\<close>

record 's loop_env =
  le_model :: "client \<Rightarrow> dict list \<Rightarrow> 's \<Rightarrow> (exn + pyval) \<times> 's"
  le_execute :: "task \<Rightarrow> 's \<Rightarrow> (exn + result) \<times> 's"
  le_id :: "nat \<Rightarrow> string"
  le_hex :: "nat \<Rightarrow> string"
  le_now :: "nat \<Rightarrow> string"
  le_amp_text :: "amp_error \<Rightarrow> string"
  le_json_msg :: "string \<Rightarrow> string"
  le_role :: string
  le_instance :: string
  le_system :: string
  le_max :: int

definition TOOL_NAMES :: "string list" where
  "TOOL_NAMES = [''list_dir'', ''read_file'', ''shell'', ''write_file'']"

definition attr_get :: "pyval \<Rightarrow> exn + dict" where
  "attr_get v = (case v of PDict d \<Rightarrow> Inr d
     | _ \<Rightarrow> Inl (''AttributeError'', quoted (type_name v) @ '' object has no attribute '' @ quoted ''get''))"

definition parse_tool_call_args :: "(string \<Rightarrow> string) \<Rightarrow> dict \<Rightarrow> exn + pyval" where
  "parse_tool_call_args jmsg call = Host.and_then (attr_get (dget_or call ''function'' (PDict []))) (\<lambda>fn.
     case dget_or fn ''arguments'' (PDict []) of
       PStr x \<Rightarrow> if strip x = [] then Inr (PDict [])
         else (case json_loads x of None \<Rightarrow> Inl (''JSONDecodeError'', jmsg x) | Some v \<Rightarrow> Inr v)
     | PDict a \<Rightarrow> Inr (PDict a)
     | v \<Rightarrow> Inl (''ValueError'', ''Unsupported tool_call.function.arguments type: <class '' @ quoted (type_name v) @ ''>''))"

definition tool_name_of :: "pyval \<Rightarrow> exn + string" where
  "tool_name_of v = (let unknown = Inl (''UnknownToolError'', ''Unknown tool name: '' @ py_repr v @ ''; known tools: '' @
       py_repr (PList (map PStr TOOL_NAMES))) in
     case v of PStr s \<Rightarrow> if s \<in> set TOOL_NAMES then Inr s else unknown
     | PList _ \<Rightarrow> Inl (''TypeError'', ''unhashable type: '' @ quoted ''list'')
     | PDict _ \<Rightarrow> Inl (''TypeError'', ''unhashable type: '' @ quoted ''dict'')
     | _ \<Rightarrow> unknown)"

definition loop_request :: "string \<Rightarrow> string \<Rightarrow> string \<Rightarrow> string \<Rightarrow> dict \<Rightarrow> amp_request" where
  "loop_request direction instan canonical ptype body =
     \<lparr>rq_direction = direction, rq_brick = ''iddo-harness-llm-loop'', rq_instance = instan, rq_channel = ''harness'',
      rq_canonical = canonical, rq_type = ptype, rq_body = body, rq_to_channel = ''harness'', rq_to_address = canonical,
      rq_self = True, rq_display = None, rq_env_id = None, rq_ts = None, rq_reply_to = None, rq_rate = None, rq_audit = None\<rparr>"

definition loop_envelope :: "'s loop_env \<Rightarrow> nat \<Rightarrow> amp_request \<Rightarrow> exn + envelope" where
  "loop_envelope E n rq = map_sum (\<lambda>e. (''AmpValidationError'', le_amp_text E e)) id (build_envelope (le_id E n) (le_now E n) rq)"

definition task_body :: "string \<Rightarrow> pyval \<Rightarrow> dict \<Rightarrow> dict" where
  "task_body name cid args = dict_merge [(''kind'', PStr name), (''tool_call_id'', cid), (''tool_name'', PStr name)] args"

definition tool_call_to_task :: "'s loop_env \<Rightarrow> nat \<Rightarrow> pyval \<Rightarrow> exn + envelope" where
  "tool_call_to_task E n callv =
     Host.and_then (attr_get callv) (\<lambda>call.
     Host.and_then (attr_get (dget_or call ''function'' (PDict []))) (\<lambda>fn.
     Host.and_then (tool_name_of (dget fn ''name'')) (\<lambda>name.
     Host.and_then (parse_tool_call_args (le_json_msg E) call) (\<lambda>argsv.
       case argsv of PDict args \<Rightarrow>
           loop_envelope E n (loop_request ''inbound'' (le_instance E) ''session:llm-loop'' ''harness_task''
             (task_body name (py_or (dget call ''id'') (PStr (''call_'' @ le_hex E n))) args))
       | v \<Rightarrow> Inl (''TypeError'', quoted (type_name v) @ '' object is not a mapping'')))))"

text \<open>The kind is a string: the envelope was validated.\<close>

definition envelope_to_executor_task :: "envelope \<Rightarrow> task" where
  "envelope_to_executor_task e = (let body = pl_body (env_payload e) in
     mk_task (env_id e) (py_str (dget body ''kind'')) (dict_del (dict_del (dict_del body ''kind'') ''tool_call_id'') ''tool_name''))"

subsection \<open>Results as messages\<close>

definition result_view :: "result \<Rightarrow> dict" where
  "result_view r = [(''task_id'', PStr (r_task_id r)), (''ok'', PBool (r_ok r)), (''decision'', PStr (r_decision r)), (''stdout'', PStr (r_stdout r)),
     (''stderr'', PStr (r_stderr r)), (''exit_code'', (case r_exit_code r of None \<Rightarrow> PNone | Some n \<Rightarrow> PInt n)), (''error'', PStr (r_error r)),
     (''metadata'', PDict (r_metadata r))]"

definition result_to_tool_message :: "dict \<Rightarrow> pyval \<Rightarrow> dict" where
  "result_to_tool_message r cid =
     (let metadata = pdict_items (py_or (dget_or r ''metadata'' (PDict [])) (PDict []));
          resolved = py_or cid (py_or (dget metadata ''tool_call_id'') (py_or (dget r ''task_id'') (PStr ''unknown_call''))) in
      [(''role'', PStr ''tool''), (''tool_call_id'', resolved),
       (''content'', PStr (json_print json_plain (PDict [(''ok'', dget r ''ok''), (''decision'', dget r ''decision''),
          (''stdout'', dget_or r ''stdout'' (PStr [])), (''stderr'', dget_or r ''stderr'' (PStr [])), (''exit_code'', dget r ''exit_code''),
          (''error'', dget_or r ''error'' (PStr [])), (''metadata'', PDict metadata)])))])"

definition result_envelope :: "'s loop_env \<Rightarrow> nat \<Rightarrow> result \<Rightarrow> exn + envelope" where
  "result_envelope E n r = loop_envelope E n (loop_request ''outbound'' (le_instance E) ''session:llm-loop'' ''harness_result'' (result_view r))"

definition audit_iteration :: "'s loop_env \<Rightarrow> nat \<Rightarrow> nat \<Rightarrow> string \<Rightarrow> dict \<Rightarrow> exn + dict" where
  "audit_iteration E n i phase datav = map_sum id env_dict (loop_envelope E n
     (loop_request ''outbound'' (le_instance E) (''session:'' @ le_instance E) ''harness_result''
       [(''task_id'', PStr (''llm-loop-iter-'' @ nat_str i @ ''-'' @ phase)), (''ok'', PBool True), (''decision'', PStr ''audit''),
        (''metadata'', PDict (dict_merge [(''iteration'', PInt (int i)), (''phase'', PStr phase), (''role'', PStr (le_role E))] datav))]))"

subsection \<open>The loop\<close>

record 's lstate =
  ls_messages :: "dict list"
  ls_audit :: "dict list"
  ls_next :: nat
  ls_ext :: 's

record loop_result =
  lp_done :: bool
  lp_paused :: bool
  lp_iterations :: int
  lp_final :: pyval
  lp_messages :: "dict list"
  lp_audit :: "dict list"
  lp_pending :: "dict option"

definition say :: "dict \<Rightarrow> 's lstate \<Rightarrow> 's lstate" where
  "say m st = st\<lparr>ls_messages := ls_messages st @ [m]\<rparr>"

definition note_audit :: "dict \<Rightarrow> 's lstate \<Rightarrow> 's lstate" where
  "note_audit a st = st\<lparr>ls_audit := ls_audit st @ [a]\<rparr>"

definition took :: "nat \<Rightarrow> 's \<Rightarrow> 's lstate \<Rightarrow> 's lstate" where
  "took k s st = st\<lparr>ls_next := ls_next st + k, ls_ext := s\<rparr>"

text \<open>One tool call: the task to confirm when the loop has to pause.\<close>

definition one_call :: "'s loop_env \<Rightarrow> nat \<Rightarrow> pyval \<Rightarrow> 's lstate \<Rightarrow> (exn + dict option) \<times> 's lstate" where
  "one_call E i call st = (let n = ls_next st in
     case tool_call_to_task E n call of
       Inl e \<Rightarrow> (case attr_get call of Inl e' \<Rightarrow> (Inl e', took 1 (ls_ext st) st)
         | Inr d \<Rightarrow> (Inr None, say (result_to_tool_message [(''ok'', PBool False), (''decision'', PStr ''error''), (''error'', PStr (snd e))] (dget d ''id''))
             (took 1 (ls_ext st) st)))
     | Inr envl \<Rightarrow> (case le_execute E (envelope_to_executor_task envl) (ls_ext st) of
         (Inl e, s) \<Rightarrow> (Inl e, took 1 s st)
       | (Inr r, s) \<Rightarrow> (let st1 = took 3 s st in
           case result_envelope E (Suc n) r of Inl e \<Rightarrow> (Inl e, st1) | Inr renv \<Rightarrow>
           (case audit_iteration E (Suc (Suc n)) i ''tool_result'' (env_dict renv) of Inl e \<Rightarrow> (Inl e, st1) | Inr a \<Rightarrow>
             if r_decision r = ''confirm_required''
             then (Inr (Some [(''tool_call'', call), (''reason'', PStr (if r_error r = [] then ''policy requires human confirmation'' else r_error r)),
                 (''envelope'', PDict (env_dict envl))]), note_audit a st1)
             else (Inr None, say (result_to_tool_message (result_view r) (dget (pdict_items call) ''id'')) (note_audit a st1))))))"

fun run_calls :: "'s loop_env \<Rightarrow> nat \<Rightarrow> pyval list \<Rightarrow> 's lstate \<Rightarrow> (exn + dict option) \<times> 's lstate" where
  "run_calls E i [] st = (Inr None, st)"
| "run_calls E i (c # cs) st = (case one_call E i c st of
     (Inr None, st') \<Rightarrow> run_calls E i cs st' | r \<Rightarrow> r)"

definition choice_of :: "pyval \<Rightarrow> exn + (dict \<times> dict)" where
  "choice_of resp = Host.and_then (subscript resp ''choices'') (\<lambda>cs. case cs of
       PList [] \<Rightarrow> Inl (''IndexError'', ''list index out of range'')
     | PList (c # _) \<Rightarrow> Host.and_then (subscript c ''message'') (\<lambda>m. Host.and_then (attr_get m) (\<lambda>d. Inr (pdict_items c, d)))
     | v \<Rightarrow> Inl (''TypeError'', quoted (type_name v) @ '' object is not subscriptable''))"

definition loop_done :: "bool \<Rightarrow> bool \<Rightarrow> int \<Rightarrow> pyval \<Rightarrow> dict option \<Rightarrow> 's lstate \<Rightarrow> loop_result" where
  "loop_done fin paused i final pending st = \<lparr>lp_done = fin, lp_paused = paused, lp_iterations = i, lp_final = final,
     lp_messages = ls_messages st, lp_audit = ls_audit st, lp_pending = pending\<rparr>"

fun drive :: "'s loop_env \<Rightarrow> client \<Rightarrow> nat \<Rightarrow> nat \<Rightarrow> 's lstate \<Rightarrow> (exn + loop_result) \<times> 's lstate" where
  "drive E c 0 i st = (Inr (loop_done False False (le_max E) PNone None st), st)"
| "drive E c (Suc k) i st = (case le_model E c (ls_messages st) (ls_ext st) of
     (Inl e, s) \<Rightarrow> (Inl e, took 0 s st)
   | (Inr resp, s) \<Rightarrow> (case choice_of resp of
       Inl e \<Rightarrow> (Inl e, took 0 s st)
     | Inr (choice, message) \<Rightarrow> (let st1 = say message (took 1 s st) in
         case py_iter (py_or (dget message ''tool_calls'') (PList [])) of Inl e \<Rightarrow> (Inl e, st1) | Inr calls \<Rightarrow>
         (case audit_iteration E (ls_next st) i ''llm_response'' [(''content'', dget message ''content''),
              (''tool_call_count'', PInt (int (length calls))), (''finish_reason'', dget choice ''finish_reason'')] of
            Inl e \<Rightarrow> (Inl e, st1)
          | Inr a \<Rightarrow> (let st2 = note_audit a st1 in
              if calls = [] then (Inr (loop_done True False (int i) (dget message ''content'') None st2), st2)
              else (case run_calls E i calls st2 of
                  (Inl e, st3) \<Rightarrow> (Inl e, st3)
                | (Inr (Some pending), st3) \<Rightarrow> (Inr (loop_done False True (int i) PNone (Some pending) st3), st3)
                | (Inr None, st3) \<Rightarrow> drive E c k (Suc i) st3))))))"

definition drive_run :: "'s loop_env \<Rightarrow> llm_router \<Rightarrow> string \<Rightarrow> dict list \<Rightarrow> 's \<Rightarrow> (exn + loop_result) \<times> 's lstate" where
  "drive_run E router prompt extra s =
     (let st = \<lparr>ls_messages = [(''role'', PStr ''system''), (''content'', PStr (le_system E))] # extra @ [[(''role'', PStr ''user''), (''content'', PStr prompt)]],
               ls_audit = [], ls_next = 0, ls_ext = s\<rparr> in
      case route router (le_role E) of Inl e \<Rightarrow> (Inl e, st) | Inr c \<Rightarrow> drive E c (nat (le_max E)) 1 st)"


subsection \<open>From call to task\<close>

definition RESERVED :: "string list" where
  "RESERVED = [''kind'', ''tool_call_id'', ''tool_name'']"

lemma map_sum_Inr: "map_sum f id x = Inr b \<longleftrightarrow> x = Inr b"
  by (cases x) auto

lemma loop_envelope_Inr:
  assumes "loop_envelope E n (loop_request dir inst can ptype body) = Inr e"
  shows "env_id e = le_id E n \<and> pl_body (env_payload e) = body \<and> env_direction e = dir"
proof -
  obtain d where d: "parse_envelope True (PDict d) = Inr e" "map_of d ''id'' = Some (PStr (le_id E n))" "map_of d ''direction'' = Some (PStr dir)"
    "map_of d ''payload'' = Some (PDict [(''type'', PStr ptype), (''body'', PDict body)])"
    using assms unfolding loop_envelope_def map_sum_Inr
    by (simp add: build_envelope_def loop_request_def text_or_def opt_field_def truthy_field_def split: if_splits)
  have "reads_as True d e"
    using d(1) by (simp only: parse_envelope_Inr)
  then show ?thesis
    using d(2-4) by (auto simp: reads_as_def parse_payload_Inr)
qed

lemma dict_merge_fresh:
  "distinct (map fst (base @ body)) \<Longrightarrow> dict_merge base body = base @ body"
proof (induction body arbitrary: base)
  case (Cons x body)
  obtain k v where x: "x = (k, v)" by (cases x)
  have "dict_set base k v = base @ [(k, v)]"
    using Cons.prems by (intro dict_set_fresh) (auto simp: x)
  then show ?case
    using Cons.IH[of "base @ [(k, v)]"] Cons.prems by (simp add: x dict_merge_def)
qed (simp add: dict_merge_def)

lemma task_body_fresh:
  assumes "distinct (map fst args)" "set (map fst args) \<inter> set RESERVED = {}"
  shows "task_body name cid args = [(''kind'', PStr name), (''tool_call_id'', cid), (''tool_name'', PStr name)] @ args"
  unfolding task_body_def using assms by (intro dict_merge_fresh) (auto simp: RESERVED_def)

lemma dict_del_fresh: "k \<notin> set (map fst d) \<Longrightarrow> dict_del d k = d"
  by (simp add: delete_id)

text \<open>C22: what the model asks for is what the executor gets: a tool call that becomes an envelope becomes a task of the
  tool's kind whose payload are the call's arguments, unless an argument is named like one of the three fields of the
  packet.\<close>

theorem tool_call_roundtrip:
  assumes "tool_call_to_task E n (PDict call) = Inr e" "parse_tool_call_args (le_json_msg E) call = Inr (PDict args)"
    "distinct (map fst args)" "set (map fst args) \<inter> set RESERVED = {}"
  shows "\<exists>name \<in> set TOOL_NAMES. dget (pdict_items (dget call ''function'')) ''name'' = PStr name \<and>
    envelope_to_executor_task e = mk_task (le_id E n) name args"
proof -
  obtain fn name where f: "attr_get (dget_or call ''function'' (PDict [])) = Inr fn" "tool_name_of (dget fn ''name'') = Inr name"
    "loop_envelope E n (loop_request ''inbound'' (le_instance E) ''session:llm-loop'' ''harness_task''
      (task_body name (py_or (dget call ''id'') (PStr (''call_'' @ le_hex E n))) args)) = Inr e"
    using assms(1,2) by (auto simp: tool_call_to_task_def attr_get_def router_then_Inr)
  have name: "dget fn ''name'' = PStr name" "name \<in> set TOOL_NAMES"
    using f(2) by (auto simp: tool_name_of_def Let_def split: pyval.splits if_splits)
  have "dget call ''function'' = PDict fn"
    using f(1) name(1) by (auto simp: attr_get_def dget_def dget_or_def split: option.splits pyval.splits)
  moreover have "envelope_to_executor_task e = mk_task (le_id E n) name args"
    using loop_envelope_Inr[OF f(3)] assms(4)
    by (simp add: envelope_to_executor_task_def task_body_fresh[OF assms(3,4)] dget_def dict_del_fresh RESERVED_def)
  ultimately show ?thesis using name by auto
qed

subsection \<open>What the loop has carried out\<close>

definition traced :: "'s loop_env \<Rightarrow> ('s \<times> (task \<times> result) list) loop_env" where
  "traced E = \<lparr>le_model = (\<lambda>c ms s. case le_model E c ms (fst s) of (r, s') \<Rightarrow> (r, (s', snd s))),
     le_execute = (\<lambda>t s. case le_execute E t (fst s) of (Inl e, s') \<Rightarrow> (Inl e, (s', snd s)) | (Inr r, s') \<Rightarrow> (Inr r, (s', snd s @ [(t, r)]))),
     le_id = le_id E, le_hex = le_hex E, le_now = le_now E, le_amp_text = le_amp_text E, le_json_msg = le_json_msg E, le_role = le_role E,
     le_instance = le_instance E, le_system = le_system E, le_max = le_max E\<rparr>"

definition held :: "task \<times> result \<Rightarrow> bool" where
  "held x = (r_decision (snd x) = ''confirm_required'')"

abbreviation carried :: "('s \<times> (task \<times> result) list) lstate \<Rightarrow> (task \<times> result) list" where
  "carried st \<equiv> snd (ls_ext st)"

definition ends_held :: "bool \<Rightarrow> (task \<times> result) list \<Rightarrow> bool" where
  "ends_held b new = (if b then new \<noteq> [] \<and> held (last new) \<and> filter held (butlast new) = [] else filter held new = [])"

lemma ext_simps [simp]: "ls_ext (say m st) = ls_ext st" "ls_ext (note_audit a st) = ls_ext st" "ls_ext (took k s st) = s"
  "ls_messages (say m st) = ls_messages st @ [m]" "ls_messages (note_audit a st) = ls_messages st" "ls_messages (took k s st) = ls_messages st"
  by (simp_all add: say_def note_audit_def took_def)

lemma ends_held_append: "filter held xs = [] \<Longrightarrow> ends_held b ys \<Longrightarrow> ends_held b (xs @ ys)"
  by (auto simp: ends_held_def butlast_append split: if_splits)

lemma one_call_carried:
  assumes "one_call (traced E) i c st = (Inr p, st')"
  shows "\<exists>new. carried st' = carried st @ new \<and> ends_held (p \<noteq> None) new"
proof (cases "tool_call_to_task (traced E) (ls_next st) c")
  case (Inl e)
  then show ?thesis
    using assms by (auto simp: one_call_def ends_held_def split: sum.splits)
next
  case (Inr envl)
  obtain x s' where x: "le_execute E (envelope_to_executor_task envl) (fst (ls_ext st)) = (x, s')" by fastforce
  show ?thesis
  proof (cases x)
    case (Inl e)
    then show ?thesis
      using assms x Inr by (simp add: one_call_def traced_def)
  next
    case r: (Inr r)
    then have "carried st' = carried st @ [(envelope_to_executor_task envl, r)] \<and> (p \<noteq> None) = (r_decision r = ''confirm_required'')"
      using assms x Inr unfolding one_call_def
      by (auto simp: traced_def Let_def split: sum.splits if_splits)
    then show ?thesis by (auto simp: ends_held_def held_def)
  qed
qed

lemma run_calls_carried:
  "run_calls (traced E) i cs st = (Inr p, st') \<Longrightarrow> \<exists>new. carried st' = carried st @ new \<and> ends_held (p \<noteq> None) new"
proof (induction cs arbitrary: st)
  case (Cons c cs)
  obtain r st1 where r: "one_call (traced E) i c st = (r, st1)" by fastforce
  show ?case
  proof (cases "r = Inr None")
    case True
    then obtain new where "carried st1 = carried st @ new" "filter held new = []"
      using one_call_carried[of E i c st None st1] r by (auto simp: ends_held_def)
    moreover obtain more where "carried st' = carried st1 @ more" "ends_held (p \<noteq> None) more"
      using Cons.IH[of st1] Cons.prems r True by auto
    ultimately show ?thesis
      by (intro exI[of _ "new @ more"]) (simp add: ends_held_append)
  next
    case False
    then have "r = Inr p" "st' = st1"
      using Cons.prems r by (auto split: sum.splits option.splits)
    then show ?thesis using one_call_carried r by blast
  qed
qed (simp add: ends_held_def)

lemma drive_carried:
  "drive (traced E) c k i st = (Inr r, st') \<Longrightarrow>
     (\<exists>new. carried st' = carried st @ new \<and> ends_held (lp_paused r) new) \<and> (lp_paused r = (lp_pending r \<noteq> None)) \<and>
     \<not> (lp_done r \<and> lp_paused r) \<and> lp_iterations r \<le> max (le_max E) (int i + int k - 1)"
proof (induction k arbitrary: i st)
  case 0
  then show ?case by (auto simp: loop_done_def ends_held_def traced_def)
next
  case (Suc k)
  obtain resp s where m: "le_model (traced E) c (ls_messages st) (ls_ext st) = (Inr resp, s)"
    using Suc.prems by (auto split: prod.splits sum.splits)
  have s: "snd s = carried st"
    using m by (auto simp: traced_def split: prod.splits)
  obtain choice message where ch: "choice_of resp = Inr (choice, message)"
    using Suc.prems m by (auto split: sum.splits)
  define st1 where "st1 = say message (took 1 s st)"
  obtain calls where calls: "py_iter (py_or (dget message ''tool_calls'') (PList [])) = Inr calls"
    using Suc.prems m ch by (auto simp: Let_def split: sum.splits)
  obtain a where a: "audit_iteration (traced E) (ls_next st) i ''llm_response'' [(''content'', dget message ''content''),
      (''tool_call_count'', PInt (int (length calls))), (''finish_reason'', dget choice ''finish_reason'')] = Inr a"
    using Suc.prems m ch calls by (auto simp: Let_def split: sum.splits)
  define st2 where "st2 = note_audit a st1"
  have c2: "carried st2 = carried st"
    by (simp add: st2_def st1_def s)
  have step: "drive (traced E) c (Suc k) i st = (if calls = [] then (Inr (loop_done True False (int i) (dget message ''content'') None st2), st2)
      else (case run_calls (traced E) i calls st2 of
          (Inl e, st3) \<Rightarrow> (Inl e, st3)
        | (Inr (Some pending), st3) \<Rightarrow> (Inr (loop_done False True (int i) PNone (Some pending) st3), st3)
        | (Inr None, st3) \<Rightarrow> drive (traced E) c k (Suc i) st3))"
    by (simp add: m ch calls a st1_def st2_def Let_def)
  show ?case
  proof (cases "calls = []")
    case True
    then show ?thesis using Suc.prems c2 unfolding step by (auto simp: loop_done_def ends_held_def)
  next
    case False
    obtain p st3 where p: "run_calls (traced E) i calls st2 = (Inr p, st3)"
      using Suc.prems False unfolding step by (cases "run_calls (traced E) i calls st2") (auto split: sum.splits)
    obtain new where new: "carried st3 = carried st @ new" "ends_held (p \<noteq> None) new"
      using run_calls_carried[OF p] c2 by auto
    show ?thesis
    proof (cases p)
      case None
      then have d: "drive (traced E) c k (Suc i) st3 = (Inr r, st')"
        using Suc.prems False p unfolding step by simp
      obtain more where "carried st' = carried st3 @ more" "ends_held (lp_paused r) more"
        using Suc.IH[OF d] by auto
      then have "carried st' = carried st @ (new @ more) \<and> ends_held (lp_paused r) (new @ more)"
        using new None by (simp add: ends_held_append ends_held_def[of False])
      then show ?thesis using Suc.IH[OF d] by auto
    next
      case (Some pending)
      then show ?thesis
        using Suc.prems False p new unfolding step by (auto simp: loop_done_def)
    qed
  qed
qed

text \<open>C21: the loop never goes on past a task the owner has to confirm: such a task is the last one carried out, and it is
  reported as pending; and the loop takes at most the allowed number of turns.\<close>

theorem drive_pauses_at_confirm:
  assumes "drive_run (traced E) router prompt extra (s, []) = (Inr r, st)"
  shows "(if lp_paused r then carried st \<noteq> [] \<and> held (last (carried st)) \<and> filter held (butlast (carried st)) = [] \<and> lp_pending r \<noteq> None
      else filter held (carried st) = [] \<and> lp_pending r = None) \<and> \<not> (lp_done r \<and> lp_paused r) \<and> lp_iterations r \<le> max (le_max E) 0"
proof -
  obtain c st0 where d: "drive (traced E) c (nat (le_max E)) 1 st0 = (Inr r, st)" "carried st0 = []"
    using assms by (auto simp: drive_run_def Let_def traced_def split: sum.splits)
  show ?thesis
    using drive_carried[OF d(1)] d(2) by (auto simp: ends_held_def max_def split: if_splits)
qed

lemma one_call_answers:
  assumes "one_call E i c st = (Inr None, st')"
  shows "\<exists>m. ls_messages st' = ls_messages st @ [m] \<and> dget m ''role'' = PStr ''tool'' \<and>
    (truthy (dget (pdict_items c) ''id'') \<longrightarrow> dget m ''tool_call_id'' = dget (pdict_items c) ''id'')"
proof -
  have m: "dget (result_to_tool_message r cid) ''role'' = PStr ''tool''" "truthy cid \<Longrightarrow> dget (result_to_tool_message r cid) ''tool_call_id'' = cid" for r cid
    by (simp_all add: result_to_tool_message_def dget_def py_or_def Let_def)
  show ?thesis
  proof (cases "tool_call_to_task E (ls_next st) c")
    case (Inl e)
    then show ?thesis
      using assms m by (cases c) (auto simp: one_call_def attr_get_def)
  next
    case (Inr envl)
    then show ?thesis
      using assms m unfolding one_call_def by (auto simp: Let_def split: prod.splits sum.splits if_splits)
  qed
qed

text \<open>When a turn of the model has been worked off without a pause, its tool calls are answered one by one and in
  order, each by one message under the call's id.\<close>

theorem turn_answered:
  assumes "run_calls E i cs st = (Inr None, st')"
  shows "\<exists>ms. ls_messages st' = ls_messages st @ ms \<and> list_all2 (\<lambda>c m. dget m ''role'' = PStr ''tool'' \<and>
    (truthy (dget (pdict_items c) ''id'') \<longrightarrow> dget m ''tool_call_id'' = dget (pdict_items c) ''id'')) cs ms"
  using assms
proof (induction cs arbitrary: st)
  case (Cons c cs)
  obtain st1 where s1: "one_call E i c st = (Inr None, st1)" "run_calls E i cs st1 = (Inr None, st')"
    using Cons.prems by (auto split: prod.splits sum.splits option.splits)
  obtain m where "ls_messages st1 = ls_messages st @ [m]" "dget m ''role'' = PStr ''tool''"
    "truthy (dget (pdict_items c) ''id'') \<longrightarrow> dget m ''tool_call_id'' = dget (pdict_items c) ''id''"
    using one_call_answers[OF s1(1)] by blast
  then show ?case
    using Cons.IH[OF s1(2)] by fastforce
qed simp


subsection \<open>Runs\<close>

definition demo_call :: "string \<Rightarrow> string \<Rightarrow> dict \<Rightarrow> pyval" where
  "demo_call cid name args = PDict [(''id'', PStr cid), (''type'', PStr ''function''),
     (''function'', PDict [(''name'', PStr name), (''arguments'', PDict args)])]"

definition demo_turn :: pyval where
  "demo_turn = PDict [(''choices'', PList [PDict [(''message'', PDict [(''role'', PStr ''assistant''),
     (''tool_calls'', PList [demo_call ''b'' ''shell'' [(''command'', PStr ''make'')], demo_call ''c'' ''read_file'' [(''path'', PStr ''x'')]])])]])]"

definition demo_loop :: "nat loop_env" where
  "demo_loop = \<lparr>le_model = (\<lambda>_ _ n. (Inr demo_turn, Suc n)),
     le_execute = (\<lambda>t n. (Inr (mk_result (t_id t) False (if t_kind t = ''shell'' then ''confirm_required'' else ''auto'')), n)),
     le_id = (\<lambda>_. ''12345678-1234-4234-8234-123456789abc''), le_hex = (\<lambda>_. ''123456789abc''), le_now = (\<lambda>_. ''2026-07-23T07:45:00.000Z''),
     le_amp_text = (\<lambda>_. []), le_json_msg = (\<lambda>_. []), le_role = ''coder'', le_instance = ''demo'', le_system = ''go'', le_max = 1\<rparr>"

definition demo_drive :: "(exn + loop_result) \<times> (nat \<times> (task \<times> result) list) lstate" where
  "demo_drive = drive_run (traced demo_loop) demo_router ''hello'' [] (0, [])"

definition demo_loop_result :: loop_result where
  "demo_loop_result = (case fst demo_drive of Inr r \<Rightarrow> r | Inl _ \<Rightarrow> loop_done False False 0 PNone None (snd demo_drive))"

definition glance :: "(exn + loop_result) \<times> (nat \<times> (task \<times> result) list) lstate \<Rightarrow> (exn + bool \<times> int) \<times> string list" where
  "glance = map_prod (map_sum id (\<lambda>r. (lp_paused r, lp_iterations r))) (\<lambda>st. map (t_kind \<circ> fst) (carried st))"

lemma demo_drive_ok: "glance demo_drive = (Inr (True, 1), [''shell''])"
  by code_simp

lemma glance_Inr: "glance p = (Inr a, b) \<Longrightarrow> p = (Inr (case fst p of Inr r \<Rightarrow> r | Inl _ \<Rightarrow> d), snd p)"
  by (cases p; cases "fst p") (auto simp: glance_def)

lemma demo_drive_runs: "drive_run (traced demo_loop) demo_router ''hello'' [] (0, []) = (Inr demo_loop_result, snd demo_drive)"
  unfolding demo_drive_def[symmetric] demo_loop_result_def by (rule glance_Inr[OF demo_drive_ok])

lemma demo_paused: "lp_paused demo_loop_result"
proof -
  have "glance (Inr demo_loop_result, snd demo_drive) = (Inr (True, 1), [''shell''])"
    using demo_drive_ok demo_drive_runs unfolding demo_drive_def[symmetric] by simp
  then show ?thesis by (simp add: glance_def)
qed

theorem drive_pauses_at_confirm_witness:
  "lp_paused demo_loop_result \<and> held (last (carried (snd demo_drive))) \<and> filter held (butlast (carried (snd demo_drive))) = []"
  using drive_pauses_at_confirm[OF demo_drive_runs] demo_paused by simp

definition demo_read :: dict where
  "demo_read = pdict_items (demo_call ''c'' ''read_file'' [(''path'', PStr ''x'')])"

definition demo_envelope :: envelope where
  "demo_envelope = (case tool_call_to_task demo_loop 0 (PDict demo_read) of Inr e \<Rightarrow> e | Inl _ \<Rightarrow> undefined)"

lemma demo_read_task: "tool_call_to_task demo_loop 0 (PDict demo_read) = Inr demo_envelope"
proof -
  have "case tool_call_to_task demo_loop 0 (PDict demo_read) of Inr e \<Rightarrow> True | Inl _ \<Rightarrow> False"
    by code_simp
  then show ?thesis by (simp add: demo_envelope_def split: sum.splits)
qed

theorem tool_call_roundtrip_witness:
  "\<exists>name \<in> set TOOL_NAMES. dget (pdict_items (dget demo_read ''function'')) ''name'' = PStr name \<and>
     envelope_to_executor_task demo_envelope = mk_task ''12345678-1234-4234-8234-123456789abc'' name [(''path'', PStr ''x'')]"
proof -
  have "parse_tool_call_args (le_json_msg demo_loop) demo_read = Inr (PDict [(''path'', PStr ''x'')])"
    by code_simp
  from tool_call_roundtrip[OF demo_read_task this] show ?thesis
    by (simp add: RESERVED_def demo_loop_def)
qed

definition demo_state :: "nat lstate" where
  "demo_state = \<lparr>ls_messages = [], ls_audit = [], ls_next = 0, ls_ext = 0\<rparr>"

lemma demo_turn_runs:
  "run_calls demo_loop 1 [PDict demo_read] demo_state = (Inr None, snd (run_calls demo_loop 1 [PDict demo_read] demo_state))"
proof -
  have "fst (run_calls demo_loop 1 [PDict demo_read] demo_state) = Inr None"
    by code_simp
  then show ?thesis by (simp add: prod_eq_iff)
qed

theorem turn_answered_witness:
  "\<exists>ms. ls_messages (snd (run_calls demo_loop 1 [PDict demo_read] demo_state)) = ms \<and> length ms = 1"
  using turn_answered[OF demo_turn_runs] by (auto simp: demo_state_def list_all2_Cons1)

text \<open>An argument named \<open>kind\<close> replaces the kind of the tool: a model offered four tools reaches every kind of the harness.\<close>

lemma arguments_choose_kind:
  "map_sum id (t_kind \<circ> envelope_to_executor_task)
     (tool_call_to_task demo_loop 0 (demo_call ''a'' ''list_dir'' [(''kind'', PStr ''process_kill''), (''pid'', PInt 4711)])) = Inr ''process_kill''"
  by code_simp

text \<open>A call without an id is answered under the id of the task, not under the one made up for it.\<close>

lemma made_up_id_dropped:
  "map (\<lambda>m. dget m ''tool_call_id'') (ls_messages (snd (one_call demo_loop 1
     (PDict [(''function'', PDict [(''name'', PStr ''list_dir''), (''arguments'', PDict [])])]) demo_state))) = [PStr ''12345678-1234-4234-8234-123456789abc'']"
  by code_simp

end
