(* ===== verification/Llmclient.thy ===== *)
theory Llmclient
  imports Llmloop
begin

text \<open>
  \<open>agent/llm_client.py\<close>: the retries of the client, a blocking completion, a streamed one, and the probe. What each attempt
  meets comes from a list, one entry per request made (\<open>Unreachable\<close> once the list is used up); sleeping is recorded. The
  transport, and the extra fields a caller may add to the request, are left out.
\<close>

subsection \<open>Requests\<close>

definition DEFAULT_MAX_RETRIES :: int where "DEFAULT_MAX_RETRIES = 3"

record client_opts =
  co_url :: string
  co_model :: string
  co_key :: string
  co_retries :: int
  co_backoff :: rat

definition new_opts :: "string \<Rightarrow> string \<Rightarrow> string \<Rightarrow> int \<Rightarrow> rat \<Rightarrow> client_opts" where
  "new_opts url model key retries backoff = \<lparr>co_url = rstrip_char (CHR ''/'') url, co_model = model, co_key = key, co_retries = retries, co_backoff = backoff\<rparr>"

definition request_headers :: "client_opts \<Rightarrow> dict" where
  "request_headers c = [(''Content-Type'', PStr ''application/json'')] @
     (if co_key c = [] then [] else [(''Authorization'', PStr (''Bearer '' @ co_key c))])"

definition request_body :: "client_opts \<Rightarrow> dict list \<Rightarrow> dict list \<Rightarrow> rat \<Rightarrow> int \<Rightarrow> bool \<Rightarrow> dict" where
  "request_body c messages tools temperature max_tokens stream =
     [(''model'', PStr (co_model c)), (''messages'', PList (map PDict messages)), (''temperature'', PFloat temperature),
      (''max_tokens'', PInt max_tokens), (''stream'', PBool stream)] @
     (if tools = [] then [] else [(''tools'', PList (map PDict tools))])"

text \<open>What one attempt meets: an error of the connection, a refusal with its stat and text, another exception, or an
  answer. A refusal of a streamed request has no text, as it was not read.\<close>

datatype 'a attempt = Unreachable string | Refused int string | Raised exn | Answer 'a

definition LLM_ERROR :: string where "LLM_ERROR = ''LlmClientError''"

definition http_error :: "client_opts \<Rightarrow> string \<Rightarrow> int \<Rightarrow> string \<Rightarrow> exn" where
  "http_error c path stat text = (LLM_ERROR, ''HTTP '' @ int_str stat @ '' from '' @ co_url c @ path @ '': '' @ take 2000 text)"

definition gave_up :: "client_opts \<Rightarrow> string \<Rightarrow> string \<Rightarrow> string option \<Rightarrow> exn" where
  "gave_up c verb path seen = (LLM_ERROR, ''Failed to '' @ verb @ '' '' @ co_url c @ path @ '' after '' @ int_str (co_retries c) @ '' attempts: '' @
     (case seen of None \<Rightarrow> ''None'' | Some m \<Rightarrow> m))"

definition next_attempt :: "'a attempt list \<Rightarrow> 'a attempt \<times> 'a attempt list" where
  "next_attempt ats = (case ats of [] \<Rightarrow> (Unreachable [], []) | a # as \<Rightarrow> (a, as))"

text \<open>The sleeps made and the number of requests sent.\<close>

record effort =
  ef_sleeps :: "rat list"
  ef_requests :: nat

definition no_effort :: effort where "no_effort = \<lparr>ef_sleeps = [], ef_requests = 0\<rparr>"

definition requested :: "effort \<Rightarrow> effort" where
  "requested f = f\<lparr>ef_requests := ef_requests f + 1\<rparr>"

definition slept :: "rat \<Rightarrow> effort \<Rightarrow> effort" where
  "slept x f = f\<lparr>ef_sleeps := ef_sleeps f @ [x]\<rparr>"

text \<open>\<open>_retrying_post\<close>: \<open>left\<close> attempts are left after \<open>n\<close> failed ones.\<close>

fun post_loop :: "client_opts \<Rightarrow> string \<Rightarrow> nat \<Rightarrow> nat \<Rightarrow> string option \<Rightarrow> 'a attempt list \<Rightarrow> effort \<Rightarrow> (exn + 'a) \<times> effort" where
  "post_loop c path 0 n seen ats f = (Inl (gave_up c ''reach'' path seen), f)"
| "post_loop c path (Suc k) n seen ats f = (case next_attempt ats of (a, ats') \<Rightarrow>
     (case a of Answer x \<Rightarrow> (Inr x, requested f)
      | Refused stat text \<Rightarrow> (Inl (http_error c path stat text), requested f)
      | Raised e \<Rightarrow> (Inl e, requested f)
      | Unreachable m \<Rightarrow>
          if k = 0 then (Inl (gave_up c ''reach'' path (Some m)), requested f)
          else post_loop c path k (Suc n) (Some m) ats' (slept (co_backoff c * 2 ^ n) (requested f))))"

definition retrying_post :: "client_opts \<Rightarrow> string \<Rightarrow> 'a attempt list \<Rightarrow> (exn + 'a) \<times> effort" where
  "retrying_post c path ats = post_loop c path (nat (co_retries c)) 0 None ats no_effort"

text \<open>\<open>chat_completion\<close>; an answer is the text of the body, and \<open>jmsg\<close> the message of a body that does not parse.\<close>

definition chat_completion :: "(string \<Rightarrow> string) \<Rightarrow> client_opts \<Rightarrow> string attempt list \<Rightarrow> (exn + pyval) \<times> effort" where
  "chat_completion jmsg c ats = (case retrying_post c ''/chat/completions'' ats of
       (Inl e, f) \<Rightarrow> (Inl e, f)
     | (Inr body, f) \<Rightarrow> (case json_loads body of None \<Rightarrow> (Inl (''JSONDecodeError'', jmsg body), f) | Some v \<Rightarrow> (Inr v, f)))"

subsection \<open>Streams\<close>

text \<open>What the chunk of one line yields, and the exception that ends the reading if one does.\<close>

fun choice_texts :: "pyval list \<Rightarrow> pyval list \<times> exn option" where
  "choice_texts [] = ([], None)"
| "choice_texts (ch # chs) =
     (case Host.and_then (attr_get ch) (\<lambda>d. attr_get (dget_or d ''delta'' (PDict []))) of
        Inl e \<Rightarrow> ([], Some e)
      | Inr delta \<Rightarrow> (case choice_texts chs of (xs, e) \<Rightarrow> (if truthy (dget delta ''content'') then dget delta ''content'' # xs else xs, e)))"

definition chunk_texts :: "pyval \<Rightarrow> pyval list \<times> exn option" where
  "chunk_texts v = (case Host.and_then (attr_get v) (\<lambda>d. py_iter (dget_or d ''choices'' (PList []))) of
     Inl e \<Rightarrow> ([], Some e) | Inr chs \<Rightarrow> choice_texts chs)"

datatype reading = Marked | Ended | Crashed exn

fun read_lines :: "string list \<Rightarrow> pyval list \<times> reading" where
  "read_lines [] = ([], Ended)"
| "read_lines (l # ls) =
     (if l = [] then read_lines ls
      else (let s = strip (if starts_with ''data:'' l then drop 5 l else l) in
        if s = ''[DONE]'' then ([], Marked)
        else (case json_loads s of None \<Rightarrow> read_lines ls
          | Some v \<Rightarrow> (case chunk_texts v of
                (xs, Some e) \<Rightarrow> (xs, Crashed e)
              | (xs, None) \<Rightarrow> (case read_lines ls of (ys, r) \<Rightarrow> (xs @ ys, r))))))"

text \<open>How the lines of an answer end: by themselves, or because the connection broke, or with another exception.\<close>

datatype ending = Closed | Dropped string | Failed exn

text \<open>\<open>stream_completion\<close>: what was yielded, and the exception it ended with.\<close>

fun stream_loop :: "client_opts \<Rightarrow> nat \<Rightarrow> nat \<Rightarrow> (string list \<times> ending) attempt list \<Rightarrow> effort \<Rightarrow> pyval list \<times> exn option \<times> effort" where
  "stream_loop c 0 n ats f = ([], None, f)"
| "stream_loop c (Suc k) n ats f = (case next_attempt ats of (a, ats') \<Rightarrow>
     (let path = ''/chat/completions''; f1 = requested f;
          retry = (\<lambda>xs m. if k = 0 then (xs, Some (gave_up c ''stream from'' path (Some m)), f1)
            else (case stream_loop c k (Suc n) ats' (slept (co_backoff c * 2 ^ n) f1) of (ys, e, f2) \<Rightarrow> (xs @ ys, e, f2))) in
      case a of Refused stat text \<Rightarrow> ([], Some (http_error c path stat []), f1)
      | Raised e \<Rightarrow> ([], Some e, f1)
      | Unreachable m \<Rightarrow> retry [] m
      | Answer (lines, fin) \<Rightarrow> (case read_lines lines of
            (xs, Marked) \<Rightarrow> (xs, None, f1)
          | (xs, Crashed e) \<Rightarrow> (xs, Some e, f1)
          | (xs, Ended) \<Rightarrow> (case fin of Closed \<Rightarrow> (xs, None, f1) | Failed e \<Rightarrow> (xs, Some e, f1) | Dropped m \<Rightarrow> retry xs m))))"

definition stream_completion :: "client_opts \<Rightarrow> (string list \<times> ending) attempt list \<Rightarrow> pyval list \<times> exn option \<times> effort" where
  "stream_completion c ats = stream_loop c (nat (co_retries c)) 0 ats no_effort"

text \<open>\<open>health_check\<close>.\<close>

definition health_check :: "int attempt \<Rightarrow> bool" where
  "health_check a = (case a of Answer stat \<Rightarrow> stat < 400 | _ \<Rightarrow> False)"

subsection \<open>What retrying does\<close>

fun unreachable :: "'a attempt \<Rightarrow> bool" where
  "unreachable (Unreachable m) = True"
| "unreachable _ = False"

definition decided :: "client_opts \<Rightarrow> string \<Rightarrow> 'a attempt \<Rightarrow> exn + 'a" where
  "decided c path a = (case a of Answer x \<Rightarrow> Inr x | Refused stat text \<Rightarrow> Inl (http_error c path stat text) | Raised e \<Rightarrow> Inl e
     | Unreachable m \<Rightarrow> Inl (gave_up c ''reach'' path (Some m)))"

text \<open>The waits double from the first on.\<close>

definition waits :: "client_opts \<Rightarrow> nat \<Rightarrow> rat list" where
  "waits c n = map (\<lambda>i. co_backoff c * 2 ^ i) [0..<n]"

lemma waits_Suc: "waits c (Suc n) = waits c n @ [co_backoff c * 2 ^ n]"
  by (simp add: waits_def)

lemma waits_sum: "sum_list (waits c n) = co_backoff c * (2 ^ n - 1)"
  by (induction n) (simp_all add: waits_def algebra_simps)

definition spent :: "client_opts \<Rightarrow> nat \<Rightarrow> effort \<Rightarrow> bool" where
  "spent c n f = (ef_requests f = n \<and> ef_sleeps f = waits c n)"

definition spent_last :: "client_opts \<Rightarrow> nat \<Rightarrow> effort \<Rightarrow> bool" where
  "spent_last c n f = (1 \<le> ef_requests f \<and> ef_requests f \<le> n \<and> ef_sleeps f = waits c (ef_requests f - 1))"

lemma spent_requested: "spent c n f \<Longrightarrow> n < m \<Longrightarrow> spent_last c m (requested f)"
  by (simp add: spent_def spent_last_def requested_def)

lemma spent_slept: "spent c n f \<Longrightarrow> spent c (Suc n) (slept (co_backoff c * 2 ^ n) (requested f))"
  by (simp add: spent_def slept_def requested_def waits_Suc)

lemma post_loop_decides:
  "ats \<noteq> [] \<Longrightarrow> k \<le> length ats \<Longrightarrow> 0 < k \<Longrightarrow>
   fst (post_loop c path k n seen ats f) = decided c path (case find (\<lambda>a. \<not> unreachable a) (take k ats) of Some a \<Rightarrow> a | None \<Rightarrow> ats ! (k - 1))"
proof (induction k arbitrary: n seen ats f)
  case (Suc k)
  obtain a as where ats: "ats = a # as" using Suc.prems(1) by (cases ats) auto
  show ?case
  proof (cases "unreachable a \<and> k \<noteq> 0")
    case True
    then obtain m where m: "a = Unreachable m" by (cases a) auto
    have "fst (post_loop c path (Suc k) n seen ats f) = fst (post_loop c path k (Suc n) (Some m) as (slept (co_backoff c * 2 ^ n) (requested f)))"
      using True by (simp add: ats m next_attempt_def)
    also have "\<dots> = decided c path (case find (\<lambda>a. \<not> unreachable a) (take k as) of Some a \<Rightarrow> a | None \<Rightarrow> as ! (k - 1))"
      using Suc.prems True by (intro Suc.IH) (auto simp: ats)
    finally show ?thesis using True
      by (cases "find (\<lambda>a. \<not> unreachable a) (take k as)") (simp_all add: ats m nth_Cons' del: post_loop.simps)
  next
    case False
    then show ?thesis by (cases a) (auto simp: ats next_attempt_def decided_def)
  qed
qed simp

lemma post_loop_spent: "spent c n f \<Longrightarrow> 0 < k \<Longrightarrow> spent_last c (n + k) (snd (post_loop c path k n seen ats f))"
proof (induction k arbitrary: n seen ats f)
  case (Suc k)
  obtain a ats' where a: "next_attempt ats = (a, ats')" by (meson surj_pair)
  show ?case
  proof (cases "unreachable a \<and> k \<noteq> 0")
    case True
    then obtain m where m: "a = Unreachable m" by (cases a) auto
    show ?thesis
      using Suc.IH[OF spent_slept[OF Suc.prems(1)], of "Some m" ats'] True by (simp add: a m)
  next
    case False
    then show ?thesis using spent_requested[OF Suc.prems(1), of "n + Suc k"] by (cases a) (auto simp: a)
  qed
qed simp

lemma stream_loop_spent: "spent c n f \<Longrightarrow> 0 < k \<Longrightarrow> spent_last c (n + k) (snd (snd (stream_loop c k n ats f)))"
proof (induction k arbitrary: n ats f)
  case (Suc k)
  obtain a ats' where a: "next_attempt ats = (a, ats')" by (meson surj_pair)
  have final: "spent_last c (n + Suc k) (requested f)" by (rule spent_requested[OF Suc.prems(1)]) simp
  have again: "0 < k \<Longrightarrow> spent_last c (n + Suc k) (snd (snd (stream_loop c k (Suc n) ats' (slept (co_backoff c * 2 ^ n) (requested f)))))"
    using Suc.IH[OF spent_slept[OF Suc.prems(1)], of ats'] by simp
  show ?case
    using final again
    by (auto simp: a Let_def split: attempt.splits prod.splits reading.splits ending.splits)
qed simp

text \<open>A completion makes at most the allowed number of requests, waits twice as long before each next one, and its outcome is that
  of the first attempt that reached the backend, or that it gave up.\<close>

theorem retries_until_reached:
  assumes "retrying_post c path ats = (out, f)" "0 < co_retries c" "nat (co_retries c) \<le> length ats"
  shows "out = decided c path (case find (\<lambda>a. \<not> unreachable a) (take (nat (co_retries c)) ats) of Some a \<Rightarrow> a | None \<Rightarrow> ats ! (nat (co_retries c) - 1)) \<and>
    1 \<le> ef_requests f \<and> int (ef_requests f) \<le> co_retries c \<and> sum_list (ef_sleeps f) = co_backoff c * (2 ^ (ef_requests f - 1) - 1)"
proof -
  have p: "0 < nat (co_retries c)" "ats \<noteq> []" using assms(2,3) by auto
  have "spent_last c (0 + nat (co_retries c)) f"
    using post_loop_spent[of c 0 no_effort "nat (co_retries c)" path None ats] assms(1) p(1)
    by (simp add: retrying_post_def spent_def no_effort_def waits_def)
  moreover have "out = decided c path (case find (\<lambda>a. \<not> unreachable a) (take (nat (co_retries c)) ats) of Some a \<Rightarrow> a | None \<Rightarrow> ats ! (nat (co_retries c) - 1))"
    using post_loop_decides[OF p(2) assms(3) p(1), of c path 0 None no_effort] assms(1) by (simp add: retrying_post_def)
  ultimately show ?thesis using assms(2) by (simp add: spent_last_def waits_sum le_nat_iff)
qed

lemma stream_bounded:
  assumes "stream_completion c ats = (xs, e, f)" "0 < co_retries c"
  shows "int (ef_requests f) \<le> co_retries c \<and> sum_list (ef_sleeps f) = co_backoff c * (2 ^ (ef_requests f - 1) - 1)"
proof -
  have "spent_last c (0 + nat (co_retries c)) f"
    using stream_loop_spent[of c 0 no_effort "nat (co_retries c)" ats] assms
    by (simp add: stream_completion_def spent_def no_effort_def waits_def)
  then show ?thesis using assms(2) by (simp add: spent_last_def waits_sum le_nat_iff)
qed

definition demo_opts :: client_opts where
  "demo_opts = new_opts ''http://h/v1/'' ''m'' [] 3 (1/2)"

theorem retries_until_reached_witness:
  "fst (retrying_post demo_opts ''/x'' [Unreachable ''down'', Answer ''a'', Answer ''b'']) = Inr ''a''"
proof -
  obtain out f where r: "retrying_post demo_opts ''/x'' [Unreachable ''down'', Answer ''a'', Answer ''b''] = (out, f)" by (meson surj_pair)
  have "out = Inr ''a''" using retries_until_reached[OF r] by (simp add: demo_opts_def new_opts_def decided_def eval_nat_numeral)
  then show ?thesis by (simp add: r)
qed

text \<open>Findings: a stream that breaks after a part of it was yielded is started again, so the caller gets that part twice; and a
  client that may not retry yields an empty stream and no error.\<close>

definition hello_line :: string where
  "hello_line = ''data: '' @ json_print json_default (PDict [(''choices'', PList [PDict [(''delta'', PDict [(''content'', PStr ''hi'')])]])])"

lemma broken_stream_repeats:
  "fst (stream_completion demo_opts [Answer ([hello_line], Dropped ''reset''), Answer ([hello_line, ''data: [DONE]''], Closed)]) = [PStr ''hi'', PStr ''hi'']"
  by code_simp

lemma no_attempts_silent: "stream_completion (demo_opts\<lparr>co_retries := 0\<rparr>) ats = ([], None, no_effort)"
  by (simp add: stream_completion_def)

end
