(* ===== verification/Taskqueue.thy ===== *)
theory Taskqueue
  imports Datetime Glob Tasks
begin

text \<open>
  \<open>agent/taskqueue.py\<close>: the priority queue with scheduling constraints. Its state is the list of
  entries in arrival order, the arrival counter, the ids queued or running (\<open>_known_ids\<close>) and the
  ids known to have succeeded (\<open>_completed\<close>). What a \<open>dependency_check\<close> callable and the result
  index answer is given to each call as \<open>qenv\<close>, since both read state outside the queue; the
  instants a call reads from the clock are arguments.
\<close>

subsection \<open>Priorities, retry policy, schedule\<close>

datatype priority = High | Normal | Low

fun rank :: "priority \<Rightarrow> nat" where
  "rank High = 0" | "rank Normal = 1" | "rank Low = 2"

definition normalise_priority :: "pyval \<Rightarrow> priority" where
  "normalise_priority raw =
     (let text = lower (strip (str_or_empty raw)) in
      if text = ''high'' then High
      else if text = ''normal'' then Normal
      else if text = ''low'' then Low
      else if text \<in> {''urgent'', ''critical'', ''p0''} then High
      else if text \<in> {''background'', ''batch'', ''p3''} then Low
      else Normal)"

record retry_policy =
  max_attempts :: int
  backoff_seconds :: "rat list"

definition delay_before :: "retry_policy \<Rightarrow> int \<Rightarrow> rat" where
  "delay_before rp attempt =
     (if attempt \<le> 1 \<or> backoff_seconds rp = [] then 0
      else backoff_seconds rp ! nat (min (attempt - 2) (int (length (backoff_seconds rp)) - 1)))"

record schedule =
  s_priority :: priority
  s_not_before :: "datetime option"
  s_deadline :: "datetime option"
  s_depends_on :: "string list"
  s_retry :: retry_policy

definition as_id_list :: "pyval \<Rightarrow> string list" where
  "as_id_list raw = (case raw of
       PNone \<Rightarrow> []
     | PStr s \<Rightarrow> if strip s \<noteq> [] then [s] else []
     | PList xs \<Rightarrow> filter (\<lambda>s. s \<noteq> []) (map (\<lambda>x. strip (py_str x)) xs)
     | _ \<Rightarrow> [])"

text \<open>\<open>float(item)\<close> over a backoff list raises on an item that is not a number; nothing catches it.\<close>

datatype schedule_error = BadBackoff pyval

fun floats :: "pyval list \<Rightarrow> schedule_error + rat list" where
  "floats [] = Inr []"
| "floats (x # xs) = (case py_float x of None \<Rightarrow> Inl (BadBackoff x)
     | Some r \<Rightarrow> (case floats xs of Inl e \<Rightarrow> Inl e | Inr rs \<Rightarrow> Inr (r # rs)))"

definition pick :: "dict \<Rightarrow> string \<Rightarrow> pyval" where
  "pick payload key =
     (let nested = pdict_items (dget payload ''schedule'') in
      if has_key payload key then dget payload key else dget nested key)"

definition read_max_attempts :: "dict \<Rightarrow> int \<Rightarrow> int" where
  "read_max_attempts retry_raw dflt =
     (case py_int (dget_or retry_raw ''max_attempts'' (PInt dflt)) of
        Some n \<Rightarrow> max 1 n | None \<Rightarrow> max 1 dflt)"

definition parse_schedule :: "task \<Rightarrow> int \<Rightarrow> rat list \<Rightarrow> schedule_error + schedule" where
  "parse_schedule t default_max_attempts default_backoff =
     (let payload = t_payload t;
          priority_raw = py_or (t_priority t) (pick payload ''priority'');
          retry_raw = pdict_items (pick payload ''retry'') in
      case (case dget retry_raw ''backoff_seconds'' of PList xs \<Rightarrow> floats xs | _ \<Rightarrow> Inr default_backoff) of
        Inl e \<Rightarrow> Inl e
      | Inr backoff \<Rightarrow> Inr
          \<lparr>s_priority = normalise_priority priority_raw,
           s_not_before = parse_timestamp (pick payload ''not_before''),
           s_deadline = parse_timestamp (pick payload ''deadline''),
           s_depends_on = as_id_list (pick payload ''depends_on''),
           s_retry = \<lparr>max_attempts = read_max_attempts retry_raw default_max_attempts,
                      backoff_seconds = backoff\<rparr>\<rparr>)"

subsection \<open>The queue\<close>

record entry =
  e_task :: task
  e_schedule :: schedule
  e_seq :: nat

definition task_id :: "entry \<Rightarrow> string" where
  "task_id e = t_id (e_task e)"

definition e_key :: "entry \<Rightarrow> nat \<times> nat" where
  "e_key e = (rank (s_priority (e_schedule e)), e_seq e)"

record queue =
  q_entries :: "entry list"
  q_seq :: nat
  q_known :: "string set"
  q_completed :: "string set"
  q_attempts :: int
  q_backoff :: "rat list"

definition empty_queue :: "int \<Rightarrow> rat list \<Rightarrow> queue" where
  "empty_queue n b = \<lparr>q_entries = [], q_seq = 0, q_known = {}, q_completed = {},
     q_attempts = n, q_backoff = b\<rparr>"

definition add :: "task \<Rightarrow> queue \<Rightarrow> schedule_error + (entry option \<times> queue)" where
  "add t q =
     (if t_id t \<noteq> [] \<and> t_id t \<in> q_known q then Inr (None, q)
      else case parse_schedule t (q_attempts q) (q_backoff q) of
        Inl e \<Rightarrow> Inl e
      | Inr s \<Rightarrow>
          (let e = \<lparr>e_task = t, e_schedule = s, e_seq = q_seq q\<rparr> in
           Inr (Some e, q\<lparr>q_entries := q_entries q @ [e], q_seq := Suc (q_seq q),
             q_known := (if t_id t \<noteq> [] then insert (t_id t) (q_known q) else q_known q)\<rparr>)))"

text \<open>An error of \<open>add\<close> leaves \<open>extend\<close> with the tasks before it already queued.\<close>

fun extend_tasks :: "task list \<Rightarrow> queue \<Rightarrow> schedule_error option \<times> entry list \<times> queue" where
  "extend_tasks [] q = (None, [], q)"
| "extend_tasks (t # ts) q = (case add t q of
       Inl e \<Rightarrow> (Some e, [], q)
     | Inr (None, q') \<Rightarrow> extend_tasks ts q'
     | Inr (Some e, q') \<Rightarrow> (case extend_tasks ts q' of (err, es, q'') \<Rightarrow> (err, e # es, q'')))"

fun pop_id :: "string \<Rightarrow> entry list \<Rightarrow> (entry \<times> entry list) option" where
  "pop_id tid [] = None"
| "pop_id tid (e # es) =
     (if task_id e = tid then Some (e, es)
      else map_option (\<lambda>(x, xs). (x, e # xs)) (pop_id tid es))"

definition remove_task :: "string \<Rightarrow> queue \<Rightarrow> task option \<times> queue" where
  "remove_task tid q = (case pop_id tid (q_entries q) of
       None \<Rightarrow> (None, q)
     | Some (e, es) \<Rightarrow> (Some (e_task e), q\<lparr>q_entries := es, q_known := q_known q - {tid}\<rparr>))"

definition mark_completed :: "string \<Rightarrow> bool \<Rightarrow> queue \<Rightarrow> queue" where
  "mark_completed tid ok q = q\<lparr>q_known := q_known q - {tid},
     q_completed := (if ok then insert tid (q_completed q) else q_completed q)\<rparr>"

definition depth :: "queue \<Rightarrow> nat" where
  "depth q = length (q_entries q)"

definition snapshot :: "queue \<Rightarrow> entry list" where
  "snapshot q = sort_key e_key (q_entries q)"

subsection \<open>Scheduling\<close>

record qenv =
  dependency_check :: "(string \<Rightarrow> bool) option"
  result_succeeded :: "(string \<Rightarrow> bool) option"

definition asks :: "(string \<Rightarrow> bool) option \<Rightarrow> string \<Rightarrow> bool" where
  "asks f d = (case f of None \<Rightarrow> False | Some g \<Rightarrow> g d)"

text \<open>The loop of \<open>dependencies_met\<close>: a dependency an oracle confirms is remembered in
  \<open>_completed\<close> even when a later one fails.\<close>

fun deps_loop :: "qenv \<Rightarrow> string list \<Rightarrow> string set \<Rightarrow> bool \<times> string set" where
  "deps_loop env [] done = (True, done)"
| "deps_loop env (d # ds) done =
     (if d \<in> done then deps_loop env ds done
      else if asks (dependency_check env) d then deps_loop env ds (insert d done)
      else if asks (result_succeeded env) d then deps_loop env ds (insert d done)
      else (False, done))"

definition dependencies_met :: "qenv \<Rightarrow> schedule \<Rightarrow> queue \<Rightarrow> bool \<times> queue" where
  "dependencies_met env s q =
     (case deps_loop env (s_depends_on s) (q_completed q) of (ok, c) \<Rightarrow> (ok, q\<lparr>q_completed := c\<rparr>))"

definition is_expired :: "schedule \<Rightarrow> int \<Rightarrow> bool" where
  "is_expired s now = (case s_deadline s of None \<Rightarrow> False
     | Some d \<Rightarrow> s_priority s \<noteq> High \<and> now > instant d)"

definition dep_reason :: "qenv \<Rightarrow> schedule \<Rightarrow> queue \<Rightarrow> string option \<times> queue" where
  "dep_reason env s q = (case dependencies_met env s q of (ok, q') \<Rightarrow>
     if ok then (None, q')
     else (Some (''awaiting dependencies: '' @
             join '', '' (filter (\<lambda>d. d \<notin> q_completed q') (s_depends_on s))), q'))"

definition blocked_reason :: "qenv \<Rightarrow> entry \<Rightarrow> int \<Rightarrow> queue \<Rightarrow> string option \<times> queue" where
  "blocked_reason env e now q =
     (let s = e_schedule e in
      case s_not_before s of
        Some nb \<Rightarrow> if now < instant nb then (Some (''not_before '' @ isoformat nb), q)
                   else dep_reason env s q
      | None \<Rightarrow> dep_reason env s q)"

definition drain_expired :: "int \<Rightarrow> queue \<Rightarrow> entry list \<times> queue" where
  "drain_expired now q =
     (let expired = filter (\<lambda>e. is_expired (e_schedule e) now) (q_entries q) in
      (expired, fold (\<lambda>e q. q\<lparr>q_entries := remove1 e (q_entries q),
                              q_known := q_known q - {task_id e}\<rparr>) expired q))"

fun scan :: "qenv \<Rightarrow> int \<Rightarrow> entry list \<Rightarrow> queue \<Rightarrow> entry option \<times> queue" where
  "scan env now [] q = (None, q)"
| "scan env now (e # es) q = (case blocked_reason env e now q of
       (None, q') \<Rightarrow> (Some e, q'\<lparr>q_entries := remove1 e (q_entries q')\<rparr>)
     | (Some _, q') \<Rightarrow> scan env now es q')"

text \<open>Called without an instant, \<open>next_task\<close> reads the clock twice: \<open>t1\<close> for the drain and \<open>t2\<close>
  for the scan. Called with one, both are that instant.\<close>

definition next_entry :: "qenv \<Rightarrow> int \<Rightarrow> int \<Rightarrow> queue \<Rightarrow> entry option \<times> queue" where
  "next_entry env t1 t2 q =
     (let q1 = snd (drain_expired t1 q) in scan env t2 (sort_key e_key (q_entries q1)) q1)"

definition next_task :: "qenv \<Rightarrow> int \<Rightarrow> int \<Rightarrow> queue \<Rightarrow> task option \<times> queue" where
  "next_task env t1 t2 q = (case next_entry env t1 t2 q of (e, q') \<Rightarrow> (map_option e_task e, q'))"

subsection \<open>The result index\<close>

text \<open>The results directory: file names with the document each holds, \<open>None\<close> for one that cannot
  be read or is not JSON. \<open>is_ok\<close> gives \<open>None\<close> where the code raises (\<open>doc.get\<close> on a document that
  is not an object).\<close>

type_synonym result_dir = "(string \<times> pyval option) list"

definition is_ok :: "pyval option \<Rightarrow> bool option" where
  "is_ok doc = (case doc of
       None \<Rightarrow> Some False
     | Some (PDict d) \<Rightarrow>
         (let body = (if is_pdict (dget d ''payload'') \<and> is_pdict (dget (pdict_items (dget d ''payload'')) ''body'')
                      then pdict_items (dget (pdict_items (dget d ''payload'')) ''body'') else d) in
          if truthy (dget body ''cancelled'') then Some False
          else if has_key body ''ok'' then Some (truthy (dget body ''ok''))
          else Some (lower (py_str (dget_or body ''status'' (PStr []))) = ''ok''))
     | Some _ \<Rightarrow> None)"

definition candidates :: "result_dir \<Rightarrow> string \<Rightarrow> string list" where
  "candidates dir tid =
     (if map_of dir (tid @ ''.json'') \<noteq> None then [tid @ ''.json''] else []) @
     sort (filter (\<lambda>n. fnmatchcase n (tid @ ''-chunk-*.json'')) (map fst dir)) @
     sort (filter (\<lambda>n. fnmatchcase n (tid @ ''-attempt-*.json'')) (map fst dir))"
fun any_ok :: "result_dir \<Rightarrow> string list \<Rightarrow> bool option" where
  "any_ok dir [] = Some False"
| "any_ok dir (n # ns) = (case is_ok (case map_of dir n of None \<Rightarrow> None | Some doc \<Rightarrow> doc) of
       None \<Rightarrow> None
     | Some True \<Rightarrow> Some True
     | Some False \<Rightarrow> any_ok dir ns)"

definition succeeded :: "result_dir option \<Rightarrow> string \<Rightarrow> bool option" where
  "succeeded rdir tid = (case rdir of None \<Rightarrow> Some False | Some dir \<Rightarrow> any_ok dir (candidates dir tid))"

subsection \<open>What the scan finds\<close>

text \<open>What being able to run means, without the bookkeeping of the scan: the release time has
  come and every dependency is recorded as done or confirmed by an oracle.\<close>

definition dep_done :: "qenv \<Rightarrow> string set \<Rightarrow> string \<Rightarrow> bool" where
  "dep_done env done d = (d \<in> done \<or> asks (dependency_check env) d \<or> asks (result_succeeded env) d)"

definition eligible :: "qenv \<Rightarrow> int \<Rightarrow> queue \<Rightarrow> entry \<Rightarrow> bool" where
  "eligible env now q e =
     ((case s_not_before (e_schedule e) of None \<Rightarrow> True | Some nb \<Rightarrow> instant nb \<le> now) \<and>
      list_all (dep_done env (q_completed q)) (s_depends_on (e_schedule e)))"

definition live :: "int \<Rightarrow> queue \<Rightarrow> entry list" where
  "live now q = filter (\<lambda>e. \<not> is_expired (e_schedule e) now) (q_entries q)"

definition wf_queue :: "queue \<Rightarrow> bool" where
  "wf_queue q = (sorted_wrt (<) (map e_seq (q_entries q)) \<and> (\<forall>e \<in> set (q_entries q). e_seq e < q_seq q) \<and>
     distinct (filter (\<lambda>i. i \<noteq> []) (map task_id (q_entries q))) \<and>
     (\<forall>e \<in> set (q_entries q). task_id e \<noteq> [] \<longrightarrow> task_id e \<in> q_known q))"

lemma dep_done_insert: "dep_done env c d \<Longrightarrow> dep_done env (insert d c) = dep_done env c"
  by (auto simp: dep_done_def fun_eq_iff)

lemma deps_loop_spec:
  "fst (deps_loop env ds c) = list_all (dep_done env c) ds \<and>
   dep_done env (snd (deps_loop env ds c)) = dep_done env c \<and>
   c \<subseteq> snd (deps_loop env ds c) \<and> snd (deps_loop env ds c) \<subseteq> c \<union> {d. dep_done env c d}"
proof (induction ds arbitrary: c)
  case (Cons d ds)
  show ?case
  proof (cases "dep_done env c d")
    case True
    then show ?thesis
      using Cons[of c] Cons[of "insert d c"] dep_done_insert[OF True]
      by (auto simp: dep_done_def)
  next
    case False
    then show ?thesis by (auto simp: dep_done_def)
  qed
qed auto

lemma dependencies_met_spec:
  assumes "dependencies_met env s q = (ok, q')"
  shows "ok = list_all (dep_done env (q_completed q)) (s_depends_on s)"
    and "dep_done env (q_completed q') = dep_done env (q_completed q)"
    and "q' = q\<lparr>q_completed := q_completed q'\<rparr>" and "q_completed q \<subseteq> q_completed q'"
  using deps_loop_spec[of env "s_depends_on s" "q_completed q"] assms
  by (auto simp: dependencies_met_def split: prod.splits)

text \<open>Asking changes nothing but \<open>_completed\<close>, and that only by facts the oracles vouch for.\<close>

definition asked :: "qenv \<Rightarrow> queue \<Rightarrow> queue \<Rightarrow> bool" where
  "asked env q q' = (q' = q\<lparr>q_completed := q_completed q'\<rparr> \<and> q_completed q \<subseteq> q_completed q' \<and>
     dep_done env (q_completed q') = dep_done env (q_completed q))"

lemma asked_refl [simp]: "asked env q q"
  by (simp add: asked_def)

lemma asked_trans: "asked env q q' \<Longrightarrow> asked env q' q'' \<Longrightarrow> asked env q q''"
  unfolding asked_def by (metis queue.surjective queue.update_convs(4) subset_trans)

lemma asked_eligible: "asked env q q' \<Longrightarrow> eligible env now q' e = eligible env now q e"
  by (simp add: asked_def eligible_def)

lemma asked_entries: "asked env q q' \<Longrightarrow> q_entries q' = q_entries q \<and> q_known q' = q_known q \<and> q_seq q' = q_seq q"
  unfolding asked_def by (metis queue.select_convs(1-3) queue.surjective queue.update_convs(4))

lemma dep_reason_spec:
  assumes "dep_reason env s q = (r, q')"
  shows "asked env q q'" "(r = None) = list_all (dep_done env (q_completed q)) (s_depends_on s)"
proof -
  obtain ok q1 where m: "dependencies_met env s q = (ok, q1)" by fastforce
  note d = dependencies_met_spec[OF m]
  show "asked env q q'" "(r = None) = list_all (dep_done env (q_completed q)) (s_depends_on s)"
    using assms m d by (auto simp: dep_reason_def asked_def split: if_splits)
qed

lemma blocked_reason_spec:
  assumes "blocked_reason env e now q = (r, q')"
  shows "asked env q q'" "(r = None) = eligible env now q e"
  using assms dep_reason_spec[of env "e_schedule e" q r q']
  by (auto simp: blocked_reason_def Let_def eligible_def split: option.splits if_splits)

lemma scan_spec:
  assumes "scan env now es q = (r, q')"
  shows "case r of
      None \<Rightarrow> asked env q q' \<and> (\<forall>e \<in> set es. \<not> eligible env now q e)
    | Some e \<Rightarrow> (\<exists>a b. es = a @ e # b \<and> eligible env now q e \<and> (\<forall>x \<in> set a. \<not> eligible env now q x)) \<and>
        (\<exists>q1. asked env q q1 \<and> q' = q1\<lparr>q_entries := remove1 e (q_entries q1)\<rparr>)"
  using assms
proof (induction es arbitrary: q)
  case (Cons x es)
  obtain m q1 where b: "blocked_reason env x now q = (m, q1)" by fastforce
  note s = blocked_reason_spec[OF b]
  show ?case
  proof (cases m)
    case None
    then show ?thesis using Cons.prems b s by fastforce
  next
    case (Some t)
    then have *: "scan env now es q1 = (r, q')" using Cons.prems b by simp
    have ne: "\<not> eligible env now q x" using s Some by simp
    note IH = Cons.IH[OF *]
    show ?thesis
    proof (cases r)
      case None
      then show ?thesis using IH ne s asked_eligible[OF s(1)] asked_trans[OF s(1)] by auto
    next
      case (Some e)
      then obtain a b q2 where "es = a @ e # b" "eligible env now q1 e"
        "\<forall>x \<in> set a. \<not> eligible env now q1 x" "asked env q1 q2"
        "q' = q2\<lparr>q_entries := remove1 e (q_entries q2)\<rparr>"
        using IH by auto
      moreover from this have "x # es = (x # a) @ e # b" "asked env q q2"
        using asked_trans[OF s(1)] by auto
      ultimately show ?thesis
        using Some ne asked_eligible[OF s(1)]
        by (simp only: option.case) (metis set_ConsD)
    qed
  qed
qed simp

text \<open>Dropping the expired entries.\<close>

lemma fold_drop:
  "fold (\<lambda>e q. q\<lparr>q_entries := remove1 e (q_entries q), q_known := q_known q - {task_id e}\<rparr>) xs q =
   q\<lparr>q_entries := fold remove1 xs (q_entries q), q_known := q_known q - set (map task_id xs)\<rparr>"
proof (induction xs arbitrary: q)
  case (Cons x xs)
  have "q_known q - {task_id x} - S = q_known q - insert (task_id x) S" for S by auto
  then show ?case using Cons by simp
qed simp

lemma fold_remove1_filter: "distinct xs \<Longrightarrow> fold remove1 (filter P xs) xs = filter (\<lambda>x. \<not> P x) xs"
proof -
  assume d: "distinct xs"
  have "distinct ys \<Longrightarrow> fold remove1 zs ys = filter (\<lambda>x. x \<notin> set zs) ys" for zs ys :: "'a list"
  proof (induction zs arbitrary: ys)
    case (Cons z zs)
    then show ?case
      by (auto simp: distinct_remove1_removeAll removeAll_filter_not_eq intro: filter_cong)
  qed simp
  from this[OF d, of "filter P xs"] show ?thesis
    by (auto intro: filter_cong)
qed

lemma wf_distinct: "wf_queue q \<Longrightarrow> distinct (q_entries q)"
  unfolding wf_queue_def
  by (metis distinct_map strict_sorted_iff)

lemma drain_expired_spec:
  assumes "wf_queue q"
  shows "drain_expired now q =
    (filter (\<lambda>e. is_expired (e_schedule e) now) (q_entries q),
     q\<lparr>q_entries := live now q,
       q_known := q_known q - set (map task_id (filter (\<lambda>e. is_expired (e_schedule e) now) (q_entries q)))\<rparr>)"
  using fold_remove1_filter[OF wf_distinct[OF assms]]
  by (simp add: drain_expired_def Let_def fold_drop live_def)


text \<open>Well-formedness: entries stand in arrival order under fresh numbers, a non-empty id occurs
  once, and it is known.\<close>

lemma filter_ids_distinct:
  "distinct (filter P (map f xs)) \<Longrightarrow> distinct (filter P (map f (filter R xs)))"
  by (induction xs) auto

lemma wf_empty [simp]: "wf_queue (empty_queue n b)"
  by (simp add: wf_queue_def empty_queue_def)

lemma wf_add:
  assumes "wf_queue q" "add t q = Inr (r, q')"
  shows "wf_queue q'"
proof -
  have k: "t_id t \<noteq> [] \<Longrightarrow> t_id t \<notin> q_known q \<Longrightarrow> t_id t \<notin> task_id ` set (q_entries q)"
    using assms(1) by (auto simp: wf_queue_def)
  show ?thesis
    using assms k by (auto simp: add_def wf_queue_def sorted_wrt_append task_id_def less_SucI Let_def
        split: if_splits sum.splits)
qed

lemma distinct_id_eq:
  "distinct (filter (\<lambda>i. i \<noteq> []) (map task_id es)) \<Longrightarrow> x \<in> set es \<Longrightarrow> y \<in> set es \<Longrightarrow>
   task_id x = task_id y \<Longrightarrow> task_id x \<noteq> [] \<Longrightarrow> x = y"
proof (induction es)
  case (Cons e es)
  then show ?case by (auto split: if_splits) (metis imageI)+
qed simp

lemma wf_drain:
  assumes "wf_queue q" shows "wf_queue (snd (drain_expired now q))"
proof -
  have "x = y" if "x \<in> set (q_entries q)" "y \<in> set (q_entries q)" "task_id x = task_id y"
    "task_id x \<noteq> []" for x y
    using that assms distinct_id_eq[of "q_entries q" x y] by (auto simp: wf_queue_def)
  then show ?thesis
    using assms by (fastforce simp: drain_expired_spec[OF assms] wf_queue_def live_def
        sorted_wrt_map sorted_wrt_filter filter_ids_distinct)
qed

lemma wf_remove1:
  assumes "wf_queue q" shows "wf_queue (q\<lparr>q_entries := remove1 e (q_entries q)\<rparr>)"
  using assms wf_distinct[OF assms]
  by (simp add: wf_queue_def distinct_remove1_removeAll removeAll_filter_not_eq
      sorted_wrt_map sorted_wrt_filter filter_ids_distinct)

lemma asked_wf: "asked env q q' \<Longrightarrow> wf_queue q' = wf_queue q"
  using asked_entries[of env q q'] by (simp add: wf_queue_def)

lemma wf_next_entry:
  assumes "wf_queue q" "next_entry env t1 t2 q = (r, q')"
  shows "wf_queue q'"
proof -
  define q1 where "q1 = snd (drain_expired t1 q)"
  have "wf_queue q1" using wf_drain[OF assms(1)] by (simp add: q1_def)
  moreover have "scan env t2 (sort_key e_key (q_entries q1)) q1 = (r, q')"
    using assms(2) by (simp add: next_entry_def Let_def q1_def)
  note scan_spec[OF this]
  ultimately show ?thesis
    by (cases r) (auto simp: asked_wf intro!: wf_remove1)
qed

lemma pop_id_spec:
  "pop_id tid es = Some (e, es') \<Longrightarrow> \<exists>a b. es = a @ e # b \<and> es' = a @ b \<and> task_id e = tid \<and>
     tid \<notin> task_id ` set a"
proof (induction es arbitrary: es')
  case (Cons x xs)
  show ?case
  proof (cases "task_id x = tid")
    case True
    then show ?thesis using Cons.prems by (intro exI[of _ "[]"] exI[of _ xs]) auto
  next
    case False
    then obtain ys where "pop_id tid xs = Some (e, ys)" "es' = x # ys"
      using Cons.prems by auto
    then obtain a b where "xs = a @ e # b" "ys = a @ b" "task_id e = tid" "tid \<notin> task_id ` set a"
      using Cons.IH by blast
    then show ?thesis using False \<open>es' = x # ys\<close>
      by (intro exI[of _ "x # a"] exI[of _ b]) auto
  qed
qed simp

lemma pop_id_none: "(pop_id tid es = None) = (tid \<notin> task_id ` set es)"
  by (induction es) auto

lemma wf_remove_task:
  assumes "wf_queue q" "remove_task tid q = (r, q')" shows "wf_queue q'"
proof (cases "pop_id tid (q_entries q)")
  case None
  then show ?thesis using assms by (simp add: remove_task_def)
next
  case (Some p)
  obtain e es where p: "p = (e, es)" by fastforce
  then obtain a b where ab: "q_entries q = a @ e # b" "es = a @ b" "task_id e = tid"
    using pop_id_spec Some by metis
  then have "q' = q\<lparr>q_entries := a @ b, q_known := q_known q - {tid}\<rparr>"
    using assms(2) Some p by (auto simp: remove_task_def)
  then show ?thesis using assms(1) ab
    by (auto simp: wf_queue_def sorted_wrt_append split: if_splits) (metis imageI)+
qed

lemma wf_mark_completed:
  "wf_queue q \<Longrightarrow> tid \<noteq> [] \<longrightarrow> tid \<notin> task_id ` set (q_entries q) \<Longrightarrow> wf_queue (mark_completed tid ok q)"
  by (auto simp: wf_queue_def mark_completed_def)

lemma next_entry_spec:
  assumes "wf_queue q" and "next_entry env t1 t2 q = (r, q')"
  shows "case r of
      None \<Rightarrow> q_entries q' = live t1 q \<and> (\<forall>e \<in> set (live t1 q). \<not> eligible env t2 q e)
    | Some e \<Rightarrow> e \<in> set (live t1 q) \<and> eligible env t2 q e \<and>
        (\<forall>x \<in> set (live t1 q). eligible env t2 q x \<longrightarrow> e_key e \<le> e_key x) \<and>
        q_entries q' = remove1 e (live t1 q)"
proof -
  define q1 where "q1 = snd (drain_expired t1 q)"
  have q1: "q_entries q1 = live t1 q" "eligible env t2 q1 = eligible env t2 q"
    by (auto simp: q1_def drain_expired_spec[OF assms(1)] eligible_def fun_eq_iff)
  have s: "scan env t2 (sort_key e_key (live t1 q)) q1 = (r, q')"
    using assms(2) q1 by (simp add: next_entry_def Let_def q1_def[symmetric])
  note sp = scan_spec[OF s]
  show ?thesis
  proof (cases r)
    case None
    then show ?thesis using sp q1 asked_entries by fastforce
  next
    case (Some e)
    then obtain a b q2 where sort: "sort_key e_key (live t1 q) = a @ e # b"
      and el: "eligible env t2 q e" and ne: "\<forall>x \<in> set a. \<not> eligible env t2 q x"
      and q2: "asked env q1 q2" "q' = q2\<lparr>q_entries := remove1 e (q_entries q2)\<rparr>"
      using sp q1 by auto
    have "sorted (map e_key (a @ e # b))" using sort by (metis sorted_sort_key)
    then have le: "\<forall>x \<in> set b. e_key e \<le> e_key x" by (simp add: sorted_append)
    have set: "set (live t1 q) = set (a @ e # b)" using sort by (metis set_sort)
    have "q_entries q' = remove1 e (live t1 q)" using q2 asked_entries[OF q2(1)] q1 by simp
    then show ?thesis using Some el ne le set by auto
  qed
qed


subsection \<open>The queue with its workers\<close>

text \<open>The ids the workers hold: a task that left through \<open>next_entry\<close> keeps its id in
  \<open>_known_ids\<close> until \<open>mark_completed\<close> is called for it.\<close>

inductive queue_step :: "queue \<times> string multiset \<Rightarrow> queue \<times> string multiset \<Rightarrow> bool" where
  step_add: "add t q = Inr (r, q') \<Longrightarrow> queue_step (q, run) (q', run)"
| step_remove: "remove_task tid q = (r, q') \<Longrightarrow> queue_step (q, run) (q', run)"
| step_drain: "drain_expired now q = (es, q') \<Longrightarrow> queue_step (q, run) (q', run)"
| step_take: "next_entry env t1 t2 q = (Some e, q') \<Longrightarrow>
    queue_step (q, run) (q', add_mset (task_id e) run)"
| step_none: "next_entry env t1 t2 q = (None, q') \<Longrightarrow> queue_step (q, run) (q', run)"
| step_done: "tid \<in># run \<Longrightarrow> queue_step (q, run) (mark_completed tid ok q, run - {#tid#})"

inductive queue_reach :: "queue \<times> string multiset \<Rightarrow> bool" where
  reach_start: "queue_reach (empty_queue n b, {#})"
| reach_step: "queue_reach s \<Longrightarrow> queue_step s s' \<Longrightarrow> queue_reach s'"

definition queue_inv :: "queue \<times> string multiset \<Rightarrow> bool" where
  "queue_inv s = (case s of (q, run) \<Rightarrow> wf_queue q \<and>
     (\<forall>i. i \<noteq> [] \<longrightarrow> count run i \<le> 1) \<and>
     (\<forall>i. i \<noteq> [] \<longrightarrow> i \<in># run \<longrightarrow> i \<in> q_known q \<and> i \<notin> task_id ` set (q_entries q)))"


lemma next_entry_known:
  assumes "next_entry env t1 t2 q = (r, q')"
  shows "q_known q' = q_known (snd (drain_expired t1 q))"
proof -
  define q1 where "q1 = snd (drain_expired t1 q)"
  have "scan env t2 (sort_key e_key (q_entries q1)) q1 = (r, q')"
    using assms by (simp add: next_entry_def Let_def q1_def)
  note scan_spec[OF this]
  then show ?thesis unfolding q1_def[symmetric]
    by (cases r) (auto dest: asked_entries)
qed

lemma add_entries:
  "add t q = Inr (r, q') \<Longrightarrow>
     (r = None \<and> q' = q) \<or>
     (r \<noteq> None \<and> (t_id t \<noteq> [] \<longrightarrow> t_id t \<notin> q_known q) \<and> set (map task_id (q_entries q')) = insert (t_id t) (set (map task_id (q_entries q)))
      \<and> q_known q \<subseteq> q_known q')"
  by (auto simp: add_def task_id_def Let_def split: if_splits sum.splits)

lemma queue_inv_step:
  assumes "queue_step s s'" "queue_inv s"
  shows "queue_inv s'"
  using assms
proof cases
  case (step_add t q r q' run)
  then show ?thesis
    using wf_add[OF _ step_add(3)] add_entries[OF step_add(3)] assms(2)
    by (fastforce simp: queue_inv_def)
next
  case (step_remove tid q r q' run)
  have wf: "wf_queue q" and wf': "wf_queue q'"
    using assms(2) step_remove wf_remove_task by (auto simp: queue_inv_def)
  show ?thesis
  proof (cases "pop_id tid (q_entries q)")
    case None
    then show ?thesis using step_remove assms(2) by (simp add: remove_task_def)
  next
    case (Some p)
    obtain e es where p: "p = (e, es)" by fastforce
    then have q': "q' = q\<lparr>q_entries := es, q_known := q_known q - {tid}\<rparr>"
      using step_remove Some by (simp add: remove_task_def)
    from pop_id_spec[OF Some[unfolded p]]
    have "set es \<subseteq> set (q_entries q)" "tid \<in> task_id ` set (q_entries q)" by auto
    then show ?thesis using step_remove assms(2) wf' q' by (fastforce simp: queue_inv_def)
  qed
next
  case (step_drain now q es q' run)
  have wf: "wf_queue q" using assms(2) step_drain by (simp add: queue_inv_def)
  have "wf_queue q'" using wf_drain[OF wf, of now] step_drain by simp
  moreover have "q' = snd (drain_expired now q)" using step_drain by simp
  ultimately show ?thesis
    using assms(2) step_drain drain_expired_spec[OF wf, of now]
    by (fastforce simp: queue_inv_def live_def)
next
  case (step_take env t1 t2 q e q' run)
  have wf: "wf_queue q" using assms(2) step_take by (simp add: queue_inv_def)
  note wf' = wf_next_entry[OF wf step_take(3)]
  have e: "e \<in> set (live t1 q)" "q_entries q' = remove1 e (live t1 q)"
    using next_entry_spec[OF wf step_take(3)] by auto
  have eq: "e \<in> set (q_entries q)" using e by (simp add: live_def)
  have other: "x = e" if "x \<in> set (q_entries q)" "task_id x = task_id e" "task_id e \<noteq> []" for x
    using that eq wf distinct_id_eq[of "q_entries q" x e] by (simp add: wf_queue_def)
  have d: "distinct (live t1 q)" using wf_distinct[OF wf] by (simp add: live_def)
  have notin: "i \<notin> task_id ` set (q_entries q')" if nn: "i \<noteq> []" "i = task_id e" for i
  proof
    assume "i \<in> task_id ` set (q_entries q')"
    then obtain x where x: "x \<in> set (remove1 e (live t1 q))" "task_id x = task_id e"
      using e(2) nn by auto
    then have "x \<in> set (q_entries q)" "x \<noteq> e" using d by (auto simp: live_def dest: subsetD[OF set_remove1_subset])
    then show False using other[of x] x nn by simp
  qed
  have keep: "i \<in> q_known q'" if "i \<in> q_known q" "i \<notin> task_id ` set (filter (\<lambda>e. is_expired (e_schedule e) t1) (q_entries q))" for i
    using that by (auto simp: next_entry_known[OF step_take(3)] drain_expired_spec[OF wf])
  have sub: "set (q_entries q') \<subseteq> set (q_entries q)" using e by (auto simp: live_def dest: subsetD[OF set_remove1_subset])
  have kn: "task_id e \<in> q_known q'" if "task_id e \<noteq> []"
  proof (rule keep)
    show "task_id e \<in> q_known q" using that wf eq by (simp add: wf_queue_def)
    show "task_id e \<notin> task_id ` set (filter (\<lambda>e. is_expired (e_schedule e) t1) (q_entries q))"
    proof
      assume "task_id e \<in> task_id ` set (filter (\<lambda>e. is_expired (e_schedule e) t1) (q_entries q))"
      then obtain x where "x \<in> set (q_entries q)" "is_expired (e_schedule x) t1" "task_id x = task_id e"
        by auto
      then show False using other[of x] that e by (simp add: live_def)
    qed
  qed
  have c0: "count run (task_id e) = 0" if "task_id e \<noteq> []"
    using that assms(2) step_take eq by (auto simp: queue_inv_def not_in_iff)
  have run: "count run i \<le> 1" "i \<in># run \<Longrightarrow> i \<in> q_known q \<and> i \<notin> task_id ` set (q_entries q)"
    if "i \<noteq> []" for i
    using assms(2) step_take that by (auto simp: queue_inv_def)
  have "count (add_mset (task_id e) run) i \<le> 1" if "i \<noteq> []" for i
    using run(1)[OF that] c0 that by auto
  moreover have "i \<in> q_known q' \<and> i \<notin> task_id ` set (q_entries q')"
    if "i \<noteq> []" "i \<in># add_mset (task_id e) run" for i
  proof (cases "i = task_id e")
    case True
    then show ?thesis using that kn notin by simp
  next
    case False
    then have "i \<in> q_known q" "i \<notin> task_id ` set (q_entries q)" using run(2)[OF that(1)] that by auto
    moreover from this have "i \<notin> task_id ` set (q_entries q')" using sub by blast
    ultimately show ?thesis using keep[of i] by auto
  qed
  ultimately show ?thesis
    using step_take(2) wf' by (simp add: queue_inv_def)
next
  case (step_none env t1 t2 q q' run)
  have wf: "wf_queue q" using assms(2) step_none by (simp add: queue_inv_def)
  have "q_entries q' = live t1 q" using next_entry_spec[OF wf step_none(3)] by simp
  then show ?thesis
    using assms(2) step_none wf_next_entry[OF wf step_none(3)]
    by (fastforce simp: queue_inv_def next_entry_known[OF step_none(3)] drain_expired_spec[OF wf] live_def)
next
  case (step_done tid run q ok)
  then show ?thesis using assms(2)
    by (auto simp: queue_inv_def intro!: wf_mark_completed)
       (auto simp: mark_completed_def count_eq_zero_iff in_diff_count split: if_splits)
qed


lemma queue_inv_reach: "queue_reach s \<Longrightarrow> queue_inv s"
  by (induction rule: queue_reach.induct)
     (auto simp: queue_inv_step, simp add: queue_inv_def wf_empty empty_queue_def wf_queue_def)

subsection \<open>Properties\<close>

text \<open>C4: \<open>next_entry\<close> (hence \<open>next_task\<close>) hands out exactly the smallest (priority band, arrival)
  entry among those not expired, released and with every dependency done, removes it and the
  expired ones and nothing else; it hands out nothing only when no live entry can run.\<close>

theorem next_entry_correct:
  assumes "wf_queue q" and "next_entry env t1 t2 q = (r, q')"
  shows "case r of
      None \<Rightarrow> q_entries q' = live t1 q \<and> (\<forall>e \<in> set (live t1 q). \<not> eligible env t2 q e)
    | Some e \<Rightarrow> e \<in> set (live t1 q) \<and> eligible env t2 q e \<and>
        (\<forall>x \<in> set (live t1 q). eligible env t2 q x \<longrightarrow> e_key e \<le> e_key x) \<and>
        q_entries q' = remove1 e (live t1 q)"
  using assms by (rule next_entry_spec)

definition demo_task :: "string \<Rightarrow> string \<Rightarrow> dict \<Rightarrow> task" where
  "demo_task i prio payload = (mk_task i ''shell'' payload)\<lparr>t_priority := PStr prio\<rparr>"

text \<open>A queue of four: a low task, a high one that waits for \<open>x\<close>, a normal one whose deadline is
  past, and a normal one that can run.\<close>

definition demo_queue :: queue where
  "demo_queue = snd (snd (extend_tasks
     [demo_task ''a'' ''low'' [],
      demo_task ''b'' ''high'' [(''depends_on'', PList [PStr ''x''])],
      demo_task ''c'' ''normal'' [(''deadline'', PStr ''1970-01-01T00:00:01Z'')],
      demo_task ''d'' ''normal'' [(''not_before'', PStr ''1970-01-01T00:00:01Z'')]]
     (empty_queue 1 [])))"

definition demo_env :: qenv where
  "demo_env = \<lparr>dependency_check = None, result_succeeded = None\<rparr>"

theorem next_entry_correct_witness:
  "\<exists>e q'. next_entry demo_env 2000000 2000000 demo_queue = (Some e, q') \<and> task_id e = ''d'' \<and>
     map task_id (q_entries q') = [''a'', ''b''] \<and> eligible demo_env 2000000 demo_queue e"
proof -
  have wf: "wf_queue demo_queue" by code_simp
  obtain r q' where n: "next_entry demo_env 2000000 2000000 demo_queue = (r, q')" by fastforce
  have "map_option task_id (fst (next_entry demo_env 2000000 2000000 demo_queue)) = Some ''d''"
    "map task_id (q_entries (snd (next_entry demo_env 2000000 2000000 demo_queue))) = [''a'', ''b'']"
    by code_simp+
  then show ?thesis
    using next_entry_correct[OF wf n] n by auto
qed

text \<open>C5: in every reachable state of the queue and its workers, no id is queued twice, running
  twice, or queued and running at once (the empty id apart), whatever the order of additions,
  removals, expiries, hand-outs and completions.\<close>

theorem queue_single_flight:
  assumes "queue_reach (q, run)"
  shows "distinct (filter (\<lambda>i. i \<noteq> []) (map task_id (q_entries q)))
    \<and> (\<forall>i. i \<noteq> [] \<longrightarrow> count run i + length (filter (\<lambda>e. task_id e = i) (q_entries q)) \<le> 1)"
proof -
  have inv: "queue_inv (q, run)" using assms by (rule queue_inv_reach)
  then have d: "distinct (filter (\<lambda>i. i \<noteq> []) (map task_id (q_entries q)))"
    by (simp add: queue_inv_def wf_queue_def)
  have one: "length (filter (\<lambda>e. task_id e = i) es) \<le> 1"
    if "distinct (filter (\<lambda>i. i \<noteq> []) (map task_id es))" "i \<noteq> []" for i es
    using that by (induction es) (auto simp: filter_empty_conv image_iff split: if_splits)
  show ?thesis
  proof (intro conjI d allI impI)
    fix i :: string assume i: "i \<noteq> []"
    show "count run i + length (filter (\<lambda>e. task_id e = i) (q_entries q)) \<le> 1"
    proof (cases "i \<in># run")
      case True
      then have "filter (\<lambda>e. task_id e = i) (q_entries q) = []"
        using inv i by (auto simp: queue_inv_def filter_empty_conv)
      then show ?thesis using inv i by (simp add: queue_inv_def)
    next
      case False
      then show ?thesis using one[OF d i] by (simp add: not_in_iff)
    qed
  qed
qed


text \<open>A small run of the queue: one task added, taken by a worker, and submitted again.\<close>

theorem queue_single_flight_witness:
  "\<exists>q. queue_reach (q, {#''a''#}) \<and> add (demo_task ''a'' ''low'' []) q = Inr (None, q) \<and>
     distinct (filter (\<lambda>i. i \<noteq> []) (map task_id (q_entries q)))"
proof -
  define t where "t = demo_task ''a'' ''low'' []"
  define q0 where "q0 = empty_queue 1 []"
  define q1 where "q1 = snd (snd (extend_tasks [t] q0))"
  obtain r q2 where n: "next_entry demo_env 0 0 q1 = (r, q2)" by fastforce
  have a: "\<exists>e. add t q0 = Inr (e, q1)"
    by (simp add: q1_def t_def q0_def add_def empty_queue_def parse_schedule_def demo_task_def
        Let_def pick_def dget_def has_key_def)
  have r: "map_option task_id (fst (next_entry demo_env 0 0 q1)) = Some ''a''"
    "''a'' \<in> q_known (snd (next_entry demo_env 0 0 q1))"
    unfolding q1_def q0_def t_def by code_simp+
  then obtain e where e: "r = Some e" "task_id e = ''a''" using n by auto
  have "queue_reach (q1, {#})"
    using a reach_start[of 1 "[]"] by (auto simp: q0_def intro: reach_step step_add)
  then have reach: "queue_reach (q2, {#''a''#})"
    using step_take[OF n[unfolded e(1)], of "{#}"] e(2) reach_step by fastforce
  moreover have "add t q2 = Inr (None, q2)"
    using r n by (simp add: add_def t_def demo_task_def)
  ultimately show ?thesis
    using queue_single_flight[OF reach] unfolding t_def by blast
qed

definition plain_entry :: "entry \<Rightarrow> bool" where
  "plain_entry e = (s_priority (e_schedule e) = Normal \<and> s_not_before (e_schedule e) = None \<and>
     s_deadline (e_schedule e) = None \<and> s_depends_on (e_schedule e) = [])"

lemma plain_packet:
  assumes "t_payload t = p" "t_priority t = PStr ''normal''"
    "\<not> has_key p ''schedule''" "\<not> has_key p ''not_before''" "\<not> has_key p ''deadline''"
    "\<not> has_key p ''depends_on''" "\<not> has_key p ''retry''"
    "add t q = Inr (Some e, q')"
  shows "plain_entry e" "s_retry (e_schedule e) = \<lparr>max_attempts = max 1 (q_attempts q), backoff_seconds = q_backoff q\<rparr>"
proof -
  have m: "dget p k = PNone" if "\<not> has_key p k" for k
    using that by (simp add: dget_def has_key_def)
  have p: "pick p k = PNone" if "\<not> has_key p k" for k
    using that m[OF assms(3)] by (simp add: pick_def dget_def)
  have "normalise_priority (PStr ''normal'') = Normal" by code_simp
  then have "parse_schedule t n b = Inr \<lparr>s_priority = Normal, s_not_before = None, s_deadline = None,
     s_depends_on = [], s_retry = \<lparr>max_attempts = max 1 n, backoff_seconds = b\<rparr>\<rparr>" for n b
    using assms by (simp add: parse_schedule_def Let_def p py_or_def parse_timestamp_def as_id_list_def
        dget_def dget_or_def read_max_attempts_def)
  then show "plain_entry e" "s_retry (e_schedule e) = \<lparr>max_attempts = max 1 (q_attempts q), backoff_seconds = q_backoff q\<rparr>"
    using assms(8) by (auto simp: add_def plain_entry_def Let_def split: if_splits)
qed

text \<open>Packets that carry none of the scheduling fields are run in arrival order, as before
  the queue existed: \<open>next_entry\<close> returns the oldest entry and leaves the others in order.\<close>

theorem next_entry_fifo:
  assumes "wf_queue q" "\<forall>e \<in> set (q_entries q). plain_entry e" "q_entries q = e # es"
  shows "fst (next_entry env t1 t2 q) = Some e \<and> q_entries (snd (next_entry env t1 t2 q)) = es"
proof -
  obtain r q' where n: "next_entry env t1 t2 q = (r, q')" by fastforce
  have live: "live t1 q = e # es"
    using assms(2) by (simp add: live_def plain_entry_def is_expired_def assms(3)[symmetric])
  have el: "\<forall>x \<in> set (live t1 q). eligible env t2 q x"
    using assms(2,3) by (auto simp: live plain_entry_def eligible_def)
  note sp = next_entry_spec[OF assms(1) n]
  obtain x where x: "r = Some x" using sp el live by (cases r) auto
  have "\<forall>y \<in> set es. e_seq e < e_seq y"
    using assms(1,3) by (simp add: wf_queue_def)
  moreover have "x \<in> set (e # es)" "e_key x \<le> e_key e"
    using sp x el live by auto
  moreover have "\<forall>y \<in> set (e # es). rank (s_priority (e_schedule y)) = 1"
    using assms(2,3) by (simp add: plain_entry_def)
  ultimately have "x = e" by (fastforce simp: e_key_def less_eq_prod_def)
  then show ?thesis using sp x n live by simp
qed

theorem next_entry_fifo_witness:
  "task_id (the (fst (next_entry demo_env 0 0
     (snd (snd (extend_tasks [mk_task ''p'' ''shell'' [], mk_task ''q'' ''shell'' []] (empty_queue 1 []))))))) = ''p''"
proof -
  let ?q = "snd (snd (extend_tasks [mk_task ''p'' ''shell'' [], mk_task ''q'' ''shell'' []] (empty_queue 1 [])))"
  have "wf_queue ?q" "\<forall>e \<in> set (q_entries ?q). plain_entry e" by code_simp+
  moreover have "map task_id (q_entries ?q) = [''p'', ''q'']" by code_simp
  then obtain e es where "q_entries ?q = e # es" "task_id e = ''p''"
    by (cases "q_entries ?q") auto
  ultimately show ?thesis using next_entry_fifo[of ?q e es demo_env 0 0] by simp
qed

end
