(* ===== verification/Runner.thy ===== *)
theory Runner
  imports Taskqueue
begin

text \<open>
  \<open>agent/runner.py\<close>: \<open>run_task\<close> with its retries, cancellation, and the bounded pool. What leaves the
  runner (reports, chunks, metrics, sleeps) is a list of events in the order the code emits them.
  The executor is a function from the attempt number to what it did; the cancel flag of a task is
  read at named points. The pool is a state with one step per critical section: \<open>pump\<close> starts
  workers, \<open>settle\<close> is the end of \<open>run_task\<close> (\<open>mark_completed\<close>, the flag dropped), \<open>retire\<close> the
  worker's \<open>finally\<close> block.
\<close>

subsection \<open>Outcomes\<close>

record outcome =
  oc_task :: task
  oc_result :: "result option"
  oc_attempts :: nat
  oc_cancelled :: bool

definition NON_RETRYABLE :: "string set" where
  "NON_RETRYABLE = {''block'', ''blocked'', ''confirm_required'', ''cancelled''}"

definition oc_status :: "outcome \<Rightarrow> string" where
  "oc_status o' =
     (let decision = (case oc_result o' of None \<Rightarrow> [] | Some r \<Rightarrow> r_decision r) in
      if oc_cancelled o' then ''cancelled''
      else if decision \<in> {''block'', ''blocked''} then ''blocked''
      else if decision = ''confirm_required'' then ''confirm_required''
      else if (case oc_result o' of None \<Rightarrow> False | Some r \<Rightarrow> r_ok r) then ''ok'' else ''error'')"

definition error_result :: "string \<Rightarrow> string \<Rightarrow> result" where
  "error_result tid msg = (mk_result tid False ''error'')\<lparr>r_error := msg\<rparr>"

definition meta_cancelled :: "result \<Rightarrow> bool" where
  "meta_cancelled r = truthy (dget (r_metadata r) ''cancelled'')"

definition should_retry :: "result \<Rightarrow> bool \<Rightarrow> bool" where
  "should_retry r cancelled = (\<not> r_ok r \<and> \<not> cancelled \<and> r_decision r \<notin> NON_RETRYABLE \<and> \<not> meta_cancelled r)"

subsection \<open>One task\<close>

datatype cpoint = BeforeAttempt nat | AfterAttempt nat | AtEnd

datatype revent =
    Sleep rat
  | RetryAttempted string
  | TaskStarted string string
  | SendAttempt string "result option" nat
  | Send string result
  | SendChunk string dict
  | TaskCompleted string string string
  | TaskObserved string

record renv =
  rv_execute :: "nat \<Rightarrow> string + result"
  rv_cancelled :: "cpoint \<Rightarrow> bool"

definition attempt_result :: "renv \<Rightarrow> task \<Rightarrow> nat \<Rightarrow> result" where
  "attempt_result env t k = (case rv_execute env k of Inr r \<Rightarrow> r | Inl msg \<Rightarrow> error_result (t_id t) msg)"

text \<open>The loop \<open>while attempt < max_attempts\<close>: \<open>left\<close> is what is left of it, \<open>k\<close> the attempts made
  and \<open>res\<close> the last result.\<close>

fun attempt_loop :: "renv \<Rightarrow> task \<Rightarrow> retry_policy \<Rightarrow> nat \<Rightarrow> nat \<Rightarrow> result option \<Rightarrow>
    result option \<times> nat \<times> revent list" where
  "attempt_loop env t rp 0 k res = (res, k, [])"
| "attempt_loop env t rp (Suc left) k res =
     (let delay = delay_before rp (int k + 1);
          pre = (if k = 0 then [] else if delay \<noteq> 0 then [Sleep delay] else []) in
      if k \<noteq> 0 \<and> rv_cancelled env (BeforeAttempt (Suc k)) then (res, k, pre)
      else
        (let pre = pre @ (if k = 0 then [] else [RetryAttempted (t_id t)]) @ [TaskStarted (t_id t) (t_kind t)];
             r = attempt_result env t (Suc k) in
         if \<not> should_retry r (rv_cancelled env (AfterAttempt (Suc k))) \<or> left = 0
         then (Some r, Suc k, pre)
         else (case attempt_loop env t rp left (Suc k) (Some r) of
            (res', k', evs) \<Rightarrow> (res', k', pre @ [SendAttempt (t_id t) (Some r) (Suc k)] @ evs))))"

definition report :: "string \<Rightarrow> result option \<Rightarrow> revent list" where
  "report tid res = (case res of None \<Rightarrow> []
     | Some r \<Rightarrow> if truthy (dget (r_metadata r) ''final_chunk'') then [] else [Send tid r])"

text \<open>\<open>run_task\<close>: its outcome and events; \<open>mark_completed\<close> and the flag are the pool's \<open>settle\<close>. The
  retry policy is the one \<open>parse_schedule\<close> reads; an error there is an exception in the worker.\<close>

definition run_task :: "renv \<Rightarrow> int \<Rightarrow> rat list \<Rightarrow> task \<Rightarrow> schedule_error + (outcome \<times> revent list)" where
  "run_task env max_default backoff_default t =
     (case parse_schedule t max_default backoff_default of
        Inl e \<Rightarrow> Inl e
      | Inr s \<Rightarrow>
         (case attempt_loop env t (s_retry s) (nat (max_attempts (s_retry s))) 0 None of
            (res, k, evs) \<Rightarrow>
              (let cancelled = (rv_cancelled env AtEnd \<or> (case res of None \<Rightarrow> False | Some r \<Rightarrow> meta_cancelled r));
                   oc = \<lparr>oc_task = t, oc_result = res, oc_attempts = k, oc_cancelled = cancelled\<rparr> in
               Inr (oc, evs @ (if k > 1 then [SendAttempt (t_id t) res k] else []) @ report (t_id t) res @
                        [TaskCompleted (t_id t) (oc_status oc) (t_kind t)]))))"

subsection \<open>The pool\<close>

record worker =
  wk_task :: task
  wk_settled :: bool

record pool =
  p_queue :: queue
  p_max :: int
  p_free :: int
  p_in_flight :: int
  p_peak :: int
  p_ids :: "string list"
  p_workers :: "worker list"
  p_cancelled :: "string set"
  p_dequeued :: "(string \<times> task) list"

definition new_pool :: "int \<Rightarrow> int \<Rightarrow> rat list \<Rightarrow> pool" where
  "new_pool maxc maxa backoff =
     \<lparr>p_queue = empty_queue (max 1 maxa) backoff, p_max = max 1 maxc, p_free = max 1 maxc,
      p_in_flight = 0, p_peak = 0, p_ids = [], p_workers = [], p_cancelled = {}, p_dequeued = []\<rparr>"

definition running_task_ids :: "pool \<Rightarrow> string list" where
  "running_task_ids p = sort (p_ids p)"

definition add_key :: "string \<Rightarrow> string list \<Rightarrow> string list" where
  "add_key k ks = (if k \<in> set ks then ks else ks @ [k])"

definition spawn_worker :: "task \<Rightarrow> pool \<Rightarrow> pool" where
  "spawn_worker t p = p\<lparr>p_ids := add_key (t_id t) (p_ids p), p_workers := p_workers p @ [\<lparr>wk_task = t, wk_settled = False\<rparr>],
     p_in_flight := p_in_flight p + 1, p_peak := max (p_peak p) (p_in_flight p + 1)\<rparr>"

definition expired_body :: "entry \<Rightarrow> dict" where
  "expired_body e = [(''ok'', PBool False), (''decision'', PStr ''skipped''), (''status'', PStr ''deadline_exceeded''),
     (''error'', PStr (''deadline '' @ (case s_deadline (e_schedule e) of None \<Rightarrow> ''?'' | Some d \<Rightarrow> isoformat d) @
        '' passed before execution''))]"

definition report_expired :: "int \<Rightarrow> pool \<Rightarrow> pool \<times> revent list" where
  "report_expired now p = (case drain_expired now (p_queue p) of (es, q) \<Rightarrow>
     (p\<lparr>p_queue := q\<rparr>, concat (map (\<lambda>e. [SendChunk (task_id e) (expired_body e),
        TaskCompleted (task_id e) ''deadline_exceeded'' (t_kind (e_task e))]) es)))"

text \<open>The loop of \<open>pump\<close>: take a slot, take a task, start it; \<open>n\<close> bounds the passes by the slots.\<close>

fun pump_loop :: "nat \<Rightarrow> qenv \<Rightarrow> int \<Rightarrow> pool \<Rightarrow> nat \<times> pool" where
  "pump_loop 0 env now p = (0, p)"
| "pump_loop (Suc n) env now p =
     (if p_free p \<le> 0 then (0, p)
      else (case next_task env now now (p_queue p) of
          (None, q) \<Rightarrow> (0, p\<lparr>p_queue := q\<rparr>)
        | (Some t, q) \<Rightarrow>
            (case pump_loop n env now (spawn_worker t (p\<lparr>p_queue := q, p_free := p_free p - 1\<rparr>)) of
               (k, p') \<Rightarrow> (Suc k, p'))))"

definition pump :: "qenv \<Rightarrow> int \<Rightarrow> pool \<Rightarrow> nat \<times> pool \<times> revent list" where
  "pump env now p = (case report_expired now p of (p1, evs) \<Rightarrow>
     (case pump_loop (Suc (nat (p_free p1))) env now p1 of (k, p2) \<Rightarrow> (k, p2, evs)))"

definition settle :: "nat \<Rightarrow> bool \<Rightarrow> pool \<Rightarrow> pool option" where
  "settle k ok p = (if k < length (p_workers p) \<and> \<not> wk_settled (p_workers p ! k) then
     (let w = p_workers p ! k; tid = t_id (wk_task w) in
      Some (p\<lparr>p_queue := mark_completed tid ok (p_queue p), p_cancelled := p_cancelled p - {tid},
              p_workers := (p_workers p)[k := w\<lparr>wk_settled := True\<rparr>]\<rparr>)) else None)"

text \<open>The \<open>finally\<close> block runs whether or not \<open>run_task\<close> got as far as \<open>settle\<close>.\<close>

definition retire :: "nat \<Rightarrow> pool \<Rightarrow> pool option" where
  "retire k p = (if k < length (p_workers p) then
     Some (p\<lparr>p_ids := filter (\<lambda>i. i \<noteq> t_id (wk_task (p_workers p ! k))) (p_ids p),
             p_workers := take k (p_workers p) @ drop (Suc k) (p_workers p),
             p_in_flight := p_in_flight p - 1, p_free := p_free p + 1\<rparr>) else None)"

subsection \<open>Cancellation and submission\<close>

datatype cstate = WasQueued | WasRunning | WasUnknown

fun cstate_str :: "cstate \<Rightarrow> string" where
  "cstate_str WasQueued = ''queued''" | "cstate_str WasRunning = ''running''" | "cstate_str WasUnknown = ''unknown''"

text \<open>\<open>stop\<close> is the executor's: whether it signalled a running task of that id.\<close>

definition cancel :: "(string \<Rightarrow> bool) \<Rightarrow> string \<Rightarrow> pool \<Rightarrow> cstate \<times> pool" where
  "cancel stop target p =
     (let p1 = p\<lparr>p_cancelled := insert target (p_cancelled p)\<rparr>; was_running = (target \<in> set (p_ids p)) in
      case remove_task target (p_queue p1) of
        (removed, q) \<Rightarrow>
          (let p2 = p1\<lparr>p_queue := q\<rparr> in
           case removed of
             Some t \<Rightarrow> if \<not> was_running then (WasQueued, p2\<lparr>p_dequeued := dict_set (p_dequeued p2) target t\<rparr>)
                       else (WasRunning, p2)
           | None \<Rightarrow> if was_running \<or> stop target then (WasRunning, p2) else (WasUnknown, p2)))"

definition is_cancelled :: "pool \<Rightarrow> string \<Rightarrow> bool" where
  "is_cancelled p tid = (tid \<in> p_cancelled p)"

definition cancelled_body :: "string \<Rightarrow> dict" where
  "cancelled_body by = [(''ok'', PBool False), (''decision'', PStr ''cancelled''), (''status'', PStr ''cancelled''),
     (''cancelled'', PBool True), (''error'', PStr ''cancelled''), (''cancelled_by'', PStr by)]"

definition report_cancelled_target :: "task \<Rightarrow> string \<Rightarrow> pool \<Rightarrow> pool \<times> revent list" where
  "report_cancelled_target t target p =
     (p\<lparr>p_dequeued := dict_del (p_dequeued p) target\<rparr>,
      [SendChunk target (cancelled_body (t_id t)), TaskCompleted target ''cancelled'' []])"

definition handle_cancel :: "(string \<Rightarrow> bool) \<Rightarrow> task \<Rightarrow> pool \<Rightarrow> result \<times> pool \<times> revent list" where
  "handle_cancel stop t p =
     (let target = strip (str_or_empty (dget (t_payload t) ''task_id'')) in
      if target = [] then
        (let r = error_result (t_id t) ''cancel requires payload.task_id'' in (r, p, report (t_id t) (Some r)))
      else
        (case cancel stop target p of (st, p1) \<Rightarrow>
          (case (if st = WasQueued then report_cancelled_target t target p1 else (p1, [])) of
            (p2, evs) \<Rightarrow>
              (let ok = (st \<noteq> WasUnknown);
                   r = (mk_result (t_id t) ok ''auto'')\<lparr>r_stdout := target @ '': '' @ cstate_str st,
                         r_error := (if ok then [] else ''no such task: '' @ target),
                         r_metadata := [(''target_task_id'', PStr target), (''target_state'', PStr (cstate_str st))]\<rparr> in
               (r, p2, evs @ report (t_id t) (Some r) @
                       [TaskCompleted (t_id t) (if ok then ''ok'' else ''error'') ''cancel''])))))"

definition submit :: "(string \<Rightarrow> bool) \<Rightarrow> task \<Rightarrow> pool \<Rightarrow> schedule_error + (bool \<times> pool \<times> revent list)" where
  "submit stop t p =
     (if t_kind t = ''cancel'' then (case handle_cancel stop t p of (r, p', evs) \<Rightarrow> Inr (True, p', evs))
      else (case add t (p_queue p) of
          Inl e \<Rightarrow> Inl e
        | Inr (e, q) \<Rightarrow> Inr (e \<noteq> None, p\<lparr>p_queue := q\<rparr>, [TaskObserved (t_id t)])))"

fun submit_all :: "(string \<Rightarrow> bool) \<Rightarrow> task list \<Rightarrow> pool \<Rightarrow> schedule_error option \<times> nat \<times> pool \<times> revent list" where
  "submit_all stop [] p = (None, 0, p, [])"
| "submit_all stop (t # ts) p = (case submit stop t p of
       Inl e \<Rightarrow> (Some e, 0, p, [TaskObserved (t_id t)])
     | Inr (b, p', evs) \<Rightarrow> (case submit_all stop ts p' of
          (err, n, p'', evs') \<Rightarrow> (err, (if b then Suc n else n), p'', evs @ evs')))"

subsection \<open>Retries\<close>

fun filed :: "revent list \<Rightarrow> nat list" where
  "filed [] = []"
| "filed (SendAttempt i r n # es) = n # filed es"
| "filed (_ # es) = filed es"

fun sent :: "revent list \<Rightarrow> result list" where
  "sent [] = []"
| "sent (Send i r # es) = r # sent es"
| "sent (_ # es) = sent es"

fun starts :: "revent list \<Rightarrow> nat" where
  "starts [] = 0"
| "starts (TaskStarted i k # es) = Suc (starts es)"
| "starts (_ # es) = starts es"

fun sleeps :: "revent list \<Rightarrow> rat list" where
  "sleeps [] = []"
| "sleeps (Sleep d # es) = d # sleeps es"
| "sleeps (_ # es) = sleeps es"

lemma filed_append [simp]: "filed (xs @ ys) = filed xs @ filed ys"
  by (induction xs rule: filed.induct) auto

lemma sent_append [simp]: "sent (xs @ ys) = sent xs @ sent ys"
  by (induction xs rule: sent.induct) auto

lemma starts_append [simp]: "starts (xs @ ys) = starts xs + starts ys"
  by (induction xs rule: starts.induct) auto

lemma attempt_loop_bound:
  "attempt_loop env t rp left k res = (res', k', evs) \<Longrightarrow> k \<le> k' \<and> k' \<le> k + left \<and> starts evs = k' - k \<and> sent evs = []"
proof (induction left arbitrary: k res res' k' evs)
  case (Suc left)
  show ?case
    using Suc.prems Suc.IH[of "Suc k" "Some (attempt_result env t (Suc k))"]
    by (fastforce simp: Let_def split: if_splits prod.splits)
qed simp

lemma attempt_loop_spec:
  assumes "\<And>c. \<not> rv_cancelled env c"
  shows "0 < left \<Longrightarrow> attempt_loop env t rp left k res = (res', k', evs) \<Longrightarrow>
    k < k' \<and> k' \<le> k + left \<and> res' = Some (attempt_result env t k') \<and>
    (\<forall>j. k < j \<longrightarrow> j < k' \<longrightarrow> should_retry (attempt_result env t j) False) \<and>
    (k' = k + left \<or> \<not> should_retry (attempt_result env t k') False) \<and>
    filed evs = [Suc k..<k']"
proof (induction left arbitrary: k res res' k' evs)
  case (Suc left)
  show ?case
  proof (cases "should_retry (attempt_result env t (Suc k)) False \<and> left \<noteq> 0")
    case True
    obtain r' k'' es where r: "attempt_loop env t rp left (Suc k) (Some (attempt_result env t (Suc k))) = (r', k'', es)"
      by (metis prod_cases3)
    have p: "res' = r'" "k' = k''" "filed evs = Suc k # filed es"
      using Suc.prems(2) True r assms by (auto simp: Let_def split: if_splits)
    note IH = Suc.IH[OF _ r] 
    have "should_retry (attempt_result env t j) False" if "k < j" "j < k'" for j
      using that True IH p by (cases "j = Suc k") auto
    then show ?thesis using IH True p by (auto simp: upt_conv_Cons)
  next
    case False
    then have "res' = Some (attempt_result env t (Suc k))" "k' = Suc k" "filed evs = []"
      using Suc.prems(2) assms by (auto simp: Let_def split: if_splits)
    then show ?thesis using False by auto
  qed
qed simp

lemma read_max_positive: "1 \<le> read_max_attempts d n"
  by (simp add: read_max_attempts_def split: option.splits)

lemma parse_schedule_attempts: "parse_schedule t n b = Inr s \<Longrightarrow> 1 \<le> max_attempts (s_retry s)"
  by (auto simp: parse_schedule_def Let_def read_max_positive split: sum.splits)



definition flaky :: renv where
  "flaky = \<lparr>rv_execute = (\<lambda>k. if k < 3 then Inl ''boom'' else Inr (mk_result ''t'' True ''auto'')),
     rv_cancelled = (\<lambda>c. False)\<rparr>"

definition retry_task :: task where
  "retry_task = mk_task ''t'' ''shell'' [(''retry'', PDict [(''max_attempts'', PInt 5), (''backoff_seconds'', PList [PInt 1, PInt 4])])]"


text \<open>A cancellation that lands during the backoff before attempt 3: attempt 2 is filed twice, once as
  a losing attempt and once as the settling one.\<close>

definition late_cancel :: renv where
  "late_cancel = \<lparr>rv_execute = (\<lambda>k. Inl ''boom''), rv_cancelled = (\<lambda>c. c = BeforeAttempt 3 \<or> c = AtEnd)\<rparr>"

theorem cancelled_backoff_files_twice:
  "\<exists>oc evs. run_task late_cancel 1 [] retry_task = Inr (oc, evs) \<and> oc_attempts oc = 2 \<and> filed evs = [1, 2, 2]"
proof -
  have "(case run_task late_cancel 1 [] retry_task of Inr (oc, evs) \<Rightarrow> oc_attempts oc = 2 \<and> filed evs = [1, 2, 2]
     | Inl _ \<Rightarrow> False)"
    by code_simp
  then show ?thesis by (auto split: sum.splits prod.splits)
qed

subsection \<open>The pool's invariant\<close>

inductive pool_step :: "pool \<Rightarrow> pool \<Rightarrow> bool" where
  ps_submit: "submit stop t p = Inr (b, p', evs) \<Longrightarrow> pool_step p p'"
| ps_cancel: "cancel stop target p = (st, p') \<Longrightarrow> pool_step p p'"
| ps_pump: "pump env now p = (n, p', evs) \<Longrightarrow> pool_step p p'"
| ps_settle: "settle k ok p = Some p' \<Longrightarrow> pool_step p p'"
| ps_retire: "retire k p = Some p' \<Longrightarrow> pool_step p p'"

inductive pool_reach :: "int \<Rightarrow> int \<Rightarrow> rat list \<Rightarrow> pool \<Rightarrow> bool" for m a b where
  pr_init: "pool_reach m a b (new_pool m a b)"
| pr_step: "pool_reach m a b p \<Longrightarrow> pool_step p p' \<Longrightarrow> pool_reach m a b p'"

definition busy :: "pool \<Rightarrow> string multiset" where
  "busy p = mset (map (\<lambda>w. t_id (wk_task w)) (filter (\<lambda>w. \<not> wk_settled w) (p_workers p)))"

definition pool_inv :: "pool \<Rightarrow> bool" where
  "pool_inv p = (queue_inv (p_queue p, busy p) \<and> 0 \<le> p_free p \<and>
     p_free p + int (length (p_workers p)) = p_max p \<and> p_in_flight p = int (length (p_workers p)) \<and>
     p_in_flight p \<le> p_peak p \<and> p_peak p \<le> p_max p)"

lemma queue_inv_sub: "queue_inv (q, add_mset i run) \<Longrightarrow> queue_inv (q, run)"
proof -
  assume a: "queue_inv (q, add_mset i run)"
  have "count run j \<le> 1" if "j \<noteq> []" for j
  proof -
    have "count run j \<le> count (add_mset i run) j" by simp
    also have "\<dots> \<le> 1" using a that unfolding queue_inv_def prod.case by blast
    finally show ?thesis .
  qed
  then show ?thesis using a by (simp add: queue_inv_def)
qed

lemma queue_inv_start: "queue_inv (empty_queue n b, {#})"
  by (rule queue_inv_reach) (rule reach_start)

lemma pool_inv_new: "pool_inv (new_pool m a b)"
  using queue_inv_start by (simp add: pool_inv_def new_pool_def busy_def)

lemma spawn_inv:
  assumes "pool_inv p" "next_task env now now (p_queue p) = (Some t, q)" "0 < p_free p"
  shows "pool_inv (spawn_worker t (p\<lparr>p_queue := q, p_free := p_free p - 1\<rparr>))"
proof -
  obtain e where e: "next_entry env now now (p_queue p) = (Some e, q)" "t = e_task e"
    using assms(2) by (auto simp: next_task_def split: prod.splits)
  have "queue_inv (q, add_mset (task_id e) (busy p))"
    using queue_inv_step[OF step_take[OF e(1)]] assms(1) by (simp add: pool_inv_def)
  then show ?thesis
    using assms(1,3) e(2) by (auto simp: pool_inv_def spawn_worker_def busy_def task_id_def)
qed

lemma pump_loop_inv: "pool_inv p \<Longrightarrow> pump_loop n env now p = (k, p') \<Longrightarrow> pool_inv p'"
proof (induction n arbitrary: p k)
  case (Suc n)
  show ?case
  proof (cases "p_free p \<le> 0")
    case True
    then show ?thesis using Suc.prems by simp
  next
    case False
    obtain r q where n: "next_task env now now (p_queue p) = (r, q)" by fastforce
    show ?thesis
    proof (cases r)
      case None
      then have "next_entry env now now (p_queue p) = (None, q)"
        using n by (auto simp: next_task_def split: prod.splits)
      then have "queue_inv (q, busy p)"
        using queue_inv_step[OF step_none] Suc.prems(1) by (simp add: pool_inv_def)
      then show ?thesis using Suc.prems n None False by (auto simp: pool_inv_def busy_def)
    next
      case (Some t)
      then have "pool_inv (spawn_worker t (p\<lparr>p_queue := q, p_free := p_free p - 1\<rparr>))"
        using spawn_inv[OF Suc.prems(1)] n False by simp
      then show ?thesis
        using Suc.prems(2) n Some False Suc.IH by (auto split: prod.splits)
    qed
  qed
qed simp

lemma report_expired_inv:
  assumes "pool_inv p" "report_expired now p = (p', evs)" shows "pool_inv p'"
proof -
  obtain es q where d: "drain_expired now (p_queue p) = (es, q)" by fastforce
  have "queue_inv (q, busy p)"
    using queue_inv_step[OF step_drain[OF d]] assms(1) by (simp add: pool_inv_def)
  then show ?thesis using assms d by (auto simp: report_expired_def pool_inv_def busy_def)
qed

lemma cancel_inv:
  assumes "pool_inv p" "cancel stop target p = (st, p')" shows "pool_inv p'"
proof -
  obtain r q where d: "remove_task target (p_queue p) = (r, q)" by fastforce
  have "queue_inv (q, busy p)"
    using queue_inv_step[OF step_remove[OF d]] assms(1) by (simp add: pool_inv_def)
  then show ?thesis using assms d
    by (auto simp: cancel_def Let_def pool_inv_def busy_def split: option.splits if_splits)
qed

lemma handle_cancel_inv:
  assumes "pool_inv p" "handle_cancel stop t p = (r, p', evs)" shows "pool_inv p'"
proof (cases "strip (str_or_empty (dget (t_payload t) ''task_id'')) = []")
  case True
  then show ?thesis using assms by (simp add: handle_cancel_def Let_def)
next
  case False
  obtain st p1 where c: "cancel stop (strip (str_or_empty (dget (t_payload t) ''task_id''))) p = (st, p1)" by fastforce
  have "pool_inv p1" by (rule cancel_inv[OF assms(1) c])
  moreover have "\<exists>d. p' = p1\<lparr>p_dequeued := d\<rparr>"
    using assms(2) False c
    by (auto simp: handle_cancel_def Let_def report_cancelled_target_def split: if_splits intro: exI[of _ "p_dequeued p1"])
  ultimately show ?thesis by (auto simp: pool_inv_def busy_def)
qed

lemma submit_inv:
  assumes "pool_inv p" "submit stop t p = Inr (b, p', evs)" shows "pool_inv p'"
proof (cases "t_kind t = ''cancel''")
  case True
  then show ?thesis using assms handle_cancel_inv by (auto simp: submit_def split: prod.splits)
next
  case False
  then obtain e q where a: "add t (p_queue p) = Inr (e, q)" "p' = p\<lparr>p_queue := q\<rparr>"
    using assms(2) by (auto simp: submit_def split: sum.splits)
  have "queue_inv (q, busy p)"
    using queue_inv_step[OF step_add[OF a(1)]] assms(1) by (simp add: pool_inv_def)
  then show ?thesis using assms(1) a by (simp add: pool_inv_def busy_def)
qed

lemma split_at: "k < length xs \<Longrightarrow> xs = take k xs @ xs ! k # drop (Suc k) xs"
  by (rule id_take_nth_drop)

lemma settle_inv:
  assumes "pool_inv p" "settle k ok p = Some p'" shows "pool_inv p'"
proof -
  define w where "w = p_workers p ! k"
  have k: "k < length (p_workers p)" "\<not> wk_settled w"
    using assms(2) by (auto simp: settle_def w_def Let_def split: if_splits)
  have p': "p' = p\<lparr>p_queue := mark_completed (t_id (wk_task w)) ok (p_queue p), p_cancelled := p_cancelled p - {t_id (wk_task w)},
              p_workers := (p_workers p)[k := w\<lparr>wk_settled := True\<rparr>]\<rparr>"
    using assms(2) k by (auto simp: settle_def w_def Let_def split: if_splits)
  define a b where "a = take k (p_workers p)" and "b = drop (Suc k) (p_workers p)"
  have ws: "p_workers p = a @ w # b" using split_at[OF k(1)] by (simp add: a_def b_def w_def)
  have la: "length a = k" using k by (simp add: a_def)
  have ws': "p_workers p' = a @ w\<lparr>wk_settled := True\<rparr> # b"
    unfolding p' using la by (simp add: ws list_update_append)
  have b: "busy p = add_mset (t_id (wk_task w)) (busy p')"
    using k(2) unfolding busy_def ws ws' by simp
  then have "queue_inv (mark_completed (t_id (wk_task w)) ok (p_queue p), busy p - {#t_id (wk_task w)#})"
    using queue_inv_step[OF step_done[of "t_id (wk_task w)" "busy p" "p_queue p" ok]] assms(1) by (simp add: pool_inv_def)
  then have "queue_inv (p_queue p', busy p')" using b by (simp add: p')
  then show ?thesis using assms(1) by (simp add: pool_inv_def p')
qed

lemma retire_inv:
  assumes "pool_inv p" "retire k p = Some p'" shows "pool_inv p'"
proof -
  have k: "k < length (p_workers p)" using assms(2) by (auto simp: retire_def split: if_splits)
  define w a b where "w = p_workers p ! k" and "a = take k (p_workers p)" and "b = drop (Suc k) (p_workers p)"
  have ws: "p_workers p = a @ w # b" using split_at[OF k] by (simp add: a_def b_def w_def)
  have p': "p_workers p' = a @ b" "p_queue p' = p_queue p" "p_free p' = p_free p + 1" "p_max p' = p_max p"
    "p_in_flight p' = p_in_flight p - 1" "p_peak p' = p_peak p"
    using assms(2) k by (auto simp: retire_def a_def b_def)
  have "busy p = (if wk_settled w then busy p' else add_mset (t_id (wk_task w)) (busy p'))"
    unfolding busy_def ws p' by simp
  then have "queue_inv (p_queue p', busy p')"
    using assms(1) queue_inv_sub p' by (auto simp: pool_inv_def split: if_splits)
  then show ?thesis using assms(1) p' ws by (auto simp: pool_inv_def)
qed

lemma pool_inv_step: "pool_step p p' \<Longrightarrow> pool_inv p \<Longrightarrow> pool_inv p'"
proof (induction rule: pool_step.induct)
  case (ps_pump env now p n p' evs)
  obtain p1 es where r: "report_expired now p = (p1, es)" by fastforce
  then obtain k where "pump_loop (Suc (nat (p_free p1))) env now p1 = (k, p')"
    using ps_pump by (auto simp: pump_def simp del: pump_loop.simps split: prod.splits)
  then show ?case using pump_loop_inv report_expired_inv[OF ps_pump(2) r] by blast
qed (auto dest: submit_inv cancel_inv settle_inv retire_inv)

lemma pool_inv_reach: "pool_reach m a b p \<Longrightarrow> pool_inv p"
  by (induction rule: pool_reach.induct) (auto intro: pool_inv_new pool_inv_step)


text \<open>C9: in every reachable state of the pool at most \<open>max_concurrent_tasks\<close> workers exist (so the
  high-water mark never exceeds it), the semaphore plus the workers add up to that limit, and no
  task id is being run by two workers that have not yet been settled, or is queued while being run.\<close>

theorem pool_bounded_single_flight:
  assumes "pool_reach m a b p"
  shows "int (length (p_workers p)) \<le> p_max p \<and> p_free p + p_in_flight p = p_max p \<and> 0 \<le> p_free p \<and>
    p_peak p \<le> p_max p \<and>
    (\<forall>i. i \<noteq> [] \<longrightarrow> count (busy p) i \<le> 1 \<and> (i \<in># busy p \<longrightarrow> i \<notin> task_id ` set (q_entries (p_queue p))))"
  using pool_inv_reach[OF assms] by (auto simp: pool_inv_def queue_inv_def)

text \<open>Two submissions of one id and a pump with one slot.\<close>

definition demo_pool :: "pool option" where
  "demo_pool = (case submit_all (\<lambda>x. False) [demo_task ''a'' ''low'' [], demo_task ''b'' ''high'' [], demo_task ''a'' ''high'' []]
       (new_pool 1 1 []) of (err, n, p, evs) \<Rightarrow>
     (case pump demo_env 0 p of (k, p', evs') \<Rightarrow> if n = 2 \<and> k = 1 then Some p' else None))"

lemma submit_all_reach:
  "pool_reach m a b p \<Longrightarrow> submit_all stop ts p = (err, n, p', evs) \<Longrightarrow> pool_reach m a b p'"
proof (induction ts arbitrary: p n evs)
  case (Cons t ts)
  show ?case
  proof (cases "submit stop t p")
    case (Inl e)
    then show ?thesis using Cons.prems by simp
  next
    case (Inr x)
    obtain c q es where x: "x = (c, q, es)" by (metis prod_cases3)
    then have "pool_reach m a b q" using Inr Cons.prems(1) ps_submit pr_step by blast
    then show ?thesis using Cons.IH Cons.prems(2) Inr x by (auto split: prod.splits)
  qed
qed simp

theorem pool_bounded_single_flight_witness:
  "\<exists>p. demo_pool = Some p \<and> running_task_ids p = [''b''] \<and> int (length (p_workers p)) \<le> p_max p \<and> p_max p = 1"
proof -
  have c: "map_option (\<lambda>p. (running_task_ids p, p_max p)) demo_pool = Some ([''b''], 1)" by code_simp
  then obtain p where p: "demo_pool = Some p" "running_task_ids p = [''b'']" "p_max p = 1" by auto
  obtain err n q evs where s: "submit_all (\<lambda>x. False) [demo_task ''a'' ''low'' [], demo_task ''b'' ''high'' [], demo_task ''a'' ''high'' []]
       (new_pool 1 1 []) = (err, n, q, evs)" by (metis prod_cases4)
  obtain k q' evs' where u: "pump demo_env 0 q = (k, q', evs')" by (metis prod_cases3)
  have "pool_reach 1 1 [] q'"
    using submit_all_reach[OF pr_init s] u ps_pump pr_step by blast
  moreover have "q' = p" using p(1) s u by (simp add: demo_pool_def split: if_splits)
  ultimately show ?thesis using pool_bounded_single_flight[of 1 1 "[]" p] p by auto
qed

lemma pump_loop_saturates:
  assumes "pool_inv p" "pump_loop n env now p = (k, p')" "nat (p_free p) < n"
  shows "p_free p' \<le> 0 \<or> (\<forall>e \<in> set (live now (p_queue p')). \<not> eligible env now (p_queue p') e)"
  using assms
proof (induction n arbitrary: p k)
  case (Suc n)
  show ?case
  proof (cases "p_free p \<le> 0")
    case True
    then show ?thesis using Suc.prems by simp
  next
    case False
    obtain r q where n: "next_task env now now (p_queue p) = (r, q)" by fastforce
    show ?thesis
    proof (cases r)
      case None
      then have e: "next_entry env now now (p_queue p) = (None, q)"
        using n by (auto simp: next_task_def split: prod.splits)
      have wf: "wf_queue (p_queue p)" using Suc.prems(1) by (simp add: pool_inv_def queue_inv_def)
      define q1 where "q1 = snd (drain_expired now (p_queue p))"
      have "scan env now (sort_key e_key (q_entries q1)) q1 = (None, q)"
        using e by (simp add: next_entry_def Let_def q1_def)
      from scan_spec[OF this] have "asked env q1 q" and ne: "\<forall>e \<in> set (q_entries q1). \<not> eligible env now q1 e"
        by simp_all
      then have "q_entries q = q_entries q1" "\<And>e. eligible env now q e = eligible env now q1 e"
        by (auto simp: asked_entries asked_eligible)
      then show ?thesis using Suc.prems(2) False n None ne by (auto simp: live_def)
    next
      case (Some t)
      define p1 where "p1 = spawn_worker t (p\<lparr>p_queue := q, p_free := p_free p - 1\<rparr>)"
      have inv: "pool_inv p1" using spawn_inv[OF Suc.prems(1)] n Some False by (simp add: p1_def)
      obtain k' where l: "pump_loop n env now p1 = (k', p')"
        using Suc.prems(2) n Some False by (auto simp: p1_def split: prod.splits)
      have "nat (p_free p1) < n" using Suc.prems(3) False by (simp add: p1_def spawn_worker_def)
      then show ?thesis using Suc.IH[OF inv l] by simp
    qed
  qed
qed simp

text \<open>After \<open>pump\<close>, either every slot is taken or nothing left in the queue can run now: a task
  that could start is never left waiting beside a free slot.\<close>

theorem pump_saturates:
  assumes "pool_reach m a b p" "pump env now p = (k, p', evs)"
  shows "p_free p' \<le> 0 \<or> (\<forall>e \<in> set (live now (p_queue p')). \<not> eligible env now (p_queue p') e)"
proof -
  obtain p1 es where r: "report_expired now p = (p1, es)" by fastforce
  then have l: "pump_loop (Suc (nat (p_free p1))) env now p1 = (k, p')"
    using assms(2) by (auto simp: pump_def simp del: pump_loop.simps split: prod.splits)
  show ?thesis
    by (rule pump_loop_saturates[OF report_expired_inv[OF pool_inv_reach[OF assms(1)] r] l]) simp
qed

theorem pump_saturates_witness:
  "\<exists>k p' evs. pump demo_env 0 (new_pool 1 1 []) = (k, p', evs) \<and>
     (p_free p' \<le> 0 \<or> (\<forall>e \<in> set (live 0 (p_queue p')). \<not> eligible demo_env 0 (p_queue p') e))"
proof -
  obtain k p' evs where u: "pump demo_env 0 (new_pool 1 1 []) = (k, p', evs)" by (metis prod_cases3)
  then show ?thesis using pump_saturates[OF pr_init u] by blast
qed

end
