(* ===== verification/Mainloop.thy ===== *)
theory Mainloop
  imports Runner Host
begin

text \<open>
  \<open>agent/main.py\<close>: one turn of the main loop, which resumes what the owner has answered, queues what was fetched and
  fills the pool. The confirmation queue, the executor, the reporter and the bridge act on a state of their own, given
  by the fields of the environment; the pool is the runner's. Start-up and shut-down are left out.
\<close>

subsection \<open>The loop\<close>

text \<open>\<open>me_scan\<close>: the tasks resolved, or an exception. \<open>me_send\<close> and \<open>me_send_error\<close>: whether the reporter got through.\<close>

record 's main_env =
  me_scan :: "'s \<Rightarrow> (task \<times> bool) list option \<times> 's"
  me_resume :: "task \<Rightarrow> bool \<Rightarrow> 's \<Rightarrow> (exn + result) \<times> 's"
  me_send :: "task \<Rightarrow> result \<Rightarrow> 's \<Rightarrow> bool \<times> 's"
  me_send_error :: "task \<Rightarrow> string \<Rightarrow> 's \<Rightarrow> bool \<times> 's"
  me_fetch :: "'s \<Rightarrow> task list \<times> 's"
  me_stop :: "string \<Rightarrow> bool"
  me_queue :: qenv

text \<open>The tasks resolved: an exception of one is reported as an error; one of that report ends the scan.\<close>

fun resume_resolved :: "'s main_env \<Rightarrow> (task \<times> bool) list \<Rightarrow> 's \<Rightarrow> bool \<times> 's" where
  "resume_resolved E [] s = (True, s)"
| "resume_resolved E ((t, approved) # rs) s =
     (let failed = (\<lambda>s. case me_send_error E t ''resume_after_confirm failed'' s of
            (True, s') \<Rightarrow> resume_resolved E rs s' | (False, s') \<Rightarrow> (False, s')) in
      case me_resume E t approved s of
        (Inl e, s1) \<Rightarrow> failed s1
      | (Inr r, s1) \<Rightarrow> (case me_send E t r s1 of (True, s2) \<Rightarrow> resume_resolved E rs s2 | (False, s2) \<Rightarrow> failed s2))"

definition scan_turn :: "'s main_env \<Rightarrow> 's \<Rightarrow> 's" where
  "scan_turn E s = (case me_scan E s of (None, s1) \<Rightarrow> s1 | (Some rs, s1) \<Rightarrow> snd (resume_resolved E rs s1))"

text \<open>One turn; \<open>Inl\<close> is an exception that ends the agent.\<close>

definition turn :: "'s main_env \<Rightarrow> int \<Rightarrow> 's \<times> pool \<Rightarrow> (schedule_error + revent list) \<times> 's \<times> pool" where
  "turn E now w = (case me_fetch E (scan_turn E (fst w)) of (tasks, s) \<Rightarrow>
     (case submit_all (me_stop E) tasks (snd w) of
        (Some e, n, p, evs) \<Rightarrow> (Inl e, s, p)
      | (None, n, p, evs) \<Rightarrow> (case pump (me_queue E) now p of (k, p', evs') \<Rightarrow> (Inr (evs @ evs'), s, p'))))"

fun turns :: "'s main_env \<Rightarrow> int list \<Rightarrow> 's \<times> pool \<Rightarrow> (schedule_error + revent list) \<times> 's \<times> pool" where
  "turns E [] w = (Inr [], w)"
| "turns E (now # ts) w = (case turn E now w of
     (Inl e, w1) \<Rightarrow> (Inl e, w1)
   | (Inr evs, w1) \<Rightarrow> (case turns E ts w1 of (Inl e, w2) \<Rightarrow> (Inl e, w2) | (Inr evs', w2) \<Rightarrow> (Inr (evs @ evs'), w2)))"

subsection \<open>Every answer is reported\<close>

text \<open>The environment with a record of what the reporter was handed and got through.\<close>

datatype report = Reported string result | ReportedError string

definition noted :: "'s main_env \<Rightarrow> ('s \<times> report list) main_env" where
  "noted E = \<lparr>me_scan = (\<lambda>(s, l). case me_scan E s of (rs, s') \<Rightarrow> (rs, s', l)),
     me_resume = (\<lambda>t a (s, l). case me_resume E t a s of (r, s') \<Rightarrow> (r, s', l)),
     me_send = (\<lambda>t r (s, l). case me_send E t r s of (ok, s') \<Rightarrow> (ok, s', if ok then l @ [Reported (t_id t) r] else l)),
     me_send_error = (\<lambda>t m (s, l). case me_send_error E t m s of (ok, s') \<Rightarrow> (ok, s', if ok then l @ [ReportedError (t_id t)] else l)),
     me_fetch = (\<lambda>(s, l). case me_fetch E s of (ts, s') \<Rightarrow> (ts, s', l)), me_stop = me_stop E, me_queue = me_queue E\<rparr>"

lemma noted_sel [simp]:
  "me_scan (noted E) (s, l) = (case me_scan E s of (rs, s') \<Rightarrow> (rs, s', l))"
  "me_resume (noted E) t a (s, l) = (case me_resume E t a s of (r, s') \<Rightarrow> (r, s', l))"
  "me_send (noted E) t r (s, l) = (case me_send E t r s of (ok, s') \<Rightarrow> (ok, s', if ok then l @ [Reported (t_id t) r] else l))"
  "me_send_error (noted E) t m (s, l) = (case me_send_error E t m s of (ok, s') \<Rightarrow> (ok, s', if ok then l @ [ReportedError (t_id t)] else l))"
  by (simp_all add: noted_def)

fun report_id :: "report \<Rightarrow> string" where
  "report_id (Reported i r) = i"
| "report_id (ReportedError i) = i"

definition errors_sent :: "'s main_env \<Rightarrow> bool" where
  "errors_sent E = (\<forall>t m s. fst (me_send_error E t m s))"

lemma errors_got_through:
  assumes "errors_sent E"
  shows "\<exists>s1. me_send_error E t m s = (True, s1)"
  using assms by (cases "me_send_error E t m s") (auto simp: errors_sent_def dest!: spec[of _ t] spec[of _ m] spec[of _ s])

lemma resume_reports:
  assumes "errors_sent E"
  shows "\<exists>s' new. resume_resolved (noted E) rs (s, l) = (True, s', l @ new) \<and> map report_id new = map (t_id \<circ> fst) rs"
proof (induction rs arbitrary: s l)
  case (Cons x rs)
  obtain t a where x: "x = (t, a)" by (cases x)
  have failed: "\<exists>s' new. (case me_send_error (noted E) t ''resume_after_confirm failed'' (s0, l) of
        (True, s') \<Rightarrow> resume_resolved (noted E) rs s' | (False, s') \<Rightarrow> (False, s')) = (True, s', l @ new) \<and> map report_id new = t_id t # map (t_id \<circ> fst) rs" for s0
  proof -
    obtain s1 where e: "me_send_error E t ''resume_after_confirm failed'' s0 = (True, s1)"
      using errors_got_through[OF assms, of t "''resume_after_confirm failed''" s0] by blast
    obtain s' new where "resume_resolved (noted E) rs (s1, l @ [ReportedError (t_id t)]) = (True, s', (l @ [ReportedError (t_id t)]) @ new)"
        "map report_id new = map (t_id \<circ> fst) rs" using Cons.IH by blast
    then show ?thesis by (intro exI[of _ s'] exI[of _ "ReportedError (t_id t) # new"]) (simp add: e o_def)
  qed
  obtain out s1 where r: "me_resume E t a s = (out, s1)" by (meson surj_pair)
  show ?case
  proof (cases out)
    case (Inl e)
    then show ?thesis using failed[of s1] by (simp add: x r o_def)
  next
    case (Inr res)
    obtain ok s2 where k: "me_send E t res s1 = (ok, s2)" by (meson surj_pair)
    show ?thesis
    proof (cases ok)
      case True
      obtain s' new where "resume_resolved (noted E) rs (s2, l @ [Reported (t_id t) res]) = (True, s', (l @ [Reported (t_id t) res]) @ new)"
        "map report_id new = map (t_id \<circ> fst) rs" using Cons.IH by blast
      then show ?thesis using True
        by (intro exI[of _ s'] exI[of _ "Reported (t_id t) res # new"]) (simp add: x r Inr k o_def)
    next
      case False
      then show ?thesis using failed[of s2] by (simp add: x r Inr k o_def)
    qed
  qed
qed simp

text \<open>Whatever resuming it does, every task whose confirmation a turn finds answered gets exactly one report, in the order of
  the answers, as long as error reports get through.\<close>

theorem answers_reported_once:
  assumes "errors_sent E" "me_scan E s = (Some rs, s0)"
  shows "\<exists>s' new. scan_turn (noted E) (s, l) = (s', l @ new) \<and> map report_id new = map (t_id \<circ> fst) rs"
proof -
  obtain s' new where "resume_resolved (noted E) rs (s0, l) = (True, s', l @ new)" "map report_id new = map (t_id \<circ> fst) rs"
    using resume_reports[OF assms(1)] by blast
  moreover have "me_scan (noted E) (s, l) = (Some rs, s0, l)" using assms(2) by simp
  ultimately show ?thesis by (simp add: scan_turn_def)
qed

text \<open>Findings: a packet whose backoff list holds no number raises while it is queued, outside any handler: the agent ends, and
  again at every start, as the packet is still in its place.\<close>

lemma poison_packet_ends_agent:
  assumes "me_fetch E (scan_turn E s) = (t # ts, s1)" "t_kind t \<noteq> ''cancel''" "add t (p_queue p) = Inl e"
  shows "fst (turns E (now # rest) (s, p)) = Inl e"
  using assms by (auto simp: turn_def submit_def split: prod.splits)

lemma poison_packet:
  "add \<lparr>t_id = ''x'', t_kind = ''shell'', t_payload = [(''retry'', PDict [(''backoff_seconds'', PList [PStr ''soon''])])], t_priority = PStr ''normal''\<rparr>
     (p_queue (new_pool 1 1 [])) = Inl (BadBackoff (PStr ''soon''))"
  by code_simp

text \<open>When the error report of one task raises, the tasks resolved after it are neither resumed nor reported, and they are no
  longer pending.\<close>

lemma failed_report_drops_answers:
  assumes "me_resume E t a s = (Inl e, s1)" "me_send_error E t ''resume_after_confirm failed'' s1 = (False, s2)"
  shows "resume_resolved E ((t, a) # rs) s = (False, s2)"
  using assms by simp

definition demo_main :: "(nat list) main_env" where
  "demo_main = \<lparr>me_scan = (\<lambda>s. (Some [(mk_task ''a'' ''shell'' [], True), (mk_task ''b'' ''shell'' [], False)], s)),
     me_resume = (\<lambda>t a s. (if a then Inl (''OSError'', []) else Inr (mk_result (t_id t) False ''denied''), s)),
     me_send = (\<lambda>t r s. (True, s)), me_send_error = (\<lambda>t m s. (True, s)), me_fetch = (\<lambda>s. ([], s)), me_stop = (\<lambda>_. False),
     me_queue = \<lparr>dependency_check = None, result_succeeded = None\<rparr>\<rparr>"

theorem answers_reported_once_witness:
  "\<exists>s' new. scan_turn (noted demo_main) ([], []) = (s', new) \<and> map report_id new = [''a'', ''b'']"
  using answers_reported_once[of demo_main "[]" "[(mk_task ''a'' ''shell'' [], True), (mk_task ''b'' ''shell'' [], False)]" "[]" "[]"]
  by (simp add: errors_sent_def demo_main_def mk_task_def)

end
