(* ===== verification/Bridge.thy ===== *)
theory Bridge
  imports Amp Signing Confirm
begin

text \<open>
  The git bridge: \<open>agent/poller.py\<close> turns the packets of the task directory into tasks and marks them done
  or failed; \<open>agent/reporter.py\<close> and \<open>agent/reporter_v2.py\<close> write results, attempts and chunks into the
  result directory, wrapped in an AMP envelope when the task came in one, and signed. A directory is the
  list of its files (see \<open>Confirm\<close>). Cloning, pulling and pushing are git's; a push is recorded as the
  list of files it carries. The id and time a fresh envelope takes are arguments.
\<close>

subsection \<open>Packets\<close>

record packet =
  pk_task :: task
  pk_source :: "string option"
  pk_envelope :: "envelope option"

text \<open>\<open>IllTyped\<close>: the code goes on with an id, kind or payload of another type; that is outside the model.\<close>

datatype packet_error = PacketAmp amp_error | PacketType | PacketNotObject | IllTyped

definition task_from_amp :: "pyval \<Rightarrow> string option \<Rightarrow> packet_error + packet" where
  "task_from_amp data source = (case data of
     PDict d \<Rightarrow>
       (case dget_or d ''id'' (PStr []) of
          PStr i \<Rightarrow>
            (case parse_envelope (is_ulid i \<or> is_uuid4 (lower i)) data of
               Inl e \<Rightarrow> Inl (PacketAmp e)
             | Inr env \<Rightarrow> (let body = pl_body (env_payload env) in
                 (case dget_or body ''kind'' (PStr ''shell'') of
                    PStr k \<Rightarrow> Inr \<lparr>pk_task = \<lparr>t_id = env_id env, t_kind = k, t_payload = body,
                        t_priority = dget_or body ''priority'' (PStr ''normal'')\<rparr>,
                        pk_source = source, pk_envelope = Some env\<rparr>
                  | _ \<Rightarrow> Inl IllTyped)))
        | _ \<Rightarrow> Inl PacketType)
   | _ \<Rightarrow> Inl PacketNotObject)"

definition stem :: "string \<Rightarrow> string" where
  "stem f = (if length f \<le> 5 then f else take (length f - 5) f)"

definition task_from_legacy :: "dict \<Rightarrow> string option \<Rightarrow> packet_error + packet" where
  "task_from_legacy d source =
     (case (dget_or d ''id'' (PStr (case source of None \<Rightarrow> [] | Some f \<Rightarrow> stem f)),
            dget_or d ''kind'' (PStr ''shell''), dget_or d ''payload'' (PDict [])) of
        (PStr i, PStr k, PDict p) \<Rightarrow> Inr \<lparr>pk_task = \<lparr>t_id = i, t_kind = k, t_payload = p,
            t_priority = dget_or d ''priority'' (PStr ''normal'')\<rparr>, pk_source = source, pk_envelope = None\<rparr>
      | _ \<Rightarrow> Inl IllTyped)"

definition task_from_packet :: "pyval \<Rightarrow> string option \<Rightarrow> packet_error + packet" where
  "task_from_packet data source =
     (if is_amp_shaped data then task_from_amp data source
      else (case data of
          PDict d \<Rightarrow> if has_key d ''kind'' then task_from_legacy d source else task_from_amp data source
        | _ \<Rightarrow> Inl PacketNotObject))"

subsection \<open>The task directory\<close>

definition task_files :: "directory \<Rightarrow> string list" where
  "task_files d = filter (\<lambda>f. \<not> prefix ''done-'' f) (sort (filter (suffix ''.json'') (map fst d)))"

definition read_task :: "directory \<Rightarrow> string \<Rightarrow> packet option" where
  "read_task d f = (case map_of d f of
       Some (Some v) \<Rightarrow> (case task_from_packet v (Some f) of Inr t \<Rightarrow> Some t | Inl _ \<Rightarrow> None)
     | _ \<Rightarrow> None)"

text \<open>\<open>synced\<close>: whether the pull of the bridge repository succeeded.\<close>

definition fetch_pending_tasks :: "bool \<Rightarrow> directory \<Rightarrow> packet list" where
  "fetch_pending_tasks synced d = (if synced then List.map_filter (read_task d) (task_files d) else [])"

definition rename_file :: "directory \<Rightarrow> string \<Rightarrow> string \<Rightarrow> directory" where
  "rename_file d old new = (case map_of d old of None \<Rightarrow> d | Some v \<Rightarrow> dict_set (dict_del d old) new v)"

definition mark_done :: "packet \<Rightarrow> directory \<Rightarrow> directory" where
  "mark_done t d = (case pk_source t of None \<Rightarrow> d | Some f \<Rightarrow> rename_file d f (''done-'' @ f))"

definition mark_failed :: "packet \<Rightarrow> directory \<Rightarrow> directory" where
  "mark_failed t d = (case pk_source t of None \<Rightarrow> d | Some f \<Rightarrow> rename_file d f (''failed-'' @ f))"

subsection \<open>Results\<close>

definition HARNESS_BRICK_NAME :: string where
  "HARNESS_BRICK_NAME = ''iddo-harness''"

definition HARNESS_IDENTITY :: string where
  "HARNESS_IDENTITY = ''brick:iddo-harness''"

definition result_dict :: "result \<Rightarrow> dict" where
  "result_dict r =
     [(''task_id'', PStr (r_task_id r)), (''ok'', PBool (r_ok r)), (''decision'', PStr (r_decision r)),
      (''stdout'', PStr (r_stdout r)), (''stderr'', PStr (r_stderr r)),
      (''exit_code'', case r_exit_code r of None \<Rightarrow> PNone | Some n \<Rightarrow> PInt n), (''error'', PStr (r_error r)),
      (''metadata'', PDict (r_metadata r))]"

text \<open>The fresh id and timestamp of an envelope.\<close>

record stamp =
  st_id :: string
  st_ts :: string

definition build_result_payload :: "stamp \<Rightarrow> string \<Rightarrow> packet \<Rightarrow> dict \<Rightarrow> amp_error + dict" where
  "build_result_payload st inst t body = (case pk_envelope t of None \<Rightarrow> Inr body
     | Some env \<Rightarrow> map_sum id env_dict (build_envelope (st_id st) (st_ts st)
         \<lparr>rq_direction = ''outbound'', rq_brick = HARNESS_BRICK_NAME, rq_instance = inst, rq_channel = env_channel env,
          rq_canonical = HARNESS_IDENTITY, rq_type = ''harness_result'', rq_body = body,
          rq_to_channel = rp_channel (env_reply env), rq_to_address = rp_address (env_reply env), rq_self = False,
          rq_display = None, rq_env_id = None, rq_ts = None, rq_reply_to = Some (env_id env), rq_rate = None, rq_audit = None\<rparr>))"

datatype report_error = ReportAmp amp_error | ReportSign sign_error

record ('sk, 'pk) reporter =
  re_instance :: string
  re_crypto :: "('sk, 'pk) ed25519"
  re_signer :: "'sk signer"
  re_results :: directory

definition write_doc :: "string \<Rightarrow> dict \<Rightarrow> ('sk, 'pk) reporter \<Rightarrow> ('sk, 'pk) reporter" where
  "write_doc f doc rp = rp\<lparr>re_results := dict_set (re_results rp) f (Some (PDict doc))\<rparr>"

definition write_signed :: "string \<Rightarrow> string \<Rightarrow> dict \<Rightarrow> ('sk, 'pk) reporter \<Rightarrow> (report_error + unit) \<times> ('sk, 'pk) reporter" where
  "write_signed ctx f doc rp = (case signer_sign (re_crypto rp) doc ctx (re_signer rp) of
       (Inl e, sg) \<Rightarrow> (Inl (ReportSign e), rp\<lparr>re_signer := sg\<rparr>)
     | (Inr signed, sg) \<Rightarrow> (Inr (), write_doc f signed (rp\<lparr>re_signer := sg\<rparr>)))"

definition report_body :: "stamp \<Rightarrow> packet \<Rightarrow> dict \<Rightarrow> string \<Rightarrow> ('sk, 'pk) reporter \<Rightarrow> (report_error + unit) \<times> ('sk, 'pk) reporter" where
  "report_body st t body f rp = (case build_result_payload st (re_instance rp) t body of
       Inl e \<Rightarrow> (Inl (ReportAmp e), rp)
     | Inr payload \<Rightarrow> write_signed (''result:'' @ t_id (pk_task t)) f payload rp)"

definition send :: "stamp \<Rightarrow> packet \<Rightarrow> result \<Rightarrow> ('sk, 'pk) reporter \<Rightarrow> (report_error + unit) \<times> ('sk, 'pk) reporter" where
  "send st t r rp = report_body st t (result_dict r) (t_id (pk_task t) @ ''.json'') rp"

definition send_error :: "stamp \<Rightarrow> packet \<Rightarrow> string \<Rightarrow> ('sk, 'pk) reporter \<Rightarrow> (report_error + unit) \<times> ('sk, 'pk) reporter" where
  "send_error st t msg rp = report_body st t
     [(''task_id'', PStr (t_id (pk_task t))), (''ok'', PBool False), (''error'', PStr msg), (''decision'', PStr ''error'')]
     (t_id (pk_task t) @ ''.json'') rp"

definition send_attempt :: "stamp \<Rightarrow> packet \<Rightarrow> result \<Rightarrow> int \<Rightarrow> ('sk, 'pk) reporter \<Rightarrow> (report_error + unit) \<times> ('sk, 'pk) reporter" where
  "send_attempt st t r n rp = report_body st t (dict_set (result_dict r) ''attempt'' (PInt n))
     (t_id (pk_task t) @ ''-attempt-'' @ int_str n @ ''.json'') rp"

subsection \<open>Chunks\<close>

text \<open>The second reporter: what is written and not yet pushed, and the pushes made.\<close>

record ('sk, 'pk) chunks =
  ch_reporter :: "('sk, 'pk) reporter"
  ch_batch :: int
  ch_interval :: rat
  ch_git :: bool
  ch_pending :: "string list"
  ch_last_flush :: rat
  ch_pushed :: "string list list"

definition new_chunks :: "('sk, 'pk) reporter \<Rightarrow> int \<Rightarrow> int \<Rightarrow> bool \<Rightarrow> rat \<Rightarrow> ('sk, 'pk) chunks" where
  "new_chunks rp batch_size interval_ms git now =
     \<lparr>ch_reporter = rp, ch_batch = max 1 batch_size, ch_interval = of_int (max 0 interval_ms) / 1000, ch_git = git,
      ch_pending = [], ch_last_flush = now, ch_pushed = []\<rparr>"

definition flush :: "rat \<Rightarrow> ('sk, 'pk) chunks \<Rightarrow> ('sk, 'pk) chunks" where
  "flush now c = (let c1 = c\<lparr>ch_pending := [], ch_last_flush := now\<rparr> in
     if ch_pending c = [] \<or> \<not> ch_git c then c1 else c1\<lparr>ch_pushed := ch_pushed c @ [ch_pending c]\<rparr>)"

definition chunk_path :: "string \<Rightarrow> int \<Rightarrow> string" where
  "chunk_path i seq = i @ ''-chunk-'' @ int_str seq @ ''.json''"

definition send_chunk :: "stamp \<Rightarrow> rat \<Rightarrow> packet \<Rightarrow> dict \<Rightarrow> int \<Rightarrow> bool \<Rightarrow> ('sk, 'pk) chunks \<Rightarrow> (report_error + string) \<times> ('sk, 'pk) chunks" where
  "send_chunk st now t chunk_body seq is_final c =
     (let i = t_id (pk_task t);
          body = dict_set (dict_set (dict_set chunk_body ''task_id'' (PStr i)) ''seq'' (PInt seq)) ''is_final'' (PBool is_final);
          path = chunk_path i seq in
      case build_result_payload st (re_instance (ch_reporter c)) t body of
        Inl e \<Rightarrow> (Inl (ReportAmp e), c)
      | Inr payload \<Rightarrow>
          (case write_signed (''chunk:'' @ i @ ''#'' @ int_str seq) path payload (ch_reporter c) of
             (Inl e, rp) \<Rightarrow> (Inl e, c\<lparr>ch_reporter := rp\<rparr>)
           | (Inr _, rp) \<Rightarrow>
              (let c1 = c\<lparr>ch_reporter := rp, ch_pending := ch_pending c @ [path]\<rparr>;
                   is_due = (is_final \<or> int (length (ch_pending c1)) \<ge> ch_batch c \<or> now - ch_last_flush c \<ge> ch_interval c) in
               (Inr path, if is_due then flush now c1 else c1))))"

definition chunk_send :: "stamp \<Rightarrow> rat \<Rightarrow> packet \<Rightarrow> result \<Rightarrow> ('sk, 'pk) chunks \<Rightarrow> (report_error + string) \<times> ('sk, 'pk) chunks" where
  "chunk_send st now t r c = send_chunk st now t (result_dict r) 0 True c"

definition chunk_send_error :: "stamp \<Rightarrow> rat \<Rightarrow> packet \<Rightarrow> string \<Rightarrow> ('sk, 'pk) chunks \<Rightarrow> (report_error + string) \<times> ('sk, 'pk) chunks" where
  "chunk_send_error st now t msg c =
     send_chunk st now t [(''ok'', PBool False), (''decision'', PStr ''error''), (''error'', PStr msg)] 0 True c"

text \<open>An attempt file is wrapped and queued for the next push, but not signed.\<close>

definition chunk_send_attempt :: "stamp \<Rightarrow> packet \<Rightarrow> result \<Rightarrow> int \<Rightarrow> ('sk, 'pk) chunks \<Rightarrow> (report_error + string) \<times> ('sk, 'pk) chunks" where
  "chunk_send_attempt st t r n c =
     (let i = t_id (pk_task t); body = dict_set (dict_set (result_dict r) ''task_id'' (PStr i)) ''attempt'' (PInt n);
          path = i @ ''-attempt-'' @ int_str n @ ''.json'' in
      case build_result_payload st (re_instance (ch_reporter c)) t body of
        Inl e \<Rightarrow> (Inl (ReportAmp e), c)
      | Inr payload \<Rightarrow> (Inr path, c\<lparr>ch_reporter := write_doc path payload (ch_reporter c), ch_pending := ch_pending c @ [path]\<rparr>))"

subsection \<open>Tasks leave the queue\<close>

lemma read_task_source: "read_task d f = Some p \<Longrightarrow> pk_source p = Some f"
  by (auto simp: read_task_def task_from_packet_def task_from_amp_def task_from_legacy_def Let_def
      split: option.splits sum.splits if_splits pyval.splits)

lemma map_filter_filter: "List.map_filter f (filter P xs) = filter (\<lambda>y. Q y) (List.map_filter f xs)"
  if "\<And>x y. x \<in> set xs \<Longrightarrow> f x = Some y \<Longrightarrow> Q y = P x"
  using that by (induction xs) (auto simp: List.map_filter_simps split: option.splits)

lemma map_filter_cong: "(\<And>x. x \<in> set xs \<Longrightarrow> f x = g x) \<Longrightarrow> List.map_filter f xs = List.map_filter g xs"
  by (induction xs) (auto simp: List.map_filter_simps split: option.splits)

lemma filter_set: "\<not> P k \<Longrightarrow> filter P (map fst (dict_set d k v)) = filter P (map fst d)"
  by (induction d) auto

lemma task_files_done:
  assumes "map_of d f \<noteq> None"
  shows "task_files (rename_file d f (''done-'' @ f)) = filter (\<lambda>g. g \<noteq> f) (task_files d)"
proof -
  let ?P = "\<lambda>g. \<not> prefix ''done-'' g \<and> suffix ''.json'' g"
  have tf: "task_files e = sort (filter ?P (map fst e))" for e :: directory
    by (simp add: task_files_def filter_sort conj_commute)
  obtain v where "map_of d f = Some v" using assms by auto
  moreover have "filter ?P (map fst (dict_set (dict_del d f) (''done-'' @ f) v)) = filter ?P (map fst (dict_del d f))"
    by (rule filter_set) simp
  ultimately have "task_files (rename_file d f (''done-'' @ f)) = sort (filter (\<lambda>g. ?P g \<and> g \<noteq> f) (map fst d))"
    by (simp add: rename_file_def tf filter_delete)
  then show ?thesis by (simp add: tf filter_sort conj_commute conj_left_commute)
qed

text \<open>A task marked done is never fetched again, and marking it leaves every other task in the queue, in the
  same order.\<close>

theorem mark_done_retires:
  assumes "pk_source t = Some f" "map_of d f \<noteq> None"
  shows "fetch_pending_tasks True (mark_done t d) = filter (\<lambda>p. pk_source p \<noteq> Some f) (fetch_pending_tasks True d)"
proof -
  have r: "read_task (rename_file d f (''done-'' @ f)) g = read_task d g" if "g \<in> set (task_files d)" "g \<noteq> f" for g
  proof -
    have "g \<noteq> ''done-'' @ f" using that(1) by (auto simp: task_files_def)
    then show ?thesis using that(2) assms(2) by (auto simp: read_task_def rename_file_def update_conv delete_conv split: option.splits)
  qed
  have "fetch_pending_tasks True (mark_done t d) = List.map_filter (read_task (rename_file d f (''done-'' @ f))) (filter (\<lambda>g. g \<noteq> f) (task_files d))"
    using assms(1) task_files_done[OF assms(2)] by (simp only: fetch_pending_tasks_def mark_done_def option.case if_True)
  also have "\<dots> = List.map_filter (read_task d) (filter (\<lambda>g. g \<noteq> f) (task_files d))"
    by (rule map_filter_cong, rule r) auto
  also have "\<dots> = filter (\<lambda>p. pk_source p \<noteq> Some f) (fetch_pending_tasks True d)"
    unfolding fetch_pending_tasks_def by (simp, rule map_filter_filter) (auto dest: read_task_source)
  finally show ?thesis .
qed

definition demo_tasks :: directory where
  "demo_tasks = [(''b.json'', Some (PDict [(''kind'', PStr ''shell'')])), (''a.json'', Some (PDict demo_packet)), (''c.json'', None)]"

theorem mark_done_retires_witness:
  "map (\<lambda>p. t_id (pk_task p)) (fetch_pending_tasks True demo_tasks) = [''12345678-1234-4234-8234-123456789abc'', ''b''] \<and>
   map (\<lambda>p. t_id (pk_task p)) (fetch_pending_tasks True (mark_done (fetch_pending_tasks True demo_tasks ! 1) demo_tasks))
     = [''12345678-1234-4234-8234-123456789abc'']"
proof -
  have "map_of demo_tasks ''b.json'' \<noteq> None" by code_simp
  moreover have "map (\<lambda>p. (t_id (pk_task p), pk_source p)) (fetch_pending_tasks True demo_tasks)
      = [(''12345678-1234-4234-8234-123456789abc'', Some ''a.json''), (''b'', Some ''b.json'')]" by code_simp
  then obtain x y where "fetch_pending_tasks True demo_tasks = [x, y]" "t_id (pk_task x) = ''12345678-1234-4234-8234-123456789abc''"
    "pk_source x = Some ''a.json''" "t_id (pk_task y) = ''b''" "pk_source y = Some ''b.json''" by auto
  ultimately show ?thesis using mark_done_retires[of _ "''b.json''" demo_tasks] by simp
qed

text \<open>A task marked failed is still a packet of the directory, and is fetched again.\<close>

lemma mark_failed_refetched:
  "map (\<lambda>p. t_id (pk_task p)) (fetch_pending_tasks True (mark_failed (hd (fetch_pending_tasks True demo_tasks)) demo_tasks))
    = [''b'', ''12345678-1234-4234-8234-123456789abc'']"
  by code_simp

text \<open>The poller reads an outbound envelope as a task too: a result without a kind becomes a shell task.\<close>

definition demo_outbound :: dict where
  "demo_outbound = dict_set (dict_set demo_packet ''direction'' (PStr ''outbound'')) ''payload''
     (PDict [(''type'', PStr ''harness_result''), (''body'', PDict [(''task_id'', PStr ''x''), (''ok'', PBool True), (''command'', PStr ''ls'')])])"

lemma outbound_becomes_shell:
  "case task_from_packet (PDict demo_outbound) None of Inr t \<Rightarrow> t_kind (pk_task t) = ''shell'' | Inl _ \<Rightarrow> False"
  by code_simp

subsection \<open>Results go back\<close>

definition good_stamp :: "stamp \<Rightarrow> bool" where
  "good_stamp st = (is_uuid4 (lower (st_id st)) \<and> st_id st \<noteq> [] \<and> is_ts (st_ts st) \<and> st_ts st \<noteq> [])"

definition result_body :: "dict \<Rightarrow> bool" where
  "result_body d = (has_key d ''task_id'' \<and> is_pbool (dget d ''ok''))"

lemma is_pbool_dget: "is_pbool (dget d k) \<Longrightarrow> \<exists>b. map_of d k = Some (PBool b)"
  by (auto simp: dget_def split: option.splits elim: is_pbool.elims)

lemma harness_identity_ok: "canonical_ok HARNESS_IDENTITY"
  by code_simp

lemma build_result_ok:
  assumes "pk_envelope t = Some e" "valid_envelope strict e" "good_stamp st" "result_body body"
  shows "\<exists>e'. build_result_payload st inst t body = Inr (env_dict e') \<and> valid_envelope True e' \<and>
    env_direction e' = ''outbound'' \<and> pl_body (env_payload e') = body \<and> env_channel e' = env_channel e \<and>
    rp_channel (env_reply e') = rp_channel (env_reply e) \<and> rp_address (env_reply e') = rp_address (env_reply e) \<and>
    rp_id (env_reply e') = (if env_id e = [] then None else Some (env_id e))"
proof -
  obtain b where b: "map_of body ''ok'' = Some (PBool b)" using assms(4) is_pbool_dget by (auto simp: result_body_def)
  define e' where "e' = \<lparr>env_v = PInt 1, env_id = st_id st, env_ts = st_ts st, env_direction = ''outbound'',
     env_source = \<lparr>src_brick = HARNESS_BRICK_NAME, src_instance = inst\<rparr>, env_channel = env_channel e,
     env_identity = \<lparr>idn_self = False, idn_canonical = HARNESS_IDENTITY, idn_display = None, idn_provisional = False, idn_raw = None\<rparr>,
     env_payload = \<lparr>pl_type = ''harness_result'', pl_body = body\<rparr>,
     env_reply = \<lparr>rp_channel = rp_channel (env_reply e), rp_address = rp_address (env_reply e),
       rp_id = (if env_id e = [] then None else Some (env_id e))\<rparr>, env_rate = None, env_audit = None\<rparr>"
  have v: "valid_envelope True e'"
    using assms b harness_identity_ok
    by (auto simp: e'_def valid_envelope_def good_stamp_def result_body_def body_ok_def VALID_TYPES_def VALID_DIRECTIONS_def)
  have "build_result_payload st inst t body = map_sum id env_dict (parse_envelope True (PDict (env_dict e')))"
    using assms(1,3) by (auto simp: build_result_payload_def build_envelope_def e'_def env_dict_def source_dict_def identity_dict_def
        payload_dict_def reply_dict_def opt_field_def truthy_field_def text_or_def good_stamp_def VALID_DIRECTIONS_def VALID_TYPES_def)
  also have "parse_envelope True (PDict (env_dict e')) = Inr e'" unfolding parse_envelope_Inr by (rule env_dict_reads[OF v])
  finally show ?thesis using v by (intro exI[of _ e']) (simp add: e'_def)
qed

lemma signed_still_reads:
  "parse_envelope strict (PDict d) = Inr e \<Longrightarrow> parse_envelope strict (PDict (dict_set d SIGNATURE_FIELD v)) = Inr e"
  by (simp add: parse_envelope_Inr reads_as_def update_conv dget_def SIGNATURE_FIELD_def)

lemma signer_sign_cases:
  assumes "sg_file sg \<noteq> Corrupt"
  shows "\<exists>d sg'. signer_sign ed doc ctx sg = (Inr d, sg') \<and> (d = doc \<or> (\<exists>v. d = dict_set doc SIGNATURE_FIELD v))"
  using assms by (cases "sg_file sg"; cases "sg_key sg") (auto simp: signer_sign_def load_key_def sign_document_def)

lemma result_body_dict: "result_body (result_dict r)"
  by (simp add: result_body_def result_dict_def has_key_def dget_def)

text \<open>C33: every result of a task that came in an AMP envelope is written under the task's id as a signed or unsigned
  document that is itself a valid outbound envelope, holds the result unchanged, and is addressed to where the
  task asked for its reply, naming the task; for a legacy packet the bare result is written.\<close>

theorem result_routes_back:
  assumes "sg_file (re_signer rp) \<noteq> Corrupt"
    "pk_envelope t = None \<or> (\<exists>e data strict. pk_envelope t = Some e \<and> parse_envelope strict data = Inr e)" "good_stamp st"
  shows "\<exists>doc rp'. send st t r rp = (Inr (), rp') \<and>
    map_of (re_results rp') (t_id (pk_task t) @ ''.json'') = Some (Some (PDict doc)) \<and>
    (case pk_envelope t of None \<Rightarrow> doc = result_dict r \<or> (\<exists>v. doc = dict_set (result_dict r) SIGNATURE_FIELD v)
     | Some e \<Rightarrow> (\<exists>e'. parse_envelope True (PDict doc) = Inr e' \<and> env_direction e' = ''outbound'' \<and>
         pl_body (env_payload e') = result_dict r \<and> rp_address (env_reply e') = rp_address (env_reply e) \<and>
         rp_channel (env_reply e') = rp_channel (env_reply e) \<and>
         rp_id (env_reply e') = (if env_id e = [] then None else Some (env_id e))))"
proof -
  have w: "\<exists>d rp'. write_signed ctx f doc rp = (Inr (), rp') \<and> map_of (re_results rp') f = Some (Some (PDict d)) \<and>
      (d = doc \<or> (\<exists>v. d = dict_set doc SIGNATURE_FIELD v))" for ctx f doc
    using signer_sign_cases[OF assms(1), of "re_crypto rp" doc ctx] by (auto simp: write_signed_def write_doc_def update_conv)
  show ?thesis
  proof (cases "pk_envelope t")
    case None
    then show ?thesis using w by (fastforce simp: send_def report_body_def build_result_payload_def)
  next
    case (Some e)
    then obtain data strict where p: "parse_envelope strict data = Inr e" using assms(2) by auto
    then obtain d where "data = PDict d" by (cases data) (auto simp: parse_envelope_def)
    then have "valid_envelope strict e" using p by (simp add: parse_envelope_Inr reads_as_def)
    from build_result_ok[OF Some this assms(3) result_body_dict]
    obtain e' where e': "build_result_payload st (re_instance rp) t (result_dict r) = Inr (env_dict e')" "valid_envelope True e'"
      "env_direction e' = ''outbound''" "pl_body (env_payload e') = result_dict r"
      "rp_address (env_reply e') = rp_address (env_reply e)" "rp_channel (env_reply e') = rp_channel (env_reply e)"
      "rp_id (env_reply e') = (if env_id e = [] then None else Some (env_id e))" by blast
    have pe: "parse_envelope True (PDict (env_dict e')) = Inr e'" unfolding parse_envelope_Inr by (rule env_dict_reads[OF e'(2)])
    obtain doc rp' where "write_signed (''result:'' @ t_id (pk_task t)) (t_id (pk_task t) @ ''.json'') (env_dict e') rp = (Inr (), rp')"
      "map_of (re_results rp') (t_id (pk_task t) @ ''.json'') = Some (Some (PDict doc))"
      "doc = env_dict e' \<or> (\<exists>v. doc = dict_set (env_dict e') SIGNATURE_FIELD v)" using w by blast
    moreover from this(3) pe have "parse_envelope True (PDict doc) = Inr e'" using signed_still_reads by blast
    ultimately show ?thesis using e' Some by (simp add: send_def report_body_def)
  qed
qed

definition demo_reporter :: "(unit, unit) reporter" where
  "demo_reporter = \<lparr>re_instance = ''owner'', re_crypto = demo_ed, re_signer = \<lparr>sg_enabled = True, sg_file = KeyFile (), sg_crypto = True,
     sg_key = None, sg_warned = False, sg_audited = []\<rparr>, re_results = []\<rparr>"

definition demo_stamp :: stamp where
  "demo_stamp = \<lparr>st_id = ''aaaaaaaa-bbbb-4ccc-9ddd-eeeeeeeeeeee'', st_ts = ''2026-07-23T08:00:00.123Z''\<rparr>"

theorem result_routes_back_witness:
  "\<exists>t doc rp' e'. task_from_packet (PDict demo_packet) None = Inr t \<and>
     send demo_stamp t (mk_result ''t'' True ''auto'') demo_reporter = (Inr (), rp') \<and>
     map_of (re_results rp') (t_id (pk_task t) @ ''.json'') = Some (Some (PDict doc)) \<and>
     parse_envelope True (PDict doc) = Inr e'"
proof -
  obtain e where e: "parse_envelope True (PDict demo_packet) = Inr e" using demo_packet_ok by (auto split: sum.splits)
  have "case task_from_packet (PDict demo_packet) None of Inr t \<Rightarrow> pk_envelope t \<noteq> None | Inl _ \<Rightarrow> False" by code_simp
  then obtain t where t: "task_from_packet (PDict demo_packet) None = Inr t" "pk_envelope t \<noteq> None" by (auto split: sum.splits)
  have "is_amp_shaped (PDict demo_packet)" by code_simp
  then have "\<exists>e2 strict. pk_envelope t = Some e2 \<and> parse_envelope strict (PDict demo_packet) = Inr e2"
    using t(1) by (auto simp: task_from_packet_def task_from_amp_def Let_def split: pyval.splits sum.splits)
  moreover have "good_stamp demo_stamp" by code_simp
  moreover have "sg_file (re_signer demo_reporter) \<noteq> Corrupt" by (simp add: demo_reporter_def)
  ultimately have "\<exists>doc rp'. send demo_stamp t (mk_result ''t'' True ''auto'') demo_reporter = (Inr (), rp') \<and>
    map_of (re_results rp') (t_id (pk_task t) @ ''.json'') = Some (Some (PDict doc)) \<and>
    (\<exists>e'. parse_envelope True (PDict doc) = Inr e')"
    using result_routes_back[of demo_reporter t demo_stamp "mk_result ''t'' True ''auto''"] by fastforce
  then show ?thesis using t(1) by blast
qed

subsection \<open>Chunks are pushed in order\<close>

text \<open>A chunk that is accepted is on disk with its number and in the queue of files to push; pushed and queued
  files together are all accepted chunks in order; a final chunk leaves nothing queued, and otherwise fewer
  than a batch stays.\<close>

theorem send_chunk_pushes:
  assumes "send_chunk st now t body seq is_final c = (Inr path, c')" "ch_git c"
  shows "path = chunk_path (t_id (pk_task t)) seq \<and> file_exists (re_results (ch_reporter c')) path \<and>
    concat (ch_pushed c') @ ch_pending c' = concat (ch_pushed c) @ ch_pending c @ [path] \<and>
    (is_final \<longrightarrow> ch_pending c' = []) \<and> (ch_pending c' = [] \<or> int (length (ch_pending c')) < ch_batch c)"
proof -
  let ?i = "t_id (pk_task t)"
  let ?b = "dict_set (dict_set (dict_set body ''task_id'' (PStr ?i)) ''seq'' (PInt seq)) ''is_final'' (PBool is_final)"
  obtain payload where p: "build_result_payload st (re_instance (ch_reporter c)) t ?b = Inr payload"
    using assms(1) by (auto simp: send_chunk_def Let_def split: sum.splits)
  obtain rp where w: "write_signed (''chunk:'' @ ?i @ ''#'' @ int_str seq) (chunk_path ?i seq) payload (ch_reporter c) = (Inr (), rp)"
    using assms(1) p by (auto simp: send_chunk_def Let_def split: sum.splits prod.splits)
  have f: "file_exists (re_results rp) (chunk_path ?i seq)"
    using w by (auto simp: write_signed_def write_doc_def split: prod.splits sum.splits)
  define c1 where "c1 = c\<lparr>ch_reporter := rp, ch_pending := ch_pending c @ [chunk_path ?i seq]\<rparr>"
  have c': "path = chunk_path ?i seq" "c' = (if is_final \<or> int (length (ch_pending c1)) \<ge> ch_batch c \<or> now - ch_last_flush c \<ge> ch_interval c
      then flush now c1 else c1)"
    using assms(1) p w by (auto simp: send_chunk_def Let_def c1_def)
  have fl: "ch_pending (flush now c1) = []" "concat (ch_pushed (flush now c1)) = concat (ch_pushed c) @ ch_pending c @ [chunk_path ?i seq]"
    "ch_reporter (flush now c1) = rp"
    using assms(2) by (simp_all add: flush_def Let_def c1_def)
  show ?thesis using f fl c' by (auto simp: c1_def)
qed

theorem send_chunk_pushes_witness:
  "\<exists>path c'. send_chunk demo_stamp 1 \<lparr>pk_task = mk_task ''t'' ''shell_stream'' [], pk_source = None, pk_envelope = None\<rparr>
      [(''ok'', PBool True)] 0 True (new_chunks demo_reporter 3 1000 True 0) = (Inr path, c') \<and>
    ch_pending c' = [] \<and> concat (ch_pushed c') = [''t-chunk-0.json'']"
proof -
  let ?x = "send_chunk demo_stamp 1 \<lparr>pk_task = mk_task ''t'' ''shell_stream'' [], pk_source = None, pk_envelope = None\<rparr>
      [(''ok'', PBool True)] 0 True (new_chunks demo_reporter 3 1000 True 0)"
  have "case fst ?x of Inr p \<Rightarrow> p = ''t-chunk-0.json'' | Inl _ \<Rightarrow> False" by code_simp
  then obtain c' where x: "?x = (Inr ''t-chunk-0.json'', c')" by (cases ?x) (auto split: sum.splits)
  have "ch_git (new_chunks demo_reporter 3 1000 True 0)" by (simp add: new_chunks_def)
  from send_chunk_pushes[OF x this]
  have "concat (ch_pushed c') @ ch_pending c' = concat (ch_pushed (new_chunks demo_reporter 3 1000 True 0)) @
      ch_pending (new_chunks demo_reporter 3 1000 True 0) @ [''t-chunk-0.json'']" "ch_pending c' = []" by blast+
  then have "ch_pending c' = [] \<and> concat (ch_pushed c') = [''t-chunk-0.json'']" by (simp add: new_chunks_def)
  then show ?thesis using x by blast
qed

text \<open>A chunk without a verdict (every chunk but the last) of a task that came in an AMP envelope is not written:
  the envelope of a result requires the field \<open>ok\<close>, so wrapping it raises and the state is unchanged.\<close>

theorem amp_progress_chunk_lost:
  assumes "pk_envelope t \<noteq> None" "\<not> has_key body ''ok''"
  shows "\<exists>e. send_chunk st now t body seq is_final c = (Inl (ReportAmp e), c)"
proof -
  let ?b = "dict_set (dict_set (dict_set body ''task_id'' (PStr (t_id (pk_task t)))) ''seq'' (PInt seq)) ''is_final'' (PBool is_final)"
  obtain env where env: "pk_envelope t = Some env" using assms(1) by auto
  have "\<not> is_pbool (dget ?b ''ok'')" using assms(2) by (simp add: update_conv dget_def has_key_def)
  moreover have "is_pbool (dget body' ''ok'')"
    if b: "build_envelope f n rq = Inr e" "rq_direction rq = ''outbound''" "rq_body rq = body'" for f n rq e body'
  proof -
    obtain d where d: "parse_envelope True (PDict d) = Inr e" "map_of d ''payload'' = Some (PDict [(''type'', PStr (rq_type rq)), (''body'', PDict body')])"
      "map_of d ''direction'' = Some (PStr ''outbound'')"
      using b by (auto simp: build_envelope_def split: if_splits)
    then have "pl_body (env_payload e) = body'" "env_direction e = ''outbound''" "valid_envelope True e"
      by (auto simp: parse_envelope_Inr reads_as_def parse_payload_Inr)
    then show ?thesis by (auto simp: valid_envelope_def body_ok_def VALID_TYPES_def dget_def)
  qed
  ultimately have no: "build_envelope f n rq \<noteq> Inr e" if "rq_direction rq = ''outbound''" "rq_body rq = ?b" for f n rq e
    using that by blast
  have "\<exists>e. build_result_payload st inst t ?b = Inl e" for inst
    unfolding build_result_payload_def env option.case
    by (rule sum.exhaust[of "build_envelope (st_id st) (st_ts st) \<lparr>rq_direction = ''outbound'', rq_brick = HARNESS_BRICK_NAME,
          rq_instance = inst, rq_channel = env_channel env, rq_canonical = HARNESS_IDENTITY, rq_type = ''harness_result'',
          rq_body = ?b, rq_to_channel = rp_channel (env_reply env), rq_to_address = rp_address (env_reply env), rq_self = False,
          rq_display = None, rq_env_id = None, rq_ts = None, rq_reply_to = Some (env_id env), rq_rate = None, rq_audit = None\<rparr>"])
      (use no in auto)
  then obtain e where "build_result_payload st (re_instance (ch_reporter c)) t ?b = Inl e" by blast
  then show ?thesis by (auto simp: send_chunk_def Let_def)
qed

theorem amp_progress_chunk_lost_witness:
  "\<exists>t e. task_from_packet (PDict demo_packet) None = Inr t \<and>
     send_chunk demo_stamp 1 t [(''stream'', PStr ''stdout''), (''text'', PStr ''a'')] 0 False (new_chunks demo_reporter 3 1000 True 0)
       = (Inl (ReportAmp e), new_chunks demo_reporter 3 1000 True 0)"
proof -
  have "case task_from_packet (PDict demo_packet) None of Inr t \<Rightarrow> pk_envelope t \<noteq> None | Inl _ \<Rightarrow> False" by code_simp
  then obtain t where "task_from_packet (PDict demo_packet) None = Inr t" "pk_envelope t \<noteq> None" by (auto split: sum.splits)
  moreover have "\<not> has_key [(''stream'', PStr ''stdout''), (''text'', PStr ''a'')] ''ok''" by (simp add: has_key_def)
  ultimately show ?thesis using amp_progress_chunk_lost by blast
qed

end
