(* ===== verification/Config.thy ===== *)
theory Config
  imports Host
begin

text \<open>
  \<open>agent/config.py\<close>: reading \<open>config.yaml\<close> into the runtime configuration, the overrides of the environment, the token of
  the WebSocket bridge, and the fields \<open>load_config\<close> takes from \<open>policy.yaml\<close>. A file is what \<open>yaml.safe_load\<close> made of
  it, the home directory is expanded by an argument.
\<close>

subsection \<open>Values\<close>

definition config_error :: "string \<Rightarrow> exn" where
  "config_error m = (''ConfigError'', m)"

definition as_bool :: "pyval \<Rightarrow> string \<Rightarrow> exn + bool" where
  "as_bool raw wher = (case raw of PBool b \<Rightarrow> Inr b
     | _ \<Rightarrow> (let x = lower (strip (py_str raw)) in
         if x \<in> {''1'', ''true'', ''yes'', ''on''} then Inr True
         else if x \<in> {''0'', ''false'', ''no'', ''off''} then Inr False
         else Inl (config_error (wher @ '': expected a boolean, got '' @ py_repr raw))))"

definition as_int_min :: "int option \<Rightarrow> pyval \<Rightarrow> string \<Rightarrow> exn + int" where
  "as_int_min minimum raw wher = (case py_int raw of None \<Rightarrow> Inl (config_error (wher @ '': expected an integer, got '' @ py_repr raw))
     | Some n \<Rightarrow> (case minimum of Some k \<Rightarrow>
           if n < k then Inl (config_error (wher @ '': must be >= '' @ int_str k @ '', got '' @ int_str n)) else Inr n
         | None \<Rightarrow> Inr n))"

text \<open>
  Text also spells the numbers that are not finite, and \<open>float\<close> takes them; every comparison with NaN is false.
\<close>

datatype fnum = Num rat | Infinite bool | Nan

definition unsigned :: "string \<Rightarrow> string" where
  "unsigned s = (case s of c # cs \<Rightarrow> if c = CHR ''-'' \<or> c = CHR ''+'' then cs else s | [] \<Rightarrow> [])"

definition text_number :: "string \<Rightarrow> fnum option" where
  "text_number s = (let x = lower (strip s) in
     if unsigned x = ''nan'' then Some Nan
     else if unsigned x \<in> {''inf'', ''infinity''} then Some (Infinite (take 1 x = ''-''))
     else map_option Num (py_float (PStr s)))"

definition number_of :: "pyval \<Rightarrow> fnum option" where
  "number_of v = (case v of PStr s \<Rightarrow> text_number s | _ \<Rightarrow> map_option Num (py_float v))"

fun below :: "fnum \<Rightarrow> rat \<Rightarrow> bool" where
  "below (Num x) k = (x < k)"
| "below (Infinite negative) k = negative"
| "below Nan k = False"

fun number_str :: "fnum \<Rightarrow> string" where
  "number_str (Num x) = float_str x"
| "number_str (Infinite negative) = (if negative then ''-inf'' else ''inf'')"
| "number_str Nan = ''nan''"

definition as_float_min :: "rat option \<Rightarrow> pyval \<Rightarrow> string \<Rightarrow> exn + fnum" where
  "as_float_min minimum raw wher = (case number_of raw of None \<Rightarrow> Inl (config_error (wher @ '': expected a number, got '' @ py_repr raw))
     | Some x \<Rightarrow> (case minimum of Some k \<Rightarrow>
           if below x k then Inl (config_error (wher @ '': must be >= '' @ float_str k @ '', got '' @ number_str x)) else Inr x
         | None \<Rightarrow> Inr x))"

subsection \<open>The runtime configuration\<close>

record ws_config =
  ws_enabled :: bool
  ws_host :: string
  ws_port :: int
  ws_token :: "string option"
  ws_token_path :: string

record runtime =
  rt_poll :: fnum
  rt_concurrent :: int
  rt_flush_ms :: int
  rt_chunk_bytes :: int
  rt_ws :: ws_config
  rt_attempts :: int
  rt_backoff :: "fnum list"
  rt_metrics :: bool
  rt_source :: "string option"

definition default_runtime :: "string \<Rightarrow> string option \<Rightarrow> runtime" where
  "default_runtime token_path source = \<lparr>rt_poll = Num 5, rt_concurrent = 3, rt_flush_ms = 500, rt_chunk_bytes = 16384,
     rt_ws = \<lparr>ws_enabled = False, ws_host = ''127.0.0.1'', ws_port = 8477, ws_token = None, ws_token_path = token_path\<rparr>,
     rt_attempts = 1, rt_backoff = [Num 1, Num 5, Num 15], rt_metrics = True, rt_source = source\<rparr>"

type_synonym setter = "pyval \<Rightarrow> string \<Rightarrow> runtime \<Rightarrow> exn + runtime"

definition set_poll :: setter where
  "set_poll v w c = map_sum id (\<lambda>x. c\<lparr>rt_poll := x\<rparr>) (as_float_min (Some 0) v w)"

definition set_concurrent :: setter where
  "set_concurrent v w c = map_sum id (\<lambda>n. c\<lparr>rt_concurrent := n\<rparr>) (as_int_min (Some 1) v w)"

definition set_flush_ms :: setter where
  "set_flush_ms v w c = map_sum id (\<lambda>n. c\<lparr>rt_flush_ms := n\<rparr>) (as_int_min (Some 1) v w)"

definition set_chunk_bytes :: setter where
  "set_chunk_bytes v w c = map_sum id (\<lambda>n. c\<lparr>rt_chunk_bytes := n\<rparr>) (as_int_min (Some 1) v w)"

definition set_ws_enabled :: setter where
  "set_ws_enabled v w c = map_sum id (\<lambda>b. c\<lparr>rt_ws := (rt_ws c)\<lparr>ws_enabled := b\<rparr>\<rparr>) (as_bool v w)"

definition set_ws_host :: setter where
  "set_ws_host v w c = Inr (c\<lparr>rt_ws := (rt_ws c)\<lparr>ws_host := py_str v\<rparr>\<rparr>)"

definition set_ws_port :: setter where
  "set_ws_port v w c = map_sum id (\<lambda>n. c\<lparr>rt_ws := (rt_ws c)\<lparr>ws_port := n\<rparr>\<rparr>) (as_int_min (Some 1) v w)"

definition set_ws_token :: setter where
  "set_ws_token v w c = Inr (c\<lparr>rt_ws := (rt_ws c)\<lparr>ws_token := Some (py_str v)\<rparr>\<rparr>)"

definition set_attempts :: setter where
  "set_attempts v w c = map_sum id (\<lambda>n. c\<lparr>rt_attempts := n\<rparr>) (as_int_min (Some 1) v w)"

definition set_metrics :: setter where
  "set_metrics v w c = map_sum id (\<lambda>b. c\<lparr>rt_metrics := b\<rparr>) (as_bool v w)"

fun backoff_items :: "pyval list \<Rightarrow> exn + fnum list" where
  "backoff_items [] = Inr []"
| "backoff_items (v # vs) = and_then (as_float_min (Some 0) v ''retry.default_backoff_seconds[]'') (\<lambda>x.
     and_then (backoff_items vs) (\<lambda>xs. Inr (x # xs)))"

definition set_backoff :: setter where
  "set_backoff v w c = (case v of PList vs \<Rightarrow> map_sum id (\<lambda>xs. c\<lparr>rt_backoff := xs\<rparr>) (backoff_items vs)
     | _ \<Rightarrow> Inl (config_error (w @ '': expected a list'')))"

text \<open>\<open>if key in data: ...\<close>, and a section that must be a mapping.\<close>

definition when_key :: "dict \<Rightarrow> string \<Rightarrow> string \<Rightarrow> setter \<Rightarrow> runtime \<Rightarrow> exn + runtime" where
  "when_key d k wher f c = (case map_of d k of None \<Rightarrow> Inr c | Some v \<Rightarrow> f v wher c)"

definition when_truthy :: "dict \<Rightarrow> string \<Rightarrow> string \<Rightarrow> setter \<Rightarrow> runtime \<Rightarrow> exn + runtime" where
  "when_truthy d k wher f c = (if truthy (dget d k) then f (dget d k) wher c else Inr c)"

definition subsection_of :: "dict \<Rightarrow> string \<Rightarrow> exn + dict" where
  "subsection_of d k = (case py_or (dget d k) (PDict []) of PDict s \<Rightarrow> Inr s | _ \<Rightarrow> Inl (config_error (k @ '': expected a mapping'')))"

definition read_runtime :: "(string \<Rightarrow> string) \<Rightarrow> dict \<Rightarrow> runtime \<Rightarrow> exn + runtime" where
  "read_runtime expand d c =
     and_then (when_key d ''poll_interval_seconds'' ''poll_interval_seconds'' set_poll c) (\<lambda>c.
     and_then (when_key d ''max_concurrent_tasks'' ''max_concurrent_tasks'' set_concurrent c) (\<lambda>c.
     and_then (when_key d ''chunk_flush_ms'' ''chunk_flush_ms'' set_flush_ms c) (\<lambda>c.
     and_then (when_key d ''chunk_max_bytes'' ''chunk_max_bytes'' set_chunk_bytes c) (\<lambda>c.
     and_then (subsection_of d ''ws'') (\<lambda>ws.
     and_then (when_key ws ''enabled'' ''ws.enabled'' set_ws_enabled c) (\<lambda>c.
     and_then (when_key ws ''host'' ''ws.host'' set_ws_host c) (\<lambda>c.
     and_then (when_key ws ''port'' ''ws.port'' set_ws_port c) (\<lambda>c.
     and_then (when_truthy ws ''token'' ''ws.token'' set_ws_token c) (\<lambda>c.
     and_then (when_truthy ws ''token_path'' ''ws.token_path''
       (\<lambda>v w c. Inr (c\<lparr>rt_ws := (rt_ws c)\<lparr>ws_token_path := expand (py_str v)\<rparr>\<rparr>)) c) (\<lambda>c.
     and_then (subsection_of d ''retry'') (\<lambda>retry.
     and_then (when_key retry ''default_max_attempts'' ''retry.default_max_attempts'' set_attempts c) (\<lambda>c.
     and_then (when_key retry ''default_backoff_seconds'' ''retry.default_backoff_seconds'' set_backoff c) (\<lambda>c.
     and_then (subsection_of d ''metrics'') (\<lambda>m.
       when_key m ''enabled'' ''metrics.enabled'' set_metrics c))))))))))))))"

definition ENV_OVERRIDES :: "(string \<times> setter) list" where
  "ENV_OVERRIDES = [(''IDDO_POLL_INTERVAL_SECONDS'', set_poll), (''IDDO_MAX_CONCURRENT_TASKS'', set_concurrent),
     (''IDDO_CHUNK_FLUSH_MS'', set_flush_ms), (''IDDO_CHUNK_MAX_BYTES'', set_chunk_bytes), (''IDDO_WS_ENABLED'', set_ws_enabled),
     (''IDDO_WS_HOST'', set_ws_host), (''IDDO_WS_PORT'', set_ws_port), (''IDDO_WS_TOKEN'', set_ws_token),
     (''IDDO_RETRY_MAX_ATTEMPTS'', set_attempts), (''IDDO_METRICS_ENABLED'', set_metrics)]"

fun overrides :: "(string \<times> setter) list \<Rightarrow> (string \<Rightarrow> string option) \<Rightarrow> runtime \<Rightarrow> exn + runtime" where
  "overrides [] env c = Inr c"
| "overrides ((var, f) # vs) env c = (case env var of None \<Rightarrow> overrides vs env c
     | Some x \<Rightarrow> and_then (f (PStr x) var c) (overrides vs env))"

definition apply_env_overrides :: "(string \<Rightarrow> string option) \<Rightarrow> runtime \<Rightarrow> exn + runtime" where
  "apply_env_overrides = overrides ENV_OVERRIDES"

text \<open>The first file that is there; \<open>files\<close> gives what a file holds.\<close>

fun first_file :: "(string \<Rightarrow> pyval option) \<Rightarrow> string list \<Rightarrow> (string \<times> pyval) option" where
  "first_file files [] = None"
| "first_file files (p # ps) = (case files p of None \<Rightarrow> first_file files ps | Some v \<Rightarrow> Some (p, v))"

definition read_data :: "(string \<Rightarrow> string) \<Rightarrow> string \<Rightarrow> (string \<Rightarrow> string option) \<Rightarrow> (string \<times> pyval) option \<Rightarrow> exn + runtime" where
  "read_data expand token_path env found =
     (let datav = (case found of None \<Rightarrow> PDict [] | Some (_, v) \<Rightarrow> py_or v (PDict [])); source = map_option fst found in
      case datav of PDict d \<Rightarrow> and_then (read_runtime expand d (default_runtime token_path source)) (apply_env_overrides env)
      | _ \<Rightarrow> Inl (config_error ((case source of None \<Rightarrow> ''None'' | Some p \<Rightarrow> p) @ '': top level must be a mapping'')))"

definition load_runtime_config :: "(string \<Rightarrow> string) \<Rightarrow> string \<Rightarrow> string list \<Rightarrow> (string \<Rightarrow> pyval option) \<Rightarrow> string option \<Rightarrow>
    (string \<Rightarrow> string option) \<Rightarrow> exn + runtime" where
  "load_runtime_config expand token_path paths files path env =
     (case path of
        Some p \<Rightarrow> (if files p = None then Inl (''FileNotFoundError'', ''runtime config not found: '' @ p)
                   else read_data expand token_path env (first_file files [p]))
      | None \<Rightarrow> read_data expand token_path env (first_file files paths))"

subsection \<open>The token of the bridge\<close>

text \<open>The token, the configuration and the file afterwards; \<open>fresh\<close> is what \<open>token_urlsafe\<close> gives.\<close>

definition ensure_ws_token :: "string \<Rightarrow> string option \<Rightarrow> runtime \<Rightarrow> string \<times> runtime \<times> string option" where
  "ensure_ws_token fresh file c =
     (let keep = (\<lambda>token. c\<lparr>rt_ws := (rt_ws c)\<lparr>ws_token := Some token\<rparr>\<rparr>);
          mint = (fresh, keep fresh, Some (fresh @ [newline])) in
      case ws_token (rt_ws c) of
        Some t \<Rightarrow> if t \<noteq> [] then (t, c, file) else (case file of Some x \<Rightarrow> if strip x \<noteq> [] then (strip x, keep (strip x), file) else mint | None \<Rightarrow> mint)
      | None \<Rightarrow> (case file of Some x \<Rightarrow> if strip x \<noteq> [] then (strip x, keep (strip x), file) else mint | None \<Rightarrow> mint))"

subsection \<open>The policy file\<close>

text \<open>\<open>load_config\<close>: the fields and their defaults.\<close>

definition polling_default :: dict where
  "polling_default = [(''interval_seconds'', PInt 5), (''max_concurrent_tasks'', PInt 3), (''task_timeout_seconds'', PInt 600)]"

definition config_fields :: "string \<Rightarrow> dict \<Rightarrow> dict" where
  "config_fields owner d =
     [(''version'', dget_or d ''version'' (PInt 1)), (''owner'', dget_or d ''owner'' (PStr owner))] @
     map (\<lambda>k. (k, dget_or d k (PDict []))) [''auto_allow'', ''require_confirm'', ''block''] @
     [(''polling'', dget_or d ''polling'' (PDict polling_default))] @
     map (\<lambda>k. (k, dget_or d k (PDict []))) [''paths'', ''transport''] @
     [(''confirm'', dget_or d ''confirm'' (PDict [(''timeout_minutes'', PInt 30)]))] @
     map (\<lambda>k. (k, py_or (dget d k) (PDict []))) [''security'', ''sandbox'', ''health'', ''approval'']"

text \<open>A list of paths as an f-string shows it.\<close>

definition path_list :: "string list \<Rightarrow> string" where
  "path_list ps = ''['' @ join '', '' (map (\<lambda>p. ''PosixPath('' @ py_repr (PStr p) @ '')'') ps) @ '']''"

definition load_config :: "string \<Rightarrow> string list \<Rightarrow> (string \<Rightarrow> pyval option) \<Rightarrow> string option \<Rightarrow> exn + dict" where
  "load_config owner defaults files path =
     (let places = (case path of Some p \<Rightarrow> if p = [] then defaults else [p] | None \<Rightarrow> defaults) in
      case first_file files places of
        None \<Rightarrow> Inl (''FileNotFoundError'', ''No policy.yaml found in '' @ path_list places)
      | Some (_, PDict d) \<Rightarrow> Inr (config_fields owner d)
      | Some (_, v) \<Rightarrow> Inl (''AttributeError'', quoted (type_name v) @ '' object has no attribute '' @ quoted ''get''))"

subsection \<open>What a loaded configuration guarantees\<close>

text \<open>The bounds every field is checked against; a number that is not one passes them.\<close>

definition sane :: "runtime \<Rightarrow> bool" where
  "sane c = (\<not> below (rt_poll c) 0 \<and> 1 \<le> rt_concurrent c \<and> 1 \<le> rt_flush_ms c \<and> 1 \<le> rt_chunk_bytes c \<and>
     1 \<le> ws_port (rt_ws c) \<and> 1 \<le> rt_attempts c \<and> list_all (\<lambda>x. \<not> below x 0) (rt_backoff c))"

definition keeps_sane :: "setter \<Rightarrow> bool" where
  "keeps_sane f = (\<forall>v w c c'. sane c \<longrightarrow> f v w c = Inr c' \<longrightarrow> sane c')"

lemma keeps_saneD: "keeps_sane f \<Longrightarrow> f v w c = Inr c' \<Longrightarrow> sane c \<Longrightarrow> sane c'"
  by (auto simp: keeps_sane_def)

lemma int_min_Inr: "as_int_min (Some k) v w = Inr n \<Longrightarrow> k \<le> n"
  by (auto simp: as_int_min_def split: option.splits if_splits)

lemma float_min_Inr: "as_float_min (Some k) v w = Inr x \<Longrightarrow> \<not> below x k"
  by (auto simp: as_float_min_def split: option.splits if_splits)

lemma config_map_Inr: "map_sum id f r = Inr c \<longleftrightarrow> (\<exists>a. r = Inr a \<and> c = f a)"
  by (cases r) auto

lemma config_then_Inr: "and_then x f = Inr b \<longleftrightarrow> (\<exists>a. x = Inr a \<and> f a = Inr b)"
  by (cases x) auto

lemma backoff_items_Inr: "backoff_items vs = Inr xs \<Longrightarrow> list_all (\<lambda>x. \<not> below x 0) xs"
  by (induction vs arbitrary: xs) (auto simp: config_then_Inr dest: float_min_Inr)

lemma set_poll_sane: "keeps_sane set_poll"
  by (auto simp: keeps_sane_def sane_def set_poll_def config_map_Inr dest: float_min_Inr)

lemma set_counts_sane:
  "keeps_sane set_concurrent" "keeps_sane set_flush_ms" "keeps_sane set_chunk_bytes" "keeps_sane set_ws_port" "keeps_sane set_attempts"
  by (auto simp: keeps_sane_def sane_def set_concurrent_def set_flush_ms_def set_chunk_bytes_def set_ws_port_def set_attempts_def config_map_Inr
      dest: int_min_Inr)

lemma set_others_sane:
  "keeps_sane set_ws_enabled" "keeps_sane set_ws_host" "keeps_sane set_ws_token" "keeps_sane set_metrics"
  by (auto simp: keeps_sane_def sane_def set_ws_enabled_def set_ws_host_def set_ws_token_def set_metrics_def config_map_Inr)

lemma set_backoff_sane: "keeps_sane set_backoff"
  by (auto simp: keeps_sane_def sane_def set_backoff_def config_map_Inr dest: backoff_items_Inr split: pyval.splits)

lemma token_path_sane: "keeps_sane (\<lambda>v w c. Inr (c\<lparr>rt_ws := (rt_ws c)\<lparr>ws_token_path := expand (py_str v)\<rparr>\<rparr>))"
  by (auto simp: keeps_sane_def sane_def)

lemmas setters_sane = set_poll_sane set_counts_sane set_others_sane set_backoff_sane token_path_sane

lemma when_key_sane: "when_key d k w f c = Inr c' \<Longrightarrow> keeps_sane f \<Longrightarrow> sane c \<Longrightarrow> sane c'"
  by (auto simp: when_key_def dest: keeps_saneD split: option.splits)

lemma when_truthy_sane: "when_truthy d k w f c = Inr c' \<Longrightarrow> keeps_sane f \<Longrightarrow> sane c \<Longrightarrow> sane c'"
  by (auto simp: when_truthy_def dest: keeps_saneD split: if_splits)

lemma read_runtime_sane: "read_runtime expand d c = Inr c' \<Longrightarrow> sane c \<Longrightarrow> sane c'"
  unfolding read_runtime_def config_then_Inr
  by (elim exE conjE) ((erule when_key_sane when_truthy_sane, rule setters_sane)+)

lemma overrides_sane: "overrides vs env c = Inr c' \<Longrightarrow> list_all (\<lambda>(v, f). keeps_sane f) vs \<Longrightarrow> sane c \<Longrightarrow> sane c'"
proof (induction vs env c rule: overrides.induct)
  case (2 var f vs env c)
  then show ?case by (auto simp: config_then_Inr dest: keeps_saneD split: option.splits)
qed simp

lemma env_overrides_sane: "apply_env_overrides env c = Inr c' \<Longrightarrow> sane c \<Longrightarrow> sane c'"
  unfolding apply_env_overrides_def
  by (erule overrides_sane) (simp_all add: ENV_OVERRIDES_def setters_sane)

lemma default_sane: "sane (default_runtime t s)"
  by (simp add: sane_def default_runtime_def)

lemma read_data_sane: "read_data expand t env found = Inr c \<Longrightarrow> sane c"
  unfolding read_data_def Let_def
  by (auto simp: config_then_Inr split: pyval.splits dest!: env_overrides_sane read_runtime_sane default_sane[THEN[2] read_runtime_sane])

subsection \<open>The environment wins\<close>

text \<open>What a variable does to a field depends on the variable alone, so a variable that is set decides its field.\<close>

lemma read_keys:
  "when_key [] k w f c = Inr c" "when_truthy [] k w f c = Inr c" "subsection_of [] k = Inr []"
  by (simp_all add: when_key_def when_truthy_def subsection_of_def dget_def py_or_def)

lemma empty_file_is_default: "read_runtime expand [] c = Inr c"
  by (simp add: read_runtime_def read_keys)

lemma no_overrides: "(\<forall>v \<in> set (map fst vs). env v = None) \<Longrightarrow> overrides vs env c = Inr c"
  by (induction vs env c rule: overrides.induct) auto

lemma no_file_no_env:
  assumes "list_all (\<lambda>p. files p = None) paths" "\<And>v. env v = None"
  shows "load_runtime_config expand t paths files None env = Inr (default_runtime t None)"
proof -
  have "first_file files paths = None"
    using assms(1) by (induction paths) auto
  thus ?thesis
    by (simp add: load_runtime_config_def read_data_def apply_env_overrides_def empty_file_is_default no_overrides assms(2))
qed

text \<open>Findings: NaN is a poll interval, zero too, and a port has no upper bound.\<close>

lemma nan_poll_accepted: "as_float_min (Some 0) (PStr ''nan'') ''IDDO_POLL_INTERVAL_SECONDS'' = Inr Nan"
  by code_simp

lemma zero_poll_accepted: "as_float_min (Some 0) (PInt 0) ''poll_interval_seconds'' = Inr (Num 0)"
  by code_simp

lemma large_port_accepted: "as_int_min (Some 1) (PInt 70000) ''ws.port'' = Inr 70000"
  by code_simp

text \<open>C39: Whatever the configuration file and the environment hold, a runtime configuration that loads is within its bounds:
  no negative poll interval, at least one worker, one byte and one millisecond per chunk, a positive port, at least one
  attempt and no negative backoff.\<close>

theorem loaded_runtime_sane: "load_runtime_config expand t paths files path env = Inr c \<Longrightarrow> sane c"
  by (auto simp: load_runtime_config_def split: option.splits if_splits dest: read_data_sane)

definition demo_files :: "string \<Rightarrow> pyval option" where
  "demo_files p = (if p = ''config.yaml'' then Some (PDict [(''max_concurrent_tasks'', PInt 8), (''retry'', PDict [(''default_backoff_seconds'', PList [PInt 2])])]) else None)"

definition demo_env :: "string \<Rightarrow> string option" where
  "demo_env v = (if v = ''IDDO_MAX_CONCURRENT_TASKS'' then Some ''2'' else None)"

definition demo_runtime :: runtime where
  "demo_runtime = (default_runtime ''t'' (Some ''config.yaml''))\<lparr>rt_concurrent := 2, rt_backoff := [Num 2]\<rparr>"

lemma demo_loads: "load_runtime_config id ''t'' [''home.yaml'', ''config.yaml''] demo_files None demo_env = Inr demo_runtime"
  by code_simp

theorem loaded_runtime_sane_witness: "sane demo_runtime"
  by (rule loaded_runtime_sane[OF demo_loads])

text \<open>The token: what is returned is what the configuration then holds, an explicit token is never written, and the file
  changes only when neither gives one.\<close>

text \<open>The bridge's token is never empty: it is the configured one, else the file's, else a fresh one that is then in the
  file; asking again with what this left gives the same token and writes nothing.\<close>

theorem ws_token_stable:
  assumes "ensure_ws_token fresh file c = (token, c', file')" "fresh \<noteq> []"
  shows "token \<noteq> [] \<and> ws_token (rt_ws c') = Some token \<and> ensure_ws_token other file' c' = (token, c', file') \<and>
    (file' \<noteq> file \<longrightarrow> file' = Some (fresh @ [newline]) \<and> token = fresh \<and> (ws_token (rt_ws c) = None \<or> ws_token (rt_ws c) = Some []))"
  using assms by (auto simp: ensure_ws_token_def Let_def split: option.splits if_splits)

theorem ws_token_stable_witness:
  "snd (snd (ensure_ws_token ''abc'' None demo_runtime)) = Some (''abc'' @ [newline])"
proof -
  obtain t c f where e: "ensure_ws_token ''abc'' None demo_runtime = (t, c, f)" by (metis surj_pair)
  have "f \<noteq> None" using e by (auto simp: ensure_ws_token_def demo_runtime_def default_runtime_def)
  thus ?thesis using ws_token_stable[OF e] by (simp add: e)
qed
end
