(* ===== verification/Wsbridge.thy ===== *)
theory Wsbridge
  imports Bridge Metrics Config
begin

text \<open>
  \<open>agent/ws_bridge.py\<close>, the transport over a WebSocket, and \<open>_start_ws_bridge\<close> of \<open>agent/main.py\<close>: who may connect, what
  a message becomes, where the chunks of a task go, and how the bridge is brought up. The socket library, the executor
  and the reporter are fields of the environment; a connection is known by a name. The executor's answer is the list of
  what its generations did with their chunk sinks while it ran, and a result or an exception.
\<close>

subsection \<open>Credentials\<close>

type_synonym headers = "string \<Rightarrow> string option"

definition bearer_text :: "string \<Rightarrow> string" where
  "bearer_text presented = (let text = strip presented in
     if starts_with ''bearer '' (lower text) then strip (drop 7 text) else text)"

text \<open>\<open>secrets.compare_digest\<close> takes text of ASCII characters only.\<close>

definition compare_digest :: "string \<Rightarrow> string \<Rightarrow> exn + bool" where
  "compare_digest a b = (if list_all (\<lambda>c. code c < 128) a \<and> list_all (\<lambda>c. code c < 128) b then Inr (a = b)
     else Inl (''TypeError'', ''comparing strings with non-ASCII characters is not supported''))"

definition token_matches :: "string option \<Rightarrow> string \<Rightarrow> exn + bool" where
  "token_matches presented expected = (case presented of None \<Rightarrow> Inr False
     | Some p \<Rightarrow> if p = [] \<or> expected = [] then Inr False else compare_digest (bearer_text p) expected)"

text \<open>\<open>getter(name)\<close> when it gives a non-empty text.\<close>

definition given :: "headers \<Rightarrow> string \<Rightarrow> string option" where
  "given h name = (case h name of Some v \<Rightarrow> if v = [] then None else Some v | None \<Rightarrow> None)"

fun first_given :: "headers \<Rightarrow> string list \<Rightarrow> string option" where
  "first_given h [] = None"
| "first_given h (n # ns) = (case given h n of Some v \<Rightarrow> Some v | None \<Rightarrow> first_given h ns)"

definition bearer_part :: "string \<Rightarrow> string option" where
  "bearer_part protocols = (case find (starts_with ''bearer.'') (map strip (split_on (CHR '','') protocols)) of
     None \<Rightarrow> None | Some p \<Rightarrow> Some (drop 7 p))"

definition extract_token :: "headers option \<Rightarrow> string option" where
  "extract_token hs = (case hs of None \<Rightarrow> None | Some h \<Rightarrow>
     (case first_given h [''Authorization'', ''authorization'', ''X-Auth-Token'', ''x-auth-token''] of
        Some v \<Rightarrow> Some v
      | None \<Rightarrow> (case first_given h [''Sec-WebSocket-Protocol'', ''sec-websocket-protocol''] of
          Some protocols \<Rightarrow> bearer_part protocols | None \<Rightarrow> None)))"

subsection \<open>Connections\<close>

record ws_request =
  wq_headers :: "headers option"
  wq_path :: "string option"

record connection =
  cn_name :: string
  cn_request :: "ws_request option"
  cn_headers :: "headers option"
  cn_path :: "string option"

definition connection_path :: "connection \<Rightarrow> string" where
  "connection_path c =
     (let legacy = (case cn_path c of Some p \<Rightarrow> p | None \<Rightarrow> []) in
      case cn_request c of None \<Rightarrow> legacy | Some q \<Rightarrow> (case wq_path q of Some (x # xs) \<Rightarrow> x # xs | _ \<Rightarrow> legacy))"

definition credentials :: "connection \<Rightarrow> headers option" where
  "credentials c = (case Option.bind (cn_request c) wq_headers of Some h \<Rightarrow> Some h | None \<Rightarrow> cn_headers c)"

definition TASK_PATH :: string where "TASK_PATH = ''/tasks''"

definition known_path :: "string \<Rightarrow> bool" where
  "known_path path = (rstrip_char (CHR ''/'') (hd (split_on (CHR ''?'') path)) \<in> {TASK_PATH, []})"

subsection \<open>The executor's sinks\<close>

text \<open>A sink of \<open>build_execute\<close> is known by the connection and the task it was made for. The executor hands its own
  sink to a generation when it builds it, so \<open>None\<close> is a generation not built yet.\<close>

type_synonym sink = "string \<times> packet"

datatype happening =
    Built3
  | Chunk2 packet dict int bool
  | Chunk3 packet dict int bool

record 's wire =
  wi_sink :: "sink option"
  wi_v2 :: "sink option option"
  wi_v3 :: "sink option option"
  wi_frames :: "(string \<times> dict) list"
  wi_closed :: "(string \<times> nat) list"
  wi_metrics :: "metrics option"
  wi_ext :: 's

record 's ws_env =
  we_token :: string
  we_run :: "packet \<Rightarrow> 's \<Rightarrow> happening list \<times> (exn + result) \<times> 's"
  we_report :: "(packet \<Rightarrow> dict \<Rightarrow> int \<Rightarrow> bool \<Rightarrow> 's \<Rightarrow> (exn + unit) \<times> 's) option"
  we_json_msg :: "string \<Rightarrow> string"
  we_packet_msg :: "packet_error \<Rightarrow> string"
  we_hex :: "'s \<Rightarrow> string"
  we_now :: rat

definition push_frame :: "string \<Rightarrow> dict \<Rightarrow> 's wire \<Rightarrow> 's wire" where
  "push_frame conn d w = w\<lparr>wi_frames := wi_frames w @ [(conn, d)]\<rparr>"

text \<open>\<open>emit\<close> of \<open>_run_one\<close>: the object that is dumped into a frame.\<close>

definition frame :: "packet \<Rightarrow> dict \<Rightarrow> int \<Rightarrow> bool \<Rightarrow> dict" where
  "frame t body seq fin =
     dict_set (dict_set (dict_set body ''task_id'' (PStr (t_id (pk_task t)))) ''seq'' (PInt seq)) ''is_final'' (PBool fin)"

definition report_chunk :: "'s ws_env \<Rightarrow> packet \<Rightarrow> dict \<Rightarrow> int \<Rightarrow> bool \<Rightarrow> 's wire \<Rightarrow> (exn + unit) \<times> 's wire" where
  "report_chunk E t body seq fin w = (case we_report E of None \<Rightarrow> (Inr (), w)
     | Some f \<Rightarrow> (case f t body seq fin (wi_ext w) of (r, s) \<Rightarrow> (r, w\<lparr>wi_ext := s\<rparr>)))"

text \<open>A chunk through a sink: the frame carries the id of the sink's task, the report that of the chunk's. The executor
  logs an exception of its sink and goes on.\<close>

definition through :: "'s ws_env \<Rightarrow> sink option \<Rightarrow> packet \<Rightarrow> dict \<Rightarrow> int \<Rightarrow> bool \<Rightarrow> 's wire \<Rightarrow> 's wire" where
  "through E snk t body seq fin w = (case snk of None \<Rightarrow> w
     | Some (conn, owner) \<Rightarrow> snd (report_chunk E t body seq fin (push_frame conn (frame owner body seq fin) w)))"

definition sink2 :: "'s wire \<Rightarrow> sink option" where
  "sink2 w = (case wi_v2 w of Some s \<Rightarrow> s | None \<Rightarrow> wi_sink w)"

definition sink3 :: "'s wire \<Rightarrow> sink option" where
  "sink3 w = (case wi_v3 w of Some s \<Rightarrow> s | None \<Rightarrow> wi_sink w)"

fun happen :: "'s ws_env \<Rightarrow> happening \<Rightarrow> 's wire \<Rightarrow> 's wire" where
  "happen E Built3 w = w\<lparr>wi_v3 := Some (sink3 w)\<rparr>"
| "happen E (Chunk2 t body seq fin) w = through E (sink2 w) t body seq fin (w\<lparr>wi_v2 := Some (sink2 w)\<rparr>)"
| "happen E (Chunk3 t body seq fin) w = through E (sink3 w) t body seq fin (w\<lparr>wi_v3 := Some (sink3 w)\<rparr>)"

subsection \<open>Running a task\<close>

text \<open>\<open>build_execute\<close>: the sinks before and after, and the final frame of a task that streamed nothing.\<close>

definition begin_exec :: "sink \<Rightarrow> 's wire \<Rightarrow> sink option \<times> 's wire" where
  "begin_exec snk w = (wi_sink w, w\<lparr>wi_sink := Some snk, wi_v2 := Some (Some snk)\<rparr>)"

definition restore_sinks :: "sink option \<Rightarrow> 's wire \<Rightarrow> 's wire" where
  "restore_sinks previous w = w\<lparr>wi_sink := previous, wi_v2 := Some previous\<rparr>"

definition finish_exec :: "'s ws_env \<Rightarrow> sink \<Rightarrow> result \<Rightarrow> 's wire \<Rightarrow> (exn + result) \<times> 's wire" where
  "finish_exec E snk r w =
     (if truthy (dget (r_metadata r) ''final_chunk'') then (Inr r, w)
      else (case report_chunk E (snd snk) (result_dict r) 0 True (push_frame (fst snk) (frame (snd snk) (result_dict r) 0 True) w) of
         (Inl e, w1) \<Rightarrow> (Inl e, w1)
       | (Inr _, w1) \<Rightarrow> (Inr r, w1)))"

definition execute :: "'s ws_env \<Rightarrow> string \<Rightarrow> packet \<Rightarrow> 's wire \<Rightarrow> (exn + result) \<times> 's wire" where
  "execute E conn t w =
     (case begin_exec (conn, t) w of (previous, w1) \<Rightarrow>
        (case we_run E t (wi_ext w1) of (hs, out, s) \<Rightarrow>
           (let w2 = restore_sinks previous (fold (happen E) hs (w1\<lparr>wi_ext := s\<rparr>)) in
            case out of Inl e \<Rightarrow> (Inl e, w2) | Inr r \<Rightarrow> finish_exec E (conn, t) r w2)))"

subsection \<open>Messages\<close>

definition task_from_json :: "string \<Rightarrow> dict \<Rightarrow> (string + packet_error) + packet" where
  "task_from_json fresh doc =
     (let parse = (\<lambda>d. map_sum Inr id (task_from_packet (PDict d) None)) in
      if is_amp_shaped (PDict doc) then parse doc
      else if \<not> truthy (dget doc ''kind'') then Inl (Inl (''task packet needs a '' @ quoted ''kind''))
      else if \<not> truthy (dget doc ''id'') then parse (dict_set doc ''id'' (PStr (''ws-'' @ fresh)))
      else parse doc)"

definition read_message :: "'s ws_env \<Rightarrow> string \<Rightarrow> 's \<Rightarrow> string + packet" where
  "read_message E message s = (case json_loads message of
       None \<Rightarrow> Inl (we_json_msg E message)
     | Some (PDict doc) \<Rightarrow> map_sum (case_sum id (we_packet_msg E)) id (task_from_json (we_hex E s) doc)
     | Some _ \<Rightarrow> Inl ''task packet must be a JSON object'')"

definition count :: "(metrics \<Rightarrow> metrics) \<Rightarrow> 's wire \<Rightarrow> 's wire" where
  "count f w = w\<lparr>wi_metrics := map_option f (wi_metrics w)\<rparr>"

definition run_one :: "'s ws_env \<Rightarrow> connection \<Rightarrow> string \<Rightarrow> 's wire \<Rightarrow> (exn + unit) \<times> 's wire" where
  "run_one E c message w = (case read_message E message (wi_ext w) of
       Inl e \<Rightarrow> (Inr (), push_frame (cn_name c) [(''ok'', PBool False), (''error'', PStr (''bad packet: '' @ e))] w)
     | Inr t \<Rightarrow> (case execute E (cn_name c) t (count (task_observed (we_now E) (t_id (pk_task t))) w) of
         (Inl e, w1) \<Rightarrow> (Inl e, w1) | (Inr _, w1) \<Rightarrow> (Inr (), w1)))"

fun run_all :: "'s ws_env \<Rightarrow> connection \<Rightarrow> string list \<Rightarrow> 's wire \<Rightarrow> (exn + unit) \<times> 's wire" where
  "run_all E c [] w = (Inr (), w)"
| "run_all E c (m # ms) w = (case run_one E c m w of (Inl e, w1) \<Rightarrow> (Inl e, w1) | (Inr _, w1) \<Rightarrow> run_all E c ms w1)"

definition close_with :: "nat \<Rightarrow> connection \<Rightarrow> 's wire \<Rightarrow> 's wire" where
  "close_with status c w = w\<lparr>wi_closed := wi_closed w @ [(cn_name c, status)]\<rparr>"

definition CLOSE_UNAUTHORIZED :: nat where "CLOSE_UNAUTHORIZED = 4401"
definition CLOSE_BAD_REQUEST :: nat where "CLOSE_BAD_REQUEST = 4400"

definition authorised :: "'s ws_env \<Rightarrow> connection \<Rightarrow> exn + bool" where
  "authorised E c = token_matches (extract_token (credentials c)) (we_token E)"

definition handle :: "'s ws_env \<Rightarrow> connection \<Rightarrow> string list \<Rightarrow> 's wire \<Rightarrow> (exn + unit) \<times> 's wire" where
  "handle E c messages w = (case authorised E c of
       Inl e \<Rightarrow> (Inl e, w)
     | Inr False \<Rightarrow> (Inr (), count (incr ''ws_rejected'' 1) (close_with CLOSE_UNAUTHORIZED c w))
     | Inr True \<Rightarrow>
         if connection_path c \<noteq> [] \<and> \<not> known_path (connection_path c) then (Inr (), close_with CLOSE_BAD_REQUEST c w)
         else run_all E c messages (count (incr ''ws_connections'' 1) w))"

text \<open>The status and text of a handshake that is refused.\<close>

definition process_request :: "'s ws_env \<Rightarrow> ws_request \<Rightarrow> 's wire \<Rightarrow> (exn + (nat \<times> string) option) \<times> 's wire" where
  "process_request E q w = (case token_matches (extract_token (wq_headers q)) (we_token E) of
       Inl e \<Rightarrow> (Inl e, w)
     | Inr False \<Rightarrow> (Inr (Some (401, ''unauthorized'' @ [newline])), count (incr ''ws_rejected'' 1) w)
     | Inr True \<Rightarrow> (let path = (case wq_path q of Some p \<Rightarrow> p | None \<Rightarrow> []) in
         (Inr (if known_path path then None else Some (404, ''unknown path: '' @ path @ [newline])), w)))"

subsection \<open>Starting the bridge\<close>

record ws_bridge =
  wb_token :: string
  wb_host :: string
  wb_port :: int

definition new_bridge :: "string \<Rightarrow> string \<Rightarrow> int \<Rightarrow> exn + ws_bridge" where
  "new_bridge token host port = (if token = [] then Inl (''ValueError'', ''ws bridge refuses to start without a token'')
     else Inr \<lparr>wb_token = token, wb_host = host, wb_port = port\<rparr>)"

text \<open>\<open>_start_ws_bridge\<close>: whether listening succeeds (\<open>listens\<close>) is the socket library's.\<close>

definition start_ws_bridge :: "(ws_bridge \<Rightarrow> bool) \<Rightarrow> string \<Rightarrow> string option \<Rightarrow> runtime \<Rightarrow> ws_bridge option \<times> runtime \<times> string option" where
  "start_ws_bridge listens fresh file c = (if \<not> ws_enabled (rt_ws c) then (None, c, file)
     else (case ensure_ws_token fresh file c of (token, c1, file1) \<Rightarrow>
       (case new_bridge token (ws_host (rt_ws c1)) (ws_port (rt_ws c1)) of
          Inl _ \<Rightarrow> (None, c1, file1)
        | Inr b \<Rightarrow> (if listens b then Some b else None, c1, file1))))"

subsection \<open>What the transport guarantees\<close>

lemma digest_true: "compare_digest a b = Inr True \<Longrightarrow> a = b"
  by (auto simp: compare_digest_def split: if_splits)

lemma token_true:
  "token_matches presented expected = Inr True \<Longrightarrow> expected \<noteq> [] \<and> (\<exists>p. presented = Some p \<and> bearer_text p = expected)"
  by (auto simp: token_matches_def dest: digest_true split: option.splits if_splits)

lemma count_sel [simp]: "wi_frames (count f w) = wi_frames w" "wi_ext (count f w) = wi_ext w" "wi_sink (count f w) = wi_sink w"
  "wi_v2 (count f w) = wi_v2 w" "wi_v3 (count f w) = wi_v3 w" "wi_closed (count f w) = wi_closed w"
  by (simp_all add: count_def)

lemma close_sel [simp]: "wi_frames (close_with n c w) = wi_frames w" "wi_ext (close_with n c w) = wi_ext w"
  by (simp_all add: close_with_def)

text \<open>C20: Over the WebSocket nothing is sent and nothing runs unless the connection presented the bridge's token, which is not
  empty: as an authorisation header, with or without the word bearer, or as a subprotocol.\<close>

theorem ws_needs_token:
  assumes "handle E c ms w = (res, w')" "wi_frames w' \<noteq> wi_frames w \<or> wi_ext w' \<noteq> wi_ext w"
  shows "we_token E \<noteq> [] \<and> (\<exists>p. extract_token (credentials c) = Some p \<and> bearer_text p = we_token E)"
proof -
  have "authorised E c = Inr True"
    using assms by (auto simp: handle_def split: sum.splits bool.splits)
  thus ?thesis unfolding authorised_def by (rule token_true)
qed

lemma report_sel [simp]:
  "wi_frames (snd (report_chunk E t body seq fin w)) = wi_frames w" "wi_sink (snd (report_chunk E t body seq fin w)) = wi_sink w"
  "wi_v2 (snd (report_chunk E t body seq fin w)) = wi_v2 w"
  by (simp_all add: report_chunk_def split: option.splits prod.splits)

lemma push_sel [simp]: "wi_frames (push_frame conn d w) = wi_frames w @ [(conn, d)]" "wi_sink (push_frame conn d w) = wi_sink w"
  "wi_v2 (push_frame conn d w) = wi_v2 w"
  by (simp_all add: push_frame_def)

text \<open>What the second generation sends for a task itself.\<close>

fun own :: "packet \<Rightarrow> happening \<Rightarrow> bool" where
  "own t (Chunk2 t' body seq fin) = (t' = t)"
| "own t _ = False"

fun fin_of :: "happening \<Rightarrow> bool" where
  "fin_of (Chunk2 t body seq fin) = fin"
| "fin_of (Chunk3 t body seq fin) = fin"
| "fin_of Built3 = False"

fun frame_of :: "happening \<Rightarrow> dict" where
  "frame_of (Chunk2 t body seq fin) = frame t body seq fin"
| "frame_of (Chunk3 t body seq fin) = frame t body seq fin"
| "frame_of Built3 = []"

text \<open>A stream is closed by its last chunk, exactly when the result says so.\<close>

definition closed_once :: "happening list \<Rightarrow> result \<Rightarrow> bool" where
  "closed_once hs r = (if truthy (dget (r_metadata r) ''final_chunk'')
     then hs \<noteq> [] \<and> fin_of (last hs) \<and> list_all (\<lambda>h. \<not> fin_of h) (butlast hs) else list_all (\<lambda>h. \<not> fin_of h) hs)"

definition closing :: "string \<times> dict \<Rightarrow> bool" where
  "closing f = (dget (snd f) ''is_final'' = PBool True \<or> \<not> has_key (snd f) ''is_final'')"

definition answered :: "string \<Rightarrow> (string \<times> dict) list \<Rightarrow> bool" where
  "answered conn fs = (fs \<noteq> [] \<and> list_all (\<lambda>f. fst f = conn) fs \<and> closing (last fs) \<and> list_all (\<lambda>f. \<not> closing f) (butlast fs))"

lemma happen_own:
  assumes "list_all (own t) hs" "wi_v2 w = Some (Some (conn, t))"
  shows "wi_frames (fold (happen E) hs w) = wi_frames w @ map (\<lambda>h. (conn, frame_of h)) hs \<and> wi_sink (fold (happen E) hs w) = wi_sink w"
  using assms
proof (induction hs arbitrary: w)
  case (Cons h hs)
  obtain body seq fin where h: "h = Chunk2 t body seq fin" using Cons.prems(1) by (cases h) auto
  let ?w = "happen E h w"
  have w: "wi_frames ?w = wi_frames w @ [(conn, frame_of h)]" "wi_sink ?w = wi_sink w" "wi_v2 ?w = Some (Some (conn, t))"
    using Cons.prems(2) by (simp_all add: h through_def sink2_def)
  show ?case using Cons.IH[OF _ w(3)] Cons.prems(1) w(1,2) by simp
qed simp

lemma closing_frame [simp]: "closing (conn, frame t body seq fin) = fin"
  by (simp add: closing_def frame_def py_simps)

definition after_run :: "'s ws_env \<Rightarrow> string \<Rightarrow> packet \<Rightarrow> happening list \<Rightarrow> 's \<Rightarrow> 's wire \<Rightarrow> 's wire" where
  "after_run E conn t hs s w = restore_sinks (wi_sink w)
     (fold (happen E) hs (w\<lparr>wi_sink := Some (conn, t), wi_v2 := Some (Some (conn, t)), wi_ext := s\<rparr>))"

lemma execute_run:
  assumes "we_run E t (wi_ext w) = (hs, Inr r, s)" "list_all (own t) hs"
  shows "execute E conn t w = finish_exec E (conn, t) r (after_run E conn t hs s w)"
    "wi_frames (after_run E conn t hs s w) = wi_frames w @ map (\<lambda>h. (conn, frame_of h)) hs"
    "wi_sink (after_run E conn t hs s w) = wi_sink w" "wi_v2 (after_run E conn t hs s w) = Some (wi_sink w)"
  using happen_own[OF assms(2), of "w\<lparr>wi_sink := Some (conn, t), wi_v2 := Some (Some (conn, t)), wi_ext := s\<rparr>" conn E]
  by (simp_all add: assms(1) after_run_def execute_def begin_exec_def restore_sinks_def Let_def)

definition tail_frames :: "string \<Rightarrow> packet \<Rightarrow> result \<Rightarrow> (string \<times> dict) list" where
  "tail_frames conn t r = (if truthy (dget (r_metadata r) ''final_chunk'') then [] else [(conn, frame t (result_dict r) 0 True)])"

lemma finish_frames:
  "wi_frames (snd (finish_exec E (conn, t) r w)) = wi_frames w @ tail_frames conn t r \<and>
   wi_sink (snd (finish_exec E (conn, t) r w)) = wi_sink w \<and> wi_v2 (snd (finish_exec E (conn, t) r w)) = wi_v2 w"
proof (cases "report_chunk E t (result_dict r) 0 True (push_frame conn (frame t (result_dict r) 0 True) w)")
  case (Pair out w1)
  have "wi_frames w1 = wi_frames w @ [(conn, frame t (result_dict r) 0 True)] \<and> wi_sink w1 = wi_sink w \<and> wi_v2 w1 = wi_v2 w"
    using report_sel[of E t "result_dict r" 0 True "push_frame conn (frame t (result_dict r) 0 True) w"] by (simp add: Pair)
  then show ?thesis by (simp add: finish_exec_def Pair tail_frames_def split: sum.splits)
qed

lemma finish_result: "finish_exec E snk r w = (Inr r', w') \<Longrightarrow> r' = r"
  by (auto simp: finish_exec_def split: if_splits prod.splits sum.splits)

text \<open>A task that comes over the socket while no other one does gets its own stream back on its own connection: every chunk in
  order under the task's id, then, unless the executor closed the stream itself, one final frame with the result. The sinks
  are afterwards what they were.\<close>

theorem socket_gets_stream:
  assumes "we_run E t (wi_ext w) = (hs, Inr r, s)" "list_all (own t) hs" "execute E conn t w = (Inr r', w')"
  shows "wi_frames w' = wi_frames w @ map (\<lambda>h. (conn, frame_of h)) hs @ tail_frames conn t r \<and>
    r' = r \<and> wi_sink w' = wi_sink w \<and> wi_v2 w' = Some (wi_sink w)"
  using execute_run[OF assms(1,2), of conn] finish_frames[of E conn t r] finish_result assms(3) by (metis append_assoc snd_conv)

subsection \<open>Every message is answered\<close>

definition well_run :: "'s ws_env \<Rightarrow> bool" where
  "well_run E = (\<forall>t s. \<exists>hs r s'. we_run E t s = (hs, Inr r, s') \<and> list_all (own t) hs \<and> closed_once hs r)"

definition reports_all :: "'s ws_env \<Rightarrow> bool" where
  "reports_all E = (case we_report E of None \<Rightarrow> True | Some f \<Rightarrow> (\<forall>t body seq fin s. fst (f t body seq fin s) = Inr ()))"

lemma closing_error: "closing (conn, [(''ok'', PBool False), (''error'', m)])"
  by (simp add: closing_def has_key_def)

lemma own_frames: "list_all (own t) hs \<Longrightarrow> h \<in> set hs \<Longrightarrow> closing (conn, frame_of h) = fin_of h"
  by (cases h) (auto simp: list_all_iff)

lemma answered_stream:
  assumes "list_all (own t) hs" "closed_once hs r"
  shows "answered conn (map (\<lambda>h. (conn, frame_of h)) hs @ tail_frames conn t r)"
proof (cases "truthy (dget (r_metadata r) ''final_chunk'')")
  case True
  then have c: "hs \<noteq> []" "fin_of (last hs)" "list_all (\<lambda>h. \<not> fin_of h) (butlast hs)" using assms(2) by (simp_all add: closed_once_def)
  have "closing (conn, frame_of (last hs))" using own_frames[OF assms(1) last_in_set[OF c(1)]] c(2) by blast
  moreover have "list_all (\<lambda>h. \<not> closing (conn, frame_of h)) (butlast hs)"
    using c(3) own_frames[OF assms(1)] by (auto simp: list_all_iff dest: in_set_butlastD)
  ultimately show ?thesis using True c(1)
    by (simp add: answered_def tail_frames_def last_map map_butlast[symmetric] list_all_iff)
next
  case False
  then have "list_all (\<lambda>h. \<not> closing (conn, frame_of h)) hs"
    using assms own_frames[OF assms(1)] by (auto simp: closed_once_def list_all_iff)
  then show ?thesis using False by (simp add: answered_def tail_frames_def list_all_iff butlast_append)
qed

lemma finish_reports:
  assumes "reports_all E"
  shows "\<exists>w'. finish_exec E snk r w = (Inr r, w')"
proof -
  have "fst (report_chunk E t body seq fin v) = Inr ()" for t body seq fin and v :: "'a wire"
    using assms by (auto simp: reports_all_def report_chunk_def split: option.splits prod.splits) (metis fst_conv)
  then show ?thesis
    by (auto simp: finish_exec_def split: prod.splits sum.splits) (metis fst_conv sum.simps(4))+
qed

lemma run_one_answers:
  assumes "well_run E" "reports_all E"
  shows "\<exists>b w'. run_one E c m w = (Inr (), w') \<and> wi_frames w' = wi_frames w @ b \<and> answered (cn_name c) b"
proof (cases "read_message E m (wi_ext w)")
  case (Inl e)
  then show ?thesis using closing_error[of "cn_name c" "PStr (''bad packet: '' @ e)"]
    by (simp add: run_one_def answered_def)
next
  case (Inr t)
  let ?w = "count (task_observed (we_now E) (t_id (pk_task t))) w"
  obtain hs r s where run: "we_run E t (wi_ext ?w) = (hs, Inr r, s)" "list_all (own t) hs" "closed_once hs r"
    using assms(1) unfolding well_run_def by blast
  obtain w' where w': "execute E (cn_name c) t ?w = (Inr r, w')"
    using execute_run(1)[OF run(1,2)] finish_reports[OF assms(2)] by metis
  have "wi_frames w' = wi_frames ?w @ map (\<lambda>h. (cn_name c, frame_of h)) hs @ tail_frames (cn_name c) t r"
    using execute_run[OF run(1,2), of "cn_name c"] finish_frames[of E "cn_name c" t r] w' by (metis append_assoc snd_conv)
  then show ?thesis using answered_stream[OF run(2,3), of "cn_name c"] Inr w' by (simp add: run_one_def)
qed

lemma run_all_answers:
  assumes "well_run E" "reports_all E"
  shows "\<exists>bs w'. run_all E c ms w = (Inr (), w') \<and> length bs = length ms \<and> wi_frames w' = wi_frames w @ concat bs \<and> list_all (answered (cn_name c)) bs"
proof (induction ms arbitrary: w)
  case (Cons m ms)
  obtain b w1 where 1: "run_one E c m w = (Inr (), w1)" "wi_frames w1 = wi_frames w @ b" "answered (cn_name c) b"
    using run_one_answers[OF assms] by blast
  obtain bs w2 where 2: "run_all E c ms w1 = (Inr (), w2)" "length bs = length ms" "wi_frames w2 = wi_frames w1 @ concat bs" "list_all (answered (cn_name c)) bs"
    using Cons.IH by blast
  show ?case by (rule exI[of _ "b # bs"], rule exI[of _ w2]) (simp add: 1 2)
qed (simp add: exI[of _ "[]"])


subsection \<open>Starting\<close>

text \<open>A bridge that starts guards itself with the token that the configuration then holds, which is never empty, and it starts
  only when it is switched on.\<close>

theorem started_bridge_guarded:
  assumes "start_ws_bridge listens fresh file c = (Some b, c', file')" "fresh \<noteq> []"
  shows "ws_enabled (rt_ws c) \<and> wb_token b \<noteq> [] \<and> ws_token (rt_ws c') = Some (wb_token b)"
  using assms by (auto simp: start_ws_bridge_def new_bridge_def ensure_ws_token_def Let_def
      split: if_splits prod.splits option.splits sum.splits)

subsection \<open>Overlapping tasks\<close>

text \<open>Two tasks on two connections: \<open>a\<close> begins, \<open>b\<close> begins, a chunk of \<open>a\<close> arrives. It goes to the other connection, under
  the other task's id. When both are through, the executor still holds the sink of \<open>a\<close>.\<close>

lemma overlap_crosses_streams:
  assumes "begin_exec (conn_a, a) w = (prev_a, w1)" "begin_exec (conn_b, b) w1 = (prev_b, w2)" "we_report E = None"
  shows "wi_frames (happen E (Chunk2 a body seq fin) w2) = wi_frames w @ [(conn_b, frame b body seq fin)]"
    "wi_sink (restore_sinks prev_b (restore_sinks prev_a w2)) = Some (conn_a, a)"
  using assms by (auto simp: begin_exec_def through_def sink2_def report_chunk_def restore_sinks_def push_frame_def)

text \<open>A third generation built during a task keeps that task's sink: whatever it streams later, for whatever task, goes to that
  connection under that id. Built before, it has no sink, and its streams reach no connection at all.\<close>

lemma third_generation_keeps_sink:
  assumes "wi_v3 w = Some (Some (conn_a, a))" "we_report E = None" "begin_exec (conn_b, b) w = (prev, w1)"
  shows "wi_frames (happen E (Chunk3 b body seq fin) w1) = wi_frames w @ [(conn_a, frame a body seq fin)]"
  using assms by (auto simp: begin_exec_def through_def sink3_def report_chunk_def push_frame_def)

lemma third_generation_unheard:
  assumes "wi_v3 w = Some None" "begin_exec (conn_b, b) w = (prev, w1)"
  shows "wi_frames (happen E (Chunk3 b body seq fin) w1) = wi_frames w"
  using assms by (auto simp: begin_exec_def through_def sink3_def)

text \<open>The reporter \<open>main\<close> hands to the bridge is the first one, which has no \<open>send_chunk\<close>: after its final frame a task that
  streamed nothing ends the connection with an exception.\<close>

definition first_reporter :: "packet \<Rightarrow> dict \<Rightarrow> int \<Rightarrow> bool \<Rightarrow> 's \<Rightarrow> (exn + unit) \<times> 's" where
  "first_reporter t body seq fin s = (Inl (''AttributeError'', quoted ''Reporter'' @ '' object has no attribute '' @ quoted ''send_chunk''), s)"

lemma first_reporter_drops_connection:
  assumes "we_report E = Some first_reporter" "read_message E m (wi_ext w) = Inr t" "we_run E t (wi_ext w) = ([], Inr r, s)"
    "\<not> truthy (dget (r_metadata r) ''final_chunk'')"
  shows "\<exists>e w'. run_all E c (m # ms) w = (Inl e, w') \<and> wi_frames w' = wi_frames w @ [(cn_name c, frame t (result_dict r) 0 True)]"
  using assms by (auto simp: run_one_def execute_def begin_exec_def restore_sinks_def finish_exec_def report_chunk_def first_reporter_def
      push_frame_def)

text \<open>A credential outside ASCII raises instead of being refused.\<close>

lemma foreign_credential_raises: "token_matches (Some [CHR 0xE9]) ''abc'' = Inl (''TypeError'', ''comparing strings with non-ASCII characters is not supported'')"
  by code_simp

subsection \<open>A run\<close>

definition demo_token :: headers where
  "demo_token h = (if h = ''Authorization'' then Some ''Bearer abc'' else None)"

definition demo_conn :: connection where
  "demo_conn = \<lparr>cn_name = ''c'', cn_request = Some \<lparr>wq_headers = Some demo_token, wq_path = Some ''/tasks/?x''\<rparr>, cn_headers = None, cn_path = None\<rparr>"

definition demo_ws :: "nat ws_env" where
  "demo_ws = \<lparr>we_token = ''abc'',
     we_run = (\<lambda>t n. ([Chunk2 t [] 0 False, Chunk2 t [] 1 True],
       Inr ((mk_result (t_id (pk_task t)) True ''auto'')\<lparr>r_metadata := [(''final_chunk'', PBool True)]\<rparr>), Suc n)),
     we_report = None, we_json_msg = (\<lambda>x. x), we_packet_msg = (\<lambda>_. []), we_hex = (\<lambda>_. ''0''), we_now = 0\<rparr>"

definition demo_wire :: "nat wire" where
  "demo_wire = \<lparr>wi_sink = None, wi_v2 = None, wi_v3 = None, wi_frames = [], wi_closed = [], wi_metrics = None, wi_ext = 0\<rparr>"

definition demo_task :: packet where
  "demo_task = \<lparr>pk_task = \<lparr>t_id = ''t'', t_kind = ''shell'', t_payload = [], t_priority = PStr ''normal''\<rparr>, pk_source = None, pk_envelope = None\<rparr>"

lemma demo_well_run: "well_run demo_ws"
  by (simp add: well_run_def demo_ws_def closed_once_def dget_def)

lemma demo_authorised: "authorised demo_ws demo_conn = Inr True"
  by code_simp

lemma demo_execute:
  "execute demo_ws ''c'' demo_task demo_wire = (Inr ((mk_result ''t'' True ''auto'')\<lparr>r_metadata := [(''final_chunk'', PBool True)]\<rparr>),
     demo_wire\<lparr>wi_v2 := Some None, wi_frames := [(''c'', frame demo_task [] 0 False), (''c'', frame demo_task [] 1 True)], wi_ext := 1\<rparr>)"
  by (simp add: execute_def begin_exec_def demo_ws_def demo_wire_def demo_task_def through_def sink2_def report_chunk_def push_frame_def
      restore_sinks_def finish_exec_def dget_def)

theorem socket_gets_stream_witness:
  "wi_frames (snd (execute demo_ws ''c'' demo_task demo_wire)) = [(''c'', frame demo_task [] 0 False), (''c'', frame demo_task [] 1 True)]"
  using socket_gets_stream[OF _ _ demo_execute, of "[Chunk2 demo_task [] 0 False, Chunk2 demo_task [] 1 True]"
      "(mk_result ''t'' True ''auto'')\<lparr>r_metadata := [(''final_chunk'', PBool True)]\<rparr>" 1]
  by (simp add: demo_ws_def demo_task_def demo_wire_def tail_frames_def dget_def demo_execute[unfolded demo_ws_def demo_task_def demo_wire_def])


theorem ws_needs_token_witness: "\<exists>p. extract_token (credentials demo_conn) = Some p \<and> bearer_text p = ''abc''"
proof -
  obtain res w' where r: "handle demo_ws demo_conn [''nonsense''] demo_wire = (res, w')" by (meson surj_pair)
  have "wi_frames (snd (handle demo_ws demo_conn [''nonsense''] demo_wire)) \<noteq> []" by code_simp
  then have "wi_frames w' \<noteq> wi_frames demo_wire" unfolding r by (simp add: demo_wire_def)
  then show ?thesis using ws_needs_token[OF r] by (simp add: demo_ws_def)
qed

theorem started_bridge_guarded_witness:
  "wb_token (the (fst (start_ws_bridge (\<lambda>_. True) ''abc'' None (default_runtime ''t'' None\<lparr>rt_ws := (rt_ws (default_runtime ''t'' None))\<lparr>ws_enabled := True\<rparr>\<rparr>)))) \<noteq> []"
proof -
  let ?c = "default_runtime ''t'' None\<lparr>rt_ws := (rt_ws (default_runtime ''t'' None))\<lparr>ws_enabled := True\<rparr>\<rparr>"
  have "\<exists>b c' f. start_ws_bridge (\<lambda>_. True) ''abc'' None ?c = (Some b, c', f)"
    by (simp add: start_ws_bridge_def ensure_ws_token_def default_runtime_def new_bridge_def Let_def)
  then obtain b c' f where r: "start_ws_bridge (\<lambda>_. True) ''abc'' None ?c = (Some b, c', f)" by blast
  show ?thesis using started_bridge_guarded[OF r] by (simp add: r)
qed

end
